(* ===== verification/Prelude.thy ===== *)
theory Prelude
  imports Main "HOL-Library.Multiset" "HOL-Library.Char_ord" "HOL-Library.List_Lexorder"
begin

text \<open>
  Shared material of the development: Go's byte strings and the functions of
  \<^verbatim>\<open>strings\<close> and \<^verbatim>\<open>path/filepath\<close> the code calls (Unix flavour), wall-clock
  times and durations in nanoseconds, result types for fallible calls, and the
  list and map lemmas the components use.

  Strings are byte lists, as in Go; the order on them (List\_Lexorder over Char\_ord)
  is Go's byte-wise comparison. \<open>TrimSpace\<close> and \<open>ToLower\<close> are modelled on the ASCII
  range: the multi-byte white space and letters of Unicode are left as they are.
\<close>

named_theorems loop_simps \<open>characteristic equations of the loops\<close>
named_theorems frame_simps \<open>what an operation leaves unchanged\<close>

section \<open>Times and durations\<close>

text \<open>
  A \<open>time.Time\<close> is the number of nanoseconds since Go's zero time (1 January of the year 1),
  so \<open>IsZero\<close> is equality with 0. A \<open>time.Duration\<close> is a 64-bit count of nanoseconds;
  \<open>Sub\<close> saturates, as Go's does.
\<close>

type_synonym gotime = int
type_synonym dur = int

definition Second :: dur where "Second = 1000000000"
definition Millisecond :: dur where "Millisecond = 1000000"
definition Minute :: dur where "Minute = 60 * Second"
definition Hour :: dur where "Hour = 60 * Minute"

lemmas dur_defs = Second_def Millisecond_def Minute_def Hour_def

definition IsZero :: "gotime \<Rightarrow> bool" where
  "IsZero t \<longleftrightarrow> t = 0"

definition maxDur :: dur where "maxDur = 2 ^ 63 - 1"
definition minDur :: dur where "minDur = - (2 ^ 63)"

definition time_Sub :: "gotime \<Rightarrow> gotime \<Rightarrow> dur" where
  "time_Sub t u = max minDur (min maxDur (t - u))"

definition time_After :: "gotime \<Rightarrow> gotime \<Rightarrow> bool" where
  "time_After t u \<longleftrightarrow> t > u"

definition time_Add :: "gotime \<Rightarrow> dur \<Rightarrow> gotime" where
  "time_Add t d = t + d"

lemma time_Sub_mono: "t \<le> t' \<Longrightarrow> time_Sub t u \<le> time_Sub t' u"
  by (simp add: time_Sub_def)

lemma time_Sub_ge_iff: "minDur < d \<Longrightarrow> d \<le> maxDur \<Longrightarrow> d \<le> time_Sub t u \<longleftrightarrow> d \<le> t - u"
  by (auto simp: time_Sub_def)

lemma time_Sub_le_iff: "minDur \<le> d \<Longrightarrow> d < maxDur \<Longrightarrow> time_Sub t u \<le> d \<longleftrightarrow> t - u \<le> d"
  by (auto simp: time_Sub_def)

section \<open>Strings\<close>

definition HasPrefix :: "string \<Rightarrow> string \<Rightarrow> bool" where
  "HasPrefix s p \<longleftrightarrow> take (length p) s = p"

definition HasSuffix :: "string \<Rightarrow> string \<Rightarrow> bool" where
  "HasSuffix s p \<longleftrightarrow> length p \<le> length s \<and> drop (length s - length p) s = p"

definition TrimPrefix :: "string \<Rightarrow> string \<Rightarrow> string" where
  "TrimPrefix s p = (if HasPrefix s p then drop (length p) s else s)"

definition TrimSuffix :: "string \<Rightarrow> string \<Rightarrow> string" where
  "TrimSuffix s p = (if HasSuffix s p then take (length s - length p) s else s)"

fun str_Contains :: "string \<Rightarrow> string \<Rightarrow> bool" where
  "str_Contains [] p \<longleftrightarrow> p = []"
| "str_Contains (c # s) p \<longleftrightarrow> HasPrefix (c # s) p \<or> str_Contains s p"

definition is_space :: "char \<Rightarrow> bool" where
  "is_space c \<longleftrightarrow> c \<in> {CHR 0x09, CHR 0x0A, CHR 0x0B, CHR 0x0C, CHR 0x0D, CHR '' ''}"

definition TrimSpace :: "string \<Rightarrow> string" where
  "TrimSpace s = rev (dropWhile is_space (rev (dropWhile is_space s)))"

definition in_range :: "nat \<Rightarrow> nat \<Rightarrow> char \<Rightarrow> bool" where
  "in_range lo hi c \<longleftrightarrow> lo \<le> (of_char c :: nat) \<and> (of_char c :: nat) \<le> hi"

definition is_digit :: "char \<Rightarrow> bool" where "is_digit = in_range 48 57"
definition is_upper :: "char \<Rightarrow> bool" where "is_upper = in_range 65 90"
definition is_lower :: "char \<Rightarrow> bool" where "is_lower = in_range 97 122"

definition lower_char :: "char \<Rightarrow> char" where
  "lower_char c = (if is_upper c then char_of ((of_char c :: nat) + 32) else c)"

definition ToLower :: "string \<Rightarrow> string" where
  "ToLower s = map lower_char s"

text \<open>\<open>strings.Split\<close> on one byte: always at least one piece.\<close>

fun str_Split :: "char \<Rightarrow> string \<Rightarrow> string list" where
  "str_Split sep [] = [[]]"
| "str_Split sep (c # s) =
     (if c = sep then [] # str_Split sep s
      else (case str_Split sep s of [] \<Rightarrow> [[c]] | p # ps \<Rightarrow> (c # p) # ps))"

fun str_Join :: "string list \<Rightarrow> string \<Rightarrow> string" where
  "str_Join [] sep = []"
| "str_Join [x] sep = x"
| "str_Join (x # y # ys) sep = x @ sep @ str_Join (y # ys) sep"

text \<open>\<open>strings.IndexByte\<close> and \<open>strings.LastIndex\<close> of one byte: None for -1.\<close>

fun IndexByte :: "string \<Rightarrow> char \<Rightarrow> nat option" where
  "IndexByte [] c = None"
| "IndexByte (x # s) c = (if x = c then Some 0 else map_option Suc (IndexByte s c))"

definition LastIndexByte :: "string \<Rightarrow> char \<Rightarrow> nat option" where
  "LastIndexByte s c = map_option (\<lambda>i. length s - 1 - i) (IndexByte (rev s) c)"

text \<open>\<open>strings.Cut\<close> at the first occurrence of a byte.\<close>

definition str_Cut :: "string \<Rightarrow> char \<Rightarrow> string \<times> string \<times> bool" where
  "str_Cut s c = (case IndexByte s c of
      None \<Rightarrow> (s, [], False)
    | Some i \<Rightarrow> (take i s, drop (Suc i) s, True))"

definition newline :: char where "newline = CHR 0x0A"
definition nl :: string where "nl = [CHR 0x0A]"

fun nat_digits :: "nat \<Rightarrow> string" where
  "nat_digits n = (if n < 10 then [char_of (48 + n)]
                   else nat_digits (n div 10) @ [char_of (48 + n mod 10)])"

declare nat_digits.simps [simp del]

lemma HasPrefix_append [simp]: "HasPrefix (p @ s) p"
  by (simp add: HasPrefix_def)

lemma HasPrefix_iff: "HasPrefix s p \<longleftrightarrow> (\<exists>t. s = p @ t)"
proof
  assume "HasPrefix s p"
  then have "s = p @ drop (length p) s"
    unfolding HasPrefix_def by (metis append_take_drop_id)
  then show "\<exists>t. s = p @ t" ..
qed auto

lemma HasSuffix_append [simp]: "HasSuffix (s @ p) p"
  by (simp add: HasSuffix_def)

lemma HasSuffix_iff: "HasSuffix s p \<longleftrightarrow> (\<exists>t. s = t @ p)"
proof
  assume "HasSuffix s p"
  then have "s = take (length s - length p) s @ p"
    unfolding HasSuffix_def by (metis append_take_drop_id)
  then show "\<exists>t. s = t @ p" ..
qed auto

lemma TrimSuffix_append [simp]: "TrimSuffix (s @ p) p = s"
  by (simp add: TrimSuffix_def)

lemma TrimSuffix_id: "\<not> HasSuffix s p \<Longrightarrow> TrimSuffix s p = s"
  by (simp add: TrimSuffix_def)

lemma TrimPrefix_append [simp]: "TrimPrefix (p @ s) p = s"
  by (simp add: TrimPrefix_def)

lemma TrimPrefix_id: "\<not> HasPrefix s p \<Longrightarrow> TrimPrefix s p = s"
  by (simp add: TrimPrefix_def)

lemma str_Contains_iff: "str_Contains s p \<longleftrightarrow> (\<exists>a b. s = a @ p @ b)"
proof (induction s)
  case (Cons c s)
  show ?case
  proof
    assume "str_Contains (c # s) p"
    then consider "HasPrefix (c # s) p" | "str_Contains s p" by auto
    then show "\<exists>a b. c # s = a @ p @ b"
    proof cases
      case 1
      then show ?thesis unfolding HasPrefix_iff by (metis append_Nil)
    next
      case 2
      then show ?thesis using Cons.IH by (metis append_Cons)
    qed
  next
    assume "\<exists>a b. c # s = a @ p @ b"
    then obtain a b where e: "c # s = a @ p @ b" by blast
    show "str_Contains (c # s) p"
    proof (cases a)
      case Nil
      then have "HasPrefix (c # s) p" using e by (auto simp: HasPrefix_iff)
      then show ?thesis by simp
    next
      case (Cons x a')
      then have "s = a' @ p @ b" using e by simp
      then show ?thesis using Cons.IH by auto
    qed
  qed
qed auto

lemma TrimSpace_idem [simp]: "TrimSpace (TrimSpace s) = TrimSpace s"
proof -
  have dw: "dropWhile P (dropWhile P xs) = dropWhile P xs" for P :: "char \<Rightarrow> bool" and xs
    by (induction xs) auto
  have front: "dropWhile P (rev (dropWhile P (rev ys))) = rev (dropWhile P (rev ys))"
    if "dropWhile P ys = ys" for P :: "char \<Rightarrow> bool" and ys
  proof (cases "rev (dropWhile P (rev ys))")
    case Nil
    then show ?thesis by (simp only: dropWhile.simps)
  next
    case (Cons c zs)
    have "ys = rev (dropWhile P (rev ys)) @ rev (takeWhile P (rev ys))"
      by (metis rev_append rev_rev_ident takeWhile_dropWhile_id)
    then have "ys = c # zs @ rev (takeWhile P (rev ys))" using Cons by simp
    then have "\<not> P c" using that by (metis dropWhile.simps(2) dropWhile_eq_self_iff list.sel(1) list.distinct(1))
    then show ?thesis using Cons by simp
  qed
  show ?thesis
    unfolding TrimSpace_def by (simp add: front dw)
qed

lemma set_TrimSpace: "set (TrimSpace s) \<subseteq> set s"
  unfolding TrimSpace_def set_rev using set_dropWhileD by (metis set_rev subsetI)

lemma str_Split_neq_Nil [simp]: "str_Split sep s \<noteq> []"
  by (induction s) (auto split: list.splits)

lemma str_Join_Split: "str_Join (str_Split sep s) [sep] = s"
proof (induction s)
  case (Cons c s)
  show ?case
  proof (cases "str_Split sep s")
    case Nil
    then show ?thesis by simp
  next
    case (Cons p ps)
    then show ?thesis using Cons.IH by (cases ps) auto
  qed
qed simp

lemma str_Split_free: "x \<in> set (str_Split sep s) \<Longrightarrow> sep \<notin> set x"
proof (induction s arbitrary: x)
  case (Cons c s)
  then show ?case by (cases "str_Split sep s") (auto split: if_splits)
qed simp

lemma IndexByte_None: "IndexByte s c = None \<longleftrightarrow> c \<notin> set s"
  by (induction s) auto

lemma IndexByte_append_Cons: "c \<notin> set a \<Longrightarrow> IndexByte (a @ c # b) c = Some (length a)"
  by (induction a) auto

lemma LastIndexByte_None: "LastIndexByte s c = None \<longleftrightarrow> c \<notin> set s"
  by (simp add: LastIndexByte_def IndexByte_None)

lemma LastIndexByte_append_Cons: "c \<notin> set b \<Longrightarrow> LastIndexByte (a @ c # b) c = Some (length a)"
proof -
  assume "c \<notin> set b"
  then have "IndexByte (rev (a @ c # b)) c = Some (length b)"
    using IndexByte_append_Cons[of c "rev b" "rev a"] by simp
  then show ?thesis by (simp add: LastIndexByte_def)
qed

lemma str_Cut_append: "c \<notin> set a \<Longrightarrow> str_Cut (a @ c # b) c = (a, b, True)"
  by (simp add: str_Cut_def IndexByte_append_Cons)

lemma str_Cut_none: "c \<notin> set s \<Longrightarrow> str_Cut s c = (s, [], False)"
  using IndexByte_None[of s c] by (simp add: str_Cut_def)

section \<open>Paths (path/filepath on Unix)\<close>

definition slash :: char where "slash = CHR 0x2F"

definition IsAbs :: "string \<Rightarrow> bool" where
  "IsAbs p \<longleftrightarrow> HasPrefix p ''/''"

text \<open>
  \<open>filepath.Clean\<close>: the components are pushed on a stack; empty ones and \<open>.\<close> are dropped,
  \<open>..\<close> pops, except that it is dropped at the root of an absolute path and kept at the front of
  a relative one.
\<close>

fun clean_stack :: "bool \<Rightarrow> string list \<Rightarrow> string list \<Rightarrow> string list" where
  "clean_stack rooted st [] = rev st"
| "clean_stack rooted st (c # cs) =
     (if c = [] \<or> c = ''.'' then clean_stack rooted st cs
      else if c = ''..'' then
        (case st of
           [] \<Rightarrow> if rooted then clean_stack rooted [] cs else clean_stack rooted [''..''] cs
         | t # ts \<Rightarrow> if t = ''..'' then clean_stack rooted (''..'' # st) cs
                    else clean_stack rooted ts cs)
      else clean_stack rooted (c # st) cs)"

definition path_Clean :: "string \<Rightarrow> string" where
  "path_Clean p =
     (if p = [] then ''.''
      else let rooted = IsAbs p;
               body = str_Join (clean_stack rooted [] (str_Split slash p)) ''/''
           in if rooted then ''/'' @ body else if body = [] then ''.'' else body)"

text \<open>\<open>filepath.Join\<close> of two elements: empty elements are skipped, the rest cleaned.\<close>

definition path_Join :: "string \<Rightarrow> string \<Rightarrow> string" where
  "path_Join a b =
     (if a = [] then (if b = [] then [] else path_Clean b)
      else if b = [] then path_Clean a
      else path_Clean (a @ ''/'' @ b))"

text \<open>\<open>filepath.Base\<close>: the last element after trailing slashes are dropped.\<close>

definition path_Base :: "string \<Rightarrow> string" where
  "path_Base p =
     (if p = [] then ''.''
      else let q = rev (dropWhile (\<lambda>c. c = slash) (rev p))
           in if q = [] then ''/'' else last (str_Split slash q))"

text \<open>\<open>filepath.Dir\<close>: everything up to the last slash, cleaned.\<close>

definition path_Dir :: "string \<Rightarrow> string" where
  "path_Dir p = path_Clean (rev (dropWhile (\<lambda>c. c \<noteq> slash) (rev p)))"

section \<open>First occurrence wins\<close>

text \<open>
  The loop behind every merge of the code: walk the list with a set of seen keys, skip an
  element that is not acceptable or whose key was seen, keep the others.
\<close>

fun keep_first :: "('a \<Rightarrow> 'k) \<Rightarrow> ('a \<Rightarrow> bool) \<Rightarrow> 'k set \<Rightarrow> 'a list \<Rightarrow> 'a list" where
  "keep_first key ok seen [] = []"
| "keep_first key ok seen (x # xs) =
     (if \<not> ok x \<or> key x \<in> seen then keep_first key ok seen xs
      else x # keep_first key ok (insert (key x) seen) xs)"

lemma keep_first_append:
  "keep_first key ok seen (xs @ ys) =
   keep_first key ok seen xs @ keep_first key ok (seen \<union> key ` {x \<in> set xs. ok x}) ys"
proof (induction xs arbitrary: seen)
  case (Cons x xs)
  have eq: "insert (key x) seen \<union> key ` {y \<in> set xs. ok y} = seen \<union> key ` {y \<in> set (x # xs). ok y}"
    if "ok x" using that by auto
  have eq': "seen \<union> key ` {y \<in> set xs. ok y} = seen \<union> key ` {y \<in> set (x # xs). ok y}"
    if "\<not> ok x \<or> key x \<in> seen" using that by auto
  show ?case using Cons.IH eq eq' by (cases "\<not> ok x \<or> key x \<in> seen") (simp_all add: Cons.IH)
qed simp

lemma set_keep_first: "set (keep_first key ok seen xs) \<subseteq> {x \<in> set xs. ok x \<and> key x \<notin> seen}"
proof (induction xs arbitrary: seen)
  case (Cons x xs)
  show ?case using Cons.IH[of seen] Cons.IH[of "insert (key x) seen"] by auto
qed simp

lemma keep_first_keys:
  "key ` set (keep_first key ok seen xs) = key ` {x \<in> set xs. ok x} - seen"
proof (induction xs arbitrary: seen)
  case (Cons x xs)
  have split: "key ` {y \<in> set (x # xs). ok y} =
      (if ok x then insert (key x) (key ` {y \<in> set xs. ok y}) else key ` {y \<in> set xs. ok y})"
    by auto
  show ?case
  proof (cases "\<not> ok x \<or> key x \<in> seen")
    case True
    then show ?thesis unfolding split using Cons.IH[of seen] by auto
  next
    case False
    then show ?thesis unfolding split using Cons.IH[of "insert (key x) seen"] by auto
  qed
qed simp

lemma distinct_keep_first: "distinct (map key (keep_first key ok seen xs))"
proof (induction xs arbitrary: seen)
  case (Cons x xs)
  have "key x \<notin> key ` set (keep_first key ok (insert (key x) seen) xs)"
    by (simp add: keep_first_keys)
  then show ?case using Cons.IH by simp
qed simp

lemma keep_first_id:
  "(\<And>x. x \<in> set xs \<Longrightarrow> ok x \<and> key x \<notin> seen) \<Longrightarrow> distinct (map key xs) \<Longrightarrow> keep_first key ok seen xs = xs"
proof (induction xs arbitrary: seen)
  case (Cons x xs)
  have "keep_first key ok (insert (key x) seen) xs = xs"
  proof (rule Cons.IH)
    fix y assume y: "y \<in> set xs"
    have "key x \<notin> key ` set xs" using Cons.prems(2) by simp
    then have "key y \<noteq> key x" using y by (metis imageI)
    then show "ok y \<and> key y \<notin> insert (key x) seen" using Cons.prems(1)[of y] y by simp
  next
    show "distinct (map key xs)" using Cons.prems by simp
  qed
  then show ?case using Cons.prems(1)[of x] by simp
qed simp

lemma keep_first_Nil:
  "(\<And>x. x \<in> set xs \<Longrightarrow> \<not> ok x \<or> key x \<in> seen) \<Longrightarrow> keep_first key ok seen xs = []"
  by (induction xs) auto

lemma keep_first_filter:
  "(\<And>x. x \<in> set xs \<Longrightarrow> \<not> P x \<Longrightarrow> \<not> ok x \<or> key x \<in> seen) \<Longrightarrow>
   keep_first key ok seen (filter P xs) = keep_first key ok seen xs"
proof (induction xs arbitrary: seen)
  case (Cons x xs)
  have "keep_first key ok s (filter P xs) = keep_first key ok s xs" if "seen \<subseteq> s" for s
    using that Cons.prems by (intro Cons.IH) fastforce
  then show ?case using Cons.prems[of x] by auto
qed simp

lemma keep_first_idem:
  "keep_first key ok {} (keep_first key ok {} xs) = keep_first key ok {} xs"
  by (rule keep_first_id) (use set_keep_first[of key ok "{}" xs] distinct_keep_first in auto)

text \<open>
  The contract every such merge offers its callers. \<open>merge\<close> combines a preferred and a
  secondary list; \<open>ident\<close> is the identity that duplicates are detected by.
\<close>

locale roster_merge =
  fixes merge :: "'a list \<Rightarrow> 'a list \<Rightarrow> 'a list"
    and ident :: "'a \<Rightarrow> 'k"
    and valid :: "'a \<Rightarrow> bool"
  assumes merge_members: "set (merge xs ys) \<subseteq> {x \<in> set xs \<union> set ys. valid x}"
    and merge_distinct: "distinct (map ident (merge xs ys))"
    and merge_covers: "ident ` set (merge xs ys) = ident ` {x \<in> set xs \<union> set ys. valid x}"
    and merge_prefers: "z \<in> set (merge xs ys) \<Longrightarrow> z \<notin> set xs \<Longrightarrow> ident z \<notin> ident ` {x \<in> set xs. valid x}"
    and merge_absorb: "merge (merge xs ys) ys = merge xs ys"
begin

lemma merge_unique:
  "a \<in> set (merge xs ys) \<Longrightarrow> b \<in> set (merge xs ys) \<Longrightarrow> ident a = ident b \<Longrightarrow> a = b"
  using merge_distinct[of xs ys] by (auto simp: distinct_map dest: inj_onD)

lemma merge_represented:
  assumes "x \<in> set xs \<union> set ys" and "valid x"
  shows "\<exists>!z. z \<in> set (merge xs ys) \<and> ident z = ident x"
proof -
  have "ident x \<in> ident ` set (merge xs ys)"
    using assms by (subst merge_covers) blast
  then obtain z where "z \<in> set (merge xs ys)" "ident z = ident x" by auto
  then show ?thesis using merge_unique by metis
qed

lemma merge_preferred_wins:
  assumes "x \<in> set xs" "valid x" "z \<in> set (merge xs ys)" "ident z = ident x"
  shows "z \<in> set xs"
proof (rule ccontr)
  assume "z \<notin> set xs"
  then have "ident z \<notin> ident ` {x \<in> set xs. valid x}" using assms(3) merge_prefers by blast
  then show False using assms by auto
qed

end

lemma roster_merge_keep_first:
  "roster_merge (\<lambda>xs ys. keep_first key ok {} (xs @ ys)) key ok"
proof (unfold_locales, goal_cases)
  case (1 xs ys)
  show ?case using set_keep_first[of key ok "{}" "xs @ ys"] by auto
next
  case (2 xs ys)
  show ?case by (rule distinct_keep_first)
next
  case (3 xs ys)
  show ?case by (simp add: keep_first_keys)
next
  case (4 z xs ys)
  then have "z \<in> set (keep_first key ok (key ` {x \<in> set xs. ok x}) ys)"
    using set_keep_first[of key ok "{}" xs] by (auto simp: keep_first_append)
  then show ?case using set_keep_first by fastforce
next
  case (5 xs ys)
  have id: "keep_first key ok {} (keep_first key ok {} (xs @ ys)) = keep_first key ok {} (xs @ ys)"
    by (rule keep_first_idem)
  let ?m = "keep_first key ok {} (xs @ ys)"
  have "{x \<in> set ?m. ok x} = set ?m" using set_keep_first[of key ok "{}" "xs @ ys"] by auto
  then have k: "key ` {x \<in> set ?m. ok x} = key ` {x \<in> set (xs @ ys). ok x}"
    using keep_first_keys[of key ok "{}" "xs @ ys"] by simp
  have "keep_first key ok (key ` {x \<in> set ?m. ok x}) ys = []"
  proof -
    have "set (keep_first key ok (key ` {x \<in> set ?m. ok x}) ys) \<subseteq> {}"
      using set_keep_first[of key ok "key ` {x \<in> set ?m. ok x}" ys] unfolding k by fastforce
    then show ?thesis by simp
  qed
  then show ?case by (simp add: keep_first_append[of key ok "{}" ?m] id)
qed

section \<open>Sorting by a key\<close>

text \<open>
  \<open>sort.Slice\<close> and \<open>sort.Strings\<close> are modelled by the stable \<open>sort_key\<close>. Go's sort is
  not stable; where the keys are distinct there is only one sorted arrangement and the
  difference cannot be seen. The lemma below is the reason.
\<close>

lemma filter_key_le1: "distinct (map f zs) \<Longrightarrow> length (filter (\<lambda>x. k = f x) zs) \<le> 1"
proof (induction zs)
  case (Cons z zs)
  then have "k = f z \<Longrightarrow> filter (\<lambda>x. k = f x) zs = []"
    by (auto simp: filter_empty_conv)
  then show ?case using Cons by auto
qed simp

lemma mset_eq_le1: "mset us = mset vs \<Longrightarrow> length vs \<le> 1 \<Longrightarrow> us = vs"
  by (cases vs) auto

lemma sort_key_perm_eq:
  assumes ms: "mset xs = mset ys" and d: "distinct (map f xs)"
  shows "sort_key f xs = sort_key f ys"
proof (rule properties_for_sort_key)
  show "mset (sort_key f ys) = mset xs" using ms by simp
next
  fix k
  assume "k \<in> set (sort_key f ys)"
  have "mset (filter (\<lambda>x. f k = f x) (sort_key f ys)) = mset (filter (\<lambda>x. f k = f x) xs)"
    using ms by simp
  then show "filter (\<lambda>x. f k = f x) (sort_key f ys) = filter (\<lambda>x. f k = f x) xs"
    using filter_key_le1[OF d] by (rule mset_eq_le1)
next
  show "sorted (map f (sort_key f ys))" by simp
qed

end
