(* ===== verification/Gitident.thy ===== *)
theory Gitident
  imports Prelude
begin

text \<open>
  Package internal/gitident: the canonical identity of a git remote. The SCP-form regular
  expression is the matcher \<open>scpRE\<close>; \<open>net/url\<close>'s Parse is modelled on the parts the code reads
  (scheme, host, path) with its failures: control bytes, a missing scheme, bad ports, bad
  percent escapes and characters a host or user-info must not hold. The address inside a
  bracketed IP literal is not validated.
\<close>

section \<open>net/url.Parse\<close>

record url =
  u_Scheme :: string
  u_Host :: string
  u_Path :: string

definition is_alpha :: "char \<Rightarrow> bool" where "is_alpha c \<longleftrightarrow> is_upper c \<or> is_lower c"
definition is_alnum :: "char \<Rightarrow> bool" where "is_alnum c \<longleftrightarrow> is_alpha c \<or> is_digit c"

definition is_ctl :: "char \<Rightarrow> bool" where
  "is_ctl c \<longleftrightarrow> (of_char c :: nat) < 32 \<or> (of_char c :: nat) = 127"

definition is_hex :: "char \<Rightarrow> bool" where
  "is_hex c \<longleftrightarrow> is_digit c \<or> in_range 97 102 c \<or> in_range 65 70 c"

definition unhex :: "char \<Rightarrow> nat" where
  "unhex c = (if is_digit c then of_char c - 48 else if in_range 97 102 c then of_char c - 87 else of_char c - 55)"

definition host_ok :: "char \<Rightarrow> bool" where
  "host_ok c \<longleftrightarrow> is_alnum c \<or> 128 \<le> (of_char c :: nat) \<or> c \<in> set ''!$&()*+,;=:[]<>-_.~'' \<or>
     (of_char c :: nat) = 39 \<or> (of_char c :: nat) = 34"

definition userinfo_ok :: "char \<Rightarrow> bool" where
  "userinfo_ok c \<longleftrightarrow> is_alnum c \<or> c \<in> set ''-._:~!$&()*+,;=%@'' \<or> (of_char c :: nat) = 39"

fun unescape :: "bool \<Rightarrow> string \<Rightarrow> string option" where
  "unescape host [] = Some []"
| "unescape host (c # s) =
     (if c = CHR ''%'' then
        (case s of a # b # t \<Rightarrow>
           if is_hex a \<and> is_hex b \<and> (host \<longrightarrow> 8 \<le> unhex a \<or> (a = CHR ''2'' \<and> b = CHR ''5''))
           then map_option (\<lambda>r. char_of (16 * unhex a + unhex b) # r) (unescape host t)
           else None
         | _ \<Rightarrow> None)
      else if host \<and> \<not> host_ok c then None
      else map_option ((#) c) (unescape host s))"

text \<open>\<open>getScheme\<close>: None is the error of a leading colon; no scheme is the empty string.\<close>

fun getScheme_loop :: "string \<Rightarrow> string \<Rightarrow> string \<Rightarrow> (string \<times> string) option" where
  "getScheme_loop raw acc [] = Some ([], raw)"
| "getScheme_loop raw acc (c # s) =
     (if is_alpha c then getScheme_loop raw (acc @ [c]) s
      else if is_digit c \<or> c \<in> set ''+-.'' then
        (if acc = [] then Some ([], raw) else getScheme_loop raw (acc @ [c]) s)
      else if c = CHR '':'' then (if acc = [] then None else Some (acc, s))
      else Some ([], raw))"

definition getScheme :: "string \<Rightarrow> (string \<times> string) option" where
  "getScheme raw = getScheme_loop raw [] raw"

definition validOptionalPort :: "string \<Rightarrow> bool" where
  "validOptionalPort p = (case p of [] \<Rightarrow> True | c # ds \<Rightarrow> c = CHR '':'' \<and> list_all is_digit ds)"

definition parseHost :: "string \<Rightarrow> string \<Rightarrow> string option" where
  "parseHost scheme host =
    (case LastIndexByte host (CHR ''['') of
       Some i \<Rightarrow>
         (if 0 < i then None
          else (case LastIndexByte host (CHR '']'') of
                  None \<Rightarrow> None
                | Some j \<Rightarrow> if validOptionalPort (drop (Suc j) host) then unescape True host else None))
     | None \<Rightarrow>
         (case LastIndexByte host (CHR '':'') of
            None \<Rightarrow> unescape True host
          | Some i \<Rightarrow>
              (if (scheme = ''http'' \<or> scheme = ''https'') \<and> CHR '':'' \<in> set (take i host) then None
               else if validOptionalPort (drop i host) then unescape True host else None)))"

definition parseAuthority :: "string \<Rightarrow> string \<Rightarrow> string option" where
  "parseAuthority scheme authority =
    (case LastIndexByte authority (CHR ''@'') of
       None \<Rightarrow> parseHost scheme authority
     | Some i \<Rightarrow>
         (case parseHost scheme (drop (Suc i) authority) of
            None \<Rightarrow> None
          | Some h \<Rightarrow>
              let ui = take i authority in
              if list_all userinfo_ok ui \<and> unescape False ui \<noteq> None then Some h else None))"

definition url_Parse :: "string \<Rightarrow> url option" where
  "url_Parse rawURL =
    (let (u, frag, _) = str_Cut rawURL (CHR ''#'') in
     if list_ex is_ctl u then None
     else if unescape False frag = None then None
     else if u = ''*'' then Some \<lparr>u_Scheme = [], u_Host = [], u_Path = ''*''\<rparr>
     else (case getScheme u of
       None \<Rightarrow> None
     | Some (sch0, rest0) \<Rightarrow>
         let sch = ToLower sch0; rest = fst (str_Cut rest0 (CHR ''?'')) in
         if \<not> HasPrefix rest ''/'' \<and> sch \<noteq> [] then Some \<lparr>u_Scheme = sch, u_Host = [], u_Path = []\<rparr>
         else if \<not> HasPrefix rest ''/'' \<and> CHR '':'' \<in> set (fst (str_Cut rest slash)) then None
         else if (sch \<noteq> [] \<or> \<not> HasPrefix rest ''///'') \<and> HasPrefix rest ''//'' then
           (let auth0 = drop 2 rest; (authority, path) =
                  (case IndexByte auth0 slash of None \<Rightarrow> (auth0, []) | Some i \<Rightarrow> (take i auth0, drop i auth0))
            in (case parseAuthority sch authority of
                  None \<Rightarrow> None
                | Some h \<Rightarrow> map_option (\<lambda>p. \<lparr>u_Scheme = sch, u_Host = h, u_Path = p\<rparr>) (unescape False path)))
         else map_option (\<lambda>p. \<lparr>u_Scheme = sch, u_Host = [], u_Path = p\<rparr>) (unescape False rest)))"

section \<open>Canonical\<close>

datatype ident_error = ErrEmpty | ErrUnparseable

text \<open>
  The expression \<^verbatim>\<open>^(?:([^@/]+)@)?([^:/]+):(.+)$\<close>, as its host and path groups: the optional user
  is tried first, and a dot does not match a line break.
\<close>

definition scp_host_path :: "string \<Rightarrow> (string \<times> string) option" where
  "scp_host_path s =
    (let (h, p, found) = str_Cut s (CHR '':'') in
     if found \<and> h \<noteq> [] \<and> slash \<notin> set h \<and> p \<noteq> [] \<and> newline \<notin> set p then Some (h, p) else None)"

definition scpRE :: "string \<Rightarrow> (string \<times> string) option" where
  "scpRE s =
    (let (u, rest, found) = str_Cut s (CHR ''@'') in
     if found \<and> u \<noteq> [] \<and> slash \<notin> set u
     then (case scp_host_path rest of Some r \<Rightarrow> Some r | None \<Rightarrow> scp_host_path s)
     else scp_host_path s)"

definition defaultPort :: "string \<Rightarrow> string" where
  "defaultPort scheme =
    (let s = ToLower scheme in
     if s = ''ssh'' then ''22'' else if s = ''https'' then ''443''
     else if s = ''http'' then ''80'' else if s = ''git'' then ''9418'' else [])"

definition stripDefaultPort :: "string \<Rightarrow> string \<Rightarrow> string" where
  "stripDefaultPort host scheme =
    (case LastIndexByte host (CHR '':'') of
       None \<Rightarrow> host
     | Some colon \<Rightarrow> if drop (Suc colon) host = defaultPort scheme then take colon host else host)"

definition finish :: "string \<Rightarrow> string" where
  "finish s = TrimSuffix (TrimSuffix s ''.git'') ''/''"

definition canonical_url :: "string \<Rightarrow> ident_error + string" where
  "canonical_url s =
    (let work = (if str_Contains s ''://'' then s else ''https://'' @ s) in
     case url_Parse work of
       None \<Rightarrow> Inl ErrUnparseable
     | Some u \<Rightarrow>
         let host = stripDefaultPort (ToLower (u_Host u)) (u_Scheme u) in
         if host = [] then Inl ErrUnparseable
         else let path = TrimPrefix (u_Path u) ''/'' in
           if path = [] then Inl ErrUnparseable
           else Inr (finish (host @ ''/'' @ path)))"

definition Canonical :: "string \<Rightarrow> ident_error + string" where
  "Canonical raw =
    (let s = TrimSpace raw in
     if s = [] then Inl ErrEmpty
     else if \<not> str_Contains s ''://'' then
       (case scpRE s of
          Some (h, p) \<Rightarrow> Inr (finish (ToLower h @ ''/'' @ TrimPrefix p ''/''))
        | None \<Rightarrow> canonical_url s)
     else canonical_url s)"

text \<open>MustCanonical panics (None) where Canonical fails.\<close>

definition MustCanonical :: "string \<Rightarrow> string option" where
  "MustCanonical raw = (case Canonical raw of Inl _ \<Rightarrow> None | Inr c \<Rightarrow> Some c)"


section \<open>Plain remotes\<close>

text \<open>
  The spellings operators use: host and user names of letters, digits, dots, dashes and
  underscores, paths of such segments. \<open>spellings\<close> lists the forms the repository's documentation names
  for one remote: the SCP form with and without a user, the URL form of each scheme with its default
  port written or not, the bare host and path, each with and without the \<open>.git\<close> suffix.
\<close>

definition plain_char :: "char \<Rightarrow> bool" where
  "plain_char c \<longleftrightarrow> is_alnum c \<or> c \<in> set ''-._''"

definition plain_name :: "string \<Rightarrow> bool" where
  "plain_name h \<longleftrightarrow> h \<noteq> [] \<and> list_all plain_char h"

definition plain_path :: "string \<Rightarrow> bool" where
  "plain_path p \<longleftrightarrow> p \<noteq> [] \<and> hd p \<noteq> slash \<and> list_all (\<lambda>c. plain_char c \<or> c = slash) p \<and>
     \<not> HasSuffix p ''.git'' \<and> \<not> HasSuffix p ''/''"

definition plain_schemes :: "string list" where
  "plain_schemes = [''https'', ''http'', ''ssh'', ''git'']"

definition scp_spellings :: "string \<Rightarrow> string \<Rightarrow> string \<Rightarrow> string \<Rightarrow> string list" where
  "scp_spellings u h p e = [h @ '':'' @ p @ e, u @ ''@'' @ h @ '':'' @ p @ e, h @ ''/'' @ p @ e]"

definition url_spellings :: "string \<Rightarrow> string \<Rightarrow> string \<Rightarrow> string \<Rightarrow> string \<Rightarrow> string list" where
  "url_spellings u h p e sch =
    concat (map (\<lambda>ui. [sch @ ''://'' @ ui @ h @ ''/'' @ p @ e,
                       sch @ ''://'' @ ui @ h @ '':'' @ defaultPort sch @ ''/'' @ p @ e]) [[], u @ ''@''])"

definition spellings :: "string \<Rightarrow> string \<Rightarrow> string \<Rightarrow> string list" where
  "spellings u h p =
    concat (map (\<lambda>e. scp_spellings u h p e @ concat (map (url_spellings u h p e) plain_schemes)) [[], ''.git''])"

lemma plain_char_props:
  assumes "plain_char c"
  shows "c \<noteq> CHR '':''" "c \<noteq> CHR ''@''" "c \<noteq> CHR ''#''" "c \<noteq> CHR ''?''" "c \<noteq> CHR ''%''" "c \<noteq> CHR ''[''"
    "c \<noteq> slash" "c \<noteq> newline" "\<not> is_ctl c" "\<not> is_space c" "host_ok c" "userinfo_ok c"
proof -
  have no: "\<not> plain_char (CHR '':'')" "\<not> plain_char (CHR ''@'')" "\<not> plain_char (CHR ''#'')" "\<not> plain_char (CHR ''?'')"
    "\<not> plain_char (CHR ''%'')" "\<not> plain_char (CHR ''['')" "\<not> plain_char slash" "\<not> plain_char newline"
    by code_simp+
  show "c \<noteq> CHR '':''" "c \<noteq> CHR ''@''" "c \<noteq> CHR ''#''" "c \<noteq> CHR ''?''" "c \<noteq> CHR ''%''" "c \<noteq> CHR ''[''"
    "c \<noteq> slash" "c \<noteq> newline" using no assms by auto
  have dash: "\<not> is_ctl (CHR ''-'')" "\<not> is_ctl (CHR ''.'')" "\<not> is_ctl (CHR ''_'')" by code_simp+
  show "\<not> is_ctl c" using assms dash
    by (auto simp: plain_char_def is_alnum_def is_alpha_def is_digit_def is_upper_def is_lower_def in_range_def is_ctl_def)
  have sp: "(of_char d :: nat) \<le> 32" if "is_space d" for d using that by (auto simp: is_space_def)
  have pl: "33 \<le> (of_char c :: nat)" using assms
    by (auto simp: plain_char_def is_alnum_def is_alpha_def is_digit_def is_upper_def is_lower_def in_range_def)
  show "\<not> is_space c" using sp[of c] pl by linarith
  show "host_ok c" "userinfo_ok c" using assms by (auto simp: plain_char_def host_ok_def userinfo_ok_def)
qed

lemma plain_path_char_props:
  assumes "plain_char c \<or> c = slash"
  shows "c \<noteq> CHR '':''" "c \<noteq> CHR ''@''" "c \<noteq> CHR ''#''" "c \<noteq> CHR ''?''" "c \<noteq> CHR ''%''"
    "c \<noteq> newline" "\<not> is_ctl c" "\<not> is_space c"
proof -
  have no: "slash \<noteq> CHR '':''" "slash \<noteq> CHR ''@''" "slash \<noteq> CHR ''#''" "slash \<noteq> CHR ''?''" "slash \<noteq> CHR ''%''"
    "slash \<noteq> newline" "\<not> is_ctl slash" "\<not> is_space slash" by code_simp+
  then show "c \<noteq> CHR '':''" "c \<noteq> CHR ''@''" "c \<noteq> CHR ''#''" "c \<noteq> CHR ''?''" "c \<noteq> CHR ''%''"
    "c \<noteq> newline" "\<not> is_ctl c" "\<not> is_space c" using assms plain_char_props[of c] by auto
qed

lemma plain_name_free:
  assumes "plain_name h"
  shows "CHR '':'' \<notin> set h" "CHR ''@'' \<notin> set h" "CHR ''#'' \<notin> set h" "CHR ''?'' \<notin> set h" "CHR ''%'' \<notin> set h"
    "CHR ''['' \<notin> set h" "slash \<notin> set h" "newline \<notin> set h" "h \<noteq> []" "list_all host_ok h" "list_all userinfo_ok h"
    "\<forall>c\<in>set h. \<not> is_ctl c \<and> \<not> is_space c"
proof -
  have a: "plain_char c" if "c \<in> set h" for c using assms that by (auto simp: plain_name_def list_all_iff)
  show "CHR '':'' \<notin> set h" "CHR ''@'' \<notin> set h" "CHR ''#'' \<notin> set h" "CHR ''?'' \<notin> set h" "CHR ''%'' \<notin> set h"
    "CHR ''['' \<notin> set h" "slash \<notin> set h" "newline \<notin> set h"
    using a plain_char_props(1-8) by blast+
  show "h \<noteq> []" using assms by (simp add: plain_name_def)
  show "list_all host_ok h" "list_all userinfo_ok h" "\<forall>c\<in>set h. \<not> is_ctl c \<and> \<not> is_space c"
    unfolding list_all_iff using a plain_char_props(9-12) by blast+
qed

lemma plain_path_free:
  assumes "plain_path p"
  shows "CHR '':'' \<notin> set p" "CHR ''@'' \<notin> set p" "CHR ''#'' \<notin> set p" "CHR ''?'' \<notin> set p" "CHR ''%'' \<notin> set p"
    "newline \<notin> set p" "p \<noteq> []" "hd p \<noteq> slash" "\<forall>c\<in>set p. \<not> is_ctl c \<and> \<not> is_space c"
proof -
  have a: "plain_char c \<or> c = slash" if "c \<in> set p" for c using assms that by (auto simp: plain_path_def list_all_iff)
  show "CHR '':'' \<notin> set p" "CHR ''@'' \<notin> set p" "CHR ''#'' \<notin> set p" "CHR ''?'' \<notin> set p" "CHR ''%'' \<notin> set p"
    "newline \<notin> set p"
    using a plain_path_char_props(1-6) by blast+
  show "p \<noteq> []" "hd p \<noteq> slash" using assms by (simp_all add: plain_path_def)
  show "\<forall>c\<in>set p. \<not> is_ctl c \<and> \<not> is_space c" using a plain_path_char_props(7,8) by blast
qed

lemma TrimSpace_no_space: "\<forall>c\<in>set s. \<not> is_space c \<Longrightarrow> TrimSpace s = s"
proof -
  assume a: "\<forall>c\<in>set s. \<not> is_space c"
  have d: "dropWhile is_space t = t" if "\<forall>c\<in>set t. \<not> is_space c" for t
    using that by (cases t) auto
  show ?thesis unfolding TrimSpace_def using a by (simp add: d)
qed

lemma HasSuffix_over_slash:
  assumes "slash \<notin> set x"
  shows "HasSuffix (h @ slash # p) x \<longleftrightarrow> HasSuffix p x"
proof
  assume "HasSuffix (h @ slash # p) x"
  then obtain t where t: "h @ slash # p = t @ x" unfolding HasSuffix_iff by blast
  then consider us where "t = h @ us" "us @ x = slash # p" | us where "h = t @ us" "us @ slash # p = x"
    unfolding append_eq_append_conv2 by auto
  then show "HasSuffix p x"
  proof cases
    case 1
    then show ?thesis using assms by (cases us) (auto simp: HasSuffix_iff)
  next
    case 2
    then show ?thesis using assms by auto
  qed
next
  assume "HasSuffix p x"
  then show "HasSuffix (h @ slash # p) x" by (auto simp: HasSuffix_iff)
qed

lemma finish_plain:
  assumes "plain_path p" "e \<in> {[], ''.git''}"
  shows "finish (h @ slash # p @ e) = h @ slash # p"
proof -
  have g: "slash \<notin> set ''.git''" by code_simp
  have 1: "TrimSuffix (h @ slash # p @ e) ''.git'' = h @ slash # p"
  proof (cases "e = []")
    case True
    then show ?thesis using HasSuffix_over_slash[OF g] assms(1) by (simp add: TrimSuffix_id plain_path_def)
  next
    case False
    then have "h @ slash # p @ e = (h @ slash # p) @ ''.git''" using assms(2) by simp
    then show ?thesis by (simp only: TrimSuffix_append)
  qed
  have "\<not> HasSuffix (h @ slash # p) ''/''"
  proof
    assume "HasSuffix (h @ slash # p) ''/''"
    then obtain t where "h @ slash # p = t @ [CHR ''/'']" unfolding HasSuffix_iff by blast
    then have "last p = CHR ''/''" using plain_path_free(7)[OF assms(1)] by (metis last_ConsR last_appendR last_snoc list.distinct(1))
    then have "p = butlast p @ ''/''" using plain_path_free(7)[OF assms(1)] by (metis append_butlast_last_id)
    then show False using assms(1) unfolding plain_path_def by (metis HasSuffix_append)
  qed
  then show ?thesis unfolding finish_def by (simp add: 1 TrimSuffix_id)
qed


lemma unescape_id: "CHR ''%'' \<notin> set s \<Longrightarrow> (host \<Longrightarrow> list_all host_ok s) \<Longrightarrow> unescape host s = Some s"
  by (induction s) auto

lemma getScheme_loop_alpha:
  "list_all is_alpha a \<Longrightarrow> acc @ a \<noteq> [] \<Longrightarrow>
   getScheme_loop raw acc (a @ CHR '':'' # s) = Some (acc @ a, s)"
proof (induction a arbitrary: acc)
  case Nil
  have "\<not> is_alpha (CHR '':'')" "\<not> is_digit (CHR '':'')" "CHR '':'' \<notin> set ''+-.''" by code_simp+
  then show ?case using Nil by simp
qed simp

lemma plain_schemes_props:
  assumes "sch \<in> set plain_schemes"
  shows "plain_name sch" "list_all is_alpha sch" "ToLower sch = sch" "list_all is_digit (defaultPort sch)"
    "defaultPort sch \<noteq> []" "plain_name (defaultPort sch)"
proof -
  have "list_all (\<lambda>sch. plain_name sch \<and> list_all is_alpha sch \<and> ToLower sch = sch \<and> list_all is_digit (defaultPort sch) \<and>
      defaultPort sch \<noteq> [] \<and> plain_name (defaultPort sch)) plain_schemes" by code_simp
  with assms show "plain_name sch" "list_all is_alpha sch" "ToLower sch = sch" "list_all is_digit (defaultPort sch)"
    "defaultPort sch \<noteq> []" "plain_name (defaultPort sch)" unfolding list_all_iff by blast+
qed

text \<open>\<open>port_ok\<close>: an optional \<open>:\<close> with digits.\<close>

definition port_suffix :: "string \<Rightarrow> bool" where
  "port_suffix q \<longleftrightarrow> q = [] \<or> (\<exists>ds. q = CHR '':'' # ds \<and> list_all is_digit ds)"

lemma is_digit_plain: "is_digit c \<Longrightarrow> plain_char c"
  by (simp add: plain_char_def is_alnum_def)

lemma port_suffix_free:
  assumes "port_suffix q"
  shows "CHR ''@'' \<notin> set q" "CHR ''#'' \<notin> set q" "CHR ''?'' \<notin> set q" "CHR ''%'' \<notin> set q" "CHR ''['' \<notin> set q"
    "slash \<notin> set q" "\<forall>c\<in>set q. \<not> is_ctl c \<and> \<not> is_space c" "list_all host_ok q" "validOptionalPort q"
proof -
  have c: "CHR '':'' \<noteq> CHR ''@'' \<and> CHR '':'' \<noteq> CHR ''#'' \<and> CHR '':'' \<noteq> CHR ''?'' \<and> CHR '':'' \<noteq> CHR ''%'' \<and> CHR '':'' \<noteq> CHR ''['' \<and>
    CHR '':'' \<noteq> slash \<and> \<not> is_ctl (CHR '':'') \<and> \<not> is_space (CHR '':'') \<and> host_ok (CHR '':'')" by code_simp
  have a: "c = CHR '':'' \<or> plain_char c" if "c \<in> set q" for c
    using assms that is_digit_plain by (auto simp: port_suffix_def list_all_iff)
  have *: "c \<noteq> CHR ''@'' \<and> c \<noteq> CHR ''#'' \<and> c \<noteq> CHR ''?'' \<and> c \<noteq> CHR ''%'' \<and> c \<noteq> CHR ''['' \<and> c \<noteq> slash \<and>
      \<not> is_ctl c \<and> \<not> is_space c \<and> host_ok c" if "c \<in> set q" for c
    using a[OF that]
  proof
    assume "c = CHR '':''"
    then show ?thesis using c by simp
  next
    assume "plain_char c"
    then show ?thesis by (simp add: plain_char_props)
  qed
  show "CHR ''@'' \<notin> set q" "CHR ''#'' \<notin> set q" "CHR ''?'' \<notin> set q" "CHR ''%'' \<notin> set q" "CHR ''['' \<notin> set q"
    "slash \<notin> set q" using * by blast+
  show "\<forall>c\<in>set q. \<not> is_ctl c \<and> \<not> is_space c" "list_all host_ok q" unfolding list_all_iff using * by blast+
  show "validOptionalPort q" using assms by (auto simp: port_suffix_def validOptionalPort_def)
qed

lemma parseHost_plain:
  assumes h: "plain_name h" and q: "port_suffix q"
  shows "parseHost sch (h @ q) = Some (h @ q)"
proof -
  note hf = plain_name_free[OF h] and qf = port_suffix_free[OF q]
  have b: "LastIndexByte (h @ q) (CHR ''['') = None" using hf(6) qf(5) by (simp add: LastIndexByte_None)
  have u: "unescape True (h @ q) = Some (h @ q)" using hf(5,10) qf(4,8) by (intro unescape_id) auto
  consider "q = []" | ds where "q = CHR '':'' # ds" "list_all is_digit ds" using q by (auto simp: port_suffix_def)
  then show ?thesis
  proof cases
    case 1
    then have "LastIndexByte (h @ q) (CHR '':'') = None" using hf(1) by (simp add: LastIndexByte_None)
    then show ?thesis by (simp only: parseHost_def b u option.case)
  next
    case 2
    have "CHR '':'' \<notin> set ds" using 2(2) is_digit_plain plain_char_props(1) unfolding list_all_iff by blast
    then have "LastIndexByte (h @ q) (CHR '':'') = Some (length h)" using 2(1) by (simp add: LastIndexByte_append_Cons)
    then show ?thesis using qf(9) hf(1) by (simp add: parseHost_def b u)
  qed
qed

lemma parseAuthority_plain:
  assumes h: "plain_name h" and q: "port_suffix q" and ui: "ui = [] \<or> (\<exists>u. ui = u @ ''@'' \<and> plain_name u)"
  shows "parseAuthority sch (ui @ h @ q) = Some (h @ q)"
  using ui
proof (elim disjE exE conjE)
  assume "ui = []"
  moreover have "LastIndexByte (h @ q) (CHR ''@'') = None"
    using plain_name_free(2)[OF h] port_suffix_free(1)[OF q] by (simp add: LastIndexByte_None)
  ultimately show ?thesis by (simp add: parseAuthority_def parseHost_plain[OF h q])
next
  fix u assume u: "ui = u @ ''@''" "plain_name u"
  have "LastIndexByte (u @ CHR ''@'' # h @ q) (CHR ''@'') = Some (length u)"
    using plain_name_free(2)[OF h] port_suffix_free(1)[OF q] by (intro LastIndexByte_append_Cons) auto
  moreover have "unescape False u = Some u" using plain_name_free(5)[OF u(2)] by (intro unescape_id) auto
  ultimately show ?thesis
    using plain_name_free(11)[OF u(2)] by (simp add: parseAuthority_def parseHost_plain[OF h q] u(1))
qed


lemma url_Parse_plain:
  assumes sch: "sch \<in> set plain_schemes" and h: "plain_name h" and q: "port_suffix q"
    and ui: "ui = [] \<or> (\<exists>u. ui = u @ ''@'' \<and> plain_name u)" and p: "plain_path p" and e: "e \<in> {[], ''.git''}"
  shows "url_Parse (sch @ ''://'' @ ui @ h @ q @ slash # p @ e) = Some \<lparr>u_Scheme = sch, u_Host = h @ q, u_Path = slash # p @ e\<rparr>"
proof -
  note hf = plain_name_free[OF h] and qf = port_suffix_free[OF q] and pf = plain_path_free[OF p]
    and sf = plain_name_free[OF plain_schemes_props(1)[OF sch]]
  let ?auth = "ui @ h @ q" and ?path = "slash # p @ e"
  let ?rest = "''//'' @ ?auth @ ?path"
  let ?s = "sch @ CHR '':'' # ?rest"
  have ef: "CHR ''#'' \<notin> set e" "CHR ''?'' \<notin> set e" "CHR ''%'' \<notin> set e" "\<forall>c\<in>set e. \<not> is_ctl c"
    using e by (auto simp: is_ctl_def)
  have uf: "CHR ''#'' \<notin> set ui" "CHR ''?'' \<notin> set ui" "slash \<notin> set ui" "\<forall>c\<in>set ui. \<not> is_ctl c"
    using ui plain_name_free by (auto simp: slash_def is_ctl_def)
  have lit: "CHR ''#'' \<noteq> slash" "CHR ''?'' \<noteq> slash" "CHR ''%'' \<noteq> slash" "\<not> is_ctl slash" "slash = CHR ''/''" "\<not> is_ctl (CHR '':'')"
    by code_simp+
  have cut1: "str_Cut ?s (CHR ''#'') = (?s, [], False)"
    using sf(3) uf(1) hf(3) qf(2) pf(3) ef(1) lit by (intro str_Cut_none) auto
  have noctl: "\<not> list_ex is_ctl ?s"
    using sf(12) uf(4) hf(12) qf(7) pf(9) ef(4) lit by (auto simp: list_ex_iff)
  have cut2: "str_Cut ?rest (CHR ''?'') = (?rest, [], False)"
    using uf(2) hf(4) qf(3) pf(4) ef(2) lit by (intro str_Cut_none) auto
  have gs: "getScheme ?s = Some (sch, ?rest)"
    unfolding getScheme_def using getScheme_loop_alpha[OF plain_schemes_props(2)[OF sch], of "[]"] sf(9) by simp
  have ib: "IndexByte (?auth @ ?path) slash = Some (length ?auth)"
    using uf(3) hf(7) qf(6) by (intro IndexByte_append_Cons) auto
  have up: "unescape False ?path = Some ?path" using pf(5) ef(3) lit by (intro unescape_id) auto
  have star: "?s \<noteq> ''*''" by simp
  have pre: "HasPrefix ?rest ''/''" "HasPrefix ?rest ''//''" by (simp_all add: HasPrefix_def)
  have auth: "parseAuthority sch ?auth = Some (h @ q)" by (rule parseAuthority_plain[OF h q ui])
  have "url_Parse ?s = Some \<lparr>u_Scheme = sch, u_Host = h @ q, u_Path = ?path\<rparr>"
    unfolding url_Parse_def cut1 Let_def prod.case gs option.case plain_schemes_props(3)[OF sch] cut2 fst_conv
    using noctl star pre sf(9) ib up auth by simp
  then show ?thesis by simp
qed

lemma str_Contains_set: "str_Contains s p \<Longrightarrow> set p \<subseteq> set s"
  by (auto simp: str_Contains_iff)

lemma lower_char_colon: "lower_char c = CHR '':'' \<Longrightarrow> c = CHR '':''"
proof (cases "is_upper c")
  case True
  assume "lower_char c = CHR '':''"
  then have "char_of ((of_char c :: nat) + 32) = CHR '':''" using True by (simp add: lower_char_def)
  then have "of_char (char_of ((of_char c :: nat) + 32)) = (of_char (CHR '':'') :: nat)" by simp
  moreover have "65 \<le> (of_char c :: nat)" "(of_char c :: nat) \<le> 90" using True by (simp_all add: is_upper_def in_range_def)
  ultimately show ?thesis by simp
qed (simp add: lower_char_def)

lemma ToLower_append: "ToLower (a @ b) = ToLower a @ ToLower b" by (simp add: ToLower_def)

lemma digits_lower: "list_all is_digit ds \<Longrightarrow> ToLower ds = ds"
  by (induction ds) (auto simp: ToLower_def lower_char_def is_digit_def is_upper_def in_range_def)

lemma port_lower: "port_suffix q \<Longrightarrow> ToLower q = q"
proof (cases q)
  case (Cons c ds)
  assume "port_suffix q"
  then have "c = CHR '':''" "list_all is_digit ds" using Cons by (auto simp: port_suffix_def)
  moreover have "lower_char (CHR '':'') = CHR '':''" by code_simp
  ultimately show ?thesis using Cons digits_lower by (simp add: ToLower_def)
qed (simp add: ToLower_def)

lemma stripDefaultPort_plain:
  assumes H: "CHR '':'' \<notin> set H" and q: "port_suffix q"
  shows "stripDefaultPort (H @ q) sch = H @ (if q = CHR '':'' # defaultPort sch then [] else if q = [] then [] else q)"
proof (cases "q = []")
  case True
  have "LastIndexByte H (CHR '':'') = None" using H by (simp add: LastIndexByte_None)
  then show ?thesis using True by (simp add: stripDefaultPort_def)
next
  case False
  then obtain ds where ds: "q = CHR '':'' # ds" "list_all is_digit ds" using q by (auto simp: port_suffix_def)
  have "CHR '':'' \<notin> set ds" using ds(2) is_digit_plain plain_char_props(1) unfolding list_all_iff by blast
  then have l: "LastIndexByte (H @ q) (CHR '':'') = Some (length H)" unfolding ds(1) by (rule LastIndexByte_append_Cons)
  have d: "drop (Suc (length H)) (H @ q) = ds" "take (length H) (H @ q) = H" by (simp_all add: ds(1))
  have e: "(q = CHR '':'' # defaultPort sch) = (ds = defaultPort sch)" by (simp add: ds(1))
  show ?thesis unfolding stripDefaultPort_def l option.case d e using False by (cases "ds = defaultPort sch") simp_all
qed

text \<open>The URL forms: a default port is dropped, any other port stays in the identity.\<close>

lemma canonical_url_plain:
  assumes sch: "sch \<in> set plain_schemes" and h: "plain_name h" and q: "port_suffix q"
    and ui: "ui = [] \<or> (\<exists>u. ui = u @ ''@'' \<and> plain_name u)" and p: "plain_path p" and e: "e \<in> {[], ''.git''}"
  shows "Canonical (sch @ ''://'' @ ui @ h @ q @ slash # p @ e) =
    Inr (ToLower h @ (if q = CHR '':'' # defaultPort sch then [] else if q = [] then [] else q) @ slash # p)"
proof -
  note hf = plain_name_free[OF h] and qf = port_suffix_free[OF q] and pf = plain_path_free[OF p]
    and sf = plain_name_free[OF plain_schemes_props(1)[OF sch]]
  let ?s = "sch @ ''://'' @ ui @ h @ q @ slash # p @ e"
  have con: "str_Contains ?s ''://''" unfolding str_Contains_iff by blast
  have lit: "\<not> is_space slash" "\<not> is_space (CHR ''@'')" "\<forall>c\<in>set ''://''. \<not> is_space c" "\<forall>c\<in>set ''.git''. \<not> is_space c"
    by code_simp+
  have uf: "\<forall>c\<in>set ui. \<not> is_space c"
  proof (cases "ui = []")
    case False
    then obtain u where u: "ui = u @ ''@''" "plain_name u" using ui by blast
    then show ?thesis using plain_name_free(12)[OF u(2)] lit(2) by (simp add: ball_Un)
  qed simp
  have ef: "\<forall>c\<in>set e. \<not> is_space c" using e
  proof (elim insertE emptyE)
    assume "e = ''.git''"
    then show ?thesis using lit(4) by (simp only:)
  qed simp
  have "\<forall>c\<in>set ?s. \<not> is_space c"
    unfolding set_append list.set(2)[of slash] ball_Un ball_simps
    using lit(1,3) uf ef sf(12) hf(12) qf(7) pf(9) by blast
  then have sp: "TrimSpace ?s = ?s" by (rule TrimSpace_no_space)
  let ?q = "if q = CHR '':'' # defaultPort sch then [] else if q = [] then [] else q"
  have lq: "ToLower q = q" by (rule port_lower[OF q])
  have lh: "CHR '':'' \<notin> set (ToLower h)"
  proof
    assume "CHR '':'' \<in> set (ToLower h)"
    then obtain c where c: "c \<in> set h" "lower_char c = CHR '':''" by (auto simp: ToLower_def)
    then show False using c hf(1) lower_char_colon by metis
  qed
  have sd: "stripDefaultPort (ToLower (h @ q)) sch = ToLower h @ ?q"
    unfolding ToLower_append lq by (rule stripDefaultPort_plain[OF lh q])
  have ne: "ToLower h @ ?q \<noteq> []" using hf(9) by (simp add: ToLower_def)
  have tp: "TrimPrefix (slash # p @ e) ''/'' = p @ e" by (simp add: TrimPrefix_def HasPrefix_def slash_def)
  have sne: "?s \<noteq> []" by simp
  have fin: "finish ((ToLower h @ ?q) @ ''/'' @ p @ e) = ToLower h @ ?q @ slash # p"
    using finish_plain[OF p e, of "ToLower h @ ?q"] by (simp add: slash_def)
  have "canonical_url ?s = Inr (ToLower h @ ?q @ slash # p)"
    unfolding canonical_url_def Let_def using con ne tp fin pf(7)
    by (simp only: if_True url_Parse_plain[OF assms] option.case url.simps sd if_False append_is_Nil_conv simp_thms)
  then show ?thesis unfolding Canonical_def Let_def sp using con sne by simp
qed

text \<open>The SCP forms and the bare host and path.\<close>

lemma scp_not_url:
  assumes "CHR '':'' \<notin> set a" "CHR '':'' \<notin> set b" "b = [] \<or> hd b \<noteq> slash"
  shows "\<not> str_Contains (a @ CHR '':'' # b) ''://''"
proof
  assume "str_Contains (a @ CHR '':'' # b) ''://''"
  then obtain x y where "a @ CHR '':'' # b = x @ CHR '':'' # (CHR ''/'' # CHR ''/'' # y)"
    unfolding str_Contains_iff by auto
  then have "b = CHR ''/'' # CHR ''/'' # y" using append_Cons_eq_iff[OF assms(1,2)] by blast
  then show False using assms(3) by (simp add: slash_def)
qed

lemma suffix_git_free: "e \<in> {[], ''.git''} \<Longrightarrow> set e \<subseteq> {c. plain_char c}"
proof -
  have "\<forall>c\<in>set ''.git''. plain_char c" by code_simp
  then show "e \<in> {[], ''.git''} \<Longrightarrow> set e \<subseteq> {c. plain_char c}" by auto
qed

lemma scp_path_free:
  assumes "plain_path p" "e \<in> {[], ''.git''}"
  shows "CHR '':'' \<notin> set (p @ e)" "CHR ''@'' \<notin> set (p @ e)" "newline \<notin> set (p @ e)" "p @ e \<noteq> []" "hd (p @ e) \<noteq> slash"
    "\<forall>c\<in>set (p @ e). \<not> is_space c"
proof -
  note pf = plain_path_free[OF assms(1)] and ef = suffix_git_free[OF assms(2)]
  show "CHR '':'' \<notin> set (p @ e)" "CHR ''@'' \<notin> set (p @ e)" "newline \<notin> set (p @ e)" "\<forall>c\<in>set (p @ e). \<not> is_space c"
    using pf ef plain_char_props unfolding set_append by blast+
  show "p @ e \<noteq> []" "hd (p @ e) \<noteq> slash" using pf(7,8) by simp_all
qed

lemma TrimPrefix_slash_id: "t = [] \<or> hd t \<noteq> slash \<Longrightarrow> TrimPrefix t ''/'' = t"
  by (cases t) (auto simp: TrimPrefix_def HasPrefix_def slash_def)

lemma Canonical_scp:
  assumes h: "plain_name h" and p: "plain_path p" and e: "e \<in> {[], ''.git''}"
    and ui: "ui = [] \<or> (\<exists>u. ui = u @ ''@'' \<and> plain_name u)"
  shows "Canonical (ui @ h @ CHR '':'' # p @ e) = Inr (ToLower h @ slash # p)"
proof -
  note hf = plain_name_free[OF h] and pf = scp_path_free[OF p e]
  have uf: "CHR '':'' \<notin> set ui" "\<forall>c\<in>set ui. \<not> is_space c" using ui
  proof (atomize (full), elim disjE exE conjE)
    fix u assume u: "ui = u @ ''@''" "plain_name u"
    have "CHR ''@'' \<noteq> CHR '':''" "\<not> is_space (CHR ''@'')" by code_simp+
    then show "CHR '':'' \<notin> set ui \<and> (\<forall>c\<in>set ui. \<not> is_space c)" using plain_name_free[OF u(2)] by (simp add: u(1) ball_Un)
  qed simp
  let ?s = "ui @ h @ CHR '':'' # p @ e"
  have "\<not> is_space (CHR '':'')" by code_simp
  then have "\<forall>c\<in>set ?s. \<not> is_space c"
    using uf(2) hf(12) pf(6) unfolding set_append list.set(2)[of "CHR '':''"] ball_Un ball_simps by blast
  then have sp: "TrimSpace ?s = ?s" by (rule TrimSpace_no_space)
  have "\<not> str_Contains ((ui @ h) @ CHR '':'' # (p @ e)) ''://''"
    using uf(1) hf(1) pf(1,5) by (intro scp_not_url) auto
  then have nu: "\<not> str_Contains ?s ''://''" by simp
  have hp: "scp_host_path (h @ CHR '':'' # p @ e) = Some (h, p @ e)"
    unfolding scp_host_path_def str_Cut_append[OF hf(1)] using hf(7,9) pf(3,4) by simp
  have scp: "scpRE ?s = Some (h, p @ e)" using ui
  proof (elim disjE exE conjE)
    assume n: "ui = []"
    have "CHR ''@'' \<notin> set ?s" using n hf(2) pf(2) by auto
    then have "str_Cut ?s (CHR ''@'') = (?s, [], False)" by (rule str_Cut_none)
    then show ?thesis unfolding scpRE_def using hp n by simp
  next
    fix u assume u: "ui = u @ ''@''" "plain_name u"
    have "str_Cut (u @ CHR ''@'' # h @ CHR '':'' # p @ e) (CHR ''@'') = (u, h @ CHR '':'' # p @ e, True)"
      by (rule str_Cut_append[OF plain_name_free(2)[OF u(2)]])
    then show ?thesis unfolding scpRE_def using hp plain_name_free(7,9)[OF u(2)] by (simp add: u(1))
  qed
  have tp: "TrimPrefix (p @ e) ''/'' = p @ e" using pf(5) by (intro TrimPrefix_slash_id) simp
  have fin: "finish (ToLower h @ ''/'' @ p @ e) = ToLower h @ slash # p"
    using finish_plain[OF p e, of "ToLower h"] by (simp add: slash_def)
  have ne: "?s \<noteq> []" by simp
  show ?thesis unfolding Canonical_def Let_def sp using ne nu scp tp fin by simp
qed

lemma Canonical_bare:
  assumes h: "plain_name h" and p: "plain_path p" and e: "e \<in> {[], ''.git''}"
  shows "Canonical (h @ slash # p @ e) = Inr (ToLower h @ slash # p)"
proof -
  note hf = plain_name_free[OF h] and pf = scp_path_free[OF p e]
  let ?s = "h @ slash # p @ e"
  have sl: "\<not> is_space slash" "slash \<noteq> CHR '':''" "slash \<noteq> CHR ''@''" by code_simp+
  have "\<forall>c\<in>set ?s. \<not> is_space c"
    using sl(1) hf(12) pf(6) unfolding set_append list.set(2)[of slash] ball_Un ball_simps by blast
  then have sp: "TrimSpace ?s = ?s" by (rule TrimSpace_no_space)
  have c: "CHR '':'' \<notin> set ?s" "CHR ''@'' \<notin> set ?s" using hf(1,2) pf(1,2) sl by auto
  have nu: "\<not> str_Contains ?s ''://''" using str_Contains_set[of ?s "''://''"] c(1) by auto
  have scp: "scpRE ?s = None"
    unfolding scpRE_def scp_host_path_def str_Cut_none[OF c(1)] str_Cut_none[OF c(2)] by simp
  have sch: "''https'' \<in> set plain_schemes" by (simp add: plain_schemes_def)
  have q: "port_suffix []" by (simp add: port_suffix_def)
  let ?w = "''https'' @ ''://'' @ [] @ h @ [] @ slash # p @ e"
  have weq: "''https://'' @ ?s = ?w" by simp
  have "canonical_url ?w = Canonical ?w"
  proof -
    have "str_Contains ?w ''://''" unfolding str_Contains_iff by blast
    moreover have "TrimSpace ?w = ?w"
    proof (rule TrimSpace_no_space)
      have "\<forall>c\<in>set ''https''. \<not> is_space c" "\<forall>c\<in>set ''://''. \<not> is_space c" by code_simp+
      then show "\<forall>c\<in>set ?w. \<not> is_space c"
        using \<open>\<forall>c\<in>set ?s. \<not> is_space c\<close> unfolding set_append ball_Un by simp
    qed
    moreover have "?w \<noteq> []" by simp
    ultimately show ?thesis unfolding Canonical_def Let_def by (simp only: if_False simp_thms)
  qed
  moreover have "canonical_url ?s = canonical_url ?w"
  proof -
    have "str_Contains ?w ''://''" unfolding str_Contains_iff by blast
    then show ?thesis unfolding canonical_url_def using nu weq by (simp only: if_False if_True)
  qed
  ultimately have "canonical_url ?s = Inr (ToLower h @ slash # p)"
    using canonical_url_plain[OF sch h q _ p e, of "[]"] by simp
  moreover have "?s \<noteq> []" by simp
  ultimately show ?thesis unfolding Canonical_def Let_def sp using nu scp by simp
qed

lemma scp_spellings_Canonical:
  assumes u: "plain_name u" and h: "plain_name h" and p: "plain_path p" and e: "e \<in> {[], ''.git''}"
    and s: "s \<in> set (scp_spellings u h p e)"
  shows "Canonical s = Inr (ToLower h @ slash # p)"
proof -
  have "s = [] @ h @ CHR '':'' # p @ e \<or> s = (u @ ''@'') @ h @ CHR '':'' # p @ e \<or> s = h @ slash # p @ e"
    using s by (simp add: scp_spellings_def slash_def)
  then show ?thesis
  proof (elim disjE)
    assume "s = [] @ h @ CHR '':'' # p @ e"
    then show ?thesis using Canonical_scp[OF h p e, of "[]"] by (simp only: simp_thms)
  next
    assume "s = (u @ ''@'') @ h @ CHR '':'' # p @ e"
    then show ?thesis using Canonical_scp[OF h p e, of "u @ ''@''"] u by blast
  next
    assume "s = h @ slash # p @ e"
    then show ?thesis using Canonical_bare[OF h p e] by (simp only:)
  qed
qed

lemma url_spellings_Canonical:
  assumes u: "plain_name u" and h: "plain_name h" and p: "plain_path p" and e: "e \<in> {[], ''.git''}"
    and sch: "sch \<in> set plain_schemes" and s: "s \<in> set (url_spellings u h p e sch)"
  shows "Canonical s = Inr (ToLower h @ slash # p)"
proof -
  let ?q = "CHR '':'' # defaultPort sch"
  have q: "port_suffix ?q" "port_suffix []" using plain_schemes_props(4)[OF sch] by (simp_all add: port_suffix_def)
  have "\<exists>ui\<in>{[], u @ ''@''}. s = sch @ ''://'' @ ui @ h @ [] @ slash # p @ e \<or> s = sch @ ''://'' @ ui @ h @ ?q @ slash # p @ e"
    using s unfolding url_spellings_def slash_def by simp
  then obtain ui where ui: "ui \<in> {[], u @ ''@''}"
    and s: "s = sch @ ''://'' @ ui @ h @ [] @ slash # p @ e \<or> s = sch @ ''://'' @ ui @ h @ ?q @ slash # p @ e" by blast
  have uo: "ui = [] \<or> (\<exists>u. ui = u @ ''@'' \<and> plain_name u)" using ui u by blast
  show ?thesis using s
  proof
    assume "s = sch @ ''://'' @ ui @ h @ [] @ slash # p @ e"
    then show ?thesis using canonical_url_plain[OF sch h q(2) uo p e] by simp
  next
    assume "s = sch @ ''://'' @ ui @ h @ ?q @ slash # p @ e"
    then show ?thesis using canonical_url_plain[OF sch h q(1) uo p e] by simp
  qed
qed

lemma is_lower_lower_char: "is_upper c \<Longrightarrow> is_lower (lower_char c)"
  by (simp add: lower_char_def is_upper_def is_lower_def in_range_def)

lemma plain_char_lower: "plain_char c \<Longrightarrow> plain_char (lower_char c)"
  using is_lower_lower_char[of c] by (cases "is_upper c") (simp_all add: lower_char_def plain_char_def is_alnum_def is_alpha_def)

lemma plain_name_lower: "plain_name h \<Longrightarrow> plain_name (ToLower h)"
  by (simp add: plain_name_def ToLower_def list_all_iff plain_char_lower)

lemma lower_char_idem: "lower_char (lower_char c) = lower_char c"
proof (cases "is_upper c")
  case True
  then have "\<not> is_upper (lower_char c)" using is_lower_lower_char[OF True] by (simp add: is_upper_def is_lower_def in_range_def)
  then show ?thesis by (simp add: lower_char_def)
qed (simp add: lower_char_def)

lemma ToLower_idem: "ToLower (ToLower s) = ToLower s"
  by (simp add: ToLower_def lower_char_idem)

lemma plain_path_digits:
  assumes "ds \<noteq> []" "list_all is_digit ds" "plain_path p"
  shows "plain_path (ds @ slash # p)"
proof -
  have s: "hd ds \<noteq> slash" using assms(1,2) plain_char_props(7) is_digit_plain by (cases ds) auto
  have g: "slash \<notin> set ''.git''" by code_simp
  have "\<not> HasSuffix (ds @ slash # p) ''/''"
  proof
    assume "HasSuffix (ds @ slash # p) ''/''"
    then obtain t where "ds @ slash # p = t @ [CHR ''/'']" unfolding HasSuffix_iff by blast
    then have "last p = CHR ''/''" using plain_path_free(7)[OF assms(3)] by (metis last_ConsR last_appendR last_snoc list.distinct(1))
    then have "p = butlast p @ ''/''" using plain_path_free(7)[OF assms(3)] by (metis append_butlast_last_id)
    then show False using assms(3) unfolding plain_path_def by (metis HasSuffix_append)
  qed
  then show ?thesis using assms s HasSuffix_over_slash[OF g] is_digit_plain unfolding plain_path_def list_all_iff by auto
qed

section \<open>Properties\<close>

text \<open>
  C19: every spelling of one remote (SCP form with and without user, URL form of each scheme with and
  without its default port and user, bare host and path, with and without \<open>.git\<close>) has the same
  canonical identity, the lower-case host and the path.
\<close>

theorem Canonical_spellings_agree:
  assumes "plain_name u" "plain_name h" "plain_path p" "s \<in> set (spellings u h p)"
  shows "Canonical s = Inr (ToLower h @ ''/'' @ p)"
proof -
  define P where "P = (\<lambda>e. s \<in> set (scp_spellings u h p e) \<or> (\<exists>sch\<in>set plain_schemes. s \<in> set (url_spellings u h p e sch)))"
  have dj: "P [] \<or> P ''.git''"
    using assms(4) unfolding spellings_def P_def
    by (simp only: list.map concat.simps set_append set_concat set_map list.set UN_iff Un_iff bex_simps image_iff simp_thms append_Nil2)
  have fin: "Canonical s = Inr (ToLower h @ slash # p)" if "e \<in> {[], ''.git''}" "P e" for e
    using that(2) unfolding P_def
    using scp_spellings_Canonical[OF assms(1-3) that(1)] url_spellings_Canonical[OF assms(1-3) that(1)] by blast
  have "Canonical s = Inr (ToLower h @ slash # p)"
    using dj by (rule disjE) (rule fin[rotated], assumption, simp)+
  then show ?thesis by (simp add: slash_def)
qed

theorem Canonical_spellings_agree_witness:
  "Canonical ''ssh://git@GitHub.com:22/me/dot-files.git'' = Inr ''github.com/me/dot-files''"
proof -
  have "plain_name ''git''" "plain_name ''GitHub.com''" "plain_path ''me/dot-files''"
    "''ssh://git@GitHub.com:22/me/dot-files.git'' \<in> set (spellings ''git'' ''GitHub.com'' ''me/dot-files'')" by code_simp+
  from Canonical_spellings_agree[OF this]
  have "Canonical ''ssh://git@GitHub.com:22/me/dot-files.git'' = Inr (ToLower ''GitHub.com'' @ ''/'' @ ''me/dot-files'')" .
  moreover have "ToLower ''GitHub.com'' = ''github.com''" by code_simp
  ultimately show ?thesis by simp
qed

text \<open>
  A port that is not the scheme's default stays in the identity, so two servers on one host are
  distinct; but that identity, typed back in as \<open>dotkeeper subscribe\<close> allows, is read as an SCP
  remote and becomes another identity: Canonical is not idempotent there.
\<close>

theorem Canonical_port_not_fixed:
  assumes sch: "sch \<in> set plain_schemes" and h: "plain_name h" and p: "plain_path p"
    and d: "ds \<noteq> []" "list_all is_digit ds" "ds \<noteq> defaultPort sch"
  shows "\<exists>c. Canonical (sch @ ''://'' @ h @ '':'' @ ds @ ''/'' @ p) = Inr c \<and> c = ToLower h @ '':'' @ ds @ ''/'' @ p \<and>
    Canonical c = Inr (ToLower h @ ''/'' @ ds @ ''/'' @ p)"
proof -
  have q: "port_suffix (CHR '':'' # ds)" using d by (simp add: port_suffix_def)
  have 1: "Canonical (sch @ ''://'' @ h @ '':'' @ ds @ ''/'' @ p) = Inr (ToLower h @ '':'' @ ds @ ''/'' @ p)"
    using canonical_url_plain[OF sch h q, of "[]" p "[]"] d p by (simp add: slash_def)
  have ph: "plain_name (ToLower h)" by (rule plain_name_lower[OF h])
  have pp: "plain_path (ds @ slash # p)" by (rule plain_path_digits[OF d(1,2) p])
  have "Canonical (ToLower h @ '':'' @ ds @ ''/'' @ p) = Inr (ToLower (ToLower h) @ slash # ds @ slash # p)"
    using Canonical_scp[OF ph pp, of "[]" "[]"] by (simp add: slash_def)
  then show ?thesis using 1 by (simp add: slash_def ToLower_idem)
qed

theorem Canonical_port_not_fixed_witness:
  "\<exists>c. Canonical ''https://gitea.local:2222/me/rag'' = Inr c \<and> Canonical c = Inr ''gitea.local/2222/me/rag''"
proof -
  have "''https'' \<in> set plain_schemes" "plain_name ''gitea.local''" "plain_path ''me/rag''"
    "''2222'' \<noteq> []" "list_all is_digit ''2222''" "''2222'' \<noteq> defaultPort ''https''" "ToLower ''gitea.local'' = ''gitea.local''" by code_simp+
  then show ?thesis using Canonical_port_not_fixed[of "''https''" "''gitea.local''" "''me/rag''" "''2222''"] by simp
qed

end
