(* ===== verification/Config.thy ===== *)
theory Config
  imports Prelude "HOL-Library.AList"
begin

text \<open>
  Package internal/config: the records of machine.toml, state.toml and .dotkeeper.toml, the
  defaults of machine.toml, the merge of declarative and imperative subscriptions, the ignore
  rules with their .stignore rendering, and the text the three writers produce.

  A Go map whose iteration order reaches the output (ObservedRepos, LastSeenPeers) is an
  association list in iteration order; a read is \<open>map_of\<close>, a store is \<open>AList.update\<close>.
  Go's nil and empty slices are both the empty list.
\<close>

section \<open>The records of the three configuration files\<close>

record SubscriptionEntry =
  sub_Canonical :: string
  sub_Name :: string
  sub_Path :: string
  sub_AddedAt :: gotime

record PeerEntry =
  pe_Name :: string
  pe_DeviceID :: string
  pe_LearnedAt :: gotime

record ObservedRepo =
  or_LastReconciledCommit :: string
  or_LastPushedCommit :: string
  or_LastBackupAt :: gotime

record StateV2 =
  st_SchemaVersion :: nat
  st_SyncthingDeviceID :: string
  st_Peers :: "PeerEntry list"
  st_TrackedOverrides :: "string list"
  st_ObservedRepos :: "(string \<times> ObservedRepo) list"
  st_LastSeenPeers :: "(string \<times> gotime) list"
  st_Subscriptions :: "SubscriptionEntry list"

record DiscoveryConfig =
  dc_ScanRoots :: "string list"
  dc_Exclude :: "string list"
  dc_ScanInterval :: string
  dc_ScanDepth :: int

record DebugConfig =
  dbg_PprofAddress :: string

record MachineConfigV2 =
  mc_SchemaVersion :: nat
  mc_Name :: string
  mc_Slot :: nat
  mc_DefaultCommitPolicy :: string
  mc_DefaultGitInterval :: string
  mc_DefaultSlotOffsetMinutes :: nat
  mc_DefaultShareWith :: "string list"
  mc_Peers :: "PeerEntry list"
  mc_Discovery :: DiscoveryConfig
  mc_ReconcileInterval :: string
  mc_Subscribe :: "SubscriptionEntry list"
  mc_Debug :: DebugConfig

record RepoGitConfig =
  rg_Remote :: string
  rg_Canonical :: string

record RepoMeta =
  rm_Name :: string
  rm_Added :: string
  rm_AddedBy :: string

record RepoSyncConfig =
  rs_SyncthingFolderID :: string
  rs_Ignore :: "string list"
  rs_ShareWith :: "string list"

record RepoCommitConfig =
  rc_Policy :: string
  rc_IdleSeconds :: nat

record RepoGitBackupConfig =
  rb_Interval :: string
  rb_SkipSlots :: "nat list"

record RepoConfigV2 =
  rp_SchemaVersion :: nat
  rp_Meta :: RepoMeta
  rp_Sync :: RepoSyncConfig
  rp_Commit :: RepoCommitConfig
  rp_GitBackup :: RepoGitBackupConfig
  rp_Git :: RepoGitConfig

text \<open>The value MutateStateV2 starts from when state.toml does not exist.\<close>

definition fresh_state :: StateV2 where
  "fresh_state = \<lparr>st_SchemaVersion = 2, st_SyncthingDeviceID = [], st_Peers = [],
     st_TrackedOverrides = [], st_ObservedRepos = [], st_LastSeenPeers = [], st_Subscriptions = []\<rparr>"

section \<open>Defaults of machine.toml\<close>

definition default_str :: "string \<Rightarrow> string \<Rightarrow> string" where
  "default_str d s = (if s = '''' then d else s)"

definition applyDiscoveryDefaults :: "DiscoveryConfig \<Rightarrow> DiscoveryConfig" where
  "applyDiscoveryDefaults d = d\<lparr>
     dc_ScanRoots := (if dc_ScanRoots d = [] then [''~/Documents/GitHub''] else dc_ScanRoots d),
     dc_ScanInterval := default_str ''5m'' (dc_ScanInterval d),
     dc_ScanDepth := (if dc_ScanDepth d = 0 then 3 else dc_ScanDepth d)\<rparr>"

definition applyMachineV2Defaults :: "MachineConfigV2 \<Rightarrow> MachineConfigV2" where
  "applyMachineV2Defaults cfg = cfg\<lparr>
     mc_DefaultCommitPolicy := default_str ''manual'' (mc_DefaultCommitPolicy cfg),
     mc_DefaultGitInterval := default_str ''daily'' (mc_DefaultGitInterval cfg),
     mc_DefaultSlotOffsetMinutes :=
       (if mc_DefaultSlotOffsetMinutes cfg = 0 then 5 else mc_DefaultSlotOffsetMinutes cfg),
     mc_Discovery := applyDiscoveryDefaults (mc_Discovery cfg),
     mc_ReconcileInterval := default_str ''5m'' (mc_ReconcileInterval cfg)\<rparr>"

definition machine_defaulted :: "MachineConfigV2 \<Rightarrow> bool" where
  "machine_defaulted cfg \<longleftrightarrow>
     mc_DefaultCommitPolicy cfg \<noteq> '''' \<and> mc_DefaultGitInterval cfg \<noteq> '''' \<and>
     mc_DefaultSlotOffsetMinutes cfg \<noteq> 0 \<and> dc_ScanRoots (mc_Discovery cfg) \<noteq> [] \<and>
     dc_ScanInterval (mc_Discovery cfg) \<noteq> '''' \<and> dc_ScanDepth (mc_Discovery cfg) \<noteq> 0 \<and>
     mc_ReconcileInterval cfg \<noteq> ''''"

lemma default_str_nonempty: "d \<noteq> '''' \<Longrightarrow> default_str d s \<noteq> ''''"
  by (simp add: default_str_def)

lemma default_str_id: "s \<noteq> '''' \<Longrightarrow> default_str d s = s"
  by (simp add: default_str_def)

lemma applyMachineV2Defaults_defaulted: "machine_defaulted (applyMachineV2Defaults cfg)"
  by (simp add: applyMachineV2Defaults_def applyDiscoveryDefaults_def machine_defaulted_def
      default_str_nonempty)

lemma applyMachineV2Defaults_id: "machine_defaulted cfg \<Longrightarrow> applyMachineV2Defaults cfg = cfg"
  by (simp add: applyMachineV2Defaults_def applyDiscoveryDefaults_def machine_defaulted_def
      default_str_id)

section \<open>Merging subscriptions\<close>

definition subscriptionKey :: "SubscriptionEntry \<Rightarrow> string" where
  "subscriptionKey s =
     (if sub_Canonical s \<noteq> '''' then ''url:'' @ sub_Canonical s
      else if sub_Name s \<noteq> '''' then ''name:'' @ sub_Name s
      else '''')"

definition MergeSubscriptions :: "SubscriptionEntry list \<Rightarrow> SubscriptionEntry list \<Rightarrow> SubscriptionEntry list" where
  "MergeSubscriptions declarative imperative =
     keep_first subscriptionKey (\<lambda>s. subscriptionKey s \<noteq> '''') {} (declarative @ imperative)"

interpretation subs: roster_merge MergeSubscriptions subscriptionKey "\<lambda>s. subscriptionKey s \<noteq> ''''"
  unfolding MergeSubscriptions_def by (rule roster_merge_keep_first)

lemma subscriptionKey_eq_Nil: "subscriptionKey s = '''' \<longleftrightarrow> sub_Canonical s = '''' \<and> sub_Name s = ''''"
  by (simp add: subscriptionKey_def)

lemma subscriptionKey_inj:
  "subscriptionKey s = subscriptionKey t \<Longrightarrow> subscriptionKey s \<noteq> '''' \<Longrightarrow>
   sub_Canonical s = sub_Canonical t \<and> (sub_Canonical s = '''' \<longrightarrow> sub_Name s = sub_Name t)"
  by (auto simp: subscriptionKey_def split: if_splits)

section \<open>Ignore rules\<close>

definition RepoConfigFileName :: string where
  "RepoConfigFileName = ''.dotkeeper.toml''"

definition DefaultSyncIgnorePatterns :: "string list" where
  "DefaultSyncIgnorePatterns = [
     ''.git'', RepoConfigFileName, ''dotkeeper.toml'', ''.stignore'', ''.dkfolder'', ''.stfolder'',
     ''.dkbench'', ''*.sync-conflict-*'', ''.syncthing.*.tmp'',
     ''(?d).DS_Store'', ''(?d)Thumbs.db'', ''(?d)desktop.ini'',
     ''node_modules'', ''dist'', ''build'', ''out'', ''target'', ''.wrangler'', ''.deno-bin'', ''.cache'',
     ''.parcel-cache'', ''.next'', ''.nuxt'', ''.turbo'', ''.angular'', ''.sass-cache'',
     ''.claude/worktrees'',
     ''.pytest_cache'', ''.mypy_cache'', ''.ruff_cache'', ''.tox'', ''.gradle'', ''.zig-cache'',
     ''.rust-analyzer'', ''.ccls-cache'', ''.clangd'', ''.ipynb_checkpoints'', ''playwright-report'',
     ''test-results'', ''coverage'', ''htmlcov'',
     ''.venv'', ''venv'', ''__pycache__'', ''*.py[co]'', ''*.egg-info'', ''.eggs'',
     ''*.sqlite*'', ''*.pid'', ''*.sock'', ''*.log*'', ''*.sw[op]'', ''.*.sw[op]'', ''*~'', ''#*#'',
     ''*.tmp'', ''*.temp'', ''*.bak'', ''*.orig'']"

definition DefaultGitExcludePatterns :: "string list" where
  "DefaultGitExcludePatterns = [RepoConfigFileName, ''dotkeeper.toml'', ''.stignore'', ''.dkfolder'',
     ''.stfolder'', ''.dkbench'', ''*.sync-conflict-*'', ''.syncthing.*.tmp'']"

definition MergeSyncIgnorePatterns :: "string list \<Rightarrow> string list" where
  "MergeSyncIgnorePatterns extra =
     keep_first (\<lambda>p. p) (\<lambda>p. p \<noteq> '''') {} (map TrimSpace (DefaultSyncIgnorePatterns @ extra))"

definition ignoreHeader :: string where
  "ignoreHeader = ''# Managed by dotkeeper - local Syncthing ignore rules'' @ nl @
                  ''# Regenerated by dotkeeper reconcile. Do not edit by hand.'' @ nl"

definition SyncIgnoreFileContent :: "string list \<Rightarrow> string" where
  "SyncIgnoreFileContent patterns =
     ignoreHeader @ concat (map (\<lambda>p. p @ nl) (MergeSyncIgnorePatterns patterns))"

text \<open>The default patterns are clean: distinct, without blanks, already trimmed.\<close>

lemma defaults_trimmed: "map TrimSpace DefaultSyncIgnorePatterns = DefaultSyncIgnorePatterns"
  by code_simp

lemma defaults_distinct: "distinct DefaultSyncIgnorePatterns"
  by code_simp

lemma defaults_nonblank: "'''' \<notin> set DefaultSyncIgnorePatterns"
  by code_simp

lemma defaults_one_line: "newline \<notin> set (concat DefaultSyncIgnorePatterns)"
  by code_simp

lemma git_excludes_subset: "set DefaultGitExcludePatterns \<subseteq> set DefaultSyncIgnorePatterns"
  by code_simp

lemma merged_ignore_split [code]:
  "MergeSyncIgnorePatterns extra = DefaultSyncIgnorePatterns @
     keep_first (\<lambda>p. p) (\<lambda>p. p \<noteq> '''') (set DefaultSyncIgnorePatterns) (map TrimSpace extra)"
proof -
  have d: "keep_first (\<lambda>p. p) (\<lambda>p. p \<noteq> '''') {} DefaultSyncIgnorePatterns = DefaultSyncIgnorePatterns"
  proof (rule keep_first_id)
    fix x assume "x \<in> set DefaultSyncIgnorePatterns"
    then have "x \<noteq> ''''" using defaults_nonblank by metis
    then show "x \<noteq> '''' \<and> x \<notin> {}" by simp
  next
    show "distinct (map (\<lambda>p. p) DefaultSyncIgnorePatterns)" using defaults_distinct by simp
  qed
  have s: "{x \<in> set DefaultSyncIgnorePatterns. x \<noteq> ''''} = set DefaultSyncIgnorePatterns"
    using defaults_nonblank by auto
  show ?thesis
    by (simp add: MergeSyncIgnorePatterns_def keep_first_append defaults_trimmed d s)
qed

lemma merged_ignore_trimmed: "p \<in> set (MergeSyncIgnorePatterns extra) \<Longrightarrow> TrimSpace p = p \<and> p \<noteq> ''''"
  using set_keep_first[of "\<lambda>p. p" "\<lambda>p. p \<noteq> ''''" "{}" "map TrimSpace (DefaultSyncIgnorePatterns @ extra)"]
  by (auto simp: MergeSyncIgnorePatterns_def)

lemma merged_ignore_distinct: "distinct (MergeSyncIgnorePatterns extra)"
  using distinct_keep_first[of "\<lambda>p. p"] by (simp add: MergeSyncIgnorePatterns_def)

lemma merged_ignore_set:
  "set (MergeSyncIgnorePatterns extra) =
   set DefaultSyncIgnorePatterns \<union> (TrimSpace ` set extra - {''''})"
proof -
  let ?K = "keep_first (\<lambda>p. p) (\<lambda>p. p \<noteq> '''') (set DefaultSyncIgnorePatterns) (map TrimSpace extra)"
  have "set ?K = {x \<in> set (map TrimSpace extra). x \<noteq> ''''} - set DefaultSyncIgnorePatterns"
    using keep_first_keys[of "\<lambda>p. p" "\<lambda>p. p \<noteq> ''''" "set DefaultSyncIgnorePatterns" "map TrimSpace extra"]
    by (simp only: image_ident)
  then show ?thesis unfolding merged_ignore_split by auto
qed

text \<open>Merging what is already merged adds nothing: the reconciler renders the merged list again.\<close>

lemma merged_ignore_idem:
  "MergeSyncIgnorePatterns (MergeSyncIgnorePatterns extra) = MergeSyncIgnorePatterns extra"
proof -
  let ?D = DefaultSyncIgnorePatterns
  let ?K = "keep_first (\<lambda>p. p) (\<lambda>p. p \<noteq> '''') (set ?D)"
  let ?m = "MergeSyncIgnorePatterns extra"
  have m: "?m = ?D @ ?K (map TrimSpace extra)" by (rule merged_ignore_split)
  have t: "map TrimSpace ?m = ?m" by (rule map_idI) (simp add: merged_ignore_trimmed)
  have dd: "?K ?D = []" by (rule keep_first_Nil) simp
  have kk: "?K (?K (map TrimSpace extra)) = ?K (map TrimSpace extra)"
  proof (rule keep_first_id)
    fix x assume "x \<in> set (?K (map TrimSpace extra))"
    then show "x \<noteq> '''' \<and> x \<notin> set ?D" using set_keep_first by fastforce
  next
    show "distinct (map (\<lambda>p. p) (?K (map TrimSpace extra)))" by (rule distinct_keep_first)
  qed
  have un: "set ?D \<union> {x \<in> set ?D. x \<noteq> ''''} = set ?D" by auto
  have "MergeSyncIgnorePatterns ?m = ?D @ ?K ?m" by (simp only: merged_ignore_split[of ?m] t)
  also have "?K ?m = ?K (map TrimSpace extra)"
    unfolding m by (simp add: keep_first_append dd kk un)
  finally show ?thesis unfolding m by simp
qed

lemma ignore_content_merged:
  "SyncIgnoreFileContent (MergeSyncIgnorePatterns extra) = SyncIgnoreFileContent extra"
  by (simp add: SyncIgnoreFileContent_def merged_ignore_idem)

text \<open>Reading the rendered rules back line by line.\<close>

lemma split_lines:
  "(\<And>x. x \<in> set xs \<Longrightarrow> newline \<notin> set x) \<Longrightarrow>
   str_Split newline (concat (map (\<lambda>p. p @ nl) xs)) = xs @ [[]]"
proof (induction xs)
  case (Cons x xs)
  have one: "newline \<notin> set p \<Longrightarrow> str_Split newline (p @ newline # s) = p # str_Split newline s" for p s
    by (induction p) auto
  have "concat (map (\<lambda>p. p @ nl) (x # xs)) = x @ newline # concat (map (\<lambda>p. p @ nl) xs)"
    by (simp add: nl_def newline_def)
  then show ?case using Cons one[of x] by (simp only: set_simps insert_iff) simp
qed simp

section \<open>Properties\<close>

text \<open>
  Merging subscriptions keeps one entry per identity (canonical remote, else label), loses no
  identity of either list, invents none, and where both lists name an identity the
  declarative entry is the one kept.
\<close>

theorem MergeSubscriptions_contract:
  "distinct (map subscriptionKey (MergeSubscriptions declarative imperative)) \<and>
   subscriptionKey ` set (MergeSubscriptions declarative imperative) =
     subscriptionKey ` (set declarative \<union> set imperative) - {''''} \<and>
   MergeSubscriptions declarative (filter (\<lambda>d. subscriptionKey d \<notin> subscriptionKey ` set declarative) imperative) =
     MergeSubscriptions declarative imperative \<and>
   set (MergeSubscriptions declarative imperative) \<subseteq> set declarative \<union> set imperative"
proof -
  let ?K = subscriptionKey and ?ok = "\<lambda>s. subscriptionKey s \<noteq> ''''"
  have keys: "?K ` set (MergeSubscriptions declarative imperative) = ?K ` (set declarative \<union> set imperative) - {''''}"
    unfolding MergeSubscriptions_def keep_first_keys by auto
  have skip: "MergeSubscriptions declarative (filter (\<lambda>d. ?K d \<notin> ?K ` set declarative) imperative) =
      MergeSubscriptions declarative imperative"
  proof -
    have "keep_first ?K ?ok ({} \<union> ?K ` {x \<in> set declarative. ?ok x}) (filter (\<lambda>d. ?K d \<notin> ?K ` set declarative) imperative) =
      keep_first ?K ?ok ({} \<union> ?K ` {x \<in> set declarative. ?ok x}) imperative"
      by (rule keep_first_filter) auto
    then show ?thesis unfolding MergeSubscriptions_def keep_first_append by simp
  qed
  have sub: "set (MergeSubscriptions declarative imperative) \<subseteq> set declarative \<union> set imperative"
    unfolding MergeSubscriptions_def using set_keep_first[of ?K ?ok "{}" "declarative @ imperative"] by auto
  have dis: "distinct (map ?K (MergeSubscriptions declarative imperative))"
    unfolding MergeSubscriptions_def by (rule distinct_keep_first)
  show ?thesis using keys skip dis sub by blast
qed

text \<open>
  The rendered .stignore, read back line by line, is the two header comments, the default
  patterns in their order and then the repository's own patterns, trimmed, each once, without those the
  defaults already have; and rendering the merged list again changes nothing, so a reconcile
  pass that finds the file in place never rewrites it.
\<close>

theorem ignore_file_roundtrip:
  assumes "\<And>p. p \<in> set extra \<Longrightarrow> newline \<notin> set p"
  shows "\<exists>h1 h2 own. str_Split newline (SyncIgnoreFileContent extra) = h1 # h2 # DefaultSyncIgnorePatterns @ own @ [[]] \<and>
     set own = TrimSpace ` set extra - insert '''' (set DefaultSyncIgnorePatterns) \<and> distinct own \<and>
     hd h1 = CHR ''#'' \<and> hd h2 = CHR ''#'' \<and>
     SyncIgnoreFileContent (MergeSyncIgnorePatterns extra) = SyncIgnoreFileContent extra"
proof -
  let ?D = DefaultSyncIgnorePatterns
  let ?own = "keep_first (\<lambda>p. p) (\<lambda>p. p \<noteq> '''') (set ?D) (map TrimSpace extra)"
  obtain h1 h2 where h: "ignoreHeader = concat (map (\<lambda>p. p @ nl) [h1, h2])" "newline \<notin> set h1" "newline \<notin> set h2"
      "hd h1 = CHR ''#''" "hd h2 = CHR ''#''"
  proof
    show "ignoreHeader = concat (map (\<lambda>p. p @ nl) [''# Managed by dotkeeper - local Syncthing ignore rules'',
       ''# Regenerated by dotkeeper reconcile. Do not edit by hand.''])" by (simp add: ignoreHeader_def)
  qed (simp_all add: newline_def)
  have "newline \<notin> set x" if "x \<in> set (MergeSyncIgnorePatterns extra)" for x
  proof -
    have "x \<in> set ?D \<or> x \<in> TrimSpace ` set extra" using that unfolding merged_ignore_set by blast
    then show ?thesis
    proof
      assume "x \<in> set ?D"
      then show ?thesis using defaults_one_line unfolding set_concat by blast
    next
      assume "x \<in> TrimSpace ` set extra"
      then obtain p where p: "p \<in> set extra" "x = TrimSpace p" by blast
      have "set (TrimSpace p) \<subseteq> set p" by (rule set_TrimSpace)
      then show ?thesis using assms[OF p(1)] p(2) by blast
    qed
  qed
  then have "str_Split newline (concat (map (\<lambda>p. p @ nl) ([h1, h2] @ MergeSyncIgnorePatterns extra))) =
    ([h1, h2] @ MergeSyncIgnorePatterns extra) @ [[]]" using h(2,3) by (intro split_lines) auto
  then have 1: "str_Split newline (SyncIgnoreFileContent extra) = h1 # h2 # ?D @ ?own @ [[]]"
    unfolding SyncIgnoreFileContent_def h(1) by (simp add: merged_ignore_split)
  have 2: "set ?own = TrimSpace ` set extra - insert '''' (set ?D)"
    using keep_first_keys[of "\<lambda>p. p" "\<lambda>p. p \<noteq> ''''" "set ?D" "map TrimSpace extra"]
    unfolding image_ident set_map by blast
  have 3: "distinct ?own" using distinct_keep_first[of "\<lambda>p. p" _ _ "map TrimSpace extra"] unfolding map_ident .
  show ?thesis using 1 2 3 h(4,5) ignore_content_merged by blast
qed

theorem ignore_file_roundtrip_witness:
  "\<exists>h1 h2 own. str_Split newline (SyncIgnoreFileContent ['' *.iso '', ''dist'']) = h1 # h2 # DefaultSyncIgnorePatterns @ own @ [[]] \<and>
     distinct own"
proof -
  have "newline \<notin> set p" if "p \<in> set ['' *.iso '', ''dist'']" for p using that by (auto simp: newline_def)
  from ignore_file_roundtrip[OF this] show ?thesis by blast
qed

end
