(* ===== verification/Subscribe.thy ===== *)
theory Subscribe
  imports Config
begin

text \<open>
  Package internal/subscribe: matching declared subscriptions against the folders peers offer.
  Resolve filters the slice it read from its index in place (\<open>candidates[:0]\<close>), which writes
  through to the index; the model threads the two indexes through the loop and writes the
  filtered prefix back, so a second subscription with the same key reads what the first left.
\<close>

section \<open>Types\<close>

record Offer =
  of_FolderID :: string
  of_Label :: string
  of_FromPeerName :: string
  of_FromDeviceID :: string

record Acceptance =
  ac_Subscription :: SubscriptionEntry
  ac_Offer :: Offer

datatype SubscriptionStatus = StatusAccepted | StatusPending | StatusAmbiguous

fun status_String :: "SubscriptionStatus \<Rightarrow> string" where
  "status_String StatusAccepted = ''accepted''"
| "status_String StatusPending = ''pending''"
| "status_String StatusAmbiguous = ''ambiguous''"

record StatusEntry =
  se_Subscription :: SubscriptionEntry
  se_Status :: SubscriptionStatus
  se_Offers :: "Offer list"

record Result =
  rs_Acceptances :: "Acceptance list"
  rs_Statuses :: "StatusEntry list"

section \<open>Resolve\<close>

type_synonym index = "string \<Rightarrow> Offer list"

definition isAmbiguous :: "Offer list \<Rightarrow> bool" where
  "isAmbiguous offers = (case offers of
      [] \<Rightarrow> False
    | first # rest \<Rightarrow> list_ex (\<lambda>o'. of_FolderID o' \<noteq> of_FolderID first) rest)"

fun index_offers :: "index \<Rightarrow> Offer list \<Rightarrow> index" where
  "index_offers ix [] = ix"
| "index_offers ix (o' # os) =
     index_offers (if of_Label o' = '''' then ix else ix(of_Label o' := ix (of_Label o') @ [o'])) os"

text \<open>
  \<open>filtered := candidates[:0]\<close> followed by appends: the filtered elements overwrite the front
  of the backing array, whose slice in the index keeps its length.
\<close>

definition filter_in_place :: "(Offer \<Rightarrow> bool) \<Rightarrow> Offer list \<Rightarrow> Offer list \<times> Offer list" where
  "filter_in_place P cs = (let f = filter P cs in (f, f @ drop (length f) cs))"

definition resolve_entry ::
    "SubscriptionEntry \<Rightarrow> Offer list \<Rightarrow> Acceptance list \<Rightarrow> StatusEntry list \<Rightarrow> Acceptance list \<times> StatusEntry list" where
  "resolve_entry sub candidates acceptances statuses =
    (if candidates = [] then
       (acceptances, statuses @ [\<lparr>se_Subscription = sub, se_Status = StatusPending, se_Offers = candidates\<rparr>])
     else if isAmbiguous candidates then
       (acceptances, statuses @ [\<lparr>se_Subscription = sub, se_Status = StatusAmbiguous, se_Offers = candidates\<rparr>])
     else
       (acceptances @ [\<lparr>ac_Subscription = sub, ac_Offer = hd candidates\<rparr>],
        statuses @ [\<lparr>se_Subscription = sub, se_Status = StatusAccepted, se_Offers = candidates\<rparr>]))"

fun resolve_loop ::
    "(string \<Rightarrow> bool) \<Rightarrow> index \<Rightarrow> index \<Rightarrow> SubscriptionEntry list \<Rightarrow> Acceptance list \<Rightarrow> StatusEntry list \<Rightarrow> Result" where
  "resolve_loop local urlIndex nameIndex [] acceptances statuses =
     \<lparr>rs_Acceptances = acceptances, rs_Statuses = statuses\<rparr>"
| "resolve_loop local urlIndex nameIndex (sub # subs) acceptances statuses =
    (let notLocal = (\<lambda>c. \<not> local (of_FolderID c));
         nameKey = ''dk:'' @ sub_Name sub;
         isUrl = (sub_Canonical sub \<noteq> ''''); isName = (\<not> isUrl \<and> sub_Name sub \<noteq> '''');
         raw = (if isUrl then urlIndex (sub_Canonical sub) else if isName then nameIndex nameKey else []);
         (filtered, backing) = filter_in_place notLocal raw;
         urlIndex' = (if isUrl then urlIndex(sub_Canonical sub := backing) else urlIndex);
         nameIndex' = (if isName then nameIndex(nameKey := backing) else nameIndex);
         (acceptances', statuses') = resolve_entry sub filtered acceptances statuses
     in resolve_loop local urlIndex' nameIndex' subs acceptances' statuses')"

definition Resolve :: "SubscriptionEntry list \<Rightarrow> Offer list \<Rightarrow> (string \<Rightarrow> bool) \<Rightarrow> Result" where
  "Resolve subs offers localFolderIDs =
     resolve_loop localFolderIDs (index_offers (\<lambda>_. []) offers) (index_offers (\<lambda>_. []) offers) subs [] []"

section \<open>The matching rules as a specification\<close>

definition matches :: "SubscriptionEntry \<Rightarrow> Offer \<Rightarrow> bool" where
  "matches sub o' \<longleftrightarrow> of_Label o' \<noteq> '''' \<and>
     (if sub_Canonical sub \<noteq> '''' then of_Label o' = sub_Canonical sub
      else sub_Name sub \<noteq> '''' \<and> of_Label o' = ''dk:'' @ sub_Name sub)"

definition matching :: "Offer list \<Rightarrow> (string \<Rightarrow> bool) \<Rightarrow> SubscriptionEntry \<Rightarrow> Offer list" where
  "matching offers local sub = filter (\<lambda>o'. matches sub o' \<and> \<not> local (of_FolderID o')) offers"

definition spec_status :: "Offer list \<Rightarrow> SubscriptionStatus" where
  "spec_status cs =
    (if cs = [] then StatusPending
     else if card (of_FolderID ` set cs) = 1 then StatusAccepted else StatusAmbiguous)"

lemma index_offers_eq:
  "l \<noteq> '''' \<Longrightarrow> index_offers ix offers l = ix l @ filter (\<lambda>o'. of_Label o' = l) offers"
  by (induction offers arbitrary: ix) auto

lemma isAmbiguous_iff: "cs \<noteq> [] \<Longrightarrow> isAmbiguous cs \<longleftrightarrow> card (of_FolderID ` set cs) \<noteq> 1"
proof (cases cs)
  case (Cons c rest)
  have "card (of_FolderID ` set cs) = 1 \<longleftrightarrow> (\<forall>o'\<in>set rest. of_FolderID o' = of_FolderID c)"
  proof
    assume "card (of_FolderID ` set cs) = 1"
    then obtain x where "of_FolderID ` set cs = {x}" by (auto simp: card_1_singleton_iff)
    then show "\<forall>o'\<in>set rest. of_FolderID o' = of_FolderID c" using Cons by auto
  next
    assume "\<forall>o'\<in>set rest. of_FolderID o' = of_FolderID c"
    then have "of_FolderID ` set rest \<subseteq> {of_FolderID c}" by (intro image_subsetI) (simp only: singleton_iff)
    moreover have "insert x A = {x}" if "A \<subseteq> {x}" for x :: string and A using that by blast
    ultimately have "of_FolderID ` set cs = {of_FolderID c}" unfolding Cons list.set image_insert by blast
    then show "card (of_FolderID ` set cs) = 1" by simp
  qed
  then show ?thesis using Cons by (auto simp: isAmbiguous_def list_ex_iff)
qed simp

text \<open>
  What the in-place filter may have done to an index slice: the filtered view of the slice still has
  the same offers and the same first offer.
\<close>

definition same_view :: "(Offer \<Rightarrow> bool) \<Rightarrow> Offer list \<Rightarrow> Offer list \<Rightarrow> bool" where
  "same_view P xs ys \<longleftrightarrow> set (filter P xs) = set (filter P ys) \<and> (filter P ys \<noteq> [] \<longrightarrow> hd (filter P xs) = hd (filter P ys))"

lemma same_view_refl: "same_view P xs xs" by (simp add: same_view_def)

lemma same_view_backing:
  assumes "same_view P xs ys"
  shows "same_view P (snd (filter_in_place P xs)) ys"
proof -
  let ?f = "filter P xs"
  have e: "filter P (?f @ drop (length ?f) xs) = ?f @ filter P (drop (length ?f) xs)" by simp
  have s: "set (filter P (drop (length ?f) xs)) \<subseteq> set ?f" by (auto dest: in_set_dropD)
  show ?thesis
  proof (cases "?f = []")
    case True
    then have "snd (filter_in_place P xs) = xs" by (simp add: filter_in_place_def)
    then show ?thesis using assms by (simp only:)
  next
    case False
    then have h: "hd (?f @ filter P (drop (length ?f) xs)) = hd ?f" by (rule hd_append2)
    have st: "set (?f @ filter P (drop (length ?f) xs)) = set ?f" unfolding set_append using s by (rule Un_absorb2)
    show ?thesis using assms unfolding same_view_def filter_in_place_def Let_def snd_conv e h st .
  qed
qed

lemma same_view_status:
  assumes "same_view P xs ys"
  shows "filter P xs = [] \<longleftrightarrow> filter P ys = []"
    "filter P ys \<noteq> [] \<Longrightarrow> isAmbiguous (filter P xs) \<longleftrightarrow> spec_status (filter P ys) = StatusAmbiguous"
    "filter P ys \<noteq> [] \<Longrightarrow> hd (filter P xs) = hd (filter P ys)"
proof -
  have s: "set (filter P xs) = set (filter P ys)" using assms by (simp add: same_view_def)
  show n: "filter P xs = [] \<longleftrightarrow> filter P ys = []" using s by (metis set_empty)
  show "filter P ys \<noteq> [] \<Longrightarrow> hd (filter P xs) = hd (filter P ys)" using assms by (simp add: same_view_def)
  assume ne: "filter P ys \<noteq> []"
  have "isAmbiguous (filter P xs) \<longleftrightarrow> card (of_FolderID ` set (filter P ys)) \<noteq> 1"
    using isAmbiguous_iff[of "filter P xs"] ne n s by metis
  then show "isAmbiguous (filter P xs) \<longleftrightarrow> spec_status (filter P ys) = StatusAmbiguous"
    using ne by (simp add: spec_status_def)
qed

definition spec_acceptance :: "Offer list \<Rightarrow> (string \<Rightarrow> bool) \<Rightarrow> SubscriptionEntry \<Rightarrow> Acceptance option" where
  "spec_acceptance offers local sub =
    (if spec_status (matching offers local sub) = StatusAccepted
     then Some \<lparr>ac_Subscription = sub, ac_Offer = hd (matching offers local sub)\<rparr> else None)"

text \<open>The slice of the index a subscription reads, and the entry it yields.\<close>

definition index_ok :: "(string \<Rightarrow> bool) \<Rightarrow> Offer list \<Rightarrow> index \<Rightarrow> bool" where
  "index_ok local offers ix \<longleftrightarrow>
     (\<forall>l. l \<noteq> '''' \<longrightarrow> same_view (\<lambda>c. \<not> local (of_FolderID c)) (ix l) (filter (\<lambda>o'. of_Label o' = l) offers))"

lemma index_ok_update:
  assumes "index_ok local offers ix"
  shows "index_ok local offers (ix(l := snd (filter_in_place (\<lambda>c. \<not> local (of_FolderID c)) (ix l))))"
  using assms same_view_backing unfolding index_ok_def fun_upd_apply by (simp split: if_splits)

definition read_index :: "index \<Rightarrow> index \<Rightarrow> SubscriptionEntry \<Rightarrow> Offer list" where
  "read_index urlIndex nameIndex sub =
     (if sub_Canonical sub \<noteq> '''' then urlIndex (sub_Canonical sub)
      else if sub_Name sub \<noteq> '''' then nameIndex (''dk:'' @ sub_Name sub) else [])"

lemma matching_read:
  assumes "index_ok local offers urlIndex" "index_ok local offers nameIndex"
  shows "\<exists>ys. same_view (\<lambda>c. \<not> local (of_FolderID c)) (read_index urlIndex nameIndex sub) ys \<and>
    filter (\<lambda>c. \<not> local (of_FolderID c)) ys = matching offers local sub"
proof -
  let ?l = "if sub_Canonical sub \<noteq> '''' then sub_Canonical sub else ''dk:'' @ sub_Name sub"
  show ?thesis
  proof (cases "sub_Canonical sub = '''' \<and> sub_Name sub = ''''")
    case True
    then have "read_index urlIndex nameIndex sub = []" "matching offers local sub = []"
      by (simp_all add: read_index_def matching_def matches_def)
    then show ?thesis by (intro exI[of _ "[]"]) (simp add: same_view_def)
  next
    case False
    then have "same_view (\<lambda>c. \<not> local (of_FolderID c)) (read_index urlIndex nameIndex sub) (filter (\<lambda>o'. of_Label o' = ?l) offers)"
      using assms unfolding index_ok_def read_index_def by simp
    moreover have "filter (\<lambda>c. \<not> local (of_FolderID c)) (filter (\<lambda>o'. of_Label o' = ?l) offers) = matching offers local sub"
      unfolding matching_def filter_filter using False by (intro filter_cong refl) (auto simp: matches_def)
    ultimately show ?thesis by blast
  qed
qed

lemma resolve_entry_read:
  fixes sub :: SubscriptionEntry
  assumes "index_ok local offers urlIndex" "index_ok local offers nameIndex"
  defines "f \<equiv> filter (\<lambda>c. \<not> local (of_FolderID c)) (read_index urlIndex nameIndex sub)"
  shows "resolve_entry sub f acc sts =
    (acc @ (case spec_acceptance offers local sub of None \<Rightarrow> [] | Some a \<Rightarrow> [a]),
     sts @ [\<lparr>se_Subscription = sub, se_Status = spec_status (matching offers local sub), se_Offers = f\<rparr>])"
proof -
  obtain ys where v: "same_view (\<lambda>c. \<not> local (of_FolderID c)) (read_index urlIndex nameIndex sub) ys"
    and y: "filter (\<lambda>c. \<not> local (of_FolderID c)) ys = matching offers local sub"
    using matching_read[OF assms(1,2)] by blast
  note st = same_view_status[OF v, folded f_def, unfolded y]
  show ?thesis
  proof (cases "matching offers local sub = []")
    case True
    then show ?thesis using st(1) by (simp add: resolve_entry_def spec_acceptance_def spec_status_def)
  next
    case False
    then have "spec_status (matching offers local sub) = StatusAccepted \<or> spec_status (matching offers local sub) = StatusAmbiguous"
      by (simp add: spec_status_def)
    then show ?thesis using st False by (auto simp: resolve_entry_def spec_acceptance_def)
  qed
qed

definition store_url :: "(string \<Rightarrow> bool) \<Rightarrow> SubscriptionEntry \<Rightarrow> index \<Rightarrow> index" where
  "store_url local sub ix = (if sub_Canonical sub \<noteq> ''''
     then ix(sub_Canonical sub := snd (filter_in_place (\<lambda>c. \<not> local (of_FolderID c)) (ix (sub_Canonical sub)))) else ix)"

definition store_name :: "(string \<Rightarrow> bool) \<Rightarrow> SubscriptionEntry \<Rightarrow> index \<Rightarrow> index" where
  "store_name local sub ix = (if sub_Canonical sub = '''' \<and> sub_Name sub \<noteq> ''''
     then ix(''dk:'' @ sub_Name sub := snd (filter_in_place (\<lambda>c. \<not> local (of_FolderID c)) (ix (''dk:'' @ sub_Name sub)))) else ix)"

lemma resolve_loop_Cons:
  "resolve_loop local u n (s # subs) acc sts =
    (case resolve_entry s (filter (\<lambda>c. \<not> local (of_FolderID c)) (read_index u n s)) acc sts of (acc', sts') \<Rightarrow>
       resolve_loop local (store_url local s u) (store_name local s n) subs acc' sts')"
  by (cases "sub_Canonical s = ''''"; cases "sub_Name s = ''''")
    (simp_all add: read_index_def store_url_def store_name_def filter_in_place_def Let_def split: prod.split)

declare resolve_loop.simps(2) [simp del]

lemma index_ok_store:
  "index_ok local offers ix \<Longrightarrow> index_ok local offers (store_url local sub ix)"
  "index_ok local offers ix \<Longrightarrow> index_ok local offers (store_name local sub ix)"
  using index_ok_update by (simp_all add: store_url_def store_name_def)

lemma read_index_store:
  assumes "subscriptionKey t \<noteq> subscriptionKey s"
  shows "read_index (store_url local s u) (store_name local s n) t = read_index u n t"
  using assms
  by (cases "sub_Canonical s = ''''"; cases "sub_Name s = ''''"; cases "sub_Canonical t = ''''"; cases "sub_Name t = ''''")
    (simp_all add: read_index_def subscriptionKey_def store_url_def store_name_def)

lemma resolve_loop_eq:
  assumes "index_ok local offers urlIndex" "index_ok local offers nameIndex"
  shows "\<exists>offs. resolve_loop local urlIndex nameIndex subs acc sts =
     \<lparr>rs_Acceptances = acc @ List.map_filter (spec_acceptance offers local) subs,
      rs_Statuses = sts @ map2 (\<lambda>s os. \<lparr>se_Subscription = s, se_Status = spec_status (matching offers local s), se_Offers = os\<rparr>) subs offs\<rparr> \<and>
     length offs = length subs \<and>
     (distinct (map subscriptionKey subs) \<longrightarrow>
        offs = map (\<lambda>s. filter (\<lambda>c. \<not> local (of_FolderID c)) (read_index urlIndex nameIndex s)) subs)"
  using assms
proof (induction subs arbitrary: urlIndex nameIndex acc sts)
  case Nil
  then show ?case by (simp add: List.map_filter_def)
next
  case (Cons s subs)
  let ?P = "\<lambda>c. \<not> local (of_FolderID c)"
  let ?raw = "read_index urlIndex nameIndex s"
  let ?u = "store_url local s urlIndex" and ?n = "store_name local s nameIndex"
  note u = index_ok_store(1)[OF Cons.prems(1), of s] and n = index_ok_store(2)[OF Cons.prems(2), of s]
  let ?acc = "acc @ (case spec_acceptance offers local s of None \<Rightarrow> [] | Some a \<Rightarrow> [a])"
  let ?sts = "sts @ [\<lparr>se_Subscription = s, se_Status = spec_status (matching offers local s), se_Offers = filter ?P ?raw\<rparr>]"
  have step: "resolve_loop local urlIndex nameIndex (s # subs) acc sts = resolve_loop local ?u ?n subs ?acc ?sts"
    unfolding resolve_loop_Cons resolve_entry_read[OF Cons.prems, of s acc sts] by simp
  obtain offs where o': "resolve_loop local ?u ?n subs ?acc ?sts =
     \<lparr>rs_Acceptances = ?acc @ List.map_filter (spec_acceptance offers local) subs,
      rs_Statuses = ?sts @ map2 (\<lambda>s os. \<lparr>se_Subscription = s, se_Status = spec_status (matching offers local s), se_Offers = os\<rparr>) subs offs\<rparr>"
    "length offs = length subs" "distinct (map subscriptionKey subs) \<longrightarrow> offs = map (\<lambda>s. filter ?P (read_index ?u ?n s)) subs"
    using Cons.IH[OF u n, of ?acc ?sts] by blast
  have "distinct (map subscriptionKey (s # subs)) \<longrightarrow>
     filter ?P ?raw # offs = map (\<lambda>s. filter ?P (read_index urlIndex nameIndex s)) (s # subs)"
  proof
    assume d: "distinct (map subscriptionKey (s # subs))"
    have "map (\<lambda>s. filter ?P (read_index ?u ?n s)) subs = map (\<lambda>s. filter ?P (read_index urlIndex nameIndex s)) subs"
    proof (rule map_cong[OF refl])
      fix t assume "t \<in> set subs"
      then have "subscriptionKey t \<noteq> subscriptionKey s" using d unfolding list.map distinct.simps set_map by (metis imageI)
      then show "filter ?P (read_index ?u ?n t) = filter ?P (read_index urlIndex nameIndex t)" by (rule arg_cong[OF read_index_store])
    qed
    then show "filter ?P ?raw # offs = map (\<lambda>s. filter ?P (read_index urlIndex nameIndex s)) (s # subs)"
      using o'(3) d by simp
  qed
  then show ?case unfolding step o'(1) using o'(2)
    by (intro exI[of _ "filter ?P ?raw # offs"]) (simp add: List.map_filter_def split: option.split)
qed

section \<open>Properties\<close>

text \<open>
  C18: although Resolve filters its index in place, its result is the specification's: each
  subscription, in order, is pending when no offer it matches is left after the folders this machine
  already has, accepted when the matching offers name one folder (the first offering peer is taken)
  and ambiguous when they name several; exactly the accepted ones give an acceptance. The offers listed
  for a status are the matching ones as long as no two subscriptions share a key, which
  MergeSubscriptions guarantees.
\<close>

theorem Resolve_spec:
  "rs_Acceptances (Resolve subs offers local) = List.map_filter (spec_acceptance offers local) subs \<and>
   map (\<lambda>e. (se_Subscription e, se_Status e)) (rs_Statuses (Resolve subs offers local)) =
     map (\<lambda>s. (s, spec_status (matching offers local s))) subs \<and>
   map se_Offers (rs_Statuses (Resolve (MergeSubscriptions decl imp) offers local)) =
     map (matching offers local) (MergeSubscriptions decl imp)"
proof -
  let ?ix = "index_offers (\<lambda>_. []) offers"
  have ok: "index_ok local offers ?ix" by (simp add: index_ok_def index_offers_eq same_view_refl)
  have rd: "filter (\<lambda>c. \<not> local (of_FolderID c)) (read_index ?ix ?ix s) = matching offers local s" for s
  proof (cases "sub_Canonical s = '''' \<and> sub_Name s = ''''")
    case True
    then show ?thesis by (simp add: read_index_def matching_def matches_def)
  next
    case False
    then show ?thesis unfolding read_index_def matching_def
      by (auto simp: index_offers_eq filter_filter matches_def intro!: filter_cong)
  qed
  obtain offs where o': "Resolve subs offers local =
     \<lparr>rs_Acceptances = List.map_filter (spec_acceptance offers local) subs,
      rs_Statuses = map2 (\<lambda>s os. \<lparr>se_Subscription = s, se_Status = spec_status (matching offers local s), se_Offers = os\<rparr>) subs offs\<rparr>"
    "length offs = length subs"
    unfolding Resolve_def using resolve_loop_eq[OF ok ok, of subs "[]" "[]"] by auto
  let ?m = "MergeSubscriptions decl imp"
  have "distinct (map subscriptionKey ?m)" unfolding MergeSubscriptions_def by (rule distinct_keep_first)
  then have m: "rs_Statuses (Resolve ?m offers local) =
      map2 (\<lambda>s os. \<lparr>se_Subscription = s, se_Status = spec_status (matching offers local s), se_Offers = os\<rparr>) ?m
        (map (matching offers local) ?m)"
    unfolding Resolve_def using resolve_loop_eq[OF ok ok, of ?m "[]" "[]"] rd by auto
  have fst2: "map (\<lambda>e. (se_Subscription e, se_Status e)) (map2 (\<lambda>s os. \<lparr>se_Subscription = s, se_Status = g s, se_Offers = os\<rparr>) xs ys) =
      map (\<lambda>s. (s, g s)) xs" if "length ys = length xs" for g xs and ys :: "Offer list list"
    using that by (induction xs ys rule: list_induct2') auto
  have snd2: "map se_Offers (map2 (\<lambda>s os. \<lparr>se_Subscription = s, se_Status = g s, se_Offers = os\<rparr>) xs (map h xs)) = map h xs" for g h xs
    by (induction xs) auto
  show ?thesis unfolding m o'(1) using fst2[OF o'(2)] snd2 by simp
qed

end
