(* ===== verification/Reconcile_Types.thy ===== *)
theory Reconcile_Types
  imports Subscribe
begin

text \<open>
  internal/reconcile/types.go: desired and observed state, the actions of a plan, and
  BuildDesired, which builds the desired state out of the configuration files.

  Desired.Repos is a Go map that Diff iterates: an association list in iteration order, whose
  keys BuildDesired keeps distinct. Maps that are only looked up are partial functions; where
  the code tells a nil map from an empty one, it is an option.
\<close>

section \<open>Desired state\<close>

record RepoDesired =
  rd_Path :: string
  rd_SyncthingFolderID :: string
  rd_Ignore :: "string list"
  rd_ShareWith :: "string list"
  rd_CommitPolicy :: string
  rd_IdleSeconds :: nat
  rd_GitInterval :: string
  rd_SkipSlots :: "nat list"
  rd_MachineSlot :: nat
  rd_GitCanonical :: string

record PeerDesired =
  pd_Name :: string
  pd_DeviceID :: string

record Desired =
  d_MachineName :: string
  d_Repos :: "(string \<times> RepoDesired) list"
  d_Peers :: "PeerDesired list"
  d_Subscriptions :: "SubscriptionEntry list"
  d_DefaultMirrorPath :: string

definition zero_RepoDesired :: RepoDesired where
  "zero_RepoDesired = \<lparr>rd_Path = [], rd_SyncthingFolderID = [], rd_Ignore = [], rd_ShareWith = [],
     rd_CommitPolicy = [], rd_IdleSeconds = 0, rd_GitInterval = [], rd_SkipSlots = [], rd_MachineSlot = 0,
     rd_GitCanonical = []\<rparr>"

definition DesiredForPath :: "Desired \<Rightarrow> string \<Rightarrow> RepoDesired option" where
  "DesiredForPath d path = map_of (d_Repos d) path"

definition slotSkipped :: "RepoDesired \<Rightarrow> bool" where
  "slotSkipped r \<longleftrightarrow> rd_MachineSlot r \<in> set (rd_SkipSlots r)"

section \<open>Observed state\<close>

record FolderObs =
  fo_SyncthingFolderID :: string
  fo_Path :: string
  fo_Devices :: "string list"
  fo_MarkerDirMissing :: bool
  fo_RescanIntervalS :: int
  fo_FsWatcherEnabled :: bool
  fo_Hashers :: int
  fo_Paused :: bool

record RepoObs =
  ro_Path :: string
  ro_HeadCommit :: string
  ro_IsDirty :: bool
  ro_LastBackupAt :: gotime
  ro_LastChangeAt :: gotime
  ro_IgnoreFileContent :: string
  ro_DevWorkflowActive :: bool

definition empty_RepoObs :: "string \<Rightarrow> RepoObs" where
  "empty_RepoObs path = \<lparr>ro_Path = path, ro_HeadCommit = [], ro_IsDirty = False, ro_LastBackupAt = 0,
     ro_LastChangeAt = 0, ro_IgnoreFileContent = [], ro_DevWorkflowActive = False\<rparr>"

record LivePeer =
  lp_DeviceID :: string
  lp_LastSeen :: gotime
  lp_Connected :: bool

record OfferedFolder =
  off_FolderID :: string
  off_Label :: string
  off_FromDeviceID :: string

record FolderHealth =
  fh_FilesystemReliable :: bool
  fh_OverflowSeen :: bool
  fh_WatchLimitHit :: bool
  fh_LastReliableEventAt :: gotime

record Observed =
  ob_ManagedFolders :: "FolderObs list"
  ob_TrackedRepos :: "RepoObs list"
  ob_LivePeers :: "LivePeer list"
  ob_CachedState :: "StateV2 option"
  ob_LastActivityByPath :: "(string \<Rightarrow> gotime option) option"
  ob_WatchHealthByPath :: "string \<Rightarrow> FolderHealth option"
  ob_SleepWakeSeen :: bool
  ob_LastRescanByPath :: "string \<Rightarrow> gotime option"
  ob_Now :: gotime
  ob_OfferedFolders :: "OfferedFolder list"
  ob_PeerNameByID :: "string \<Rightarrow> string option"

section \<open>Actions\<close>

datatype Action =
    AddSyncthingDevice (act_name: string) (act_device: string)
  | AddSyncthingFolder (act_folder: string) (act_path: string) (act_devices: "string list") (act_label: string)
  | AcceptSubscription (act_folder: string) (act_label: string) (act_path: string) (act_from_device: string)
      (act_from_name: string) (act_clone: string)
  | RemoveSyncthingFolder (act_folder: string)
  | UpdateSyncthingFolderDevices (act_folder: string) (act_devices: "string list")
  | UpdateSyncthingFolderSchedule (act_folder: string)
  | PauseSyncthingFolder (act_folder: string)
  | UnpauseSyncthingFolder (act_folder: string)
  | RescanFolderNow (act_folder: string) (act_path: string) (act_reason: string)
  | EnsureIgnoreFile (act_repo: string) (act_patterns: "string list")
  | EnsureFolderMarker (act_repo: string)
  | GitCommitDirty (act_repo: string) (act_message: string)
  | GitPushRepo (act_repo: string)
  | TrackRepo (act_path: string)
  | UntrackRepo (act_path: string)

type_synonym Plan = "Action list"

fun Describe :: "Action \<Rightarrow> string" where
  "Describe (AddSyncthingFolder f p _ _) = ''add Syncthing folder '' @ f @ '' at '' @ p"
| "Describe (AcceptSubscription _ l p _ _ c) =
     (if c \<noteq> '''' then ''accept subscription '' @ l @ '' (clone+mount '' @ p @ '')''
      else ''accept subscription '' @ l @ '' (mount '' @ p @ '')'')"
| "Describe (RemoveSyncthingFolder f) = ''remove Syncthing folder '' @ f"
| "Describe (UpdateSyncthingFolderDevices f _) = ''update devices for Syncthing folder '' @ f"
| "Describe (UpdateSyncthingFolderSchedule f) = ''update scheduler fields for Syncthing folder '' @ f"
| "Describe (PauseSyncthingFolder f) = ''pause idle Syncthing folder '' @ f"
| "Describe (UnpauseSyncthingFolder f) = ''unpause active Syncthing folder '' @ f"
| "Describe (RescanFolderNow f _ r) =
     (if r = '''' then ''rescan Syncthing folder '' @ f
      else ''rescan Syncthing folder '' @ f @ '' (reason: '' @ r @ '')'')"
| "Describe (EnsureIgnoreFile r _) = ''ensure Syncthing ignores for '' @ r"
| "Describe (EnsureFolderMarker r) = ''ensure Syncthing folder marker for '' @ r"
| "Describe (AddSyncthingDevice n _) = ''add Syncthing peer '' @ n"
| "Describe (GitCommitDirty r _) = ''git commit dirty repo '' @ r"
| "Describe (GitPushRepo r) = ''git push repo '' @ r"
| "Describe (TrackRepo p) = ''track repo '' @ p"
| "Describe (UntrackRepo p) = ''untrack repo '' @ p"

section \<open>BuildDesired\<close>

definition looksLikeDeviceID :: "string \<Rightarrow> bool" where
  "looksLikeDeviceID s \<longleftrightarrow> 7 \<le> length s \<and> CHR ''-'' \<in> set s \<and>
     list_all (\<lambda>r. r = CHR ''-'' \<or> is_upper r \<or> in_range 50 55 r) s"

fun resolve_names :: "(string \<Rightarrow> string option) \<Rightarrow> string set \<Rightarrow> string list \<Rightarrow> string list" where
  "resolve_names peersByName seen [] = []"
| "resolve_names peersByName seen (item # items) =
    (let deviceID = (case peersByName item of Some r \<Rightarrow> r
                     | None \<Rightarrow> if looksLikeDeviceID item then item else [])
     in if deviceID = [] \<or> deviceID \<in> seen then resolve_names peersByName seen items
        else deviceID # resolve_names peersByName (insert deviceID seen) items)"

definition resolveShareWith :: "string list \<Rightarrow> PeerDesired list \<Rightarrow> (string \<Rightarrow> string option) \<Rightarrow> string list" where
  "resolveShareWith namesOrIDs peers peersByName =
     (if namesOrIDs = [] then map pd_DeviceID peers else resolve_names peersByName {} namesOrIDs)"

text \<open>
  The peers: those of machine.toml, then those of state.toml, skipping an entry without name or
  device ID and a device ID already seen. A name given twice maps to the last device added under it.
\<close>

fun add_peers :: "PeerEntry list \<Rightarrow> string set \<Rightarrow> (string \<Rightarrow> string option) \<Rightarrow> PeerDesired list \<Rightarrow>
    PeerDesired list \<times> (string \<Rightarrow> string option)" where
  "add_peers [] seen byName acc = (acc, byName)"
| "add_peers (p # ps) seen byName acc =
    (if pe_Name p = '''' \<or> pe_DeviceID p = '''' \<or> pe_DeviceID p \<in> seen then add_peers ps seen byName acc
     else add_peers ps (insert (pe_DeviceID p) seen) (byName(pe_Name p := Some (pe_DeviceID p)))
            (acc @ [\<lparr>pd_Name = pe_Name p, pd_DeviceID = pe_DeviceID p\<rparr>]))"

definition desired_repo ::
    "MachineConfigV2 option \<Rightarrow> PeerDesired list \<Rightarrow> (string \<Rightarrow> string option) \<Rightarrow> string \<Rightarrow> RepoConfigV2 \<Rightarrow> RepoDesired" where
  "desired_repo machine peers byName path r =
    (let own = rs_ShareWith (rp_Sync r);
         shareWith = (if own = [] then (case machine of None \<Rightarrow> [] | Some m \<Rightarrow> mc_DefaultShareWith m) else own);
         defaultCommitPolicy = (case machine of None \<Rightarrow> ''manual'' | Some m \<Rightarrow> mc_DefaultCommitPolicy m);
         defaultGitInterval = (case machine of None \<Rightarrow> ''daily'' | Some m \<Rightarrow> mc_DefaultGitInterval m);
         machineSlot = (case machine of None \<Rightarrow> 0 | Some m \<Rightarrow> mc_Slot m)
     in \<lparr>rd_Path = path, rd_SyncthingFolderID = rs_SyncthingFolderID (rp_Sync r),
         rd_Ignore = MergeSyncIgnorePatterns (rs_Ignore (rp_Sync r)),
         rd_ShareWith = resolveShareWith shareWith peers byName,
         rd_CommitPolicy = default_str defaultCommitPolicy (rc_Policy (rp_Commit r)),
         rd_IdleSeconds = rc_IdleSeconds (rp_Commit r),
         rd_GitInterval = default_str defaultGitInterval (rb_Interval (rp_GitBackup r)),
         rd_SkipSlots = rb_SkipSlots (rp_GitBackup r), rd_MachineSlot = machineSlot,
         rd_GitCanonical = rg_Canonical (rp_Git r)\<rparr>)"

fun desired_repos ::
    "MachineConfigV2 option \<Rightarrow> PeerDesired list \<Rightarrow> (string \<Rightarrow> string option) \<Rightarrow>
     (string \<times> RepoConfigV2 option) list \<Rightarrow> (string \<times> RepoDesired) list" where
  "desired_repos machine peers byName [] = []"
| "desired_repos machine peers byName ((path, r) # rest) =
    (case r of None \<Rightarrow> desired_repos machine peers byName rest
     | Some cfg \<Rightarrow> (path, desired_repo machine peers byName path cfg) # desired_repos machine peers byName rest)"

definition BuildDesired ::
    "MachineConfigV2 option \<Rightarrow> (string \<times> RepoConfigV2 option) list \<Rightarrow> StateV2 option \<Rightarrow> Desired" where
  "BuildDesired machine repos state =
    (let entries = (case machine of None \<Rightarrow> [] | Some m \<Rightarrow> mc_Peers m) @
                   (case state of None \<Rightarrow> [] | Some s \<Rightarrow> st_Peers s);
         (peers, byName) = add_peers entries {} (\<lambda>_. None) [];
         declSubs = (case machine of None \<Rightarrow> [] | Some m \<Rightarrow> mc_Subscribe m);
         impSubs = (case state of None \<Rightarrow> [] | Some s \<Rightarrow> st_Subscriptions s);
         mirror = (case machine of None \<Rightarrow> []
                   | Some m \<Rightarrow> (case dc_ScanRoots (mc_Discovery m) of [] \<Rightarrow> [] | root # _ \<Rightarrow> root))
     in \<lparr>d_MachineName = (case machine of None \<Rightarrow> [] | Some m \<Rightarrow> mc_Name m),
         d_Repos = desired_repos machine peers byName repos, d_Peers = peers,
         d_Subscriptions = MergeSubscriptions declSubs impSubs, d_DefaultMirrorPath = mirror\<rparr>)"

section \<open>Lemmas\<close>

text \<open>The peer loop is the first-occurrence merge on device IDs.\<close>

definition peer_of :: "PeerEntry \<Rightarrow> PeerDesired" where
  "peer_of p = \<lparr>pd_Name = pe_Name p, pd_DeviceID = pe_DeviceID p\<rparr>"

definition peer_complete :: "PeerEntry \<Rightarrow> bool" where
  "peer_complete p \<longleftrightarrow> pe_Name p \<noteq> '''' \<and> pe_DeviceID p \<noteq> ''''"

lemma add_peers_fst: "fst (add_peers ps seen byName acc) = acc @ map peer_of (keep_first pe_DeviceID peer_complete seen ps)"
  by (induction ps arbitrary: seen byName acc) (auto simp: peer_of_def peer_complete_def)

lemma add_peers_snd:
  "ran (snd (add_peers ps seen byName acc)) \<subseteq> ran byName \<union> pe_DeviceID ` set (keep_first pe_DeviceID peer_complete seen ps)"
proof (induction ps arbitrary: seen byName acc)
  case (Cons p ps)
  have r: "ran (f(k := Some v)) \<subseteq> insert v (ran f)" for f :: "string \<Rightarrow> string option" and k v
    by (auto simp: ran_def)
  show ?case
  proof (cases "pe_Name p = '''' \<or> pe_DeviceID p = '''' \<or> pe_DeviceID p \<in> seen")
    case True
    then show ?thesis using Cons.IH[of seen byName acc] by (auto simp: peer_complete_def)
  next
    case False
    then have s: "add_peers (p # ps) seen byName acc = add_peers ps (insert (pe_DeviceID p) seen)
        (byName(pe_Name p := Some (pe_DeviceID p))) (acc @ [peer_of p])"
      "keep_first pe_DeviceID peer_complete seen (p # ps) = p # keep_first pe_DeviceID peer_complete (insert (pe_DeviceID p) seen) ps"
      by (simp_all add: peer_of_def peer_complete_def)
    have "ran (byName(pe_Name p := Some (pe_DeviceID p))) \<subseteq> insert (pe_DeviceID p) (ran byName)" by (rule r)
    then show ?thesis unfolding s
      using Cons.IH[of "insert (pe_DeviceID p) seen" "byName(pe_Name p := Some (pe_DeviceID p))" "acc @ [peer_of p]"]
      unfolding list.set image_insert by blast
  qed
qed simp

interpretation peer_roster: roster_merge
  "\<lambda>decl imp. keep_first pe_DeviceID peer_complete {} (decl @ imp)" pe_DeviceID peer_complete
  by (rule roster_merge_keep_first)

lemma resolve_names_distinct: "distinct (resolve_names byName seen items) \<and> set (resolve_names byName seen items) \<inter> seen = {}"
  by (induction items arbitrary: seen) (auto simp: Let_def split: option.splits)

lemma resolve_names_set:
  "set (resolve_names byName seen items) \<subseteq> ran byName \<union> {s. looksLikeDeviceID s}"
  by (induction items arbitrary: seen) (auto simp: Let_def ran_def split: option.splits)

lemma resolve_names_nonempty: "[] \<notin> set (resolve_names byName seen items)"
  by (induction items arbitrary: seen) (auto simp: Let_def split: option.splits)

lemma desired_repos_keys: "map fst (desired_repos m peers byName repos) = map fst (filter (\<lambda>(_, r). r \<noteq> None) repos)"
  by (induction m peers byName repos rule: desired_repos.induct) (auto split: option.splits)

lemma desired_repos_mem:
  "(path, rd) \<in> set (desired_repos m peers byName repos) \<longleftrightarrow>
   (\<exists>cfg. (path, Some cfg) \<in> set repos \<and> rd = desired_repo m peers byName path cfg)"
  by (induction m peers byName repos rule: desired_repos.induct) (auto split: option.splits)

section \<open>Properties\<close>

text \<open>
  C22: the desired state is well formed whatever the configuration files say: peers have distinct,
  non-empty device IDs; every repository is filed under its own path; its sharing list has no
  empty and no repeated device; and a repository shares only with peers of the roster or with devices
  that were spelled out as device IDs.
\<close>

theorem BuildDesired_wf:
  "let d = BuildDesired machine repos state in
     distinct (map pd_DeviceID (d_Peers d)) \<and> '''' \<notin> pd_DeviceID ` set (d_Peers d) \<and>
     (\<forall>pr\<in>set (d_Repos d). rd_Path (snd pr) = fst pr \<and> distinct (rd_ShareWith (snd pr)) \<and>
        '''' \<notin> set (rd_ShareWith (snd pr)) \<and>
        (\<forall>dev\<in>set (rd_ShareWith (snd pr)). dev \<in> pd_DeviceID ` set (d_Peers d) \<or> looksLikeDeviceID dev))"
proof -
  let ?entries = "(case machine of None \<Rightarrow> [] | Some m \<Rightarrow> mc_Peers m) @ (case state of None \<Rightarrow> [] | Some s \<Rightarrow> st_Peers s)"
  obtain peers byName where pb: "add_peers ?entries {} (\<lambda>_. None) [] = (peers, byName)" by (rule prod.exhaust)
  let ?k = "keep_first pe_DeviceID peer_complete {} ?entries"
  have peers: "peers = map peer_of ?k" using add_peers_fst[of ?entries "{}" "\<lambda>_. None" "[]"] pb by simp
  have ids: "map pd_DeviceID peers = map pe_DeviceID ?k" by (simp add: peers peer_of_def)
  have ran: "ran byName \<subseteq> set (map pd_DeviceID peers)"
    using add_peers_snd[of ?entries "{}" "\<lambda>_. None" "[]"] pb unfolding ids by simp
  have dist: "distinct (map pd_DeviceID peers)" unfolding ids by (rule distinct_keep_first)
  have ne: "[] \<notin> set (map pd_DeviceID peers)"
    unfolding ids using set_keep_first[of pe_DeviceID peer_complete "{}" ?entries] by (auto simp: peer_complete_def)
  have bd: "d_Peers (BuildDesired machine repos state) = peers"
      "d_Repos (BuildDesired machine repos state) = desired_repos machine peers byName repos"
    unfolding BuildDesired_def Let_def pb by simp_all
  have share: "distinct (resolveShareWith xs peers byName) \<and> [] \<notin> set (resolveShareWith xs peers byName) \<and>
      set (resolveShareWith xs peers byName) \<subseteq> set (map pd_DeviceID peers) \<union> {s. looksLikeDeviceID s}" for xs
    using dist ne ran resolve_names_distinct[of byName "{}" xs] resolve_names_set[of byName "{}" xs]
      resolve_names_nonempty[of byName "{}" xs] unfolding resolveShareWith_def by auto
  have repo: "rd_Path rd = path \<and> (\<exists>xs. rd_ShareWith rd = resolveShareWith xs peers byName)"
    if "(path, rd) \<in> set (desired_repos machine peers byName repos)" for path rd
    using that unfolding desired_repos_mem by (auto simp: desired_repo_def Let_def)
  have "rd_Path (snd pr) = fst pr \<and> distinct (rd_ShareWith (snd pr)) \<and> '''' \<notin> set (rd_ShareWith (snd pr)) \<and>
      (\<forall>dev\<in>set (rd_ShareWith (snd pr)). dev \<in> pd_DeviceID ` set peers \<or> looksLikeDeviceID dev)"
    if pr: "pr \<in> set (desired_repos machine peers byName repos)" for pr
  proof -
    obtain xs where "rd_Path (snd pr) = fst pr" "rd_ShareWith (snd pr) = resolveShareWith xs peers byName"
      using repo[of "fst pr" "snd pr"] pr by auto
    then show ?thesis using share[of xs] by auto
  qed
  then show ?thesis unfolding Let_def bd using dist ne by simp
qed

theorem BuildDesired_wf_witness:
  "let d = BuildDesired None [(''/a'', Some \<lparr>rp_SchemaVersion = 2, rp_Meta = \<lparr>rm_Name = [], rm_Added = [], rm_AddedBy = []\<rparr>,
        rp_Sync = \<lparr>rs_SyncthingFolderID = ''fa'', rs_Ignore = [], rs_ShareWith = [''laptop'', ''laptop'']\<rparr>,
        rp_Commit = \<lparr>rc_Policy = [], rc_IdleSeconds = 0\<rparr>, rp_GitBackup = \<lparr>rb_Interval = [], rb_SkipSlots = []\<rparr>,
        rp_Git = \<lparr>rg_Remote = [], rg_Canonical = []\<rparr>\<rparr>)]
        (Some (fresh_state\<lparr>st_Peers := [\<lparr>pe_Name = ''laptop'', pe_DeviceID = ''D1'', pe_LearnedAt = 0\<rparr>]\<rparr>))
   in list_all (\<lambda>pr. distinct (rd_ShareWith (snd pr))) (d_Repos d) \<and> map (rd_ShareWith \<circ> snd) (d_Repos d) = [[''D1'']]"
  unfolding Let_def list_all_iff
proof (intro conjI ballI, goal_cases)
  case (1 pr)
  then show ?case using BuildDesired_wf[unfolded Let_def] by blast
next
  case 2
  show ?case
    by (simp add: BuildDesired_def desired_repo_def Let_def resolveShareWith_def fresh_state_def)
qed

end
