(* ===== verification/Diff.thy ===== *)
theory Diff
  imports Reconcile_Types
begin

text \<open>
  internal/reconcile/diff.go: the plan that moves the observed state to the desired one.
  \<open>repoBackupDue\<close> is called with \<open>time.Now()\<close> although Diff carries its clock in Observed.Now: the
  wall clock is a separate argument here, with one reading for the whole pass.
  \<open>sort.Slice\<close> is a stable sort by the key; the two agree whenever the keys are distinct.
\<close>

section \<open>time.ParseDuration and intervals\<close>

definition wrap64 :: "int \<Rightarrow> int" where
  "wrap64 x = (x + 2 ^ 63) mod 2 ^ 64 - 2 ^ 63"

text \<open>\<open>leadingInt\<close>: None is the overflow error.\<close>

fun leadingInt :: "nat \<Rightarrow> string \<Rightarrow> (nat \<times> string) option" where
  "leadingInt x [] = Some (x, [])"
| "leadingInt x (c # s) =
    (if is_digit c then
       (if 2 ^ 63 div 10 < x then None
        else let y = x * 10 + (of_char c - 48) in if 2 ^ 63 < y then None else leadingInt y s)
     else Some (x, c # s))"

text \<open>\<open>leadingFraction\<close>: digits past the overflow are read and ignored.\<close>

fun leadingFraction :: "nat \<Rightarrow> nat \<Rightarrow> bool \<Rightarrow> string \<Rightarrow> nat \<times> nat \<times> string" where
  "leadingFraction x scale overflow [] = (x, scale, [])"
| "leadingFraction x scale overflow (c # s) =
    (if is_digit c then
       (if overflow then leadingFraction x scale True s
        else if (2 ^ 63 - 1) div 10 < x then leadingFraction x scale True s
        else let y = x * 10 + (of_char c - 48) in
             if 2 ^ 63 < y then leadingFraction x scale True s else leadingFraction y (scale * 10) False s)
     else (x, scale, c # s))"

definition unitMap :: "string \<Rightarrow> nat option" where
  "unitMap u =
    (if u = ''ns'' then Some 1
     else if u = ''us'' \<or> u = [CHR 0xC2, CHR 0xB5] @ ''s'' \<or> u = [CHR 0xCE, CHR 0xBC] @ ''s'' then Some 1000
     else if u = ''ms'' then Some 1000000
     else if u = ''s'' then Some 1000000000
     else if u = ''m'' then Some 60000000000
     else if u = ''h'' then Some 3600000000000 else None)"

definition not_number_char :: "char \<Rightarrow> bool" where
  "not_number_char c \<longleftrightarrow> \<not> (is_digit c \<or> c = CHR ''.'')"

text \<open>One number and unit; the fraction is scaled exactly (Go scales it in float64).\<close>

definition pd_step :: "string \<Rightarrow> (nat \<times> string) option" where
  "pd_step s =
    (if not_number_char (hd s) then None
     else (case leadingInt 0 s of
        None \<Rightarrow> None
      | Some (v, s1) \<Rightarrow>
         let pre = (s1 \<noteq> s);
             (f, scale, s2) = (if HasPrefix s1 ''.'' then leadingFraction 0 1 False (tl s1) else (0, 1, s1));
             post = (HasPrefix s1 ''.'' \<and> s2 \<noteq> tl s1);
             u = takeWhile not_number_char s2
         in if \<not> pre \<and> \<not> post then None
            else if u = [] then None
            else (case unitMap u of
               None \<Rightarrow> None
             | Some w \<Rightarrow>
                 if 2 ^ 63 div w < v then None
                 else let v' = v * w + f * w div scale in
                   if 2 ^ 63 < v' then None else Some (v', dropWhile not_number_char s2))))"

lemma leadingInt_shrinks: "leadingInt x s = Some (v, r) \<Longrightarrow> length r \<le> length s"
  by (induction x s arbitrary: v r rule: leadingInt.induct) (auto simp: Let_def split: if_splits, fastforce+)

lemma leadingFraction_shrinks: "leadingFraction x sc ov s = (f, sc', r) \<Longrightarrow> length r \<le> length s"
  by (induction x sc ov s arbitrary: f sc' r rule: leadingFraction.induct) (auto simp: Let_def split: if_splits, fastforce+)

lemma dropWhile_shrinks: "takeWhile P s \<noteq> [] \<Longrightarrow> length (dropWhile P s) < length s"
  by (metis length_append length_greater_0_conv less_add_same_cancel2 takeWhile_dropWhile_id)

lemma pd_step_shrinks: "pd_step s = Some (v, r) \<Longrightarrow> length r < length s"
proof -
  assume a: "pd_step s = Some (v, r)"
  then obtain v1 s1 where 1: "leadingInt 0 s = Some (v1, s1)" by (auto simp: pd_step_def split: if_splits option.splits)
  obtain f scale s2 where 2: "(if HasPrefix s1 ''.'' then leadingFraction 0 1 False (tl s1) else (0, 1, s1)) = (f, scale, s2)"
    by (rule prod_cases3)
  have l1: "length s1 \<le> length s" by (rule leadingInt_shrinks[OF 1])
  have l2: "length s2 \<le> length s1"
    using 2 leadingFraction_shrinks[of 0 1 False "tl s1" f scale s2] by (auto split: if_splits)
  from a have "takeWhile not_number_char s2 \<noteq> [] \<and> r = dropWhile not_number_char s2"
    unfolding pd_step_def 1 option.case prod.case Let_def 2 by (auto split: if_splits option.splits)
  then show ?thesis using dropWhile_shrinks l1 l2 by fastforce
qed

function pd_loop :: "nat \<Rightarrow> string \<Rightarrow> nat option" where
  "pd_loop d s =
    (if s = [] then Some d
     else (case pd_step s of
        None \<Rightarrow> None
      | Some (v, r) \<Rightarrow> if 2 ^ 63 < d + v then None else pd_loop (d + v) r))"
  by pat_completeness auto
termination
  by (relation "measure (\<lambda>(d, s). length s)") (auto simp: pd_step_shrinks)

declare pd_loop.simps [simp del]

definition ParseDuration :: "string \<Rightarrow> dur option" where
  "ParseDuration s0 =
    (let neg = HasPrefix s0 ''-''; s = (if neg \<or> HasPrefix s0 ''+'' then tl s0 else s0) in
     if s = ''0'' then Some 0
     else if s = [] then None
     else (case pd_loop 0 s of
        None \<Rightarrow> None
      | Some d \<Rightarrow> if neg then Some (- int d) else if 2 ^ 63 - 1 < d then None else Some (int d)))"

definition parseGitInterval :: "string \<Rightarrow> dur" where
  "parseGitInterval raw =
    (if raw = ''hourly'' then Hour
     else if raw = '''' \<or> raw = ''daily'' then 24 * Hour
     else if raw = ''weekly'' then 7 * 24 * Hour
     else if raw = ''monthly'' then 30 * 24 * Hour
     else (case ParseDuration raw of None \<Rightarrow> 0 | Some d \<Rightarrow> d))"

section \<open>Git backup\<close>

definition idle_for :: "RepoDesired \<Rightarrow> dur" where
  "idle_for d = (if 0 < rd_IdleSeconds d then wrap64 (wrap64 (int (rd_IdleSeconds d)) * Second) else 5 * Minute)"

definition backup_interval :: "RepoDesired \<Rightarrow> dur" where
  "backup_interval d = (let i = parseGitInterval (rd_GitInterval d) in if i \<le> 0 then Hour else i)"

definition repoBackupDue :: "RepoDesired \<Rightarrow> RepoObs \<Rightarrow> gotime \<Rightarrow> bool" where
  "repoBackupDue desired observed now =
    (if rd_CommitPolicy desired = ''on-idle'' then
       (if ro_IsDirty observed then
          (if IsZero (ro_LastChangeAt observed) then True
           else \<not> time_After (ro_LastChangeAt observed) (time_Add now (wrap64 (- idle_for desired))))
        else True)
     else if rd_CommitPolicy desired = ''timer'' then
       (if IsZero (ro_LastBackupAt observed) then True
        else \<not> time_After (time_Add (ro_LastBackupAt observed) (backup_interval desired)) now)
     else False)"

section \<open>Folder checks\<close>

fun stringSlicesEqual_loop :: "string list \<Rightarrow> string list \<Rightarrow> bool" where
  "stringSlicesEqual_loop [] b = True"
| "stringSlicesEqual_loop (x # a) b = (case b of [] \<Rightarrow> False | y # b' \<Rightarrow> if x \<noteq> y then False else stringSlicesEqual_loop a b')"

definition stringSlicesEqual :: "string list \<Rightarrow> string list \<Rightarrow> bool" where
  "stringSlicesEqual a b = (if length a \<noteq> length b then False else stringSlicesEqual_loop a b)"

definition sortedCopy :: "string list \<Rightarrow> string list" where
  "sortedCopy s = sort s"

definition RescanBackstopReliable :: dur where "RescanBackstopReliable = 7 * 24 * Hour"
definition RescanBackstopUnreliable :: dur where "RescanBackstopUnreliable = 24 * Hour"
definition IdleThresholdForPause :: dur where "IdleThresholdForPause = 24 * Hour"
definition RecentActivityForUnpause :: dur where "RecentActivityForUnpause = 1 * Minute"

text \<open>The canonical scheduler values of stclient.\<close>

definition CanonicalRescanIntervalS :: int where "CanonicalRescanIntervalS = 0"
definition CanonicalFsWatcherEnabled :: bool where "CanonicalFsWatcherEnabled = True"
definition CanonicalHashers :: int where "CanonicalHashers = 1"

definition smartRescanAction :: "FolderObs \<Rightarrow> string \<Rightarrow> Observed \<Rightarrow> Action option" where
  "smartRescanAction obs folderPath observed =
    (let mk = (\<lambda>reason. Some (RescanFolderNow (fo_SyncthingFolderID obs) folderPath reason));
         health = ob_WatchHealthByPath observed folderPath;
         reliable = (case health of None \<Rightarrow> False | Some h \<Rightarrow> fh_FilesystemReliable h)
     in if ob_SleepWakeSeen observed then mk ''suspend/resume detected''
        else if (case health of None \<Rightarrow> False | Some h \<Rightarrow> fh_OverflowSeen h) then mk ''event queue overflow''
        else if (case health of None \<Rightarrow> False | Some h \<Rightarrow> fh_WatchLimitHit h) then mk ''watch limit reached''
        else let backstop = (if reliable then RescanBackstopReliable else RescanBackstopUnreliable);
                 lastRescan = (case ob_LastRescanByPath observed folderPath of None \<Rightarrow> 0 | Some t \<Rightarrow> t)
             in if IsZero lastRescan then None
                else if backstop \<le> time_Sub (ob_Now observed) lastRescan
                then (if reliable then mk ''weekly backstop'' else mk ''daily backstop (untrusted filesystem)'')
                else None)"

definition autoPauseAction :: "FolderObs \<Rightarrow> string \<Rightarrow> (string \<Rightarrow> gotime option) \<Rightarrow> gotime \<Rightarrow> Action option" where
  "autoPauseAction obs folderPath activity now =
    (case activity folderPath of
       None \<Rightarrow> None
     | Some last' \<Rightarrow>
         if fo_Paused obs then
           (if time_Sub now last' \<le> RecentActivityForUnpause then Some (UnpauseSyncthingFolder (fo_SyncthingFolderID obs)) else None)
         else if IdleThresholdForPause \<le> time_Sub now last' then Some (PauseSyncthingFolder (fo_SyncthingFolderID obs))
         else None)"

definition folderScheduleDrifted :: "FolderObs \<Rightarrow> bool" where
  "folderScheduleDrifted obs =
    (if fo_RescanIntervalS obs \<noteq> CanonicalRescanIntervalS then True
     else if fo_FsWatcherEnabled obs \<noteq> CanonicalFsWatcherEnabled then True
     else if fo_Hashers obs \<noteq> CanonicalHashers then True
     else False)"

definition defaultMirrorPath :: "string \<Rightarrow> Acceptance \<Rightarrow> string" where
  "defaultMirrorPath mirrorRoot0 acc =
    (let mirrorRoot = default_str ''~/Documents/GitHub'' mirrorRoot0;
         sub = ac_Subscription acc;
         name = (if sub_Canonical sub \<noteq> '''' then path_Base (sub_Canonical sub)
                 else if sub_Name sub \<noteq> '''' then sub_Name sub else ''unnamed-folder'')
     in path_Join mirrorRoot (TrimSuffix name ''.git''))"

section \<open>Diff\<close>

record desiredFolder =
  df_folderID :: string
  df_path :: string
  df_devices :: "string list"
  df_canonical :: string

text \<open>A Go map filled by assignment from a list: the last element with a key is the one found.\<close>

definition index_last :: "('a \<Rightarrow> string) \<Rightarrow> 'a list \<Rightarrow> string \<Rightarrow> 'a option" where
  "index_last key xs = map_of (rev (map (\<lambda>x. (key x, x)) xs))"

definition opt_list :: "'a option \<Rightarrow> 'a list" where
  "opt_list x = (case x of None \<Rightarrow> [] | Some a \<Rightarrow> [a])"

definition peer_actions :: "Desired \<Rightarrow> Observed \<Rightarrow> Plan" where
  "peer_actions desired observed =
    map (\<lambda>p. AddSyncthingDevice (pd_Name p) (pd_DeviceID p))
      (filter (\<lambda>p. pd_DeviceID p \<noteq> '''' \<and> pd_DeviceID p \<notin> set (map lp_DeviceID (ob_LivePeers observed))) (d_Peers desired))"

definition desired_folders :: "Desired \<Rightarrow> desiredFolder list" where
  "desired_folders desired = sort_key df_folderID
    (map (\<lambda>(_, r). \<lparr>df_folderID = rd_SyncthingFolderID r, df_path = rd_Path r, df_devices = rd_ShareWith r,
                     df_canonical = rd_GitCanonical r\<rparr>)
      (filter (\<lambda>(_, r). rd_SyncthingFolderID r \<noteq> '''') (d_Repos desired)))"

definition folder_actions :: "Desired \<Rightarrow> Observed \<Rightarrow> desiredFolder \<Rightarrow> Plan" where
  "folder_actions desired observed df =
    (let found = index_last fo_SyncthingFolderID (ob_ManagedFolders observed) (df_folderID df);
         repoDesired = (case map_of (d_Repos desired) (df_path df) of None \<Rightarrow> zero_RepoDesired | Some r \<Rightarrow> r);
         repoObs = (case index_last ro_Path (ob_TrackedRepos observed) (df_path df) of
                      None \<Rightarrow> empty_RepoObs (df_path df) | Some r \<Rightarrow> r);
         wantIgnore = SyncIgnoreFileContent (rd_Ignore repoDesired)
     in (case found of
           None \<Rightarrow> [AddSyncthingFolder (df_folderID df) (df_path df) (df_devices df) (df_canonical df)]
         | Some obs \<Rightarrow>
             (if \<not> stringSlicesEqual (sortedCopy (fo_Devices obs)) (sortedCopy (df_devices df))
              then [UpdateSyncthingFolderDevices (df_folderID df) (df_devices df)] else []) @
             (if folderScheduleDrifted obs then [UpdateSyncthingFolderSchedule (df_folderID df)] else []) @
             (if fo_MarkerDirMissing obs then [EnsureFolderMarker (df_path df)] else []) @
             (case ob_LastActivityByPath observed of
                None \<Rightarrow> []
              | Some activity \<Rightarrow> opt_list (autoPauseAction obs (df_path df) activity (ob_Now observed))) @
             (if \<not> fo_Paused obs then opt_list (smartRescanAction obs (df_path df) observed) else [])) @
        (if ro_IgnoreFileContent repoObs \<noteq> wantIgnore then [EnsureIgnoreFile (df_path df) (rd_Ignore repoDesired)] else []))"

definition subscription_acceptances :: "Desired \<Rightarrow> Observed \<Rightarrow> Acceptance list" where
  "subscription_acceptances desired observed =
    (if d_Subscriptions desired = [] then []
     else rs_Acceptances (Resolve (d_Subscriptions desired)
        (map (\<lambda>o'. \<lparr>of_FolderID = off_FolderID o', of_Label = off_Label o',
                     of_FromPeerName = (case ob_PeerNameByID observed (off_FromDeviceID o') of None \<Rightarrow> [] | Some n \<Rightarrow> n),
                     of_FromDeviceID = off_FromDeviceID o'\<rparr>) (ob_OfferedFolders observed))
        (\<lambda>id. id \<in> set (map fo_SyncthingFolderID (ob_ManagedFolders observed)))))"

definition accept_action :: "Desired \<Rightarrow> Acceptance \<Rightarrow> Action" where
  "accept_action desired acc =
    (let o' = ac_Offer acc; p = sub_Path (ac_Subscription acc)
     in AcceptSubscription (of_FolderID o') (of_Label o')
          (if p = '''' then defaultMirrorPath (d_DefaultMirrorPath desired) acc else p)
          (of_FromDeviceID o') (of_FromPeerName o') [])"

definition remove_actions :: "Desired \<Rightarrow> Observed \<Rightarrow> Plan" where
  "remove_actions desired observed =
    (let wanted = set (map df_folderID (desired_folders desired));
         accepted = set (map (\<lambda>a. of_FolderID (ac_Offer a)) (subscription_acceptances desired observed))
     in map (\<lambda>obs. RemoveSyncthingFolder (fo_SyncthingFolderID obs))
          (filter (\<lambda>obs. fo_SyncthingFolderID obs \<notin> wanted \<and> fo_SyncthingFolderID obs \<notin> accepted)
            (sort_key fo_SyncthingFolderID (ob_ManagedFolders observed))))"

definition alreadyPushed :: "Observed \<Rightarrow> RepoObs \<Rightarrow> bool" where
  "alreadyPushed observed repo = (case ob_CachedState observed of
      None \<Rightarrow> False
    | Some s \<Rightarrow> (case map_of (st_ObservedRepos s) (ro_Path repo) of
                   None \<Rightarrow> False | Some obs \<Rightarrow> or_LastPushedCommit obs = ro_HeadCommit repo))"

definition repo_actions :: "Desired \<Rightarrow> Observed \<Rightarrow> gotime \<Rightarrow> RepoObs \<Rightarrow> Plan" where
  "repo_actions desired observed wall repo =
    (case DesiredForPath desired (ro_Path repo) of
       None \<Rightarrow> []
     | Some rd \<Rightarrow>
         if rd_CommitPolicy rd = ''manual'' \<or> slotSkipped rd then []
         else let due = repoBackupDue rd repo wall in
           if due \<and> ro_DevWorkflowActive repo then []
           else (if ro_IsDirty repo \<and> due then [GitCommitDirty (ro_Path repo) ''auto: scheduled backup''] else []) @
                (if ro_HeadCommit repo \<noteq> '''' \<and> due \<and> \<not> alreadyPushed observed repo then [GitPushRepo (ro_Path repo)] else []))"

definition Diff :: "gotime \<Rightarrow> Desired \<Rightarrow> Observed \<Rightarrow> Plan" where
  "Diff wall desired observed =
     peer_actions desired observed @
     concat (map (folder_actions desired observed) (desired_folders desired)) @
     map (accept_action desired) (subscription_acceptances desired observed) @
     remove_actions desired observed @
     concat (map (repo_actions desired observed wall) (sort_key ro_Path (ob_TrackedRepos observed)))"

section \<open>Lookups\<close>

lemma index_last_append: "index_last key (xs @ [x]) k = (if key x = k then Some x else index_last key xs k)"
  by (auto simp: index_last_def)

lemma index_last_Nil [simp]: "index_last key [] k = None" by (simp add: index_last_def)

lemma index_last_map:
  assumes "\<And>x. key (h x) = key x"
  shows "index_last key (map h xs) k = map_option h (index_last key xs k)"
proof (induction xs rule: rev_induct)
  case (snoc x xs)
  then show ?case by (simp add: index_last_append assms)
qed simp

lemma index_last_filter:
  "index_last key (filter (\<lambda>x. key x \<noteq> f) xs) k = (if k = f then None else index_last key xs k)"
proof (induction xs rule: rev_induct)
  case (snoc x xs)
  then show ?case by (auto simp: index_last_append)
qed simp

lemma index_last_None: "index_last key xs k = None \<longleftrightarrow> k \<notin> key ` set xs"
  by (induction xs rule: rev_induct) (auto simp: index_last_append)

lemma index_last_Some: "index_last key xs k = Some x \<Longrightarrow> x \<in> set xs \<and> key x = k"
  by (induction xs rule: rev_induct) (auto simp: index_last_append split: if_splits)

lemma index_last_perm:
  assumes "mset xs = mset ys" "distinct (map key xs)"
  shows "index_last key xs = index_last key ys"
proof -
  have d: "distinct (map key ys)" using assms by (metis mset_map mset_eq_imp_distinct_iff)
  have f: "map fst (rev (map (\<lambda>x. (key x, x)) zs)) = rev (map key zs)" for zs by (simp add: rev_map)
  show ?thesis unfolding index_last_def
  proof (rule map_of_inject_set[THEN iffD2])
    show "set (rev (map (\<lambda>x. (key x, x)) xs)) = set (rev (map (\<lambda>x. (key x, x)) ys))"
      using mset_eq_setD[OF assms(1)] by simp
  qed (simp_all only: f distinct_rev assms(2) d)
qed

lemma stringSlicesEqual_iff: "stringSlicesEqual a b \<longleftrightarrow> a = b"
proof -
  have "length a = length b \<Longrightarrow> stringSlicesEqual_loop a b \<longleftrightarrow> a = b" for a b
    by (induction a arbitrary: b) (auto split: list.splits)
  then show ?thesis by (auto simp: stringSlicesEqual_def)
qed

lemma sortedCopy_eq_iff: "sortedCopy a = sortedCopy b \<longleftrightarrow> mset a = mset b"
  unfolding sortedCopy_def by (metis mset_sort properties_for_sort sorted_sort)

lemma desired_folders_set:
  "df \<in> set (desired_folders d) \<longleftrightarrow>
   (\<exists>k r. (k, r) \<in> set (d_Repos d) \<and> rd_SyncthingFolderID r \<noteq> '''' \<and>
     df = \<lparr>df_folderID = rd_SyncthingFolderID r, df_path = rd_Path r, df_devices = rd_ShareWith r, df_canonical = rd_GitCanonical r\<rparr>)"
  by (auto simp: desired_folders_def image_iff)

section \<open>Kinds of actions\<close>

fun structural :: "Action \<Rightarrow> bool" where
  "structural (AddSyncthingDevice _ _) = True"
| "structural (AddSyncthingFolder _ _ _ _) = True"
| "structural (RemoveSyncthingFolder _) = True"
| "structural (UpdateSyncthingFolderDevices _ _) = True"
| "structural (UpdateSyncthingFolderSchedule _) = True"
| "structural (EnsureIgnoreFile _ _) = True"
| "structural (EnsureFolderMarker _) = True"
| "structural _ = False"

lemma autoPause_cases:
  "autoPauseAction obs p act now = Some a \<Longrightarrow>
   a = PauseSyncthingFolder (fo_SyncthingFolderID obs) \<and> \<not> fo_Paused obs \<or>
   a = UnpauseSyncthingFolder (fo_SyncthingFolderID obs) \<and> fo_Paused obs"
  by (auto simp: autoPauseAction_def split: option.splits if_splits)

lemma smartRescan_cases:
  "smartRescanAction obs p ob = Some a \<Longrightarrow> \<exists>r. a = RescanFolderNow (fo_SyncthingFolderID obs) p r"
  by (auto simp: smartRescanAction_def Let_def split: if_splits)

lemma repo_actions_cases:
  "a \<in> set (repo_actions d ob wall r) \<Longrightarrow> (\<exists>m. a = GitCommitDirty (ro_Path r) m) \<or> a = GitPushRepo (ro_Path r)"
  by (auto simp: repo_actions_def Let_def split: option.splits if_splits)

lemma folder_actions_cases:
  assumes "a \<in> set (folder_actions d ob df)"
  shows "(\<exists>p l ds. a = AddSyncthingFolder (df_folderID df) p ds l) \<or> (\<exists>ds. a = UpdateSyncthingFolderDevices (df_folderID df) ds) \<or>
     a = UpdateSyncthingFolderSchedule (df_folderID df) \<or> a = EnsureFolderMarker (df_path df) \<or>
     a = PauseSyncthingFolder (df_folderID df) \<or> a = UnpauseSyncthingFolder (df_folderID df) \<or>
     (\<exists>r. a = RescanFolderNow (df_folderID df) (df_path df) r) \<or> (\<exists>ps. a = EnsureIgnoreFile (df_path df) ps)"
proof (cases "index_last fo_SyncthingFolderID (ob_ManagedFolders ob) (df_folderID df)")
  case None
  then show ?thesis using assms by (auto simp: folder_actions_def Let_def split: if_splits)
next
  case (Some obs)
  have k: "fo_SyncthingFolderID obs = df_folderID df" using index_last_Some[OF Some] by simp
  from assms consider "\<exists>ds. a = UpdateSyncthingFolderDevices (df_folderID df) ds" | "a = UpdateSyncthingFolderSchedule (df_folderID df)"
    | "a = EnsureFolderMarker (df_path df)" | act where "autoPauseAction obs (df_path df) act (ob_Now ob) = Some a"
    | "smartRescanAction obs (df_path df) ob = Some a" | "\<exists>ps. a = EnsureIgnoreFile (df_path df) ps"
    by (auto simp: folder_actions_def Let_def Some opt_list_def split: if_splits option.splits)
  then show ?thesis
  proof cases
    case 4
    then show ?thesis using autoPause_cases[OF 4] unfolding k by blast
  next
    case 5
    then show ?thesis using smartRescan_cases[OF 5] unfolding k by blast
  qed simp_all
qed

section \<open>Properties\<close>

lemma map_of_perm:
  assumes "mset xs = mset ys" "distinct (map fst xs)"
  shows "map_of xs = map_of ys"
proof -
  have "distinct (map fst ys)" using assms by (metis mset_map mset_eq_imp_distinct_iff)
  then show ?thesis using map_of_inject_set[OF assms(2)] mset_eq_setD[OF assms(1)] by blast
qed

lemma desired_folders_perm:
  assumes "mset rs = mset (d_Repos d)"
    and "distinct (map df_folderID (desired_folders d))"
  shows "desired_folders (d\<lparr>d_Repos := rs\<rparr>) = desired_folders d"
proof -
  let ?P = "\<lambda>(_, r). rd_SyncthingFolderID r \<noteq> ''''"
  let ?f = "\<lambda>(_, r). \<lparr>df_folderID = rd_SyncthingFolderID r, df_path = rd_Path r, df_devices = rd_ShareWith r, df_canonical = rd_GitCanonical r\<rparr>"
  let ?xs = "map ?f (filter ?P (d_Repos d))" and ?ys = "map ?f (filter ?P rs)"
  have m: "mset ?xs = mset ?ys" using assms(1) by (simp add: mset_filter)
  have "mset (map df_folderID (sort_key df_folderID ?xs)) = mset (map df_folderID ?xs)" by (simp only: mset_map mset_sort)
  then have "distinct (map df_folderID ?xs)"
    using assms(2) unfolding desired_folders_def by (rule mset_eq_imp_distinct_iff[THEN iffD1])
  from sort_key_perm_eq[OF m this] show ?thesis by (simp add: desired_folders_def)
qed


definition demo_repo :: "string \<Rightarrow> string \<Rightarrow> string list \<Rightarrow> string \<Rightarrow> RepoDesired" where
  "demo_repo path fid devs policy = zero_RepoDesired\<lparr>rd_Path := path, rd_SyncthingFolderID := fid, rd_ShareWith := devs,
     rd_CommitPolicy := policy\<rparr>"

definition demo_desired :: Desired where
  "demo_desired = \<lparr>d_MachineName = ''box'', d_Repos = [(''/b'', demo_repo ''/b'' ''fb'' [''D2''] ''timer''), (''/a'', demo_repo ''/a'' ''fa'' [''D1''] ''manual'')],
     d_Peers = [\<lparr>pd_Name = ''p1'', pd_DeviceID = ''D1''\<rparr>], d_Subscriptions = [], d_DefaultMirrorPath = []\<rparr>"

definition demo_folder :: "string \<Rightarrow> string \<Rightarrow> FolderObs" where
  "demo_folder fid path = \<lparr>fo_SyncthingFolderID = fid, fo_Path = path, fo_Devices = [''D1''], fo_MarkerDirMissing = True,
     fo_RescanIntervalS = 60, fo_FsWatcherEnabled = True, fo_Hashers = 0, fo_Paused = False\<rparr>"

definition demo_observed :: Observed where
  "demo_observed = \<lparr>ob_ManagedFolders = [demo_folder ''fb'' ''/b'', demo_folder ''old'' ''/old''],
     ob_TrackedRepos = [(empty_RepoObs ''/b'')\<lparr>ro_IsDirty := True, ro_HeadCommit := ''c1''\<rparr>, empty_RepoObs ''/a''],
     ob_LivePeers = [], ob_CachedState = None, ob_LastActivityByPath = Some [''/b'' \<mapsto> 0],
     ob_WatchHealthByPath = (\<lambda>_. None), ob_SleepWakeSeen = False, ob_LastRescanByPath = [''/b'' \<mapsto> 1],
     ob_Now = 48 * Hour, ob_OfferedFolders = [], ob_PeerNameByID = (\<lambda>_. None)\<rparr>"


text \<open>
  C6: a folder is removed from Syncthing exactly when Syncthing has it, no managed repository uses
  its ID and no subscription accepted in this pass names it. In particular a pass never removes a
  folder it adds, updates or accepts.
\<close>

theorem Diff_removes_exactly_unwanted:
  "RemoveSyncthingFolder f \<in> set (Diff wall d ob) \<longleftrightarrow>
     f \<in> fo_SyncthingFolderID ` set (ob_ManagedFolders ob) \<and>
     \<not> (\<exists>k r. (k, r) \<in> set (d_Repos d) \<and> rd_SyncthingFolderID r = f \<and> f \<noteq> '''') \<and>
     f \<notin> (\<lambda>a. of_FolderID (ac_Offer a)) ` set (subscription_acceptances d ob)"
proof -
  have 1: "RemoveSyncthingFolder f \<notin> set (peer_actions d ob)" by (auto simp: peer_actions_def)
  have 2: "RemoveSyncthingFolder f \<notin> set (concat (map (folder_actions d ob) (desired_folders d)))"
    using folder_actions_cases[of "RemoveSyncthingFolder f" d ob] by auto
  have 3: "RemoveSyncthingFolder f \<notin> set (map (accept_action d) (subscription_acceptances d ob))"
    by (auto simp: accept_action_def Let_def)
  have 4: "RemoveSyncthingFolder f \<notin> set (concat (map (repo_actions d ob wall) (sort_key ro_Path (ob_TrackedRepos ob))))"
    using repo_actions_cases[of "RemoveSyncthingFolder f" d ob wall] by auto
  have w: "f \<in> set (map df_folderID (desired_folders d)) \<longleftrightarrow> (\<exists>k r. (k, r) \<in> set (d_Repos d) \<and> rd_SyncthingFolderID r = f \<and> f \<noteq> '''')"
  proof
    assume "\<exists>k r. (k, r) \<in> set (d_Repos d) \<and> rd_SyncthingFolderID r = f \<and> f \<noteq> ''''"
    then obtain k r where kr: "(k, r) \<in> set (d_Repos d)" "rd_SyncthingFolderID r = f" "f \<noteq> ''''" by blast
    let ?df = "\<lparr>df_folderID = rd_SyncthingFolderID r, df_path = rd_Path r, df_devices = rd_ShareWith r, df_canonical = rd_GitCanonical r\<rparr>"
    have "?df \<in> set (desired_folders d)" unfolding desired_folders_set using kr by blast
    then show "f \<in> set (map df_folderID (desired_folders d))" using kr(2) by force
  next
    assume "f \<in> set (map df_folderID (desired_folders d))"
    then obtain df where "df \<in> set (desired_folders d)" "df_folderID df = f" by auto
    then show "\<exists>k r. (k, r) \<in> set (d_Repos d) \<and> rd_SyncthingFolderID r = f \<and> f \<noteq> ''''"
      unfolding desired_folders_set by force
  qed
  have "RemoveSyncthingFolder f \<in> set (Diff wall d ob) \<longleftrightarrow> RemoveSyncthingFolder f \<in> set (remove_actions d ob)"
    unfolding Diff_def set_append Un_iff using 1 2 3 4 by blast
  also have "\<dots> \<longleftrightarrow> f \<in> fo_SyncthingFolderID ` set (ob_ManagedFolders ob) \<and> f \<notin> set (map df_folderID (desired_folders d)) \<and>
     f \<notin> (\<lambda>a. of_FolderID (ac_Offer a)) ` set (subscription_acceptances d ob)"
    unfolding remove_actions_def Let_def by auto
  finally show ?thesis unfolding w .
qed

definition backup_allowed :: "Desired \<Rightarrow> gotime \<Rightarrow> RepoObs \<Rightarrow> bool" where
  "backup_allowed d wall r \<longleftrightarrow> (case DesiredForPath d (ro_Path r) of None \<Rightarrow> False
     | Some rd \<Rightarrow> rd_CommitPolicy rd \<in> {''on-idle'', ''timer''} \<and> \<not> slotSkipped rd \<and> repoBackupDue rd r wall \<and>
         \<not> ro_DevWorkflowActive r)"

lemma repo_actions_iff:
  "a \<in> set (repo_actions d ob wall r) \<longleftrightarrow> backup_allowed d wall r \<and>
     (a = GitCommitDirty (ro_Path r) ''auto: scheduled backup'' \<and> ro_IsDirty r \<or>
      a = GitPushRepo (ro_Path r) \<and> ro_HeadCommit r \<noteq> '''' \<and> \<not> alreadyPushed ob r)"
proof (cases "DesiredForPath d (ro_Path r)")
  case None
  then show ?thesis by (simp add: repo_actions_def backup_allowed_def)
next
  case (Some rd)
  have pol: "repoBackupDue rd r wall \<Longrightarrow> rd_CommitPolicy rd \<in> {''on-idle'', ''timer''}"
    by (auto simp: repoBackupDue_def split: if_splits)
  have man: "rd_CommitPolicy rd \<in> {''on-idle'', ''timer''} \<Longrightarrow> rd_CommitPolicy rd \<noteq> ''manual''" by auto
  have "a \<in> set (repo_actions d ob wall r) \<longleftrightarrow> rd_CommitPolicy rd \<noteq> ''manual'' \<and> \<not> slotSkipped rd \<and>
     repoBackupDue rd r wall \<and> \<not> ro_DevWorkflowActive r \<and>
     (a = GitCommitDirty (ro_Path r) ''auto: scheduled backup'' \<and> ro_IsDirty r \<or>
      a = GitPushRepo (ro_Path r) \<and> ro_HeadCommit r \<noteq> '''' \<and> \<not> alreadyPushed ob r)"
    unfolding repo_actions_def Some option.case Let_def by (simp split: if_splits) blast
  then show ?thesis unfolding backup_allowed_def Some option.case using pol man by blast
qed

text \<open>
  C7: git is touched only where the policy asks for it: a commit is planned exactly for a dirty
  tracked repository, a push exactly for one whose head is known and not yet recorded as pushed, both
  only when the repository is managed with policy on-idle or timer, this machine's slot is not
  skipped, the backup is due, and no rebase, merge, cherry-pick or bisect is in progress.
\<close>

theorem Diff_git_actions:
  "(GitCommitDirty p m \<in> set (Diff wall d ob) \<longleftrightarrow> m = ''auto: scheduled backup'' \<and>
      (\<exists>r. r \<in> set (ob_TrackedRepos ob) \<and> ro_Path r = p \<and> backup_allowed d wall r \<and> ro_IsDirty r)) \<and>
   (GitPushRepo p \<in> set (Diff wall d ob) \<longleftrightarrow>
      (\<exists>r. r \<in> set (ob_TrackedRepos ob) \<and> ro_Path r = p \<and> backup_allowed d wall r \<and> ro_HeadCommit r \<noteq> '''' \<and> \<not> alreadyPushed ob r))"
proof -
  have o1: "a \<notin> set (peer_actions d ob)" "a \<notin> set (concat (map (folder_actions d ob) (desired_folders d)))"
    "a \<notin> set (map (accept_action d) (subscription_acceptances d ob))" "a \<notin> set (remove_actions d ob)"
    if "a = GitCommitDirty p m \<or> a = GitPushRepo p" for a
  proof -
    show "a \<notin> set (peer_actions d ob)" using that by (auto simp: peer_actions_def)
    show "a \<notin> set (concat (map (folder_actions d ob) (desired_folders d)))"
    proof
      assume "a \<in> set (concat (map (folder_actions d ob) (desired_folders d)))"
      then obtain df where "a \<in> set (folder_actions d ob df)" by auto
      from folder_actions_cases[OF this] that show False by auto
    qed
    show "a \<notin> set (map (accept_action d) (subscription_acceptances d ob))" using that by (auto simp: accept_action_def Let_def)
    show "a \<notin> set (remove_actions d ob)" using that by (auto simp: remove_actions_def Let_def)
  qed
  have "a \<in> set (Diff wall d ob) \<longleftrightarrow> (\<exists>r\<in>set (ob_TrackedRepos ob). a \<in> set (repo_actions d ob wall r))"
    if "a = GitCommitDirty p m \<or> a = GitPushRepo p" for a
    unfolding Diff_def set_append Un_iff using o1[OF that] by simp
  then show ?thesis unfolding repo_actions_iff by auto
qed

text \<open>
  C24: auto-pause does not flap: a folder paused at some time stays untouched by the rule at every
  later time as long as no new activity is seen, and a folder woken by recent activity is not paused
  again within a day less the one-minute wake window.
\<close>

theorem autoPause_no_flapping:
  assumes "autoPauseAction obs path activity now = Some a" "now \<le> t"
  shows "(fo_Paused obs = False \<and> a = PauseSyncthingFolder (fo_SyncthingFolderID obs) \<and>
            autoPauseAction (obs\<lparr>fo_Paused := True\<rparr>) path activity t = None) \<or>
         (fo_Paused obs = True \<and> a = UnpauseSyncthingFolder (fo_SyncthingFolderID obs) \<and>
            (IdleThresholdForPause - RecentActivityForUnpause \<le> t - now \<or>
             autoPauseAction (obs\<lparr>fo_Paused := False\<rparr>) path activity t = None))"
proof -
  obtain l where l: "activity path = Some l" using assms(1) by (auto simp: autoPauseAction_def split: option.splits)
  note defs = IdleThresholdForPause_def RecentActivityForUnpause_def dur_defs
  have m: "time_Sub now l \<le> time_Sub t l" using assms(2) by (rule time_Sub_mono)
  have ge: "IdleThresholdForPause \<le> time_Sub x l \<longleftrightarrow> IdleThresholdForPause \<le> x - l" for x
    by (rule time_Sub_ge_iff) (simp_all add: defs minDur_def maxDur_def)
  have le: "time_Sub x l \<le> RecentActivityForUnpause \<longleftrightarrow> x - l \<le> RecentActivityForUnpause" for x
    by (rule time_Sub_le_iff) (simp_all add: defs minDur_def maxDur_def)
  have lt: "RecentActivityForUnpause < IdleThresholdForPause" by (simp add: defs)
  show ?thesis
  proof (cases "fo_Paused obs")
    case True
    then have "a = UnpauseSyncthingFolder (fo_SyncthingFolderID obs)" "now - l \<le> RecentActivityForUnpause"
      using assms(1) by (auto simp: autoPauseAction_def l le split: if_splits)
    then show ?thesis using True by (auto simp: autoPauseAction_def l ge)
  next
    case False
    then have "a = PauseSyncthingFolder (fo_SyncthingFolderID obs)" "IdleThresholdForPause \<le> now - l"
      using assms(1) by (auto simp: autoPauseAction_def l ge split: if_splits)
    then show ?thesis using False assms(2) lt by (simp add: autoPauseAction_def l le)
  qed
qed

theorem autoPause_no_flapping_witness:
  "autoPauseAction ((demo_folder ''fb'' ''/b'')\<lparr>fo_Paused := True\<rparr>) ''/b'' [''/b'' \<mapsto> 0] (72 * Hour) = None"
proof -
  have a: "autoPauseAction (demo_folder ''fb'' ''/b'') ''/b'' [''/b'' \<mapsto> 0] (48 * Hour) = Some (PauseSyncthingFolder ''fb'')"
    by (simp add: autoPauseAction_def demo_folder_def time_Sub_def IdleThresholdForPause_def dur_defs maxDur_def minDur_def)
  show ?thesis using autoPause_no_flapping[OF a, of "72 * Hour"] by (simp add: demo_folder_def dur_defs)
qed

text \<open>
  A quiet folder whose rescan backstop is due is paused and, by the very next action of the same
  plan, asked to rescan: the check that spares paused folders looks at the state before the plan.
\<close>

theorem Diff_pauses_then_rescans:
  assumes "df \<in> set (desired_folders d)" "index_last fo_SyncthingFolderID (ob_ManagedFolders ob) (df_folderID df) = Some obs"
    and "ob_LastActivityByPath ob = Some activity"
    and "autoPauseAction obs (df_path df) activity (ob_Now ob) = Some (PauseSyncthingFolder (df_folderID df))"
    and "smartRescanAction obs (df_path df) ob = Some rescan"
  shows "\<exists>before after. Diff wall d ob = before @ [PauseSyncthingFolder (df_folderID df), rescan] @ after \<and> act_folder rescan = df_folderID df"
proof -
  have np: "\<not> fo_Paused obs" using assms(4) by (auto simp: autoPauseAction_def split: option.splits if_splits)
  have k: "fo_SyncthingFolderID obs = df_folderID df" using index_last_Some[OF assms(2)] by simp
  have r: "act_folder rescan = df_folderID df" using smartRescan_cases[OF assms(5)] k by auto
  obtain xs ys where f: "folder_actions d ob df = xs @ [PauseSyncthingFolder (df_folderID df), rescan] @ ys"
  proof
    show "folder_actions d ob df =
       ((if \<not> stringSlicesEqual (sortedCopy (fo_Devices obs)) (sortedCopy (df_devices df))
              then [UpdateSyncthingFolderDevices (df_folderID df) (df_devices df)] else []) @
             (if folderScheduleDrifted obs then [UpdateSyncthingFolderSchedule (df_folderID df)] else []) @
             (if fo_MarkerDirMissing obs then [EnsureFolderMarker (df_path df)] else [])) @
       [PauseSyncthingFolder (df_folderID df), rescan] @
       (let repoDesired = (case map_of (d_Repos d) (df_path df) of None \<Rightarrow> zero_RepoDesired | Some r \<Rightarrow> r) in
        if ro_IgnoreFileContent (case index_last ro_Path (ob_TrackedRepos ob) (df_path df) of
                      None \<Rightarrow> empty_RepoObs (df_path df) | Some r \<Rightarrow> r) \<noteq> SyncIgnoreFileContent (rd_Ignore repoDesired)
        then [EnsureIgnoreFile (df_path df) (rd_Ignore repoDesired)] else [])"
      unfolding folder_actions_def Let_def assms(2) option.case assms(3,4,5) opt_list_def using np by simp
  qed
  obtain us vs where "desired_folders d = us @ df # vs" using assms(1) by (meson split_list)
  then have "\<exists>before after. Diff wall d ob = before @ [PauseSyncthingFolder (df_folderID df), rescan] @ after"
    unfolding Diff_def
    by (intro exI[of _ "peer_actions d ob @ concat (map (folder_actions d ob) us) @ xs"]
        exI[of _ "ys @ concat (map (folder_actions d ob) vs) @ map (accept_action d) (subscription_acceptances d ob) @
          remove_actions d ob @ concat (map (repo_actions d ob wall) (sort_key ro_Path (ob_TrackedRepos ob)))"]) (simp add: f)
  then show ?thesis using r by blast
qed

theorem Diff_pauses_then_rescans_witness:
  "\<exists>before after. Diff 0 demo_desired demo_observed = before @
     [PauseSyncthingFolder ''fb'', RescanFolderNow ''fb'' ''/b'' ''daily backstop (untrusted filesystem)''] @ after"
proof -
  let ?df = "\<lparr>df_folderID = ''fb'', df_path = ''/b'', df_devices = [''D2''], df_canonical = []\<rparr>"
  have 1: "?df \<in> set (desired_folders demo_desired)"
    unfolding desired_folders_set
    by (rule exI[of _ "''/b''"], rule exI[of _ "demo_repo ''/b'' ''fb'' [''D2''] ''timer''"])
      (simp add: demo_desired_def demo_repo_def zero_RepoDesired_def)
  have 2: "index_last fo_SyncthingFolderID (ob_ManagedFolders demo_observed) ''fb'' = Some (demo_folder ''fb'' ''/b'')"
    by (simp add: demo_observed_def demo_folder_def index_last_def)
  have 3: "ob_LastActivityByPath demo_observed = Some [''/b'' \<mapsto> 0]" by (simp add: demo_observed_def)
  have 4: "autoPauseAction (demo_folder ''fb'' ''/b'') ''/b'' [''/b'' \<mapsto> 0] (ob_Now demo_observed) = Some (PauseSyncthingFolder ''fb'')"
    by (simp add: autoPauseAction_def demo_observed_def demo_folder_def time_Sub_def IdleThresholdForPause_def dur_defs maxDur_def minDur_def)
  have 5: "smartRescanAction (demo_folder ''fb'' ''/b'') ''/b'' demo_observed =
      Some (RescanFolderNow ''fb'' ''/b'' ''daily backstop (untrusted filesystem)'')"
    by (simp add: smartRescanAction_def Let_def demo_observed_def demo_folder_def time_Sub_def IsZero_def RescanBackstopUnreliable_def
        dur_defs maxDur_def minDur_def)
  show ?thesis using Diff_pauses_then_rescans[OF 1, of demo_observed "demo_folder ''fb'' ''/b''" "[''/b'' \<mapsto> 0]"] 2 3 4 5 by auto
qed

section \<open>Convergence\<close>

text \<open>
  What the providers observe after an action has been applied, as far as the folder, peer and ignore
  checks read it; commits and pushes do not show there.
\<close>

definition new_folder :: "string \<Rightarrow> string \<Rightarrow> string list \<Rightarrow> FolderObs" where
  "new_folder f p devs = \<lparr>fo_SyncthingFolderID = f, fo_Path = p, fo_Devices = devs, fo_MarkerDirMissing = False,
     fo_RescanIntervalS = CanonicalRescanIntervalS, fo_FsWatcherEnabled = CanonicalFsWatcherEnabled,
     fo_Hashers = CanonicalHashers, fo_Paused = False\<rparr>"

definition on_folder :: "(FolderObs \<Rightarrow> bool) \<Rightarrow> (FolderObs \<Rightarrow> FolderObs) \<Rightarrow> Observed \<Rightarrow> Observed" where
  "on_folder P h ob = ob\<lparr>ob_ManagedFolders := map (\<lambda>x. if P x then h x else x) (ob_ManagedFolders ob)\<rparr>"

fun observe_after :: "Action \<Rightarrow> Observed \<Rightarrow> Observed" where
  "observe_after (AddSyncthingDevice n dev) ob = ob\<lparr>ob_LivePeers := ob_LivePeers ob @ [\<lparr>lp_DeviceID = dev, lp_LastSeen = 0, lp_Connected = False\<rparr>]\<rparr>"
| "observe_after (AddSyncthingFolder f p devs l) ob = ob\<lparr>ob_ManagedFolders := ob_ManagedFolders ob @ [new_folder f p devs]\<rparr>"
| "observe_after (AcceptSubscription f l p dev n c) ob = ob\<lparr>ob_ManagedFolders := ob_ManagedFolders ob @ [new_folder f p [dev]]\<rparr>"
| "observe_after (RemoveSyncthingFolder f) ob = ob\<lparr>ob_ManagedFolders := filter (\<lambda>x. fo_SyncthingFolderID x \<noteq> f) (ob_ManagedFolders ob)\<rparr>"
| "observe_after (UpdateSyncthingFolderDevices f devs) ob = on_folder (\<lambda>x. fo_SyncthingFolderID x = f) (\<lambda>x. x\<lparr>fo_Devices := devs\<rparr>) ob"
| "observe_after (UpdateSyncthingFolderSchedule f) ob = on_folder (\<lambda>x. fo_SyncthingFolderID x = f)
     (\<lambda>x. x\<lparr>fo_RescanIntervalS := CanonicalRescanIntervalS, fo_FsWatcherEnabled := CanonicalFsWatcherEnabled, fo_Hashers := CanonicalHashers\<rparr>) ob"
| "observe_after (EnsureFolderMarker p) ob = on_folder (\<lambda>x. fo_Path x = p) (\<lambda>x. x\<lparr>fo_MarkerDirMissing := False\<rparr>) ob"
| "observe_after (PauseSyncthingFolder f) ob = on_folder (\<lambda>x. fo_SyncthingFolderID x = f) (\<lambda>x. x\<lparr>fo_Paused := True\<rparr>) ob"
| "observe_after (UnpauseSyncthingFolder f) ob = on_folder (\<lambda>x. fo_SyncthingFolderID x = f) (\<lambda>x. x\<lparr>fo_Paused := False\<rparr>) ob"
| "observe_after (RescanFolderNow f p r) ob = ob\<lparr>ob_LastRescanByPath := (ob_LastRescanByPath ob)(p \<mapsto> ob_Now ob)\<rparr>"
| "observe_after (EnsureIgnoreFile p ps) ob = ob\<lparr>ob_TrackedRepos :=
     map (\<lambda>r. if ro_Path r = p then r\<lparr>ro_IgnoreFileContent := SyncIgnoreFileContent ps\<rparr> else r) (ob_TrackedRepos ob)\<rparr>"
| "observe_after (GitCommitDirty p m) ob = ob"
| "observe_after (GitPushRepo p) ob = ob"
| "observe_after (TrackRepo p) ob = ob"
| "observe_after (UntrackRepo p) ob = ob"

abbreviation folder_at :: "Observed \<Rightarrow> string \<Rightarrow> FolderObs option" where
  "folder_at ob \<equiv> index_last fo_SyncthingFolderID (ob_ManagedFolders ob)"

abbreviation repo_at :: "Observed \<Rightarrow> string \<Rightarrow> RepoObs option" where
  "repo_at ob \<equiv> index_last ro_Path (ob_TrackedRepos ob)"

definition folder_ignore :: "Desired \<Rightarrow> string \<Rightarrow> string list" where
  "folder_ignore d p = rd_Ignore (case map_of (d_Repos d) p of None \<Rightarrow> zero_RepoDesired | Some r \<Rightarrow> r)"

text \<open>A desired folder is settled when no structural action is due for it.\<close>

definition folder_settled :: "desiredFolder \<Rightarrow> FolderObs \<Rightarrow> bool" where
  "folder_settled df o' \<longleftrightarrow> mset (fo_Devices o') = mset (df_devices df) \<and> \<not> folderScheduleDrifted o' \<and> \<not> fo_MarkerDirMissing o'"

definition settled :: "Desired \<Rightarrow> desiredFolder \<Rightarrow> Observed \<Rightarrow> bool" where
  "settled d df ob \<longleftrightarrow> (\<exists>o'. folder_at ob (df_folderID df) = Some o' \<and> folder_settled df o') \<and>
     (\<exists>r. repo_at ob (df_path df) = Some r \<and> ro_IgnoreFileContent r = SyncIgnoreFileContent (folder_ignore d (df_path df)))"

lemma folderScheduleDrifted_iff:
  "folderScheduleDrifted o' \<longleftrightarrow> fo_RescanIntervalS o' \<noteq> CanonicalRescanIntervalS \<or>
     fo_FsWatcherEnabled o' \<noteq> CanonicalFsWatcherEnabled \<or> fo_Hashers o' \<noteq> CanonicalHashers"
  by (simp add: folderScheduleDrifted_def)

lemma drift_updates [simp]:
  "folderScheduleDrifted (o'\<lparr>fo_Devices := ds\<rparr>) = folderScheduleDrifted o'"
  "folderScheduleDrifted (o'\<lparr>fo_MarkerDirMissing := b\<rparr>) = folderScheduleDrifted o'"
  "folderScheduleDrifted (o'\<lparr>fo_Paused := b\<rparr>) = folderScheduleDrifted o'"
  by (simp_all add: folderScheduleDrifted_iff)

lemma settled_no_structural:
  assumes "settled d df ob" "a \<in> set (folder_actions d ob df)"
  shows "\<not> structural a"
proof -
  obtain o' r where o': "folder_at ob (df_folderID df) = Some o'" "folder_settled df o'"
    and r: "repo_at ob (df_path df) = Some r" "ro_IgnoreFileContent r = SyncIgnoreFileContent (folder_ignore d (df_path df))"
    using assms(1) by (auto simp: settled_def)
  have eq: "stringSlicesEqual (sortedCopy (fo_Devices o')) (sortedCopy (df_devices df))"
    using o'(2) unfolding stringSlicesEqual_iff sortedCopy_eq_iff folder_settled_def by blast
  have "(\<exists>act. autoPauseAction o' (df_path df) act (ob_Now ob) = Some a) \<or> smartRescanAction o' (df_path df) ob = Some a"
    using assms(2) o'(2) eq r(2) unfolding folder_actions_def Let_def o'(1) r(1) option.case folder_ignore_def folder_settled_def
    by (auto simp: opt_list_def split: if_splits option.splits)
  then show ?thesis
  proof (elim disjE exE)
    fix act assume "autoPauseAction o' (df_path df) act (ob_Now ob) = Some a"
    from autoPause_cases[OF this] show ?thesis by auto
  next
    assume "smartRescanAction o' (df_path df) ob = Some a"
    from smartRescan_cases[OF this] show ?thesis by auto
  qed
qed

lemma folder_at_on_folder:
  assumes "\<And>x. fo_SyncthingFolderID (h x) = fo_SyncthingFolderID x"
  shows "folder_at (on_folder P h ob) k = map_option (\<lambda>x. if P x then h x else x) (folder_at ob k)"
  unfolding on_folder_def using assms by (simp add: index_last_map)

lemma folder_at_after:
  "folder_at (observe_after a ob) k = (case a of
      AddSyncthingFolder f p devs l \<Rightarrow> if f = k then Some (new_folder f p devs) else folder_at ob k
    | AcceptSubscription f l p dev n c \<Rightarrow> if f = k then Some (new_folder f p [dev]) else folder_at ob k
    | RemoveSyncthingFolder f \<Rightarrow> if k = f then None else folder_at ob k
    | UpdateSyncthingFolderDevices f devs \<Rightarrow> map_option (\<lambda>x. if fo_SyncthingFolderID x = f then x\<lparr>fo_Devices := devs\<rparr> else x) (folder_at ob k)
    | UpdateSyncthingFolderSchedule f \<Rightarrow> map_option (\<lambda>x. if fo_SyncthingFolderID x = f then x\<lparr>fo_RescanIntervalS := CanonicalRescanIntervalS,
         fo_FsWatcherEnabled := CanonicalFsWatcherEnabled, fo_Hashers := CanonicalHashers\<rparr> else x) (folder_at ob k)
    | EnsureFolderMarker p \<Rightarrow> map_option (\<lambda>x. if fo_Path x = p then x\<lparr>fo_MarkerDirMissing := False\<rparr> else x) (folder_at ob k)
    | PauseSyncthingFolder f \<Rightarrow> map_option (\<lambda>x. if fo_SyncthingFolderID x = f then x\<lparr>fo_Paused := True\<rparr> else x) (folder_at ob k)
    | UnpauseSyncthingFolder f \<Rightarrow> map_option (\<lambda>x. if fo_SyncthingFolderID x = f then x\<lparr>fo_Paused := False\<rparr> else x) (folder_at ob k)
    | _ \<Rightarrow> folder_at ob k)"
  by (cases a) (simp_all add: index_last_append index_last_filter folder_at_on_folder new_folder_def)

lemma repo_at_after:
  "repo_at (observe_after a ob) k = (case a of
      EnsureIgnoreFile p ps \<Rightarrow> map_option (\<lambda>r. if ro_Path r = p then r\<lparr>ro_IgnoreFileContent := SyncIgnoreFileContent ps\<rparr> else r) (repo_at ob k)
    | _ \<Rightarrow> repo_at ob k)"
  by (cases a) (simp_all add: on_folder_def index_last_map)

declare observe_after.simps [simp del]

abbreviation run :: "Plan \<Rightarrow> Observed \<Rightarrow> Observed" where "run \<equiv> fold observe_after"

lemma folder_actions_settle:
  assumes f1: "folder_at ob1 (df_folderID df) = folder_at ob (df_folderID df)"
    and path: "\<And>x. folder_at ob (df_folderID df) = Some x \<Longrightarrow> fo_Path x = df_path df"
    and r1: "repo_at ob1 (df_path df) = repo_at ob (df_path df)" and r: "repo_at ob (df_path df) \<noteq> None"
  shows "settled d df (run (folder_actions d ob df) ob1) \<and>
    (\<forall>x. folder_at (run (folder_actions d ob df) ob1) (df_folderID df) = Some x \<longrightarrow> fo_Path x = df_path df)"
proof -
  let ?k = "df_folderID df" and ?p = "df_path df"
  obtain rp where rp: "repo_at ob ?p = Some rp" using r by blast
  have rpk: "ro_Path rp = ?p" using index_last_Some[OF rp] by simp
  define ign where "ign = (if ro_IgnoreFileContent rp \<noteq> SyncIgnoreFileContent (folder_ignore d ?p) then [EnsureIgnoreFile ?p (folder_ignore d ?p)] else [])"
  have ignore: "folder_at (run ign ob2) ?k = folder_at ob2 ?k \<and>
     (\<exists>r'. repo_at (run ign ob2) ?p = Some r' \<and> ro_IgnoreFileContent r' = SyncIgnoreFileContent (folder_ignore d ?p))"
    if "repo_at ob2 ?p = Some rp" for ob2
    using that rpk by (simp add: ign_def folder_at_after repo_at_after)
  show ?thesis
  proof (cases "folder_at ob ?k")
    case None
    have fa: "folder_actions d ob df = [AddSyncthingFolder ?k ?p (df_devices df) (df_canonical df)] @ ign"
      unfolding folder_actions_def Let_def None rp option.case ign_def folder_ignore_def by simp
    let ?ob2 = "observe_after (AddSyncthingFolder ?k ?p (df_devices df) (df_canonical df)) ob1"
    have "folder_at ?ob2 ?k = Some (new_folder ?k ?p (df_devices df))" "repo_at ?ob2 ?p = Some rp"
      unfolding folder_at_after repo_at_after by (simp_all add: r1 rp)
    moreover have "folder_settled df (new_folder ?k ?p (df_devices df)) \<and> fo_Path (new_folder ?k ?p (df_devices df)) = ?p"
      by (simp add: folder_settled_def new_folder_def folderScheduleDrifted_def)
    ultimately show ?thesis using ignore[of ?ob2] unfolding fa settled_def by simp
  next
    case (Some x)
    have xk: "fo_SyncthingFolderID x = ?k" using index_last_Some[OF Some] by simp
    have xp: "fo_Path x = ?p" by (rule path[OF Some])
    let ?c1 = "\<not> stringSlicesEqual (sortedCopy (fo_Devices x)) (sortedCopy (df_devices df))"
    define a1 where "a1 = (if ?c1 then [UpdateSyncthingFolderDevices ?k (df_devices df)] else [])"
    define a2 where "a2 = (if folderScheduleDrifted x then [UpdateSyncthingFolderSchedule ?k] else [])"
    define a3 where "a3 = (if fo_MarkerDirMissing x then [EnsureFolderMarker ?p] else [])"
    define a4 where "a4 = (case ob_LastActivityByPath ob of None \<Rightarrow> []
                | Some activity \<Rightarrow> opt_list (autoPauseAction x ?p activity (ob_Now ob)))"
    define a5 where "a5 = (if \<not> fo_Paused x then opt_list (smartRescanAction x ?p ob) else [])"
    have fa: "folder_actions d ob df = a1 @ a2 @ a3 @ a4 @ a5 @ ign"
      unfolding folder_actions_def Let_def Some rp option.case ign_def folder_ignore_def a1_def a2_def a3_def a4_def a5_def by simp
    let ?good = "\<lambda>P ob2. \<exists>y. folder_at ob2 ?k = Some y \<and> fo_SyncthingFolderID y = ?k \<and> fo_Path y = ?p \<and> P y"
    let ?dev = "\<lambda>y. mset (fo_Devices y) = mset (df_devices df)"
    have s1: "folder_at (run a1 ob1) ?k = Some (if ?c1 then x\<lparr>fo_Devices := df_devices df\<rparr> else x)"
      using f1 Some xk by (simp add: a1_def folder_at_after)
    have "mset (fo_Devices x) = mset (df_devices df)" if "\<not> ?c1"
      using that unfolding stringSlicesEqual_iff sortedCopy_eq_iff by simp
    then obtain y1 where y1: "folder_at (run a1 ob1) ?k = Some y1" "fo_SyncthingFolderID y1 = ?k" "fo_Path y1 = ?p" "?dev y1"
        "folderScheduleDrifted y1 = folderScheduleDrifted x" "fo_MarkerDirMissing y1 = fo_MarkerDirMissing x"
      using s1 xk xp by (cases ?c1) simp_all
    have "\<exists>y2. folder_at (run a2 (run a1 ob1)) ?k = Some y2 \<and> fo_SyncthingFolderID y2 = ?k \<and> fo_Path y2 = ?p \<and> ?dev y2 \<and>
        \<not> folderScheduleDrifted y2 \<and> fo_MarkerDirMissing y2 = fo_MarkerDirMissing x"
      using y1 by (cases "folderScheduleDrifted x") (simp_all add: a2_def folder_at_after folderScheduleDrifted_iff)
    then obtain y2 where y2: "folder_at (run a2 (run a1 ob1)) ?k = Some y2" "fo_SyncthingFolderID y2 = ?k" "fo_Path y2 = ?p" "?dev y2"
        "\<not> folderScheduleDrifted y2" "fo_MarkerDirMissing y2 = fo_MarkerDirMissing x" by blast
    have "\<exists>y3. folder_at (run a3 (run a2 (run a1 ob1))) ?k = Some y3 \<and> fo_Path y3 = ?p \<and> folder_settled df y3"
      using y2 by (cases "fo_MarkerDirMissing x") (simp_all add: a3_def folder_at_after folder_settled_def)
    then obtain y3 where y3: "folder_at (run a3 (run a2 (run a1 ob1))) ?k = Some y3" "fo_Path y3 = ?p" "folder_settled df y3" by blast
    have keep: "\<exists>y'. folder_at (observe_after a ob2) ?k = Some y' \<and> fo_Path y' = ?p \<and> folder_settled df y'"
      if "folder_at ob2 ?k = Some y" "fo_Path y = ?p" "folder_settled df y"
         "(\<exists>f. a = PauseSyncthingFolder f) \<or> (\<exists>f. a = UnpauseSyncthingFolder f) \<or> (\<exists>f p r. a = RescanFolderNow f p r)" for a ob2 y
      using that by (auto simp: folder_at_after folder_settled_def)
    have k4: "a4 = [] \<or> (\<exists>a. a4 = [a] \<and> ((\<exists>f. a = PauseSyncthingFolder f) \<or> (\<exists>f. a = UnpauseSyncthingFolder f)))"
      using autoPause_cases[of x ?p _ "ob_Now ob"] by (auto simp: a4_def opt_list_def split: option.splits)
    have one: "\<exists>y'. folder_at (run as ob2) ?k = Some y' \<and> fo_Path y' = ?p \<and> folder_settled df y'"
      if "folder_at ob2 ?k = Some y" "fo_Path y = ?p" "folder_settled df y"
        "as = [] \<or> (\<exists>a. as = [a] \<and> ((\<exists>f. a = PauseSyncthingFolder f) \<or> (\<exists>f. a = UnpauseSyncthingFolder f) \<or> (\<exists>f p r. a = RescanFolderNow f p r)))"
      for as ob2 y
      using that(4)
    proof (elim disjE[of "as = []"] exE conjE)
      assume "as = []"
      then show ?thesis using that(1-3) by simp
    next
      fix a assume "as = [a]" "(\<exists>f. a = PauseSyncthingFolder f) \<or> (\<exists>f. a = UnpauseSyncthingFolder f) \<or> (\<exists>f p r. a = RescanFolderNow f p r)"
      then show ?thesis using keep[OF that(1-3)] by simp
    qed
    obtain y4 where y4: "folder_at (run a4 (run a3 (run a2 (run a1 ob1)))) ?k = Some y4" "fo_Path y4 = ?p" "folder_settled df y4"
      using one[OF y3, of a4] k4 by blast
    have k5: "a5 = [] \<or> (\<exists>a. a5 = [a] \<and> (\<exists>f p r. a = RescanFolderNow f p r))"
      using smartRescan_cases[of x ?p ob] by (auto simp: a5_def opt_list_def split: option.splits)
    obtain y5 where y5: "folder_at (run a5 (run a4 (run a3 (run a2 (run a1 ob1))))) ?k = Some y5" "fo_Path y5 = ?p" "folder_settled df y5"
      using one[OF y4, of a5] k5 by blast
    have noign: "\<forall>a\<in>set (a1 @ a2 @ a3 @ a4 @ a5). \<forall>p ps. a \<noteq> EnsureIgnoreFile p ps"
      using k4 k5 by (auto simp: a1_def a2_def a3_def)
    have ra: "repo_at (run as ob2) q = repo_at ob2 q" if "\<forall>a\<in>set as. \<forall>p ps. a \<noteq> EnsureIgnoreFile p ps" for as ob2 q
      using that by (induction as arbitrary: ob2) (auto simp: repo_at_after split: Action.splits)
    have "repo_at (run (a1 @ a2 @ a3 @ a4 @ a5) ob1) ?p = Some rp" unfolding ra[OF noign] r1 rp ..
    then have "repo_at (run a5 (run a4 (run a3 (run a2 (run a1 ob1))))) ?p = Some rp" by simp
    from ignore[OF this] show ?thesis unfolding fa settled_def using y5 by simp
  qed
qed

text \<open>Actions that concern neither the folder nor the path of a desired folder leave it as it is.\<close>

fun foreign :: "string \<Rightarrow> string \<Rightarrow> Action \<Rightarrow> bool" where
  "foreign k p (EnsureIgnoreFile q _) = (q \<noteq> p)"
| "foreign k p (EnsureFolderMarker q) = (q \<noteq> p)"
| "foreign k p (AddSyncthingDevice _ _) = True"
| "foreign k p (GitCommitDirty _ _) = True"
| "foreign k p (GitPushRepo _) = True"
| "foreign k p (TrackRepo _) = True"
| "foreign k p (UntrackRepo _) = True"
| "foreign k p a = (act_folder a \<noteq> k)"

lemma foreign_keeps:
  assumes "\<forall>a\<in>set as. foreign k p a" "\<forall>x. folder_at ob k = Some x \<longrightarrow> fo_Path x = p"
  shows "folder_at (run as ob) k = folder_at ob k \<and> repo_at (run as ob) p = repo_at ob p"
  using assms
proof (induction as arbitrary: ob)
  case (Cons a as)
  have fk: "foreign k p a" using Cons.prems(1) by simp
  have f: "folder_at (observe_after a ob) k = folder_at ob k"
  proof (cases "folder_at ob k")
    case None
    then show ?thesis using fk by (cases a) (simp_all add: folder_at_after)
  next
    case (Some x)
    have "fo_SyncthingFolderID x = k" "fo_Path x = p" using index_last_Some[OF Some] Cons.prems(2) Some by simp_all
    then show ?thesis using fk Some by (cases a) (simp_all add: folder_at_after)
  qed
  have r: "repo_at (observe_after a ob) p = repo_at ob p"
  proof (cases "repo_at ob p")
    case None
    then show ?thesis using fk by (cases a) (simp_all add: repo_at_after)
  next
    case (Some x)
    have "ro_Path x = p" using index_last_Some[OF Some] by simp
    then show ?thesis using fk Some by (cases a) (simp_all add: repo_at_after)
  qed
  show ?case using Cons.IH[of "observe_after a ob"] Cons.prems f r by simp
qed simp

text \<open>
  The states in which one pass suffices: repositories are filed under distinct folder IDs and paths,
  every managed repository was seen by the scan, and Syncthing's folder for it is rooted at its path.
\<close>

definition coherent :: "Desired \<Rightarrow> Observed \<Rightarrow> bool" where
  "coherent d ob \<longleftrightarrow> d_Subscriptions d = [] \<and>
     distinct (map df_folderID (desired_folders d)) \<and> distinct (map df_path (desired_folders d)) \<and>
     list_all (\<lambda>df. df_path df \<in> set (map ro_Path (ob_TrackedRepos ob)) \<and>
        (case folder_at ob (df_folderID df) of None \<Rightarrow> True | Some x \<Rightarrow> fo_Path x = df_path df)) (desired_folders d)"

lemma folder_actions_foreign:
  assumes "a \<in> set (folder_actions d ob df)" "df_folderID df \<noteq> k" "df_path df \<noteq> p"
  shows "foreign k p a"
  using folder_actions_cases[OF assms(1)] assms(2,3) by auto

lemma run_folders_settle:
  assumes "distinct (map df_folderID dfs)" "distinct (map df_path dfs)"
    and "\<And>df. df \<in> set dfs \<Longrightarrow> repo_at ob (df_path df) \<noteq> None \<and> repo_at ob1 (df_path df) = repo_at ob (df_path df) \<and>
       folder_at ob1 (df_folderID df) = folder_at ob (df_folderID df) \<and>
       (\<forall>x. folder_at ob (df_folderID df) = Some x \<longrightarrow> fo_Path x = df_path df)"
    and "df \<in> set dfs"
  shows "settled d df (run (concat (map (folder_actions d ob) dfs)) ob1) \<and>
     (\<forall>x. folder_at (run (concat (map (folder_actions d ob) dfs)) ob1) (df_folderID df) = Some x \<longrightarrow> fo_Path x = df_path df)"
  using assms
proof (induction dfs arbitrary: ob1)
  case (Cons e dfs)
  let ?ob2 = "run (folder_actions d ob e) ob1"
  have e: "settled d e ?ob2 \<and> (\<forall>x. folder_at ?ob2 (df_folderID e) = Some x \<longrightarrow> fo_Path x = df_path e)"
    using Cons.prems(3)[of e] by (intro folder_actions_settle) auto
  show ?case
  proof (cases "df = e")
    case True
    have "\<forall>a\<in>set (concat (map (folder_actions d ob) dfs)). foreign (df_folderID e) (df_path e) a"
    proof
      fix a assume "a \<in> set (concat (map (folder_actions d ob) dfs))"
      then obtain g where g: "g \<in> set dfs" "a \<in> set (folder_actions d ob g)" by auto
      then have "df_folderID g \<in> df_folderID ` set dfs" "df_path g \<in> df_path ` set dfs" by blast+
      then have "df_folderID g \<noteq> df_folderID e" "df_path g \<noteq> df_path e" using Cons.prems(1,2) by auto
      then show "foreign (df_folderID e) (df_path e) a" by (rule folder_actions_foreign[OF g(2)])
    qed
    from foreign_keeps[OF this, of ?ob2] e
    have "folder_at (run (concat (map (folder_actions d ob) dfs)) ?ob2) (df_folderID e) = folder_at ?ob2 (df_folderID e)"
      "repo_at (run (concat (map (folder_actions d ob) dfs)) ?ob2) (df_path e) = repo_at ?ob2 (df_path e)" by auto
    then show ?thesis using e True unfolding settled_def by simp
  next
    case False
    then have df: "df \<in> set dfs" using Cons.prems(4) by simp
    have pre: "repo_at ob (df_path g) \<noteq> None \<and> repo_at ?ob2 (df_path g) = repo_at ob (df_path g) \<and>
       folder_at ?ob2 (df_folderID g) = folder_at ob (df_folderID g) \<and>
       (\<forall>x. folder_at ob (df_folderID g) = Some x \<longrightarrow> fo_Path x = df_path g)" if g: "g \<in> set dfs" for g
    proof -
      have "df_folderID g \<in> df_folderID ` set dfs" "df_path g \<in> df_path ` set dfs" using g by blast+
      then have ne: "df_folderID e \<noteq> df_folderID g" "df_path e \<noteq> df_path g" using Cons.prems(1,2) by auto
      have pg: "repo_at ob (df_path g) \<noteq> None \<and> repo_at ob1 (df_path g) = repo_at ob (df_path g) \<and>
        folder_at ob1 (df_folderID g) = folder_at ob (df_folderID g) \<and>
       (\<forall>x. folder_at ob (df_folderID g) = Some x \<longrightarrow> fo_Path x = df_path g)" by (rule Cons.prems(3)) (simp add: g)
      have "\<forall>a\<in>set (folder_actions d ob e). foreign (df_folderID g) (df_path g) a"
        using folder_actions_foreign[OF _ ne] by blast
      from foreign_keeps[OF this, of ob1] pg show ?thesis by simp
    qed
    have "settled d df (run (concat (map (folder_actions d ob) dfs)) ?ob2) \<and>
      (\<forall>x. folder_at (run (concat (map (folder_actions d ob) dfs)) ?ob2) (df_folderID df) = Some x \<longrightarrow> fo_Path x = df_path df)"
      by (rule Cons.IH) (use Cons.prems(1,2) pre df in auto)
    then show ?thesis by simp
  qed
qed simp

lemma run_removes:
  "folder_at (run (map RemoveSyncthingFolder fs) ob) k = (if k \<in> set fs then None else folder_at ob k)"
  by (induction fs arbitrary: ob) (auto simp: folder_at_after)

lemma run_keeps_peers: "set (map lp_DeviceID (ob_LivePeers ob)) \<subseteq> set (map lp_DeviceID (ob_LivePeers (run as ob)))"
proof (induction as arbitrary: ob)
  case (Cons a as)
  have "set (map lp_DeviceID (ob_LivePeers ob)) \<subseteq> set (map lp_DeviceID (ob_LivePeers (observe_after a ob)))"
    by (cases a) (auto simp: observe_after.simps on_folder_def)
  then show ?case using Cons[of "observe_after a ob"] by simp
qed simp

lemma run_adds_peers:
  "AddSyncthingDevice n dev \<in> set as \<Longrightarrow> dev \<in> set (map lp_DeviceID (ob_LivePeers (run as ob)))"
proof (induction as arbitrary: ob)
  case (Cons a as)
  show ?case
  proof (cases "a = AddSyncthingDevice n dev")
    case True
    have "dev \<in> set (map lp_DeviceID (ob_LivePeers (observe_after a ob)))" by (simp add: True observe_after.simps)
    then show ?thesis using run_keeps_peers[of "observe_after a ob" as] by auto
  qed (use Cons in auto)
qed simp

lemma peer_actions_foreign: "\<forall>a\<in>set (peer_actions d ob). foreign k p a"
  by (auto simp: peer_actions_def)

lemma repo_actions_foreign: "\<forall>a\<in>set (concat (map (repo_actions d ob wall) rs)). foreign k p a"
proof
  fix a assume "a \<in> set (concat (map (repo_actions d ob wall) rs))"
  then obtain r where "a \<in> set (repo_actions d ob wall r)" by auto
  from repo_actions_cases[OF this] show "foreign k p a" by auto
qed

lemma coherent_no_accept: "coherent d ob \<Longrightarrow> subscription_acceptances d x = []"
  by (simp add: coherent_def subscription_acceptances_def)

lemma coherent_path:
  "coherent d ob \<Longrightarrow> df \<in> set (desired_folders d) \<Longrightarrow> folder_at ob (df_folderID df) = Some x \<Longrightarrow> fo_Path x = df_path df"
  unfolding coherent_def list_all_iff by fastforce

lemma remove_actions_coherent:
  assumes "coherent d ob"
  shows "\<exists>rs. remove_actions d ob = map RemoveSyncthingFolder rs \<and>
    set rs = fo_SyncthingFolderID ` set (ob_ManagedFolders ob) - set (map df_folderID (desired_folders d))"
proof -
  let ?rs = "map fo_SyncthingFolderID (filter (\<lambda>obs. fo_SyncthingFolderID obs \<notin> set (map df_folderID (desired_folders d)))
        (sort_key fo_SyncthingFolderID (ob_ManagedFolders ob)))"
  have "remove_actions d ob = map RemoveSyncthingFolder ?rs"
    unfolding remove_actions_def coherent_no_accept[OF assms] Let_def by simp
  moreover have "set ?rs = fo_SyncthingFolderID ` set (ob_ManagedFolders ob) - set (map df_folderID (desired_folders d))" by auto
  ultimately show ?thesis by blast
qed

lemma Diff_coherent:
  "coherent d ob \<Longrightarrow> run (Diff wall d ob) ob =
     run (concat (map (repo_actions d ob wall) (sort_key ro_Path (ob_TrackedRepos ob))))
       (run (remove_actions d ob) (run (concat (map (folder_actions d ob) (desired_folders d))) (run (peer_actions d ob) ob)))"
  by (simp add: Diff_def coherent_no_accept)

text \<open>Every desired folder is settled after the pass.\<close>

lemma settled_after_pass:
  assumes c: "coherent d ob" and df: "df \<in> set (desired_folders d)"
  shows "settled d df (run (Diff wall d ob) ob)"
proof -
  let ?ob1 = "run (peer_actions d ob) ob" and ?F = "concat (map (folder_actions d ob) (desired_folders d))"
  let ?ob2 = "run ?F ?ob1" let ?ob3 = "run (remove_actions d ob) ?ob2"
  have s2: "settled d df ?ob2 \<and> (\<forall>x. folder_at ?ob2 (df_folderID df) = Some x \<longrightarrow> fo_Path x = df_path df)"
  proof (rule run_folders_settle)
    show "distinct (map df_folderID (desired_folders d))" "distinct (map df_path (desired_folders d))"
      using c by (simp_all add: coherent_def)
    fix g assume g: "g \<in> set (desired_folders d)"
    have "repo_at ob (df_path g) \<noteq> None" using c g unfolding coherent_def list_all_iff index_last_None by simp
    moreover have "folder_at ?ob1 (df_folderID g) = folder_at ob (df_folderID g) \<and> repo_at ?ob1 (df_path g) = repo_at ob (df_path g)"
      using coherent_path[OF c g] by (intro foreign_keeps peer_actions_foreign) blast
    ultimately show "repo_at ob (df_path g) \<noteq> None \<and> repo_at ?ob1 (df_path g) = repo_at ob (df_path g) \<and>
       folder_at ?ob1 (df_folderID g) = folder_at ob (df_folderID g) \<and> (\<forall>x. folder_at ob (df_folderID g) = Some x \<longrightarrow> fo_Path x = df_path g)"
      using coherent_path[OF c g] by blast
  qed (rule df)
  have R: "\<forall>a\<in>set (remove_actions d ob). foreign (df_folderID df) (df_path df) a"
    using remove_actions_coherent[OF c] df by fastforce
  have 3: "folder_at ?ob3 (df_folderID df) = folder_at ?ob2 (df_folderID df) \<and> repo_at ?ob3 (df_path df) = repo_at ?ob2 (df_path df)"
    using s2 by (intro foreign_keeps R) blast
  have "folder_at (run (Diff wall d ob) ob) (df_folderID df) = folder_at ?ob3 (df_folderID df) \<and>
      repo_at (run (Diff wall d ob) ob) (df_path df) = repo_at ?ob3 (df_path df)"
    unfolding Diff_coherent[OF c] using s2 3 by (intro foreign_keeps repo_actions_foreign) simp
  then show ?thesis using 3 s2 unfolding settled_def by simp
qed

text \<open>Folders no repository uses are gone after the pass.\<close>

definition adds_folder :: "string \<Rightarrow> Action \<Rightarrow> bool" where
  "adds_folder k a \<longleftrightarrow> (case a of AddSyncthingFolder f _ _ _ \<Rightarrow> f = k | AcceptSubscription f _ _ _ _ _ \<Rightarrow> f = k | _ \<Rightarrow> False)"

lemma run_adds_no_folder:
  "folder_at x k = None \<Longrightarrow> \<forall>a\<in>set as. \<not> adds_folder k a \<Longrightarrow> folder_at (run as x) k = None"
proof (induction as arbitrary: x)
  case (Cons b as)
  have "folder_at (observe_after b x) k = None" using Cons.prems by (cases b) (auto simp: folder_at_after adds_folder_def)
  then show ?case using Cons by simp
qed simp

lemma unwanted_gone:
  assumes c: "coherent d ob" and k: "k \<notin> set (map df_folderID (desired_folders d))"
  shows "folder_at (run (Diff wall d ob) ob) k = None"
proof -
  have P: "\<forall>a\<in>set (peer_actions d ob). \<not> adds_folder k a" by (auto simp: peer_actions_def adds_folder_def)
  have F: "\<forall>a\<in>set (concat (map (folder_actions d ob) (desired_folders d))). \<not> adds_folder k a"
  proof
    fix a assume "a \<in> set (concat (map (folder_actions d ob) (desired_folders d)))"
    then obtain df where df: "df \<in> set (desired_folders d)" "a \<in> set (folder_actions d ob df)" by auto
    have "df_folderID df \<noteq> k" using k df(1) by auto
    then show "\<not> adds_folder k a" using folder_actions_cases[OF df(2)] by (auto simp: adds_folder_def)
  qed
  have G: "\<forall>a\<in>set (concat (map (repo_actions d ob wall) rs)). \<not> adds_folder k a" for rs
  proof
    fix a assume "a \<in> set (concat (map (repo_actions d ob wall) rs))"
    then obtain r where "a \<in> set (repo_actions d ob wall r)" by auto
    from repo_actions_cases[OF this] show "\<not> adds_folder k a" by (auto simp: adds_folder_def)
  qed
  obtain rs where rs: "remove_actions d ob = map RemoveSyncthingFolder rs"
    "set rs = fo_SyncthingFolderID ` set (ob_ManagedFolders ob) - set (map df_folderID (desired_folders d))"
    using remove_actions_coherent[OF c] by blast
  have "folder_at (run (remove_actions d ob) (run (concat (map (folder_actions d ob) (desired_folders d))) (run (peer_actions d ob) ob))) k = None"
  proof (cases "k \<in> set rs")
    case False
    then have "folder_at ob k = None" using rs(2) k by (simp add: index_last_None)
    then have "folder_at (run (concat (map (folder_actions d ob) (desired_folders d))) (run (peer_actions d ob) ob)) k = None"
      by (intro run_adds_no_folder P F)
    then show ?thesis unfolding rs(1) run_removes by simp
  qed (simp add: rs(1) run_removes)
  then show ?thesis unfolding Diff_coherent[OF c] by (rule run_adds_no_folder[OF _ G])
qed



section \<open>Intervals\<close>

lemma of_char_digit: "n < 10 \<Longrightarrow> (of_char (char_of (48 + n :: nat) :: char) :: nat) = 48 + n"
  by simp

lemma is_digit_char_of: "n < 10 \<Longrightarrow> is_digit (char_of (48 + n :: nat))"
  by (simp add: is_digit_def in_range_def)

lemma leadingInt_digits:
  "x * 10 ^ length (nat_digits n) + n \<le> 2 ^ 62 \<Longrightarrow>
   leadingInt x (nat_digits n @ s) = leadingInt (x * 10 ^ length (nat_digits n) + n) s"
proof (induction n arbitrary: s rule: nat_digits.induct)
  case (1 n)
  have step: "leadingInt y (char_of (48 + d :: nat) # s) = leadingInt (y * 10 + d) s" if "d < 10" "y * 10 + d \<le> 2 ^ 62" for y d s
  proof -
    have "\<not> 2 ^ 63 div 10 < y" "\<not> 2 ^ 63 < y * 10 + d" using that by simp_all
    then show ?thesis using that is_digit_char_of[OF that(1)] of_char_digit[OF that(1)] by (simp add: Let_def)
  qed
  show ?case
  proof (cases "n < 10")
    case True
    then have nd: "nat_digits n = [char_of (48 + n)]" by (simp add: nat_digits.simps)
    then show ?thesis using step[of n x] True 1(2) by simp
  next
    case False
    then have nd: "nat_digits n = nat_digits (n div 10) @ [char_of (48 + n mod 10)]" by (subst nat_digits.simps) simp
    let ?l = "length (nat_digits (n div 10))"
    have e: "(x * 10 ^ ?l + n div 10) * 10 + n mod 10 = x * 10 ^ length (nat_digits n) + n" by (simp add: nd algebra_simps)
    have "x * 10 ^ ?l + n div 10 \<le> x * 10 ^ length (nat_digits n) + n" unfolding e[symmetric] by simp
    then have b: "x * 10 ^ ?l + n div 10 \<le> 2 ^ 62" using 1(2) by (rule order.trans)
    have "leadingInt x (nat_digits n @ s) = leadingInt (x * 10 ^ ?l + n div 10) (char_of (48 + n mod 10) # s)"
      using 1(1)[OF False b, of "char_of (48 + n mod 10) # s"] by (simp add: nd)
    also have "\<dots> = leadingInt ((x * 10 ^ ?l + n div 10) * 10 + n mod 10) s" using 1(2) by (intro step) (simp_all only: e pos_mod_bound)
    finally show ?thesis unfolding e .
  qed
qed

lemma nat_digits_hd: "nat_digits n \<noteq> [] \<and> is_digit (hd (nat_digits n))"
proof (induction n rule: nat_digits.induct)
  case (1 n)
  then show ?case
    by (cases "n < 10") (simp_all add: nat_digits.simps[of n] is_digit_char_of hd_append)
qed

definition duration_units :: "(string \<times> nat) list" where
  "duration_units = [(''ns'', 1), (''us'', 1000), (''ms'', 1000000), (''s'', 1000000000), (''m'', 60000000000), (''h'', 3600000000000)]"

lemma unit_facts:
  assumes "(u, w) \<in> set duration_units"
  shows "unitMap u = Some w" "takeWhile not_number_char u = u" "dropWhile not_number_char u = []" "u \<noteq> []"
    "\<not> HasPrefix u ''.''" "leadingInt n u = Some (n, u)" "0 < w" "w \<le> 3600000000000"
proof -
  show "unitMap u = Some w" using assms by (auto simp: duration_units_def unitMap_def)
  have nn: "\<forall>c\<in>set u. not_number_char c" using assms
    by (auto simp: duration_units_def not_number_char_def is_digit_def in_range_def)
  then show "takeWhile not_number_char u = u" "dropWhile not_number_char u = []" by simp_all
  show ne: "u \<noteq> []" "\<not> HasPrefix u ''.''" "0 < w" "w \<le> 3600000000000"
    using assms by (auto simp: duration_units_def HasPrefix_def)
  have "\<not> is_digit (hd u)" using nn ne(1) by (auto simp: not_number_char_def)
  then show "leadingInt n u = Some (n, u)" using ne(1) by (cases u) simp_all
qed

text \<open>
  An interval written as a number and a unit is read as that many units, whatever the number as
  long as the result fits a Duration; and a timer backup whose repository was backed up before is due
  exactly from one interval after the last backup, the interval always being positive.
\<close>

theorem git_interval_semantics:
  assumes "(u, w) \<in> set duration_units" "n * w < 2 ^ 62"
    and "rd_CommitPolicy rd = ''timer''" "rd_GitInterval rd = nat_digits n @ u" "\<not> IsZero (ro_LastBackupAt r)"
  shows "ParseDuration (nat_digits n @ u) = Some (int (n * w)) \<and>
     (repoBackupDue rd r now \<longleftrightarrow> ro_LastBackupAt r + (if n = 0 then Hour else int (n * w)) \<le> now)"
proof -
  note uf = unit_facts[OF assms(1)]
  let ?s = "nat_digits n @ u"
  have "n \<le> n * w" using uf(7) by simp
  then have n: "n \<le> 2 ^ 62" using assms(2) by (metis less_imp_le order.trans)
  obtain c s' where cs: "nat_digits n = c # s'" "is_digit c" using nat_digits_hd[of n] by (cases "nat_digits n") auto
  have nc: "c \<noteq> CHR ''-''" "c \<noteq> CHR ''+''" "\<not> not_number_char c" using cs(2) by (auto simp: is_digit_def in_range_def not_number_char_def)
  have li: "leadingInt 0 ?s = Some (n, u)" using leadingInt_digits[of 0 n u] n uf(6) by simp
  have ne: "u \<noteq> ?s" using cs(1) by simp
  have v: "\<not> 2 ^ 63 div w < n" using assms(2) uf(7) by (simp add: not_less less_eq_div_iff_mult_less_eq)
  have hd: "hd ?s = c" "?s \<noteq> []" using cs(1) by simp_all
  have v': "n * w + 0 * w div 1 = n * w" "\<not> 2 ^ 63 < n * w" using assms(2) by simp_all
  have step: "pd_step ?s = Some (n * w, [])"
    unfolding pd_step_def hd(1) li option.case prod.case Let_def
    using ne nc(3) v v' by (simp only: uf(1-5) if_False simp_thms prod.case option.case fst_conv snd_conv split_beta)
  have loop: "pd_loop 0 ?s = Some (n * w)"
    using cs(1) step assms(2) by (subst pd_loop.simps) (simp add: pd_loop.simps[of _ "[]"])
  have z: "?s \<noteq> ''0''" using cs(1) uf(4) by (cases s') auto
  have pd: "ParseDuration ?s = Some (int (n * w))"
    unfolding ParseDuration_def Let_def using cs nc z loop assms(2) uf(4) by (simp add: HasPrefix_def)
  have pg: "parseGitInterval ?s = int (n * w)"
  proof -
    have "?s \<notin> {''hourly'', ''daily'', ''weekly'', ''monthly'', ''''}" using cs by (auto simp: is_digit_def in_range_def)
    then show ?thesis using uf(4) by (simp add: parseGitInterval_def pd)
  qed
  have "backup_interval rd = (if n = 0 then Hour else int (n * w))"
  proof -
    have "int (n * w) \<le> 0 \<longleftrightarrow> n * w = 0" by linarith
    then have "int (n * w) \<le> 0 \<longleftrightarrow> n = 0" using uf(7) by (simp only: mult_eq_0_iff) simp
    then show ?thesis unfolding backup_interval_def assms(4) pg Let_def by (simp only:)
  qed
  then show ?thesis using pd assms(3,5) by (simp add: repoBackupDue_def time_After_def time_Add_def not_less)
qed

theorem git_interval_semantics_witness:
  "ParseDuration ''90m'' = Some (90 * Minute) \<and>
   \<not> repoBackupDue (zero_RepoDesired\<lparr>rd_CommitPolicy := ''timer'', rd_GitInterval := ''90m''\<rparr>)
      ((empty_RepoObs ''/a'')\<lparr>ro_LastBackupAt := 1000\<rparr>) (90 * Minute)"
proof -
  have d: "nat_digits 90 @ ''m'' = ''90m''" by code_simp
  have "(''m'', 60000000000) \<in> set duration_units" by (simp add: duration_units_def)
  from git_interval_semantics[OF this, of 90 "zero_RepoDesired\<lparr>rd_CommitPolicy := ''timer'', rd_GitInterval := ''90m''\<rparr>"
      "(empty_RepoObs ''/a'')\<lparr>ro_LastBackupAt := 1000\<rparr>" "90 * Minute"]
  show ?thesis by (simp add: d IsZero_def dur_defs)
qed

end
