(* ===== verification/Rest_Config.thy ===== *)
theory Rest_Config
  imports Diff
begin

text \<open>
  The Syncthing configuration as the code edits and reads it: internal/stclient/client.go
  (AddDevice, MigrateDisableAutoAcceptFolders, AddOrUpdateFolder, SetFolderPaused,
  UpdateFolderSchedule), the configuration edits of internal/reconcile/applier.go (remove folder, update
  devices), internal/transport/syncthing.go (ensure and remove peer) and querySyncthing of
  internal/reconcile/providers.go. A \<open>map[string]any\<close> is an association list from keys to JSON
  values; numbers are integers, the only ones the code writes or reads.
\<close>

section \<open>JSON values\<close>

datatype json = JNull | JBool bool | JNum int | JStr string | JArr "json list" | JObj "(string \<times> json) list"

type_synonym jobj = "(string \<times> json) list"

definition jget :: "jobj \<Rightarrow> string \<Rightarrow> json" where
  "jget m k = (case map_of m k of None \<Rightarrow> JNull | Some v \<Rightarrow> v)"

definition jput :: "string \<Rightarrow> json \<Rightarrow> jobj \<Rightarrow> jobj" where
  "jput k v m = AList.update k v m"

text \<open>Type assertions with the zero value on failure.\<close>

definition as_arr :: "json \<Rightarrow> json list" where "as_arr j = (case j of JArr xs \<Rightarrow> xs | _ \<Rightarrow> [])"
definition as_obj :: "json \<Rightarrow> jobj" where "as_obj j = (case j of JObj m \<Rightarrow> m | _ \<Rightarrow> [])"
definition as_str :: "json \<Rightarrow> string" where "as_str j = (case j of JStr s \<Rightarrow> s | _ \<Rightarrow> [])"
definition as_bool :: "json \<Rightarrow> bool" where "as_bool j = (case j of JBool b \<Rightarrow> b | _ \<Rightarrow> False)"
definition as_num :: "json \<Rightarrow> int" where "as_num j = (case j of JNum n \<Rightarrow> n | _ \<Rightarrow> 0)"

lemma jget_jput [simp]: "jget (jput k v m) k' = (if k = k' then v else jget m k')"
  by (simp add: jget_def jput_def update_conv')

lemma jput_jput [simp]: "jput k v (jput k w m) = jput k v m"
  unfolding jput_def by (induction m) auto



lemma map_of_jput: "map_of (jput k v m) k' = (if k = k' then Some v else map_of m k')"
  by (simp add: jput_def update_conv')

lemma jput_absorb: "map_of m k = Some v \<Longrightarrow> jput k v m = m"
  unfolding jput_def by (induction m) auto

section \<open>Edits\<close>

text \<open>What an operation does with the configuration it read: fail, leave it, or write a new one.\<close>

datatype edit = NotFound | Unchanged | Write jobj

definition FolderMarkerName :: string where "FolderMarkerName = ''.dkfolder''"
definition CanonicalFsWatcherDelayS :: int where "CanonicalFsWatcherDelayS = 1"

definition has_str :: "string \<Rightarrow> string \<Rightarrow> json \<Rightarrow> bool" where
  "has_str k s j \<longleftrightarrow> jget (as_obj j) k = JStr s"

fun update_first :: "('a \<Rightarrow> bool) \<Rightarrow> ('a \<Rightarrow> 'a) \<Rightarrow> 'a list \<Rightarrow> 'a list option" where
  "update_first P g [] = None"
| "update_first P g (x # xs) = (if P x then Some (g x # xs) else map_option ((#) x) (update_first P g xs))"

definition device_entry :: "string \<Rightarrow> json" where
  "device_entry did = JObj [(''deviceID'', JStr did), (''introducedBy'', JStr [])]"

text \<open>A nil slice is rendered as null.\<close>

definition folder_devices :: "string \<Rightarrow> string list \<Rightarrow> json" where
  "folder_devices myID deviceIDs =
    (let ds = filter (\<lambda>did. did \<noteq> myID \<and> did \<noteq> '''') deviceIDs
     in if ds = [] then JNull else JArr (map device_entry ds))"

definition edit_folder :: "string \<Rightarrow> (jobj \<Rightarrow> jobj) \<Rightarrow> jobj \<Rightarrow> jobj option" where
  "edit_folder fid h cfg =
    map_option (\<lambda>fs. jput ''folders'' (JArr fs) cfg)
      (update_first (has_str ''id'' fid) (\<lambda>f. JObj (h (as_obj f))) (as_arr (jget cfg ''folders'')))"

definition set_schedule :: "jobj \<Rightarrow> jobj" where
  "set_schedule fm = jput ''hashers'' (JNum CanonicalHashers) (jput ''fsWatcherDelayS'' (JNum CanonicalFsWatcherDelayS)
     (jput ''fsWatcherEnabled'' (JBool CanonicalFsWatcherEnabled) (jput ''rescanIntervalS'' (JNum CanonicalRescanIntervalS) fm)))"

definition merge_folder :: "string \<Rightarrow> string \<Rightarrow> json \<Rightarrow> jobj \<Rightarrow> jobj" where
  "merge_folder label path devices fm =
     set_schedule (jput ''markerName'' (JStr FolderMarkerName) (jput ''devices'' devices (jput ''path'' (JStr path) (jput ''label'' (JStr label) fm))))"

definition folder_cfg :: "string \<Rightarrow> string \<Rightarrow> string \<Rightarrow> json \<Rightarrow> jobj" where
  "folder_cfg fid label path devices =
    [(''id'', JStr fid), (''label'', JStr label), (''path'', JStr path), (''type'', JStr ''sendreceive''), (''devices'', devices),
     (''rescanIntervalS'', JNum CanonicalRescanIntervalS), (''fsWatcherEnabled'', JBool CanonicalFsWatcherEnabled),
     (''fsWatcherDelayS'', JNum CanonicalFsWatcherDelayS), (''hashers'', JNum CanonicalHashers), (''ignorePerms'', JBool False),
     (''autoNormalize'', JBool True), (''markerName'', JStr FolderMarkerName)]"

definition AddOrUpdateFolder :: "string \<Rightarrow> string \<Rightarrow> string \<Rightarrow> string \<Rightarrow> string list \<Rightarrow> jobj \<Rightarrow> edit" where
  "AddOrUpdateFolder myID fid label path deviceIDs cfg =
    (let devices = folder_devices myID deviceIDs
     in case edit_folder fid (merge_folder label path devices) cfg of
          Some cfg' \<Rightarrow> Write cfg'
        | None \<Rightarrow> Write (jput ''folders'' (JArr (as_arr (jget cfg ''folders'') @ [JObj (folder_cfg fid label path devices)])) cfg))"

definition edit_result :: "jobj option \<Rightarrow> edit" where
  "edit_result r = (case r of None \<Rightarrow> NotFound | Some cfg \<Rightarrow> Write cfg)"

definition SetFolderPaused :: "string \<Rightarrow> bool \<Rightarrow> jobj \<Rightarrow> edit" where
  "SetFolderPaused fid paused cfg = edit_result (edit_folder fid (jput ''paused'' (JBool paused)) cfg)"

definition UpdateFolderSchedule :: "string \<Rightarrow> jobj \<Rightarrow> edit" where
  "UpdateFolderSchedule fid cfg = edit_result (edit_folder fid set_schedule cfg)"

definition UpdateFolderDevices :: "string \<Rightarrow> string \<Rightarrow> string list \<Rightarrow> jobj \<Rightarrow> edit" where
  "UpdateFolderDevices myID fid devices cfg = edit_result (edit_folder fid (jput ''devices'' (folder_devices myID devices)) cfg)"

definition RemoveFolder :: "string \<Rightarrow> jobj \<Rightarrow> edit" where
  "RemoveFolder fid cfg =
    (let folders = as_arr (jget cfg ''folders''); filtered = filter (\<lambda>f. \<not> has_str ''id'' fid f) folders
     in if length filtered = length folders then Unchanged else Write (jput ''folders'' (JArr filtered) cfg))"

text \<open>Devices: the flag \<open>autoAcceptFolders\<close> is cleared on an existing entry and off on a new one.\<close>

definition new_device :: "string \<Rightarrow> string \<Rightarrow> json" where
  "new_device deviceID name = JObj [(''deviceID'', JStr deviceID), (''name'', JStr name), (''addresses'', JArr [JStr ''dynamic'']),
     (''compression'', JStr ''metadata''), (''introducer'', JBool False), (''autoAcceptFolders'', JBool False)]"

definition clear_auto_accept :: "json \<Rightarrow> json" where
  "clear_auto_accept d = JObj (jput ''autoAcceptFolders'' (JBool False) (as_obj d))"

definition auto_accepts :: "json \<Rightarrow> bool" where
  "auto_accepts d \<longleftrightarrow> as_bool (jget (as_obj d) ''autoAcceptFolders'')"

definition AddDevice :: "string \<Rightarrow> string \<Rightarrow> jobj \<Rightarrow> edit" where
  "AddDevice deviceID name cfg =
    (let devices = as_arr (jget cfg ''devices'')
     in case find (has_str ''deviceID'' deviceID) devices of
          Some d \<Rightarrow>
            (if auto_accepts d then
               (case update_first (has_str ''deviceID'' deviceID) clear_auto_accept devices of
                  Some ds \<Rightarrow> Write (jput ''devices'' (JArr ds) cfg) | None \<Rightarrow> Unchanged)
             else Unchanged)
        | None \<Rightarrow> Write (jput ''devices'' (JArr (devices @ [new_device deviceID name])) cfg))"

definition MigrateDisableAutoAcceptFolders :: "jobj \<Rightarrow> nat \<times> edit" where
  "MigrateDisableAutoAcceptFolders cfg =
    (let devices = as_arr (jget cfg ''devices''); migrated = length (filter auto_accepts devices)
     in if migrated = 0 then (0, Unchanged)
        else (migrated, Write (jput ''devices'' (JArr (map (\<lambda>d. if auto_accepts d then clear_auto_accept d else d) devices)) cfg)))"

text \<open>The transport's view: one peer in or out of a folder's device list.\<close>

definition EnsurePeerReachability :: "string \<Rightarrow> string \<Rightarrow> jobj \<Rightarrow> edit" where
  "EnsurePeerReachability folderID deviceID cfg =
    (case find (has_str ''id'' folderID) (as_arr (jget cfg ''folders'')) of
       None \<Rightarrow> NotFound
     | Some f \<Rightarrow>
         let devices = as_arr (jget (as_obj f) ''devices'') in
         if list_ex (has_str ''deviceID'' deviceID) devices then Unchanged
         else edit_result (edit_folder folderID (jput ''devices'' (JArr (devices @ [device_entry deviceID]))) cfg))"

definition RemovePeerReachability :: "string \<Rightarrow> string \<Rightarrow> jobj \<Rightarrow> edit" where
  "RemovePeerReachability folderID deviceID cfg =
    (if deviceID = '''' then Unchanged
     else case find (has_str ''id'' folderID) (as_arr (jget cfg ''folders'')) of
       None \<Rightarrow> NotFound
     | Some f \<Rightarrow>
         let devices = as_arr (jget (as_obj f) ''devices'');
             filtered = filter (\<lambda>d. \<not> has_str ''deviceID'' deviceID d) devices in
         if length filtered = length devices then Unchanged
         else edit_result (edit_folder folderID (jput ''devices'' (JArr filtered)) cfg))"

section \<open>Reading the configuration back\<close>

definition view_devices :: "string \<Rightarrow> json \<Rightarrow> string list" where
  "view_devices myID j = filter (\<lambda>did. did \<noteq> '''' \<and> did \<noteq> myID) (map (\<lambda>d. as_str (jget (as_obj d) ''deviceID'')) (as_arr j))"

text \<open>\<open>missing\<close> stands for folderMarkerMissing, which looks at the file system.\<close>

definition folder_view :: "string \<Rightarrow> (string \<Rightarrow> string \<Rightarrow> bool) \<Rightarrow> jobj \<Rightarrow> FolderObs" where
  "folder_view myID missing fm =
    \<lparr>fo_SyncthingFolderID = as_str (jget fm ''id''), fo_Path = as_str (jget fm ''path''),
     fo_Devices = view_devices myID (jget fm ''devices''),
     fo_MarkerDirMissing = missing (as_str (jget fm ''path'')) (default_str FolderMarkerName (as_str (jget fm ''markerName''))),
     fo_RescanIntervalS = as_num (jget fm ''rescanIntervalS''), fo_FsWatcherEnabled = as_bool (jget fm ''fsWatcherEnabled''),
     fo_Hashers = as_num (jget fm ''hashers''), fo_Paused = as_bool (jget fm ''paused'')\<rparr>"

definition parse_folder :: "string \<Rightarrow> (string \<Rightarrow> string \<Rightarrow> bool) \<Rightarrow> json \<Rightarrow> FolderObs list" where
  "parse_folder myID missing j =
    (case j of JObj fm \<Rightarrow> (if as_str (jget fm ''id'') = '''' then [] else [folder_view myID missing fm]) | _ \<Rightarrow> [])"

definition query_folders :: "string \<Rightarrow> (string \<Rightarrow> string \<Rightarrow> bool) \<Rightarrow> jobj \<Rightarrow> FolderObs list" where
  "query_folders myID missing cfg = concat (map (parse_folder myID missing) (as_arr (jget cfg ''folders'')))"

text \<open>
  The peers: configured devices, overlaid with the connections; the result is sorted by device ID, and a
  Go map is filled by assignment, so an ID appears once.
\<close>

definition query_peers :: "gotime \<Rightarrow> (string \<times> bool) list \<Rightarrow> jobj \<Rightarrow> LivePeer list" where
  "query_peers now conns cfg =
    (let configured = filter (\<lambda>d. d \<noteq> '''') (map (\<lambda>d. as_str (jget (as_obj d) ''deviceID'')) (as_arr (jget cfg ''devices'')));
         ids = sort (remdups (configured @ map fst conns))
     in map (\<lambda>d. case map_of conns d of
                   None \<Rightarrow> \<lparr>lp_DeviceID = d, lp_LastSeen = 0, lp_Connected = False\<rparr>
                 | Some c \<Rightarrow> \<lparr>lp_DeviceID = d, lp_LastSeen = now, lp_Connected = c\<rparr>) ids)"

section \<open>Edits of one folder\<close>

text \<open>
  The contract of an edit that rewrites fields of one folder: it keeps the ID, touches only the keys it
  owns, is idempotent, and its effect on what the reconciler observes of the folder is \<open>h\<close>.
\<close>

locale folder_edit =
  fixes edit :: "jobj \<Rightarrow> jobj" and owned :: "string set" and myID :: string
    and missing :: "string \<Rightarrow> string \<Rightarrow> bool" and h :: "FolderObs \<Rightarrow> FolderObs"
  assumes frame: "k \<notin> owned \<Longrightarrow> jget (edit m) k = jget m k"
    and not_id: "''id'' \<notin> owned"
    and idem: "edit (edit m) = edit m"
    and view: "folder_view myID missing (edit m) = h (folder_view myID missing m)"
begin

lemma keeps_id: "has_str ''id'' fid (JObj (edit (as_obj j))) \<longleftrightarrow> has_str ''id'' fid j"
  using frame[OF not_id] by (simp add: has_str_def as_obj_def)

lemma h_keeps_id: "fo_SyncthingFolderID (h (folder_view myID missing m)) = as_str (jget m ''id'')"
  using frame[OF not_id] by (simp add: view[symmetric]) (simp add: folder_view_def)

text \<open>Editing twice is editing once.\<close>

lemma update_twice:
  "update_first (has_str ''id'' fid) (\<lambda>f. JObj (edit (as_obj f))) xs = Some ys \<Longrightarrow>
   update_first (has_str ''id'' fid) (\<lambda>f. JObj (edit (as_obj f))) ys = Some ys"
proof (induction xs arbitrary: ys)
  case (Cons x xs)
  show ?case
  proof (cases "has_str ''id'' fid x")
    case True
    then have ys: "ys = JObj (edit (as_obj x)) # xs" using Cons.prems by simp
    have "as_obj (JObj (edit (as_obj x))) = edit (as_obj x)" by (simp add: as_obj_def)
    then show ?thesis unfolding ys using True keeps_id[of fid x] by (simp add: idem)
  next
    case False
    then show ?thesis using Cons by (auto simp: map_option_case split: option.splits)
  qed
qed simp

lemma edit_folder_idem: "edit_folder fid edit cfg = Some cfg' \<Longrightarrow> edit_folder fid edit cfg' = Some cfg'"
proof -
  assume "edit_folder fid edit cfg = Some cfg'"
  then obtain ys where ys: "update_first (has_str ''id'' fid) (\<lambda>f. JObj (edit (as_obj f))) (as_arr (jget cfg ''folders'')) = Some ys"
      "cfg' = jput ''folders'' (JArr ys) cfg" by (auto simp: edit_folder_def)
  then show ?thesis using update_twice[OF ys(1)] by (simp add: edit_folder_def as_arr_def)
qed

text \<open>Other folders and other keys of the configuration stay as they are.\<close>

lemma update_others:
  "update_first (has_str ''id'' fid) (\<lambda>f. JObj (edit (as_obj f))) xs = Some ys \<Longrightarrow>
   length ys = length xs \<and> (\<forall>i < length xs. \<not> has_str ''id'' fid (xs ! i) \<longrightarrow> ys ! i = xs ! i) \<and>
   (\<forall>i < length xs. \<forall>k. k \<notin> owned \<longrightarrow> jget (as_obj (ys ! i)) k = jget (as_obj (xs ! i)) k)"
proof (induction xs arbitrary: ys)
  case (Cons x xs)
  show ?case
  proof (cases "has_str ''id'' fid x")
    case True
    then have ys: "ys = JObj (edit (as_obj x)) # xs" using Cons.prems by simp
    then show ?thesis using True frame by (auto simp: nth_Cons as_obj_def split: nat.splits)
  next
    case False
    then obtain zs where zs: "update_first (has_str ''id'' fid) (\<lambda>f. JObj (edit (as_obj f))) xs = Some zs" "ys = x # zs"
      using Cons.prems by auto
    then show ?thesis using Cons.IH[OF zs(1)] by (auto simp: nth_Cons split: nat.splits)
  qed
qed simp

text \<open>The effect on what querySyncthing reports, when folder IDs are distinct.\<close>

lemma parse_has_str:
  assumes "fid \<noteq> ''''"
  shows "has_str ''id'' fid j \<longleftrightarrow> (\<exists>v. parse_folder myID missing j = [v] \<and> fo_SyncthingFolderID v = fid)"
  using assms by (auto simp: has_str_def parse_folder_def as_obj_def folder_view_def as_str_def jget_def split: json.splits option.splits)

lemma parse_edited:
  assumes "fid \<noteq> ''''" "has_str ''id'' fid j"
  shows "parse_folder myID missing (JObj (edit (as_obj j))) = map h (parse_folder myID missing j)"
proof -
  obtain m where j: "j = JObj m" using assms by (cases j) (auto simp: has_str_def as_obj_def jget_def)
  have i: "jget m ''id'' = JStr fid" using assms(2) by (simp add: j has_str_def as_obj_def)
  then have "jget (edit m) ''id'' = JStr fid" using frame[OF not_id] by simp
  then show ?thesis using i assms(1) by (simp add: j as_obj_def parse_folder_def as_str_def view)
qed

lemma query_edited:
  assumes ne: "fid \<noteq> ''''"
    and "update_first (has_str ''id'' fid) (\<lambda>f. JObj (edit (as_obj f))) xs = Some ys"
    and "distinct (map fo_SyncthingFolderID (concat (map (parse_folder myID missing) xs)))"
  shows "concat (map (parse_folder myID missing) ys) =
    map (\<lambda>v. if fo_SyncthingFolderID v = fid then h v else v) (concat (map (parse_folder myID missing) xs))"
  using assms(2,3)
proof (induction xs arbitrary: ys)
  case (Cons x xs)
  let ?h = "\<lambda>v. if fo_SyncthingFolderID v = fid then h v else v"
  let ?q = "\<lambda>zs. concat (map (parse_folder myID missing) zs)"
  show ?case
  proof (cases "has_str ''id'' fid x")
    case True
    then have ys: "ys = JObj (edit (as_obj x)) # xs" using Cons.prems(1) by simp
    obtain v where v: "parse_folder myID missing x = [v]" "fo_SyncthingFolderID v = fid" using True parse_has_str[OF ne] by blast
    have "map ?h (?q xs) = ?q xs"
    proof (rule map_idI)
      fix u assume "u \<in> set (?q xs)"
      moreover have "distinct (fid # map fo_SyncthingFolderID (?q xs))" using Cons.prems(2) v by simp
      ultimately have "fo_SyncthingFolderID u \<noteq> fid" unfolding distinct.simps set_map by blast
      then show "?h u = u" by simp
    qed
    then show ?thesis unfolding ys using parse_edited[OF ne True] v by simp
  next
    case False
    then obtain zs where zs: "update_first (has_str ''id'' fid) (\<lambda>f. JObj (edit (as_obj f))) xs = Some zs" "ys = x # zs"
      using Cons.prems(1) by auto
    have "map ?h (parse_folder myID missing x) = parse_folder myID missing x"
    proof (rule map_idI)
      fix u assume u: "u \<in> set (parse_folder myID missing x)"
      then have "parse_folder myID missing x = [u]" by (auto simp: parse_folder_def split: json.splits if_splits)
      then show "?h u = u" using False parse_has_str[OF ne, of x] by auto
    qed
    then show ?thesis using Cons.IH[OF zs(1)] Cons.prems(2) zs(2) by simp
  qed
qed simp

lemma query_edit_folder:
  assumes "fid \<noteq> ''''" "edit_folder fid edit cfg = Some cfg'"
    and "distinct (map fo_SyncthingFolderID (query_folders myID missing cfg))"
  shows "query_folders myID missing cfg' =
    map (\<lambda>v. if fo_SyncthingFolderID v = fid then h v else v) (query_folders myID missing cfg)"
proof -
  obtain ys where ys: "update_first (has_str ''id'' fid) (\<lambda>f. JObj (edit (as_obj f))) (as_arr (jget cfg ''folders'')) = Some ys"
      "cfg' = jput ''folders'' (JArr ys) cfg" using assms(2) by (auto simp: edit_folder_def)
  show ?thesis using query_edited[OF assms(1) ys(1)] assms(3) unfolding query_folders_def ys(2) by (simp add: as_arr_def)
qed

end

lemma as_simps [simp]:
  "as_str (JStr s) = s" "as_bool (JBool b) = b" "as_num (JNum n) = n" "as_arr (JArr xs) = xs" "as_obj (JObj m) = m" "as_arr JNull = []"
  by (simp_all add: as_str_def as_bool_def as_num_def as_arr_def as_obj_def)

lemma view_folder_devices: "view_devices myID (folder_devices myID ds) = filter (\<lambda>d. d \<noteq> myID \<and> d \<noteq> '''') ds"
proof -
  have m: "map (\<lambda>d. as_str (jget (as_obj (device_entry d)) ''deviceID'')) xs = xs" for xs
    by (induction xs) (simp_all add: device_entry_def jget_def)
  show ?thesis unfolding folder_devices_def Let_def
    by (auto simp: view_devices_def m comp_def filter_empty_conv intro!: filter_cong)
qed

text \<open>Assigning a list of distinct keys twice is assigning it once.\<close>

definition puts :: "(string \<times> json) list \<Rightarrow> jobj \<Rightarrow> jobj" where
  "puts kvs m = fold (\<lambda>(k, v). jput k v) kvs m"

lemma map_of_puts: "distinct (map fst kvs) \<Longrightarrow> map_of (puts kvs m) k = (case map_of kvs k of None \<Rightarrow> map_of m k | Some v \<Rightarrow> Some v)"
proof (induction kvs arbitrary: m)
  case (Cons kv kvs)
  obtain k' v where kv: "kv = (k', v)" by (rule prod.exhaust)
  have n: "map_of kvs k' = None" using Cons.prems kv by (simp add: map_of_eq_None_iff)
  have "map_of (puts (kv # kvs) m) k = map_of (puts kvs (jput k' v m)) k" by (simp add: puts_def kv)
  also have "\<dots> = (case map_of kvs k of None \<Rightarrow> map_of (jput k' v m) k | Some v \<Rightarrow> Some v)" using Cons by simp
  finally show ?case using n by (auto simp: kv map_of_jput split: option.splits)
qed (simp add: puts_def)

lemma puts_absorb: "(\<And>k v. (k, v) \<in> set kvs \<Longrightarrow> map_of m k = Some v) \<Longrightarrow> puts kvs m = m"
proof (induction kvs)
  case (Cons kv kvs)
  obtain k v where kv: "kv = (k, v)" by (rule prod.exhaust)
  have "map_of m k = Some v" by (rule Cons.prems) (simp add: kv)
  then have "jput k v m = m" by (rule jput_absorb)
  then show ?case using Cons by (simp add: puts_def kv)
qed (simp add: puts_def)

lemma puts_absorb_all: "list_all (\<lambda>(k, v). map_of m k = Some v) kvs \<Longrightarrow> puts kvs m = m"
  by (rule puts_absorb) (auto simp: list_all_iff)

lemma puts_idem: "distinct (map fst kvs) \<Longrightarrow> puts kvs (puts kvs m) = puts kvs m"
  by (rule puts_absorb) (simp add: map_of_puts)

lemma set_schedule_puts: "set_schedule m = puts [(''rescanIntervalS'', JNum CanonicalRescanIntervalS),
   (''fsWatcherEnabled'', JBool CanonicalFsWatcherEnabled), (''fsWatcherDelayS'', JNum CanonicalFsWatcherDelayS), (''hashers'', JNum CanonicalHashers)] m"
  by (simp add: set_schedule_def puts_def)

lemma merge_folder_puts: "merge_folder label path devices m = puts [(''label'', JStr label), (''path'', JStr path), (''devices'', devices),
   (''markerName'', JStr FolderMarkerName), (''rescanIntervalS'', JNum CanonicalRescanIntervalS),
   (''fsWatcherEnabled'', JBool CanonicalFsWatcherEnabled), (''fsWatcherDelayS'', JNum CanonicalFsWatcherDelayS), (''hashers'', JNum CanonicalHashers)] m"
  by (simp add: merge_folder_def set_schedule_def puts_def)

lemma set_schedule_idem: "set_schedule (set_schedule m) = set_schedule m"
  unfolding set_schedule_puts by (rule puts_idem) simp

lemma merge_folder_idem: "merge_folder label path devices (merge_folder label path devices m) = merge_folder label path devices m"
  unfolding merge_folder_puts by (rule puts_idem) simp

lemma set_schedule_get: "k \<notin> {''rescanIntervalS'', ''fsWatcherEnabled'', ''fsWatcherDelayS'', ''hashers''} \<Longrightarrow> jget (set_schedule m) k = jget m k"
  by (auto simp: set_schedule_def)

interpretation schedule_edit: folder_edit set_schedule "{''rescanIntervalS'', ''fsWatcherEnabled'', ''fsWatcherDelayS'', ''hashers''}" myID missing
    "\<lambda>v. v\<lparr>fo_RescanIntervalS := CanonicalRescanIntervalS, fo_FsWatcherEnabled := CanonicalFsWatcherEnabled, fo_Hashers := CanonicalHashers\<rparr>"
  for myID missing
proof unfold_locales
  show "jget (set_schedule m) k = jget m k" if "k \<notin> {''rescanIntervalS'', ''fsWatcherEnabled'', ''fsWatcherDelayS'', ''hashers''}" for k m
    using that by (rule set_schedule_get)
qed (simp_all add: set_schedule_idem, simp add: folder_view_def set_schedule_def)

interpretation pause_edit: folder_edit "jput ''paused'' (JBool paused)" "{''paused''}" myID missing "\<lambda>v. v\<lparr>fo_Paused := paused\<rparr>"
  for paused myID missing
  by unfold_locales (simp_all add: folder_view_def)

interpretation devices_edit: folder_edit "jput ''devices'' (folder_devices myID devices)" "{''devices''}" myID missing
    "\<lambda>v. v\<lparr>fo_Devices := filter (\<lambda>d. d \<noteq> myID \<and> d \<noteq> '''') devices\<rparr>"
  for devices myID missing
  by unfold_locales (simp_all add: folder_view_def view_folder_devices)

interpretation merge_edit: folder_edit "merge_folder label path (folder_devices myID devices)"
    "{''label'', ''path'', ''devices'', ''markerName'', ''rescanIntervalS'', ''fsWatcherEnabled'', ''fsWatcherDelayS'', ''hashers''}" myID missing
    "\<lambda>v. (new_folder (fo_SyncthingFolderID v) path (filter (\<lambda>d. d \<noteq> myID \<and> d \<noteq> '''') devices))
       \<lparr>fo_MarkerDirMissing := missing path FolderMarkerName, fo_Paused := fo_Paused v\<rparr>"
  for label path devices myID missing
proof unfold_locales
  fix m k
  show "merge_folder label path (folder_devices myID devices) (merge_folder label path (folder_devices myID devices) m) =
      merge_folder label path (folder_devices myID devices) m"
    by (rule merge_folder_idem)
  show "folder_view myID missing (merge_folder label path (folder_devices myID devices) m) =
    (new_folder (fo_SyncthingFolderID (folder_view myID missing m)) path (filter (\<lambda>d. d \<noteq> myID \<and> d \<noteq> '''') devices))
       \<lparr>fo_MarkerDirMissing := missing path FolderMarkerName, fo_Paused := fo_Paused (folder_view myID missing m)\<rparr>"
    by (simp add: folder_view_def merge_folder_def set_schedule_def view_folder_devices new_folder_def default_str_def FolderMarkerName_def)
qed (auto simp: merge_folder_def set_schedule_def)

section \<open>What the applier does to the configuration\<close>

text \<open>The configuration side of RealApplier.Apply; other actions leave the configuration alone.\<close>

fun action_edit :: "string \<Rightarrow> Action \<Rightarrow> jobj \<Rightarrow> edit" where
  "action_edit myID (AddSyncthingFolder f p ds l) cfg = AddOrUpdateFolder myID f (default_str f l) p ds cfg"
| "action_edit myID (AcceptSubscription f l p dev n c) cfg = AddOrUpdateFolder myID f l p [dev] cfg"
| "action_edit myID (RemoveSyncthingFolder f) cfg = RemoveFolder f cfg"
| "action_edit myID (UpdateSyncthingFolderDevices f ds) cfg = UpdateFolderDevices myID f ds cfg"
| "action_edit myID (UpdateSyncthingFolderSchedule f) cfg = UpdateFolderSchedule f cfg"
| "action_edit myID (PauseSyncthingFolder f) cfg = SetFolderPaused f True cfg"
| "action_edit myID (UnpauseSyncthingFolder f) cfg = SetFolderPaused f False cfg"
| "action_edit myID (AddSyncthingDevice n dev) cfg = AddDevice dev n cfg"
| "action_edit myID _ cfg = Unchanged"

fun touched_folder :: "Action \<Rightarrow> string option" where
  "touched_folder (AddSyncthingFolder f p ds l) = Some f"
| "touched_folder (AcceptSubscription f l p dev n c) = Some f"
| "touched_folder (RemoveSyncthingFolder f) = Some f"
| "touched_folder (UpdateSyncthingFolderDevices f ds) = Some f"
| "touched_folder (UpdateSyncthingFolderSchedule f) = Some f"
| "touched_folder (PauseSyncthingFolder f) = Some f"
| "touched_folder (UnpauseSyncthingFolder f) = Some f"
| "touched_folder _ = None"

lemma update_first_None: "update_first P g xs = None \<longleftrightarrow> (\<forall>x\<in>set xs. \<not> P x)"
  by (induction xs) auto

lemma update_first_append: "update_first P g xs = None \<Longrightarrow> update_first P g (xs @ ys) = map_option ((@) xs) (update_first P g ys)"
proof (induction xs)
  case (Cons x xs)
  then show ?case by (cases "update_first P g ys") (auto split: if_splits)
next
  case Nil
  then show ?case by (cases "update_first P g ys") simp_all
qed

lemma update_first_filter:
  assumes "\<And>x. P (g x) \<longleftrightarrow> P x"
  shows "update_first P g xs = Some ys \<Longrightarrow> filter (\<lambda>x. \<not> P x) ys = filter (\<lambda>x. \<not> P x) xs"
  by (induction xs arbitrary: ys) (auto simp: assms split: if_splits)

lemma edit_folder_None:
  assumes "fid \<noteq> ''''"
  shows "edit_folder fid h cfg = None \<longleftrightarrow> fid \<notin> fo_SyncthingFolderID ` set (query_folders myID missing cfg)"
proof -
  have "has_str ''id'' fid x \<longleftrightarrow> fid \<in> fo_SyncthingFolderID ` set (parse_folder myID missing x)" for x
    unfolding pause_edit.parse_has_str[OF assms, of x myID missing]
    by (auto simp: parse_folder_def split: json.splits)
  then show ?thesis unfolding edit_folder_def query_folders_def by (auto simp: update_first_None)
qed

lemma query_remove:
  assumes "fid \<noteq> ''''"
  shows "concat (map (parse_folder myID missing) (filter (\<lambda>f. \<not> has_str ''id'' fid f) xs)) =
    filter (\<lambda>v. fo_SyncthingFolderID v \<noteq> fid) (concat (map (parse_folder myID missing) xs))"
proof (induction xs)
  case (Cons x xs)
  show ?case
  proof (cases "has_str ''id'' fid x")
    case True
    then obtain v where "parse_folder myID missing x = [v]" "fo_SyncthingFolderID v = fid"
      using pause_edit.parse_has_str[OF assms] by blast
    then show ?thesis using Cons True by simp
  next
    case False
    have "filter (\<lambda>v. fo_SyncthingFolderID v \<noteq> fid) (parse_folder myID missing x) = parse_folder myID missing x"
    proof (rule filter_True, rule ballI)
      fix v assume v: "v \<in> set (parse_folder myID missing x)"
      then have "parse_folder myID missing x = [v]" by (auto simp: parse_folder_def split: json.splits if_splits)
      then show "fo_SyncthingFolderID v \<noteq> fid" using False pause_edit.parse_has_str[OF assms] by blast
    qed
    then show ?thesis using Cons False by simp
  qed
qed simp

lemma query_jput_folders [simp]: "query_folders myID missing (jput ''folders'' (JArr fs) cfg) = concat (map (parse_folder myID missing) fs)"
  by (simp add: query_folders_def)

lemma jget_folder_cfg:
  "folder_view myID missing (folder_cfg fid label path (folder_devices myID ds)) =
   (new_folder fid path (filter (\<lambda>d. d \<noteq> myID \<and> d \<noteq> '''') ds))\<lparr>fo_MarkerDirMissing := missing path FolderMarkerName\<rparr>"
  by (simp add: folder_view_def folder_cfg_def jget_def view_folder_devices new_folder_def default_str_def FolderMarkerName_def as_bool_def)

lemma query_add_new:
  assumes "fid \<noteq> ''''" "fid \<notin> fo_SyncthingFolderID ` set (query_folders myID missing cfg)"
  shows "\<exists>cfg'. AddOrUpdateFolder myID fid label path ds cfg = Write cfg' \<and>
    query_folders myID missing cfg' = query_folders myID missing cfg @
      [(new_folder fid path (filter (\<lambda>d. d \<noteq> myID \<and> d \<noteq> '''') ds))\<lparr>fo_MarkerDirMissing := missing path FolderMarkerName\<rparr>]"
proof -
  have n: "edit_folder fid (merge_folder label path (folder_devices myID ds)) cfg = None" using edit_folder_None assms by blast
  have i: "as_str (jget (folder_cfg fid label path (folder_devices myID ds)) ''id'') = fid" by (simp add: folder_cfg_def jget_def)
  have "parse_folder myID missing (JObj (folder_cfg fid label path (folder_devices myID ds))) =
    [(new_folder fid path (filter (\<lambda>d. d \<noteq> myID \<and> d \<noteq> '''') ds))\<lparr>fo_MarkerDirMissing := missing path FolderMarkerName\<rparr>]"
    unfolding parse_folder_def json.case i jget_folder_cfg using assms(1) by simp
  then show ?thesis unfolding AddOrUpdateFolder_def Let_def n option.case by (simp add: query_folders_def)
qed

section \<open>Properties\<close>

lemma folder_edit_refines:
  assumes obs: "ob_ManagedFolders ob = query_folders myID missing cfg"
    and dist: "distinct (map fo_SyncthingFolderID (query_folders myID missing cfg))"
    and edit: "touched_folder a = Some f" "f \<noteq> ''''" "action_edit myID a cfg = Write cfg'"
    and new: "\<And>p ds l. a = AddSyncthingFolder f p ds l \<Longrightarrow> f \<notin> fo_SyncthingFolderID ` set (ob_ManagedFolders ob) \<and>
       \<not> missing p FolderMarkerName \<and> myID \<notin> set ds \<and> '''' \<notin> set ds"
      "\<And>l p dev n c. a = AcceptSubscription f l p dev n c \<Longrightarrow> f \<notin> fo_SyncthingFolderID ` set (ob_ManagedFolders ob) \<and>
       \<not> missing p FolderMarkerName \<and> dev \<noteq> myID \<and> dev \<noteq> ''''"
      "\<And>ds. a = UpdateSyncthingFolderDevices f ds \<Longrightarrow> myID \<notin> set ds \<and> '''' \<notin> set ds"
  shows "query_folders myID missing cfg' = ob_ManagedFolders (observe_after a ob)"
proof -
  have er: "edit_result r = Write c \<longleftrightarrow> r = Some c" for r c by (cases r) (simp_all add: edit_result_def)
  have flt: "filter (\<lambda>d. d \<noteq> myID \<and> d \<noteq> '''') ds = ds" if "myID \<notin> set ds" "'''' \<notin> set ds" for ds
    using that by (intro filter_True) auto
  show ?thesis
  proof (cases a)
    case (AddSyncthingFolder g p ds l)
    then have g: "g = f" using edit(1) by simp
    note n = new(1)[OF AddSyncthingFolder[unfolded g]]
    obtain c where c: "AddOrUpdateFolder myID f (default_str f l) p ds cfg = Write c"
      "query_folders myID missing c = query_folders myID missing cfg @
        [(new_folder f p (filter (\<lambda>d. d \<noteq> myID \<and> d \<noteq> '''') ds))\<lparr>fo_MarkerDirMissing := missing p FolderMarkerName\<rparr>]"
      using query_add_new[OF edit(2), of myID missing cfg "default_str f l" p ds] n obs by auto
    have "c = cfg'" using edit(3) c(1) by (simp add: AddSyncthingFolder g)
    then show ?thesis using c(2) n flt[of ds] obs by (simp add: AddSyncthingFolder g observe_after.simps new_folder_def)
  next
    case (AcceptSubscription g l p dev n c)
    then have g: "g = f" using edit(1) by simp
    note nn = new(2)[OF AcceptSubscription[unfolded g]]
    obtain c where c: "AddOrUpdateFolder myID f l p [dev] cfg = Write c"
      "query_folders myID missing c = query_folders myID missing cfg @
        [(new_folder f p (filter (\<lambda>d. d \<noteq> myID \<and> d \<noteq> '''') [dev]))\<lparr>fo_MarkerDirMissing := missing p FolderMarkerName\<rparr>]"
      using query_add_new[OF edit(2), of myID missing cfg l p "[dev]"] nn obs by auto
    have "c = cfg'" using edit(3) c(1) by (simp add: AcceptSubscription g)
    then show ?thesis using c(2) nn obs by (simp add: AcceptSubscription g observe_after.simps new_folder_def)
  next
    case (RemoveSyncthingFolder g)
    then show ?thesis using edit obs query_remove[OF edit(2), of myID missing "as_arr (jget cfg ''folders'')"]
      by (auto simp: RemoveFolder_def Let_def observe_after.simps query_folders_def split: if_splits)
  next
    case (UpdateSyncthingFolderDevices g ds)
    then have g: "g = f" using edit(1) by simp
    have e: "edit_folder f (jput ''devices'' (folder_devices myID ds)) cfg = Some cfg'"
      using edit(3) by (simp add: UpdateSyncthingFolderDevices g UpdateFolderDevices_def er)
    note n = new(3)[OF UpdateSyncthingFolderDevices[unfolded g]]
    show ?thesis using devices_edit.query_edit_folder[OF edit(2) e dist] flt[of ds] n obs
      by (simp add: UpdateSyncthingFolderDevices g observe_after.simps on_folder_def)
  next
    case (UpdateSyncthingFolderSchedule g)
    then have g: "g = f" using edit(1) by simp
    have e: "edit_folder f set_schedule cfg = Some cfg'"
      using edit(3) by (simp add: UpdateSyncthingFolderSchedule g UpdateFolderSchedule_def er)
    show ?thesis using schedule_edit.query_edit_folder[OF edit(2) e dist] obs
      by (simp add: UpdateSyncthingFolderSchedule g observe_after.simps on_folder_def)
  next
    case (PauseSyncthingFolder g)
    then have g: "g = f" using edit(1) by simp
    have e: "edit_folder f (jput ''paused'' (JBool True)) cfg = Some cfg'"
      using edit(3) by (simp add: PauseSyncthingFolder g SetFolderPaused_def er)
    show ?thesis using pause_edit.query_edit_folder[OF edit(2) e dist] obs
      by (simp add: PauseSyncthingFolder g observe_after.simps on_folder_def)
  next
    case (UnpauseSyncthingFolder g)
    then have g: "g = f" using edit(1) by simp
    have e: "edit_folder f (jput ''paused'' (JBool False)) cfg = Some cfg'"
      using edit(3) by (simp add: UnpauseSyncthingFolder g SetFolderPaused_def er)
    show ?thesis using pause_edit.query_edit_folder[OF edit(2) e dist] obs
      by (simp add: UnpauseSyncthingFolder g observe_after.simps on_folder_def)
  qed (use edit(1) in simp_all)
qed

text \<open>
  C13: the configuration edits implement the abstract effects the planner relies on: writing a folder
  action's configuration and querying Syncthing again gives the folders the abstract model
  predicts, provided folder IDs are distinct, an added folder is new with its marker in place, and
  the own device is not listed.
\<close>

theorem folder_edits_refine:
  assumes obs: "ob_ManagedFolders ob = query_folders myID missing cfg"
    and dist: "distinct (map fo_SyncthingFolderID (query_folders myID missing cfg))"
    and edit: "touched_folder a = Some f" "f \<noteq> ''''" "action_edit myID a cfg = Write cfg'"
    and new: "\<And>p ds l. a = AddSyncthingFolder f p ds l \<Longrightarrow> f \<notin> fo_SyncthingFolderID ` set (ob_ManagedFolders ob) \<and>
       \<not> missing p FolderMarkerName \<and> myID \<notin> set ds \<and> '''' \<notin> set ds"
      "\<And>l p dev n c. a = AcceptSubscription f l p dev n c \<Longrightarrow> f \<notin> fo_SyncthingFolderID ` set (ob_ManagedFolders ob) \<and>
       \<not> missing p FolderMarkerName \<and> dev \<noteq> myID \<and> dev \<noteq> ''''"
      "\<And>ds. a = UpdateSyncthingFolderDevices f ds \<Longrightarrow> myID \<notin> set ds \<and> '''' \<notin> set ds"
  shows "query_folders myID missing cfg' = ob_ManagedFolders (observe_after a ob)"
  using assms by (rule folder_edit_refines)

definition demo_cfg :: jobj where
  "demo_cfg = [(''version'', JNum 37),
     (''devices'', JArr [JObj [(''deviceID'', JStr ''ME'')], JObj [(''deviceID'', JStr ''D1''), (''autoAcceptFolders'', JBool True)]]),
     (''folders'', JArr [JObj [(''id'', JStr ''fa''), (''path'', JStr ''/a''), (''devices'', JArr [device_entry ''ME'', device_entry ''D1'']), (''order'', JStr ''random'')],
                         JObj [(''id'', JStr ''fb''), (''path'', JStr ''/b''), (''rescanIntervalS'', JNum 60)]])]"

theorem folder_edits_refine_witness:
  "\<exists>cfg'. action_edit ''ME'' (UpdateSyncthingFolderDevices ''fb'' [''D1'']) demo_cfg = Write cfg' \<and>
     map fo_Devices (query_folders ''ME'' (\<lambda>_ _. False) cfg') = [[''D1''], [''D1'']]"
proof -
  let ?a = "UpdateSyncthingFolderDevices ''fb'' [''D1'']"
  let ?ob = "demo_observed\<lparr>ob_ManagedFolders := query_folders ''ME'' (\<lambda>_ _. False) demo_cfg\<rparr>"
  have "(case action_edit ''ME'' ?a demo_cfg of Write c \<Rightarrow> True | _ \<Rightarrow> False)" by code_simp
  then obtain c where c: "action_edit ''ME'' ?a demo_cfg = Write c" by (auto split: edit.splits)
  have d: "distinct (map fo_SyncthingFolderID (query_folders ''ME'' (\<lambda>_ _. False) demo_cfg))" by code_simp
  have "query_folders ''ME'' (\<lambda>_ _. False) c = ob_ManagedFolders (observe_after ?a ?ob)"
    by (rule folder_edits_refine[OF _ d _ _ c, where f = "''fb''"]) simp_all
  moreover have "map fo_Devices (ob_ManagedFolders (observe_after ?a ?ob)) = [[''D1''], [''D1'']]" by code_simp
  ultimately show ?thesis using c by auto
qed

text \<open>Every edit is idempotent: a repeated action finds its work done or writes the same configuration.\<close>

lemma merge_new_folder: "merge_folder label path devices (folder_cfg fid label path devices) = folder_cfg fid label path devices"
  unfolding merge_folder_puts by (rule puts_absorb_all) (simp add: folder_cfg_def)

lemma AddOrUpdateFolder_idem:
  assumes "AddOrUpdateFolder myID fid label path ds cfg = Write cfg'"
  shows "AddOrUpdateFolder myID fid label path ds cfg' = Write cfg'"
proof -
  let ?dv = "folder_devices myID ds"
  show ?thesis
  proof (cases "edit_folder fid (merge_folder label path ?dv) cfg")
    case (Some c)
    then have "c = cfg'" using assms by (simp add: AddOrUpdateFolder_def Let_def)
    then have "edit_folder fid (merge_folder label path ?dv) cfg' = Some cfg'"
      using merge_edit.edit_folder_idem[OF Some[folded merge_edit.idem]] Some merge_edit.edit_folder_idem by blast
    then show ?thesis by (simp add: AddOrUpdateFolder_def Let_def)
  next
    case None
    let ?fs = "as_arr (jget cfg ''folders'')" and ?new = "JObj (folder_cfg fid label path ?dv)"
    let ?g = "\<lambda>f. JObj (merge_folder label path ?dv (as_obj f))"
    have c: "cfg' = jput ''folders'' (JArr (?fs @ [?new])) cfg" using assms None by (simp add: AddOrUpdateFolder_def Let_def)
    have n: "update_first (has_str ''id'' fid) ?g ?fs = None" using None by (simp add: edit_folder_def)
    have h: "has_str ''id'' fid ?new" by (simp add: has_str_def folder_cfg_def jget_def)
    have "update_first (has_str ''id'' fid) ?g (?fs @ [?new]) = Some (?fs @ [?new])"
      unfolding update_first_append[OF n] using h by (simp add: merge_new_folder)
    then show ?thesis unfolding AddOrUpdateFolder_def Let_def c edit_folder_def by simp
  qed
qed

lemma find_update_first:
  assumes "\<And>x. P (g x) \<longleftrightarrow> P x" "find P xs = Some d" "update_first P g xs = Some ys"
  shows "find P ys = Some (g d)"
  using assms(2,3)
proof (induction xs arbitrary: ys)
  case (Cons x xs)
  then show ?case by (cases "P x") (auto simp: assms(1))
qed simp

lemma find_snoc: "find P xs = None \<Longrightarrow> P x \<Longrightarrow> find P (xs @ [x]) = Some x"
  by (induction xs) (auto split: if_splits)

lemma new_device_facts: "has_str ''deviceID'' dev (new_device dev n)" "\<not> auto_accepts (new_device dev n)"
  by (simp_all add: has_str_def auto_accepts_def new_device_def jget_def as_bool_def)

lemma AddDevice_idem: "AddDevice dev n cfg = Write cfg' \<Longrightarrow> AddDevice dev n cfg' = Unchanged"
proof -
  assume w: "AddDevice dev n cfg = Write cfg'"
  let ?ds = "as_arr (jget cfg ''devices'')" and ?P = "has_str ''deviceID'' dev"
  show ?thesis
  proof (cases "find ?P ?ds")
    case None
    then have c: "cfg' = jput ''devices'' (JArr (?ds @ [new_device dev n])) cfg" using w by (simp add: AddDevice_def Let_def)
    have "find ?P (?ds @ [new_device dev n]) = Some (new_device dev n)"
      using None new_device_facts(1)[of dev n] by (rule find_snoc)
    then have f: "find ?P (as_arr (jget cfg' ''devices'')) = Some (new_device dev n)"
      unfolding c jget_jput simp_thms if_True as_simps .
    show ?thesis unfolding AddDevice_def Let_def f option.case using new_device_facts(2) by (simp only: if_False)
  next
    case (Some d)
    have Pg: "?P (clear_auto_accept x) \<longleftrightarrow> ?P x" for x by (simp add: has_str_def clear_auto_accept_def)
    obtain ys where ys: "update_first ?P clear_auto_accept ?ds = Some ys" "cfg' = jput ''devices'' (JArr ys) cfg"
      using w Some by (auto simp: AddDevice_def Let_def split: if_splits option.splits)
    have "find ?P ys = Some (clear_auto_accept d)" by (rule find_update_first[OF Pg Some ys(1)])
    then show ?thesis by (simp add: AddDevice_def Let_def ys(2) auto_accepts_def clear_auto_accept_def)
  qed
qed

lemma edit_result_Write: "edit_result r = Write c \<longleftrightarrow> r = Some c"
  by (cases r) (simp_all add: edit_result_def)

text \<open>
  C14: every configuration action is idempotent: once it has written a configuration, applying it again
  to that configuration leaves it as it is.
\<close>

theorem action_edit_idempotent:
  assumes "action_edit myID a cfg = Write cfg'"
  shows "action_edit myID a cfg' = Unchanged \<or> action_edit myID a cfg' = Write cfg'"
proof (cases a)
  case (RemoveSyncthingFolder f)
  have "length (filter P (filter P xs)) = length (filter P xs)" for P and xs :: "json list" by simp
  then show ?thesis using assms RemoveSyncthingFolder by (auto simp: RemoveFolder_def Let_def split: if_splits)
next
  case (AddSyncthingDevice n dev)
  then show ?thesis using AddDevice_idem assms by simp
next
  case (UpdateSyncthingFolderDevices f ds)
  then show ?thesis using assms devices_edit.edit_folder_idem by (auto simp: UpdateFolderDevices_def edit_result_Write)
next
  case (UpdateSyncthingFolderSchedule f)
  then show ?thesis using assms schedule_edit.edit_folder_idem by (auto simp: UpdateFolderSchedule_def edit_result_Write)
next
  case (PauseSyncthingFolder f)
  then show ?thesis using assms pause_edit.edit_folder_idem by (auto simp: SetFolderPaused_def edit_result_Write)
next
  case (UnpauseSyncthingFolder f)
  then show ?thesis using assms pause_edit.edit_folder_idem by (auto simp: SetFolderPaused_def edit_result_Write)
qed (use assms AddOrUpdateFolder_idem in simp_all)

theorem action_edit_idempotent_witness:
  "\<exists>cfg'. action_edit ''ME'' (AddSyncthingDevice ''p1'' ''D1'') demo_cfg = Write cfg' \<and>
     (action_edit ''ME'' (AddSyncthingDevice ''p1'' ''D1'') cfg' = Unchanged \<or> action_edit ''ME'' (AddSyncthingDevice ''p1'' ''D1'') cfg' = Write cfg')"
proof -
  have "(case action_edit ''ME'' (AddSyncthingDevice ''p1'' ''D1'') demo_cfg of Write c \<Rightarrow> True | _ \<Rightarrow> False)" by code_simp
  then obtain c where "action_edit ''ME'' (AddSyncthingDevice ''p1'' ''D1'') demo_cfg = Write c" by (auto split: edit.splits)
  then show ?thesis using action_edit_idempotent by blast
qed

text \<open>
  An action touches only what it is about: keys of the configuration other than the folder and
  device lists, the entries of all other folders (in their order), and for peers every folder entry,
  are the ones read.
\<close>

theorem action_edit_frame:
  assumes "action_edit myID a cfg = Write cfg'"
  shows "(if k = ''folders'' \<or> k = ''devices'' then True else jget cfg' k = jget cfg k) \<and>
    (case touched_folder a of
       None \<Rightarrow> jget cfg' ''folders'' = jget cfg ''folders''
     | Some f \<Rightarrow> jget cfg' ''devices'' = jget cfg ''devices'' \<and>
         filter (\<lambda>x. \<not> has_str ''id'' f x) (as_arr (jget cfg' ''folders'')) =
         filter (\<lambda>x. \<not> has_str ''id'' f x) (as_arr (jget cfg ''folders'')))"
proof -
  have ed: "(if k = ''folders'' \<or> k = ''devices'' then True else jget c k = jget cfg k) \<and> jget c ''devices'' = jget cfg ''devices'' \<and>
      filter (\<lambda>x. \<not> has_str ''id'' f x) (as_arr (jget c ''folders'')) = filter (\<lambda>x. \<not> has_str ''id'' f x) (as_arr (jget cfg ''folders''))"
    if e: "edit_folder f h cfg = Some c" and kid: "\<And>j. has_str ''id'' f (JObj (h (as_obj j))) \<longleftrightarrow> has_str ''id'' f j" for f h c
  proof -
    obtain ys where ys: "update_first (has_str ''id'' f) (\<lambda>f. JObj (h (as_obj f))) (as_arr (jget cfg ''folders'')) = Some ys"
      "c = jput ''folders'' (JArr ys) cfg" using e unfolding edit_folder_def map_option_eq_Some by blast
    from update_first_filter[where P = "has_str ''id'' f" and g = "\<lambda>f. JObj (h (as_obj f))", OF kid ys(1)] show ?thesis by (simp add: ys(2))
  qed
  have add: "(if k = ''folders'' \<or> k = ''devices'' then True else jget c k = jget cfg k) \<and> jget c ''devices'' = jget cfg ''devices'' \<and>
      filter (\<lambda>x. \<not> has_str ''id'' f x) (as_arr (jget c ''folders'')) = filter (\<lambda>x. \<not> has_str ''id'' f x) (as_arr (jget cfg ''folders''))"
    if "AddOrUpdateFolder myID f label path ds cfg = Write c" for f label path ds c
  proof (cases "edit_folder f (merge_folder label path (folder_devices myID ds)) cfg")
    case None
    have "has_str ''id'' f (JObj (folder_cfg f label path dv))" for dv by (simp add: has_str_def folder_cfg_def jget_def)
    then show ?thesis using that None by (auto simp: AddOrUpdateFolder_def Let_def)
  next
    case (Some c')
    have "c' = c" using that Some by (simp add: AddOrUpdateFolder_def Let_def)
    with Some have "edit_folder f (merge_folder label path (folder_devices myID ds)) cfg = Some c" by (simp only:)
    from ed[OF this merge_edit.keeps_id] show ?thesis .
  qed
  show ?thesis
  proof (cases a)
    case (AddSyncthingFolder f p ds l)
    then show ?thesis using add assms by simp
  next
    case (AcceptSubscription f l p dev n c)
    then show ?thesis using add assms by simp
  next
    case (RemoveSyncthingFolder f)
    then show ?thesis using assms by (auto simp: RemoveFolder_def Let_def split: if_splits)
  next
    case (UpdateSyncthingFolderDevices f ds)
    then show ?thesis using ed[OF _ devices_edit.keeps_id] assms by (simp add: UpdateFolderDevices_def edit_result_Write)
  next
    case (UpdateSyncthingFolderSchedule f)
    then show ?thesis using ed[OF _ schedule_edit.keeps_id] assms by (simp add: UpdateFolderSchedule_def edit_result_Write)
  next
    case (PauseSyncthingFolder f)
    then show ?thesis using ed[OF _ pause_edit.keeps_id] assms by (simp add: SetFolderPaused_def edit_result_Write)
  next
    case (UnpauseSyncthingFolder f)
    then show ?thesis using ed[OF _ pause_edit.keeps_id] assms by (simp add: SetFolderPaused_def edit_result_Write)
  next
    case (AddSyncthingDevice n dev)
    then show ?thesis using assms by (auto simp: AddDevice_def Let_def split: option.splits if_splits)
  qed (use assms in simp_all)
qed

theorem action_edit_frame_witness:
  "\<exists>cfg'. action_edit ''ME'' (RemoveSyncthingFolder ''fa'') demo_cfg = Write cfg' \<and> jget cfg' ''version'' = JNum 37"
proof -
  have "(case action_edit ''ME'' (RemoveSyncthingFolder ''fa'') demo_cfg of Write c \<Rightarrow> True | _ \<Rightarrow> False)" by code_simp
  then obtain c where c: "action_edit ''ME'' (RemoveSyncthingFolder ''fa'') demo_cfg = Write c" by (auto split: edit.splits)
  have "jget demo_cfg ''version'' = JNum 37" by code_simp
  then show ?thesis using action_edit_frame[OF c, of "''version''"] c by simp
qed

lemma query_devices_clean:
  "v \<in> set (query_folders myID missing cfg) \<Longrightarrow> myID \<notin> set (fo_Devices v) \<and> '''' \<notin> set (fo_Devices v)"
  by (auto simp: query_folders_def parse_folder_def folder_view_def view_devices_def split: json.splits if_splits)

text \<open>
  A folder whose sharing list names this machine's own device never settles: the writers leave
  the own device out and the query hides it, so every pass, whatever the configuration, plans the
  same device update again.
\<close>

theorem own_device_never_settles:
  assumes "df \<in> set (desired_folders d)" "myID \<in> set (df_devices df)"
    and "ob_ManagedFolders ob = query_folders myID missing cfg"
    and "df_folderID df \<in> fo_SyncthingFolderID ` set (ob_ManagedFolders ob)"
  shows "UpdateSyncthingFolderDevices (df_folderID df) (df_devices df) \<in> set (Diff wall d ob)"
proof -
  obtain v where v: "folder_at ob (df_folderID df) = Some v" using assms(4) index_last_None[of fo_SyncthingFolderID] by (metis not_Some_eq)
  then have "v \<in> set (query_folders myID missing cfg)" using index_last_Some[OF v] assms(3) by simp
  then have "myID \<notin> set (fo_Devices v)" using query_devices_clean by blast
  then have "mset (fo_Devices v) \<noteq> mset (df_devices df)" using assms(2) by (metis mset_eq_setD)
  then have ne: "\<not> stringSlicesEqual (sortedCopy (fo_Devices v)) (sortedCopy (df_devices df))"
    unfolding stringSlicesEqual_iff sortedCopy_eq_iff .
  then have "UpdateSyncthingFolderDevices (df_folderID df) (df_devices df) \<in> set (folder_actions d ob df)"
    unfolding folder_actions_def Let_def v option.case by simp
  then show ?thesis using assms(1) unfolding Diff_def by auto
qed

theorem own_device_never_settles_witness:
  "UpdateSyncthingFolderDevices ''fb'' [''D2''] \<in> set (Diff 0 demo_desired
     (demo_observed\<lparr>ob_ManagedFolders := query_folders ''D2'' (\<lambda>_ _. False) demo_cfg\<rparr>))"
proof -
  let ?df = "\<lparr>df_folderID = ''fb'', df_path = ''/b'', df_devices = [''D2''], df_canonical = []\<rparr>"
  have 1: "?df \<in> set (desired_folders demo_desired)"
    unfolding desired_folders_set
    by (rule exI[of _ "''/b''"], rule exI[of _ "demo_repo ''/b'' ''fb'' [''D2''] ''timer''"])
      (simp add: demo_desired_def demo_repo_def zero_RepoDesired_def)
  have 2: "''fb'' \<in> set (map fo_SyncthingFolderID (query_folders ''D2'' (\<lambda>_ _. False) demo_cfg))" by code_simp
  show ?thesis using own_device_never_settles[OF 1, of "''D2''"
      "demo_observed\<lparr>ob_ManagedFolders := query_folders ''D2'' (\<lambda>_ _. False) demo_cfg\<rparr>" "\<lambda>_ _. False" demo_cfg 0] 2
    by simp
qed

text \<open>The folder an edit of the transport layer changes.\<close>

lemma find_update_first_none: "find P xs = None \<longleftrightarrow> update_first P g xs = None"
  by (induction xs) auto

lemma find_edit:
  assumes "find (has_str ''id'' f) (as_arr (jget cfg ''folders'')) = Some x"
    and "\<And>j. has_str ''id'' f (JObj (h (as_obj j))) \<longleftrightarrow> has_str ''id'' f j"
  shows "\<exists>c. edit_folder f h cfg = Some c \<and>
     find (has_str ''id'' f) (as_arr (jget c ''folders'')) = Some (JObj (h (as_obj x)))"
proof -
  obtain ys where ys: "update_first (has_str ''id'' f) (\<lambda>f. JObj (h (as_obj f))) (as_arr (jget cfg ''folders'')) = Some ys"
    using assms(1) find_update_first_none by (metis not_Some_eq option.distinct(1))
  have "find (has_str ''id'' f) ys = Some (JObj (h (as_obj x)))"
    using find_update_first[where P = "has_str ''id'' f" and g = "\<lambda>f. JObj (h (as_obj f))", OF assms(2,1) ys] .
  then show ?thesis by (simp add: edit_folder_def ys)
qed

text \<open>
  Adding a peer to a folder and taking it out again are inverse for what is observed of the folder's
  sharing list: after the first the peer is in and a second call writes nothing, after the removal the
  list is what it was and a second removal writes nothing. An absent folder is an error in both.
\<close>

theorem peer_reachability_roundtrip:
  "(case EnsurePeerReachability f dev cfg of
      NotFound \<Rightarrow> RemovePeerReachability f (CHR ''x'' # dev) cfg = NotFound
    | Unchanged \<Rightarrow> True
    | Write cfg1 \<Rightarrow> EnsurePeerReachability f dev cfg1 = Unchanged \<and>
        (if dev = '''' then RemovePeerReachability f dev cfg1 = Unchanged
         else (case RemovePeerReachability f dev cfg1 of
           Write cfg2 \<Rightarrow> map_option (\<lambda>x. as_arr (jget (as_obj x) ''devices'')) (find (has_str ''id'' f) (as_arr (jget cfg2 ''folders''))) =
                        map_option (\<lambda>x. as_arr (jget (as_obj x) ''devices'')) (find (has_str ''id'' f) (as_arr (jget cfg ''folders''))) \<and>
                        RemovePeerReachability f dev cfg2 = Unchanged
         | _ \<Rightarrow> False)))"
proof (cases "find (has_str ''id'' f) (as_arr (jget cfg ''folders''))")
  case None
  then show ?thesis by (simp add: EnsurePeerReachability_def RemovePeerReachability_def)
next
  case (Some x)
  let ?ds = "as_arr (jget (as_obj x) ''devices'')" and ?P = "has_str ''deviceID'' dev"
  show ?thesis
  proof (cases "list_ex ?P ?ds")
    case True
    then show ?thesis using Some by (simp add: EnsurePeerReachability_def Let_def)
  next
    case False
    have kid: "has_str ''id'' f (JObj (jput ''devices'' v (as_obj j))) \<longleftrightarrow> has_str ''id'' f j" for v j by (simp add: has_str_def)
    let ?new = "?ds @ [device_entry dev]"
    obtain c1 where c1: "edit_folder f (jput ''devices'' (JArr ?new)) cfg = Some c1"
      "find (has_str ''id'' f) (as_arr (jget c1 ''folders'')) = Some (JObj (jput ''devices'' (JArr ?new) (as_obj x)))"
      using find_edit[where h = "jput ''devices'' (JArr ?new)", OF Some kid] by blast
    have e: "EnsurePeerReachability f dev cfg = Write c1"
      using Some False c1(1) by (simp add: EnsurePeerReachability_def Let_def edit_result_def)
    have d1: "as_arr (jget (as_obj (JObj (jput ''devices'' (JArr ?new) (as_obj x)))) ''devices'') = ?new" by simp
    have hit: "?P (device_entry dev)" by (simp add: has_str_def device_entry_def jget_def)
    have e2: "EnsurePeerReachability f dev c1 = Unchanged"
      unfolding EnsurePeerReachability_def Let_def c1(2) option.case d1 using hit by simp
    have fl: "filter (\<lambda>d. \<not> ?P d) ?new = ?ds" using False hit by (auto simp: list_ex_iff filter_empty_conv intro: filter_True)
    obtain c2 where c2: "edit_folder f (jput ''devices'' (JArr ?ds)) c1 = Some c2"
      "find (has_str ''id'' f) (as_arr (jget c2 ''folders'')) =
         Some (JObj (jput ''devices'' (JArr ?ds) (as_obj (JObj (jput ''devices'' (JArr ?new) (as_obj x))))))"
      using find_edit[where h = "jput ''devices'' (JArr ?ds)", OF c1(2) kid] by blast
    have r: "RemovePeerReachability f dev c1 = Write c2" if "dev \<noteq> ''''"
      unfolding RemovePeerReachability_def Let_def c1(2) option.case d1 fl using that c2(1) by (simp add: edit_result_def)
    have d2: "as_arr (jget (as_obj (JObj (jput ''devices'' (JArr ?ds) (as_obj (JObj (jput ''devices'' (JArr ?new) (as_obj x))))))) ''devices'') = ?ds"
      by simp
    have fl2: "filter (\<lambda>d. \<not> ?P d) ?ds = ?ds" using False by (auto simp: list_ex_iff intro: filter_True)
    have r2: "RemovePeerReachability f dev c2 = Unchanged"
      unfolding RemovePeerReachability_def Let_def c2(2) option.case d2 fl2 by simp
    have z: "RemovePeerReachability f '''' c1 = Unchanged" by (simp add: RemovePeerReachability_def)
    show ?thesis unfolding e edit.case using e2 r r2 c2(2) Some z d2 by simp
  qed
qed

end
