(* ===== verification/Client.thy ===== *)
theory Client
  imports Rest_Config
begin

text \<open>
  internal/stclient/client.go: the Syncthing client with its three caches. The server is a parameter: a
  function of method, endpoint, body and server state, None for a transport error (a timeout included). A body
  is modelled by the JSON value it decodes to, None where it does not decode. A \<^verbatim>\<open>null\<close>
  configuration counts as undecodable.
\<close>

section \<open>Requests\<close>

type_synonym 's http = "string \<Rightarrow> string \<Rightarrow> json option \<Rightarrow> 's \<Rightarrow> (nat \<times> json option) option \<times> 's"

definition api_get :: "'s http \<Rightarrow> string \<Rightarrow> 's \<Rightarrow> json option option \<times> 's" where
  "api_get http endpoint s =
    (case http ''GET'' endpoint None s of
       (None, s') \<Rightarrow> (None, s') | (Some (code, body), s') \<Rightarrow> (if code \<noteq> 200 then None else Some body, s'))"

definition api_put :: "'s http \<Rightarrow> string \<Rightarrow> json \<Rightarrow> 's \<Rightarrow> bool \<times> 's" where
  "api_put http endpoint data s =
    (case http ''PUT'' endpoint (Some data) s of
       (None, s') \<Rightarrow> (False, s') | (Some (code, body), s') \<Rightarrow> (code = 200, s'))"

definition Ping :: "'s http \<Rightarrow> 's \<Rightarrow> bool \<times> 's" where
  "Ping http s = (case api_get http ''rest/system/ping'' s of (r, s') \<Rightarrow> (r \<noteq> None, s'))"

section \<open>The client and its caches\<close>

record client =
  cachedConfig :: "json option option"
  cachedStatus :: "string option"
  cachedConns :: "(string \<times> bool) list option"
  cachedConnsAt :: gotime

definition new_client :: client where
  "new_client = \<lparr>cachedConfig = None, cachedStatus = None, cachedConns = None, cachedConnsAt = 0\<rparr>"

definition connectionsCacheTTL :: dur where "connectionsCacheTTL = 30 * Second"

text \<open>Unmarshalling into structures: an absent or null field is the zero value, another type an error.\<close>

definition dec_obj :: "json \<Rightarrow> jobj option" where
  "dec_obj j = (case j of JObj m \<Rightarrow> Some m | JNull \<Rightarrow> Some [] | _ \<Rightarrow> None)"

definition dec_str :: "json \<Rightarrow> string option" where
  "dec_str j = (case j of JStr x \<Rightarrow> Some x | JNull \<Rightarrow> Some '''' | _ \<Rightarrow> None)"

definition dec_bool :: "json \<Rightarrow> bool option" where
  "dec_bool j = (case j of JBool b \<Rightarrow> Some b | JNull \<Rightarrow> Some False | _ \<Rightarrow> None)"

definition dec_num :: "json \<Rightarrow> int option" where
  "dec_num j = (case j of JNum n \<Rightarrow> Some n | JNull \<Rightarrow> Some 0 | _ \<Rightarrow> None)"

fun map_all :: "('a \<Rightarrow> 'b option) \<Rightarrow> 'a list \<Rightarrow> 'b list option" where
  "map_all f [] = Some []"
| "map_all f (x # xs) = (case f x of None \<Rightarrow> None | Some y \<Rightarrow> map_option ((#) y) (map_all f xs))"

definition GetStatus :: "'s http \<Rightarrow> client \<Rightarrow> 's \<Rightarrow> string option \<times> client \<times> 's" where
  "GetStatus http c s =
    (case cachedStatus c of
       Some myID \<Rightarrow> (Some myID, c, s)
     | None \<Rightarrow>
       (case api_get http ''rest/system/status'' s of
          (Some (Some j), s') \<Rightarrow>
            (case Option.bind (dec_obj j) (\<lambda>m. dec_str (jget m ''myID'')) of
               None \<Rightarrow> (None, c, s') | Some myID \<Rightarrow> (Some myID, c\<lparr>cachedStatus := Some myID\<rparr>, s'))
        | (_, s') \<Rightarrow> (None, c, s')))"

definition dec_config :: "json option \<Rightarrow> jobj option" where
  "dec_config b = (case b of Some (JObj m) \<Rightarrow> Some m | _ \<Rightarrow> None)"

definition GetConfig :: "'s http \<Rightarrow> client \<Rightarrow> 's \<Rightarrow> jobj option \<times> client \<times> 's" where
  "GetConfig http c s =
    (case cachedConfig c of
       Some b \<Rightarrow> (dec_config b, c, s)
     | None \<Rightarrow>
       (case api_get http ''rest/config'' s of
          (None, s') \<Rightarrow> (None, c, s')
        | (Some b, s') \<Rightarrow> (dec_config b, c\<lparr>cachedConfig := Some b\<rparr>, s')))"

definition SetConfig :: "'s http \<Rightarrow> jobj \<Rightarrow> client \<Rightarrow> 's \<Rightarrow> bool \<times> client \<times> 's" where
  "SetConfig http cfg c s =
    (case api_put http ''rest/config'' (JObj cfg) s of
       (False, s') \<Rightarrow> (False, c, s') | (True, s') \<Rightarrow> (True, c\<lparr>cachedConfig := None\<rparr>, s'))"

definition dec_conns :: "json \<Rightarrow> (string \<times> bool) list option" where
  "dec_conns j =
    (case Option.bind (dec_obj j) (\<lambda>m. dec_obj (jget m ''connections'')) of
       None \<Rightarrow> None
     | Some cs \<Rightarrow> map_all (\<lambda>(d, x). Option.bind (dec_obj x) (\<lambda>m.
         if dec_str (jget m ''address'') = None \<or> dec_str (jget m ''clientVersion'') = None then None
         else map_option (Pair d) (dec_bool (jget m ''connected'')))) cs)"

definition GetConnections :: "'s http \<Rightarrow> gotime \<Rightarrow> client \<Rightarrow> 's \<Rightarrow> (string \<times> bool) list option \<times> client \<times> 's" where
  "GetConnections http now c s =
    (case cachedConns c of
       Some conns \<Rightarrow>
         (if time_Sub now (cachedConnsAt c) < connectionsCacheTTL then (Some conns, c, s)
          else (case api_get http ''rest/system/connections'' s of
             (Some (Some j), s') \<Rightarrow>
               (case dec_conns j of None \<Rightarrow> (None, c, s') | Some cs \<Rightarrow> (Some cs, c\<lparr>cachedConns := Some cs, cachedConnsAt := now\<rparr>, s'))
           | (_, s') \<Rightarrow> (None, c, s')))
     | None \<Rightarrow>
         (case api_get http ''rest/system/connections'' s of
             (Some (Some j), s') \<Rightarrow>
               (case dec_conns j of None \<Rightarrow> (None, c, s') | Some cs \<Rightarrow> (Some cs, c\<lparr>cachedConns := Some cs, cachedConnsAt := now\<rparr>, s'))
           | (_, s') \<Rightarrow> (None, c, s')))"

record FolderStatus =
  fst_State :: string
  fst_Errors :: int
  fst_NeedFiles :: int

definition GetFolderStatus :: "'s http \<Rightarrow> string \<Rightarrow> 's \<Rightarrow> FolderStatus option \<times> 's" where
  "GetFolderStatus http folderID s =
    (case api_get http (''rest/db/status?folder='' @ folderID) s of
       (Some (Some j), s') \<Rightarrow>
         (case dec_obj j of
            None \<Rightarrow> (None, s')
          | Some m \<Rightarrow>
            (case (dec_str (jget m ''state''), dec_num (jget m ''errors''), dec_num (jget m ''needFiles'')) of
               (Some st, Some e, Some n) \<Rightarrow> (Some \<lparr>fst_State = st, fst_Errors = e, fst_NeedFiles = n\<rparr>, s')
             | _ \<Rightarrow> (None, s')))
     | (_, s') \<Rightarrow> (None, s'))"

record PendingFolder =
  pf_ID :: string
  pf_Label :: string
  pf_ReceivedFrom :: string
  pf_Time :: string

definition dec_offer :: "string \<Rightarrow> string \<times> json \<Rightarrow> PendingFolder option" where
  "dec_offer fid x = (case x of (dev, o1) \<Rightarrow>
     Option.bind (dec_obj o1) (\<lambda>m.
       case (dec_str (jget m ''label''), dec_str (jget m ''time'')) of
         (Some l, Some t) \<Rightarrow> Some \<lparr>pf_ID = fid, pf_Label = l, pf_ReceivedFrom = dev, pf_Time = t\<rparr>
       | _ \<Rightarrow> None))"

definition dec_pending :: "json \<Rightarrow> PendingFolder list option" where
  "dec_pending j =
    (case dec_obj j of
       None \<Rightarrow> None
     | Some raw \<Rightarrow> map_option concat (map_all (\<lambda>(fid, e).
         case Option.bind (dec_obj e) (\<lambda>m. dec_obj (jget m ''offeredBy'')) of
           None \<Rightarrow> None | Some offers \<Rightarrow> map_all (dec_offer fid) offers) raw))"

definition GetPendingFolders :: "'s http \<Rightarrow> 's \<Rightarrow> PendingFolder list option \<times> 's" where
  "GetPendingFolders http s =
    (case api_get http ''rest/cluster/pending/folders'' s of
       (Some (Some j), s') \<Rightarrow> (dec_pending j, s') | (_, s') \<Rightarrow> (None, s'))"

text \<open>\<open>url.PathEscape\<close>.\<close>

definition path_safe :: "char \<Rightarrow> bool" where
  "path_safe c \<longleftrightarrow> is_digit c \<or> is_upper c \<or> is_lower c \<or> c \<in> set ''-_.~$&+=:'' \<or> c = CHR 0x40"

definition upper_hex :: "nat \<Rightarrow> char" where
  "upper_hex n = (if n < 10 then char_of (48 + n) else char_of (55 + n))"

fun PathEscape :: "string \<Rightarrow> string" where
  "PathEscape [] = []"
| "PathEscape (c # s) =
    (if path_safe c then c # PathEscape s
     else CHR ''%'' # upper_hex (of_char c div 16) # upper_hex (of_char c mod 16) # PathEscape s)"

definition ScheduleRescan :: "'s http \<Rightarrow> string \<Rightarrow> 's \<Rightarrow> bool \<times> 's" where
  "ScheduleRescan http folderID s =
    (if folderID = '''' then (False, s)
     else case http ''POST'' (''rest/db/scan?folder='' @ PathEscape folderID) None s of
       (None, s') \<Rightarrow> (False, s') | (Some (code, body), s') \<Rightarrow> (code = 200, s'))"

section \<open>Read, edit, write back\<close>

text \<open>Every editing operation is GetConfig, an edit of Rest\_Config, and SetConfig if there is something to write.\<close>

definition apply_edit :: "'s http \<Rightarrow> edit \<Rightarrow> client \<Rightarrow> 's \<Rightarrow> bool \<times> client \<times> 's" where
  "apply_edit http e c s = (case e of NotFound \<Rightarrow> (False, c, s) | Unchanged \<Rightarrow> (True, c, s) | Write cfg \<Rightarrow> SetConfig http cfg c s)"

definition edit_config :: "'s http \<Rightarrow> (jobj \<Rightarrow> edit) \<Rightarrow> client \<Rightarrow> 's \<Rightarrow> bool \<times> client \<times> 's" where
  "edit_config http f c s =
    (case GetConfig http c s of (None, c1, s1) \<Rightarrow> (False, c1, s1) | (Some cfg, c1, s1) \<Rightarrow> apply_edit http (f cfg) c1 s1)"

text \<open>Those that leave the own device out ask for it after the configuration.\<close>

definition edit_config_id :: "'s http \<Rightarrow> (string \<Rightarrow> jobj \<Rightarrow> edit) \<Rightarrow> client \<Rightarrow> 's \<Rightarrow> bool \<times> client \<times> 's" where
  "edit_config_id http f c s =
    (case GetConfig http c s of
       (None, c1, s1) \<Rightarrow> (False, c1, s1)
     | (Some cfg, c1, s1) \<Rightarrow>
       (case GetStatus http c1 s1 of
          (None, c2, s2) \<Rightarrow> (False, c2, s2)
        | (Some myID, c2, s2) \<Rightarrow> apply_edit http (f myID cfg) c2 s2))"

section \<open>Cache coherence\<close>

text \<open>
  What Syncthing's configuration endpoint documents: GET gives the configuration and changes nothing; a PUT
  acknowledged with 200 replaces it. \<open>cfg\<close> is the configuration the server holds. Under
  \<open>acks\<close>, a PUT that is not acknowledged has not been applied.
\<close>

definition config_server :: "'s http \<Rightarrow> ('s \<Rightarrow> jobj) \<Rightarrow> bool" where
  "config_server http cfg \<longleftrightarrow>
    (\<forall>ep s. cfg (snd (http ''GET'' ep None s)) = cfg s) \<and>
    (\<forall>s b. fst (http ''GET'' ''rest/config'' None s) = Some (200, b) \<longrightarrow> b = Some (JObj (cfg s))) \<and>
    (\<forall>s m b. fst (http ''PUT'' ''rest/config'' (Some (JObj m)) s) = Some (200, b) \<longrightarrow>
        cfg (snd (http ''PUT'' ''rest/config'' (Some (JObj m)) s)) = m)"

definition acks :: "'s http \<Rightarrow> ('s \<Rightarrow> jobj) \<Rightarrow> bool" where
  "acks http cfg \<longleftrightarrow>
    (\<forall>s m. (\<forall>b. fst (http ''PUT'' ''rest/config'' (Some (JObj m)) s) \<noteq> Some (200, b)) \<longrightarrow>
        cfg (snd (http ''PUT'' ''rest/config'' (Some (JObj m)) s)) = cfg s)"

definition cache_ok :: "client \<Rightarrow> jobj \<Rightarrow> bool" where
  "cache_ok c m \<longleftrightarrow> cachedConfig c = None \<or> cachedConfig c = Some (Some (JObj m))"

lemma config_serverD:
  assumes "config_server http cfg"
  shows server_get: "http ''GET'' ep None s = (r, s') \<Longrightarrow> cfg s' = cfg s"
    and server_body: "http ''GET'' ''rest/config'' None s = (Some (200, b), s') \<Longrightarrow> b = Some (JObj (cfg s))"
    and server_put: "http ''PUT'' ''rest/config'' (Some (JObj m)) s = (Some (200, b), s') \<Longrightarrow> cfg s' = m"
  using assms unfolding config_server_def by (metis fst_conv snd_conv)+

lemma acksD: "acks http cfg \<Longrightarrow> http ''PUT'' ''rest/config'' (Some (JObj m)) s = (r, s') \<Longrightarrow> (\<And>b. r \<noteq> Some (200, b)) \<Longrightarrow> cfg s' = cfg s"
  unfolding acks_def by (metis fst_conv snd_conv)

lemma api_get_cfg: "config_server http cfg \<Longrightarrow> api_get http ep s = (r, s') \<Longrightarrow> cfg s' = cfg s"
  unfolding api_get_def by (auto dest: server_get split: prod.splits option.splits if_splits)

lemma GetStatus_cfg:
  assumes "config_server http cfg" "GetStatus http c s = (r, c', s')"
  shows "cfg s' = cfg s" "cachedConfig c' = cachedConfig c"
  using assms(2) api_get_cfg[OF assms(1)] unfolding GetStatus_def
  by (auto split: option.splits prod.splits)

lemma GetConfig_coherent:
  assumes "config_server http cfg" "cache_ok c (cfg s)" "GetConfig http c s = (r, c', s')"
  shows "cfg s' = cfg s" "cache_ok c' (cfg s)" "r = None \<or> r = Some (cfg s)"
proof -
  show "cfg s' = cfg s" using assms(3) api_get_cfg[OF assms(1)] unfolding GetConfig_def by (auto split: option.splits prod.splits)
  have "api_get http ''rest/config'' s = (Some b, s') \<Longrightarrow> b = Some (JObj (cfg s))" for b
    using server_body[OF assms(1)] unfolding api_get_def by (auto split: prod.splits option.splits if_splits)
  then show "cache_ok c' (cfg s)" "r = None \<or> r = Some (cfg s)"
    using assms(2,3) unfolding GetConfig_def by (auto simp: cache_ok_def dec_config_def split: option.splits prod.splits)
qed

lemma SetConfig_coherent:
  assumes "config_server http cfg" "acks http cfg" "cache_ok c (cfg s)" "SetConfig http m c s = (ok, c', s')"
  shows "cfg s' = (if ok then m else cfg s)" "cache_ok c' (cfg s')"
proof -
  show "cfg s' = (if ok then m else cfg s)"
    using assms(4) server_put[OF assms(1), of m s] acksD[OF assms(2), of m s] unfolding SetConfig_def api_put_def
    by (auto split: prod.splits option.splits if_splits bool.splits)
  then show "cache_ok c' (cfg s')"
    using assms(3,4) unfolding SetConfig_def by (auto simp: cache_ok_def split: prod.splits bool.splits)
qed

text \<open>What an operation does to the configuration the server holds, with no cache in between.\<close>

definition edit_effect :: "edit \<Rightarrow> bool \<Rightarrow> jobj \<Rightarrow> jobj \<Rightarrow> bool" where
  "edit_effect e ok m m' \<longleftrightarrow> (if ok then (case e of NotFound \<Rightarrow> False | Unchanged \<Rightarrow> m' = m | Write w \<Rightarrow> m' = w) else m' = m)"

lemma apply_edit_coherent:
  assumes "config_server http cfg" "acks http cfg" "cache_ok c (cfg s)" "apply_edit http e c s = (ok, c', s')"
  shows "edit_effect e ok (cfg s) (cfg s') \<and> cache_ok c' (cfg s')"
  using assms SetConfig_coherent[OF assms(1-3)] unfolding apply_edit_def
  by (cases e) (auto simp: edit_effect_def)

text \<open>Every answer to a status request names the same device, and the client has cached no other.\<close>

definition status_server :: "'s http \<Rightarrow> string \<Rightarrow> bool" where
  "status_server http myID \<longleftrightarrow> (\<forall>s j. fst (http ''GET'' ''rest/system/status'' None s) = Some (200, Some j) \<longrightarrow>
     Option.bind (dec_obj j) (\<lambda>m. dec_str (jget m ''myID'')) \<in> {None, Some myID})"

definition client_ok :: "client \<Rightarrow> jobj \<Rightarrow> string \<Rightarrow> bool" where
  "client_ok c m myID \<longleftrightarrow> cache_ok c m \<and> cachedStatus c \<in> {None, Some myID}"

lemma GetStatus_id:
  assumes "status_server http myID" "cachedStatus c \<in> {None, Some myID}" "GetStatus http c s = (r, c', s')"
  shows "r \<in> {None, Some myID} \<and> cachedStatus c' \<in> {None, Some myID}"
proof -
  have "Option.bind (dec_obj j) (\<lambda>m. dec_str (jget m ''myID'')) \<in> {None, Some myID}"
    if "api_get http ''rest/system/status'' s = (Some (Some j), t)" for j t
    using that assms(1) unfolding api_get_def status_server_def by (auto split: prod.splits option.splits if_splits) (metis fst_conv)+
  then show ?thesis using assms(2,3) unfolding GetStatus_def
    by (fastforce split: option.splits prod.splits)
qed

lemma GetConfig_status: "GetConfig http c s = (r, c', s') \<Longrightarrow> cachedStatus c' = cachedStatus c"
  by (auto simp: GetConfig_def split: option.splits prod.splits)

lemma apply_edit_status: "apply_edit http e c s = (ok, c', s') \<Longrightarrow> cachedStatus c' = cachedStatus c"
  by (auto simp: apply_edit_def SetConfig_def split: edit.splits prod.splits bool.splits)

lemma edit_config_coherent:
  assumes "config_server http cfg" "acks http cfg" "client_ok c (cfg s) myID" "edit_config http f c s = (ok, c', s')"
  shows "edit_effect (f (cfg s)) ok (cfg s) (cfg s') \<and> client_ok c' (cfg s') myID"
proof -
  have c: "cache_ok c (cfg s)" "cachedStatus c \<in> {None, Some myID}" using assms(3) by (simp_all add: client_ok_def)
  obtain r c1 s1 where 1: "GetConfig http c s = (r, c1, s1)" by (metis prod_cases3)
  note G = GetConfig_coherent[OF assms(1) c(1) 1] GetConfig_status[OF 1]
  show ?thesis
  proof (cases r)
    case None
    then show ?thesis using G c assms(4) by (auto simp: edit_config_def 1 edit_effect_def client_ok_def)
  next
    case (Some m)
    then have m: "m = cfg s" and 2: "apply_edit http (f m) c1 s1 = (ok, c', s')" using G assms(4) by (simp_all add: edit_config_def 1)
    show ?thesis using apply_edit_coherent[OF assms(1,2) _ 2] apply_edit_status[OF 2] G c unfolding m client_ok_def by simp
  qed
qed

lemma edit_config_id_coherent:
  assumes "config_server http cfg" "acks http cfg" "status_server http myID" "client_ok c (cfg s) myID"
    and "edit_config_id http g c s = (ok, c', s')"
  shows "edit_effect (g myID (cfg s)) ok (cfg s) (cfg s') \<and> client_ok c' (cfg s') myID"
proof -
  have c: "cache_ok c (cfg s)" "cachedStatus c \<in> {None, Some myID}" using assms(4) by (simp_all add: client_ok_def)
  obtain r c1 s1 where 1: "GetConfig http c s = (r, c1, s1)" by (metis prod_cases3)
  note G = GetConfig_coherent[OF assms(1) c(1) 1] GetConfig_status[OF 1]
  obtain i c2 s2 where 2: "GetStatus http c1 s1 = (i, c2, s2)" by (metis prod_cases3)
  have I: "i \<in> {None, Some myID}" "cachedStatus c2 \<in> {None, Some myID}" using GetStatus_id[OF assms(3) _ 2] G c by simp_all
  have c2: "cfg s2 = cfg s" "cache_ok c2 (cfg s)" using GetStatus_cfg[OF assms(1) 2] G by (simp_all add: cache_ok_def)
  show ?thesis
  proof (cases "r = None \<or> i = None")
    case True
    then show ?thesis using G c c2 I assms(5) by (auto simp: edit_config_id_def 1 2 edit_effect_def client_ok_def split: option.splits)
  next
    case False
    then have 3: "apply_edit http (g myID (cfg s)) c2 s2 = (ok, c', s')"
      using G I assms(5) by (auto simp: edit_config_id_def 1 2)
    show ?thesis using apply_edit_coherent[OF assms(1,2) _ 3] apply_edit_status[OF 3] c2 I unfolding client_ok_def by simp
  qed
qed


text \<open>
  A body that does not decode, answered once with status 200, is kept in the cache for good: every later
  editing operation fails without a request and nothing ever replaces the body, since all of them read the
  configuration before they write it.
\<close>

theorem undecodable_config_is_cached_forever:
  assumes "cachedConfig c = None" "http ''GET'' ''rest/config'' None s = (Some (200, b), s')" "dec_config b = None"
  shows "\<exists>c'. GetConfig http c s = (None, c', s') \<and>
    foldl (\<lambda>(r, c, s) f. edit_config http f c s) (False, c', t) fs = (False, c', t)"
proof -
  let ?c = "c\<lparr>cachedConfig := Some b\<rparr>"
  have "GetConfig http c s = (None, ?c, s')" using assms by (simp add: GetConfig_def api_get_def)
  moreover have "edit_config http f ?c t = (False, ?c, t)" for f using assms(3) by (simp add: edit_config_def GetConfig_def)
  then have "foldl (\<lambda>(r, c, s) f. edit_config http f c s) (False, ?c, t) fs = (False, ?c, t)" by (induction fs) simp_all
  ultimately show ?thesis by blast
qed

text \<open>
  A write whose acknowledgement is lost is undone by the next one. The server has applied the first
  configuration, the client still holds the one before it, and the next edit writes that one back, edited: what the
  first edit had added is gone.
\<close>

theorem lost_acknowledgement_reverts_edit:
  assumes "cachedConfig c = Some (Some (JObj m0))"
    and "f1 m0 = Write m1" "http ''PUT'' ''rest/config'' (Some (JObj m1)) s = (None, s1)" "cfg s1 = m1"
    and "f2 m0 = Write m2" "http ''PUT'' ''rest/config'' (Some (JObj m2)) s1 = (Some (200, b), s2)" "cfg s2 = m2"
  shows "edit_config http f1 c s = (False, c, s1) \<and> cfg s1 = m1 \<and> \<not> cache_ok c m1 = (m0 \<noteq> m1) \<and>
    (\<exists>c'. edit_config http f2 c s1 = (True, c', s2)) \<and> f2 m0 = Write (cfg s2)"
  using assms by (auto simp: edit_config_def GetConfig_def dec_config_def apply_edit_def SetConfig_def api_put_def cache_ok_def)

text \<open>A server that answers, and one that applies a write and drops the answer.\<close>

definition demo_http :: "bool \<Rightarrow> jobj http" where
  "demo_http answers m ep b s =
    (if m = ''PUT'' then (if answers then Some (200, None) else None, case b of Some (JObj w) \<Rightarrow> w | _ \<Rightarrow> s)
     else (Some (200, if ep = ''rest/config'' then Some (JObj s) else Some (JObj [(''myID'', JStr ''ME'')])), s))"

lemma demo_config_server: "config_server (demo_http True) (\<lambda>s. s)" "acks (demo_http True) (\<lambda>s. s)"
  by (simp_all add: config_server_def acks_def demo_http_def)

lemma demo_status_server: "status_server (demo_http True) ''ME''"
  by (simp add: status_server_def demo_http_def dec_obj_def dec_str_def jget_def)


theorem undecodable_config_is_cached_forever_witness:
  "\<exists>c'. foldl (\<lambda>(r, c, s) f. edit_config (\<lambda>m e b s. (Some (200, None), s)) f c s) (False, c', ()) [AddDevice ''D'' ''n'', RemoveFolder ''f''] = (False, c', ())"
  using undecodable_config_is_cached_forever[of new_client "\<lambda>m e b s. (Some (200, None), s)" "()" None "()" "()" "[AddDevice ''D'' ''n'', RemoveFolder ''f'']"]
  by (auto simp: new_client_def dec_config_def)

theorem lost_acknowledgement_reverts_edit_witness:
  "list_ex (has_str ''deviceID'' ''D1'') (as_arr (jget (snd (snd (edit_config (demo_http False) (AddDevice ''D1'' ''a'') (new_client\<lparr>cachedConfig := Some (Some (JObj []))\<rparr>) []))) ''devices'')) \<and>
   (\<exists>c'. edit_config (\<lambda>m e b s. demo_http True m e b s) (AddDevice ''D2'' ''b'') (new_client\<lparr>cachedConfig := Some (Some (JObj []))\<rparr>)
      [(''devices'', JArr [new_device ''D1'' ''a''])] = (True, c', [(''devices'', JArr [new_device ''D2'' ''b''])]))"
proof -
  let ?c = "new_client\<lparr>cachedConfig := Some (Some (JObj []))\<rparr>"
  let ?h = "\<lambda>m ep b s. if b = Some (JObj [(''devices'', JArr [new_device ''D1'' ''a''])]) then demo_http False m ep b s else demo_http True m ep b s"
  have e: "AddDevice d n [] = Write [(''devices'', JArr [new_device d n])]" for d n
    by (simp add: AddDevice_def jget_def jput_def as_arr_def)
  have "\<exists>c'. edit_config ?h (AddDevice ''D2'' ''b'') ?c [(''devices'', JArr [new_device ''D1'' ''a''])] = (True, c', [(''devices'', JArr [new_device ''D2'' ''b''])])"
    using lost_acknowledgement_reverts_edit[of ?c "[]" "AddDevice ''D1'' ''a''" "[(''devices'', JArr [new_device ''D1'' ''a''])]" ?h "[]"
        "[(''devices'', JArr [new_device ''D1'' ''a''])]" "\<lambda>s. s" "AddDevice ''D2'' ''b''" "[(''devices'', JArr [new_device ''D2'' ''b''])]" None "[(''devices'', JArr [new_device ''D2'' ''b''])]"]
    by (simp add: e demo_http_def new_device_def)
  then have "\<exists>c'. edit_config (\<lambda>m e b s. demo_http True m e b s) (AddDevice ''D2'' ''b'') ?c [(''devices'', JArr [new_device ''D1'' ''a''])]
      = (True, c', [(''devices'', JArr [new_device ''D2'' ''b''])])"
    by (simp add: edit_config_def GetConfig_def dec_config_def apply_edit_def SetConfig_def api_put_def e demo_http_def new_device_def)
  moreover have "list_ex (has_str ''deviceID'' ''D1'') (as_arr (jget (snd (snd (edit_config (demo_http False) (AddDevice ''D1'' ''a'') ?c []))) ''devices''))"
    by (simp add: edit_config_def GetConfig_def dec_config_def apply_edit_def SetConfig_def api_put_def e demo_http_def)
      (simp add: new_device_def has_str_def jget_def as_arr_def as_obj_def)
  ultimately show ?thesis by blast
qed

section \<open>The folder parameter of a rescan\<close>

text \<open>How a form-encoded query value is read: up to the next \<open>&\<close>, \<open>+\<close> for a space, percent triplets.\<close>

definition unhex :: "char \<Rightarrow> nat" where
  "unhex c = (if is_digit c then of_char c - 48 else of_char c - 55)"

fun query_unescape :: "string \<Rightarrow> string" where
  "query_unescape [] = []"
| "query_unescape (c # s) =
    (if c = CHR ''+'' then CHR '' '' # query_unescape s
     else if c = CHR ''%'' then
       (case s of a # b # r \<Rightarrow> char_of (16 * unhex a + unhex b) # query_unescape r | _ \<Rightarrow> [])
     else c # query_unescape s)"

definition query_value :: "string \<Rightarrow> string" where
  "query_value s = query_unescape (takeWhile (\<lambda>c. c \<noteq> CHR ''&'') s)"

lemma unhex_upper_hex: "n < 16 \<Longrightarrow> unhex (upper_hex n) = n"
  by (simp add: unhex_def upper_hex_def is_digit_def in_range_def)

lemma upper_hex_plain: "n < 16 \<Longrightarrow> upper_hex n \<noteq> CHR ''&''"
proof
  assume "n < 16" "upper_hex n = CHR ''&''"
  then have "of_char (upper_hex n) = (38 :: nat)" by simp
  then show False using \<open>n < 16\<close> by (simp add: upper_hex_def split: if_splits)
qed

lemma map_fix_one: "a \<noteq> b \<Longrightarrow> map (\<lambda>c. if c = a then b else c) s = s \<longleftrightarrow> a \<notin> set s"
  by (induction s) auto

lemma query_unescape_Escape:
  "query_unescape (takeWhile (\<lambda>c. c \<noteq> CHR ''&'') (PathEscape s)) =
   map (\<lambda>c. if c = CHR ''+'' then CHR '' '' else c) (takeWhile (\<lambda>c. c \<noteq> CHR ''&'') s)"
proof (induction s)
  case (Cons c s)
  have safe: "\<not> path_safe CHR ''%''" "path_safe CHR ''&''" "path_safe CHR ''+''" by code_simp+
  show ?case
  proof (cases "path_safe c")
    case True
    then have "c \<noteq> CHR ''%''" using safe by blast
    then show ?thesis using True Cons.IH by auto
  next
    case False
    let ?n = "of_char c :: nat"
    have b: "?n div 16 < 16" "?n mod 16 < 16" using nat_of_char_less_256[of c] by (auto intro: less_mult_imp_div_less)
    have "char_of (16 * (?n div 16) + ?n mod 16) = c" by simp
    moreover have "c \<noteq> CHR ''&''" "c \<noteq> CHR ''+''" using False safe by auto
    ultimately show ?thesis using False Cons.IH upper_hex_plain[OF b(1)] upper_hex_plain[OF b(2)] unhex_upper_hex[OF b(1)] unhex_upper_hex[OF b(2)]
      by simp
  qed
qed simp

text \<open>
  The folder a rescan asks for is the folder the server reads from the request exactly when the identifier has no
  \<open>+\<close> and no \<open>&\<close>: url.PathEscape, meant for path segments, leaves both as they are.
\<close>

theorem rescan_folder_roundtrip:
  "query_value (PathEscape folderID) = folderID \<longleftrightarrow> CHR ''+'' \<notin> set folderID \<and> CHR ''&'' \<notin> set folderID"
proof -
  let ?f = "\<lambda>c. if c = CHR ''+'' then CHR '' '' else c" and ?t = "takeWhile (\<lambda>c. c \<noteq> CHR ''&'') folderID"
  have q: "query_value (PathEscape folderID) = map ?f ?t" by (simp add: query_value_def query_unescape_Escape)
  show ?thesis
  proof (cases "CHR ''&'' \<in> set folderID")
    case True
    then have ne: "?t \<noteq> folderID" using takeWhile_eq_all_conv[of "\<lambda>c. c \<noteq> CHR ''&''" folderID] by auto
    have "map ?f ?t \<noteq> folderID"
    proof
      assume "map ?f ?t = folderID"
      then have "length (map ?f ?t) = length folderID" by (rule arg_cong)
      then have "length ?t = length folderID" by (simp only: length_map)
      then have "take (length ?t) folderID = folderID" by (simp only: take_all_iff order_refl)
      then show False using ne unfolding takeWhile_eq_take[symmetric] by contradiction
    qed
    then show ?thesis unfolding q using True by blast
  next
    case False
    then have t: "?t = folderID" using takeWhile_eq_all_conv[of "\<lambda>c. c \<noteq> CHR ''&''" folderID] by auto
    have "map ?f folderID = folderID \<longleftrightarrow> CHR ''+'' \<notin> set folderID" by (rule map_fix_one) simp
    then show ?thesis unfolding q t using False by blast
  qed
qed

end
