(* ===== verification/Config_Text.thy ===== *)
theory Config_Text
  imports Config
begin

text \<open>
  The text the writers of package internal/config put on disk: \<open>fmt\<close>'s \<open>%q\<close> and \<open>%d\<close>,
  RFC 3339 timestamps, \<open>sanitizeTOMLKey\<close>, and the bodies of WriteStateV2, WriteMachineConfigV2 and
  WriteRepoConfigV2. The TOML decoder that reads them is a third-party package and enters the
  theorems as a function of the text. Of \<open>strconv.Quote\<close>, a well-formed multi-byte character is
  taken to be printable and kept.
\<close>

section \<open>UTF-8 and sanitizeTOMLKey\<close>

text \<open>The size of the character at the head of a string, 0 where Go's decoder reports RuneError of size 1.\<close>

definition cont_byte :: "char \<Rightarrow> bool" where "cont_byte = in_range 128 191"

definition utf8_need :: "char \<Rightarrow> nat \<times> nat \<times> nat" where
  "utf8_need a =
    (let n = (of_char a :: nat) in
     if n < 128 then (1, 0, 0)
     else if n < 194 then (0, 0, 0)
     else if n < 224 then (2, 128, 191)
     else if n < 240 then (3, (if n = 224 then 160 else 128), (if n = 237 then 159 else 191))
     else if n < 245 then (4, (if n = 240 then 144 else 128), (if n = 244 then 143 else 191))
     else (0, 0, 0))"

fun utf8_len :: "string \<Rightarrow> nat" where
  "utf8_len [] = 0"
| "utf8_len (a # s) = (case utf8_need a of (n, lo, hi) \<Rightarrow>
     if n \<le> 1 then n
     else let r = take (n - 1) s in
       if length r = n - 1 \<and> in_range lo hi (hd r) \<and> list_all cont_byte (tl r) then n else 0)"

lemma utf8_len_le: "utf8_len s \<le> length s"
  by (cases s) (auto simp: Let_def split: prod.splits)

lemma utf8_len_append: "utf8_len s \<noteq> 0 \<Longrightarrow> utf8_len (take (utf8_len s) s @ t) = utf8_len s"
proof (cases s)
  case (Cons a r)
  obtain n lo hi where u: "utf8_need a = (n, lo, hi)" by (metis prod_cases3)
  assume nz: "utf8_len s \<noteq> 0"
  then have len: "utf8_len s = n" using Cons u by (auto simp: Let_def split: if_splits)
  then have n0: "n \<noteq> 0" using nz by simp
  have "take (utf8_len s) s = take n s" by (simp only: len)
  then have "take (utf8_len s) s = take n (a # r)" using Cons by metis
  then have tk: "take (utf8_len s) s = a # take (n - 1) r"
    using n0 by (cases n) simp_all
  show ?thesis
  proof (cases "n \<le> 1")
    case True
    then show ?thesis using tk len u by simp
  next
    case False
    then have c: "length (take (n - 1) r) = n - 1" "in_range lo hi (hd (take (n - 1) r))"
        "list_all cont_byte (tl (take (n - 1) r))"
      using nz Cons u by (auto simp: Let_def split: if_splits)
    have "take (n - 1) (take (n - 1) r @ t) = take (n - 1) r" using c(1) by simp
    then show ?thesis using False tk len u c by (simp add: Let_def del: take_append length_take)
  qed
qed simp

lemma utf8_len_shrinks: "s \<noteq> [] \<Longrightarrow> utf8_len s \<noteq> 0 \<Longrightarrow> length (drop (utf8_len s) s) < length s"
  by simp

function utf8_valid :: "string \<Rightarrow> bool" where
  "utf8_valid s \<longleftrightarrow>
     (if s = [] then True else if utf8_len s = 0 then False else utf8_valid (drop (utf8_len s) s))"
  by pat_completeness auto
termination
  by (relation "measure length") (simp_all add: utf8_len_shrinks)

declare utf8_valid.simps [simp del]

function sanitize_loop :: "string \<Rightarrow> string" where
  "sanitize_loop s =
     (if s = [] then []
      else if utf8_len s = 0 then CHR ''_'' # sanitize_loop (drop 1 s)
      else take (utf8_len s) s @ sanitize_loop (drop (utf8_len s) s))"
  by pat_completeness auto
termination
  by (relation "measure length") (simp_all add: utf8_len_shrinks)

declare sanitize_loop.simps [simp del]

definition sanitizeTOMLKey :: "string \<Rightarrow> string" where
  "sanitizeTOMLKey key = (if utf8_valid key then key else sanitize_loop key)"

lemma utf8_valid_prepend:
  assumes "utf8_len s \<noteq> 0"
  shows "utf8_valid (take (utf8_len s) s @ t) \<longleftrightarrow> utf8_valid t"
proof -
  have ne: "take (utf8_len s) s @ t \<noteq> []" using assms by (cases s) auto
  have dr: "drop (utf8_len s) (take (utf8_len s) s @ t) = t" using utf8_len_le[of s] by simp
  show ?thesis
    by (subst utf8_valid.simps) (simp only: utf8_len_append[OF assms] dr ne assms simp_thms if_False)
qed

lemma utf8_len_ascii: "(of_char c :: nat) < 128 \<Longrightarrow> utf8_len (c # s) = 1"
  by (simp add: utf8_need_def)

lemma utf8_valid_ascii: "(of_char c :: nat) < 128 \<Longrightarrow> utf8_valid (c # s) \<longleftrightarrow> utf8_valid s"
  using utf8_valid_prepend[of "c # s" s] by (simp only: utf8_len_ascii) simp

lemma utf8_valid_sanitize_loop: "utf8_valid (sanitize_loop s)"
proof (induction s rule: sanitize_loop.induct)
  case (1 s)
  show ?case
  proof (cases "s = []")
    case True
    then show ?thesis by (simp add: sanitize_loop.simps[of "[]"] utf8_valid.simps[of "[]"])
  next
    case ne: False
    show ?thesis
    proof (cases "utf8_len s = 0")
      case True
      then have "sanitize_loop s = CHR ''_'' # sanitize_loop (drop 1 s)"
        using ne by (subst sanitize_loop.simps) simp
      moreover have "utf8_valid (CHR ''_'' # t) \<longleftrightarrow> utf8_valid t" for t
        by (rule utf8_valid_ascii) simp
      ultimately show ?thesis using 1(1)[OF ne True] by (simp only:)
    next
      case False
      then have "sanitize_loop s = take (utf8_len s) s @ sanitize_loop (drop (utf8_len s) s)"
        using ne by (subst sanitize_loop.simps) simp
      then show ?thesis using 1(2)[OF ne False] utf8_valid_prepend[OF False] by simp
    qed
  qed
qed

section \<open>Formatting\<close>

definition hex_digit :: "nat \<Rightarrow> char" where
  "hex_digit n = (if n < 10 then char_of (48 + n) else char_of (87 + n))"

definition escape_char :: "char \<Rightarrow> string" where
  "escape_char c =
    (let n = (of_char c :: nat) in
     if n = 34 then [CHR 0x5C, c] else if n = 92 then [CHR 0x5C, c]
     else if n = 7 then [CHR 0x5C, CHR ''a''] else if n = 8 then [CHR 0x5C, CHR ''b'']
     else if n = 9 then [CHR 0x5C, CHR ''t''] else if n = 10 then [CHR 0x5C, CHR ''n'']
     else if n = 11 then [CHR 0x5C, CHR ''v''] else if n = 12 then [CHR 0x5C, CHR ''f'']
     else if n = 13 then [CHR 0x5C, CHR ''r'']
     else if 32 \<le> n \<and> n < 127 then [c]
     else [CHR 0x5C, CHR ''x'', hex_digit (n div 16), hex_digit (n mod 16)])"

text \<open>\<open>%q\<close>: a double-quoted Go string.\<close>

function quote_body :: "string \<Rightarrow> string" where
  "quote_body s =
     (if s = [] then []
      else if 128 \<le> (of_char (hd s) :: nat) \<and> utf8_len s \<noteq> 0
      then take (utf8_len s) s @ quote_body (drop (utf8_len s) s)
      else escape_char (hd s) @ quote_body (drop 1 s))"
  by pat_completeness auto
termination
  by (relation "measure length") (simp_all add: utf8_len_shrinks)

declare quote_body.simps [simp del]

definition go_quote :: "string \<Rightarrow> string" where
  "go_quote s = [CHR 0x22] @ quote_body s @ [CHR 0x22]"

definition pad_left :: "nat \<Rightarrow> string \<Rightarrow> string" where
  "pad_left w s = replicate (w - length s) (CHR ''0'') @ s"

text \<open>Days since 1 January of the year 1 as year, month and day of the proleptic Gregorian calendar.\<close>

definition civil :: "int \<Rightarrow> int \<times> int \<times> int" where
  "civil days =
    (let z = days + 306; era = z div 146097; doe = z mod 146097;
         yoe = (doe - doe div 1460 + doe div 36524 - doe div 146096) div 365;
         doy = doe - (365 * yoe + yoe div 4 - yoe div 100);
         mp = (5 * doy + 2) div 153; d = doy - (153 * mp + 2) div 5 + 1;
         m = (if mp < 10 then mp + 3 else mp - 9)
     in (yoe + era * 400 + (if m \<le> 2 then 1 else 0), m, d))"

definition fmt_rfc3339 :: "gotime \<Rightarrow> string" where
  "fmt_rfc3339 t =
    (let secs = t div Second; days = secs div 86400; r = secs mod 86400; (y, m, d) = civil days;
         dd = (\<lambda>w x. pad_left w (nat_digits (nat x)))
     in dd 4 y @ ''-'' @ dd 2 m @ ''-'' @ dd 2 d @ ''T'' @
        dd 2 (r div 3600) @ '':'' @ dd 2 (r mod 3600 div 60) @ '':'' @ dd 2 (r mod 60) @ ''Z'')"

definition kv_q :: "string \<Rightarrow> string \<Rightarrow> string" where
  "kv_q k v = k @ '' = '' @ go_quote v @ nl"

definition kv_d :: "string \<Rightarrow> nat \<Rightarrow> string" where
  "kv_d k n = k @ '' = '' @ nat_digits n @ nl"

definition kv_t :: "string \<Rightarrow> gotime \<Rightarrow> string" where
  "kv_t k t = k @ '' = '' @ fmt_rfc3339 t @ nl"

definition list_block :: "string \<Rightarrow> string list \<Rightarrow> string" where
  "list_block k xs =
     k @ '' = ['' @ nl @ concat (map (\<lambda>x. ''    '' @ go_quote x @ '','' @ nl) xs) @ '']'' @ nl"

definition peer_block :: "PeerEntry \<Rightarrow> string" where
  "peer_block p = ''[[peers]]'' @ nl @ kv_q ''name'' (pe_Name p) @ kv_q ''device_id'' (pe_DeviceID p) @
     kv_t ''learned_at'' (pe_LearnedAt p) @ nl"

definition em_dash :: string where "em_dash = [CHR 0xE2, CHR 0x80, CHR 0x94]"

section \<open>The three writers\<close>

definition observed_block :: "string \<times> ObservedRepo \<Rightarrow> string" where
  "observed_block po = (case po of (path, obs) \<Rightarrow>
     ''[observed_repos.'' @ go_quote (sanitizeTOMLKey path) @ '']'' @ nl @
     kv_q ''last_reconciled_commit'' (or_LastReconciledCommit obs) @
     kv_q ''last_pushed_commit'' (or_LastPushedCommit obs) @
     kv_t ''last_backup_at'' (if IsZero (or_LastBackupAt obs) then 0 else or_LastBackupAt obs) @ nl)"

definition state_text :: "StateV2 \<Rightarrow> string" where
  "state_text s =
     ''# dotkeeper state (v2) '' @ em_dash @ '' tool-owned, do not hand-edit'' @ nl @ nl @
     kv_d ''schema_version'' (st_SchemaVersion s) @
     kv_q ''syncthing_device_id'' (st_SyncthingDeviceID s) @
     list_block ''tracked_overrides'' (st_TrackedOverrides s) @
     (if st_Peers s \<noteq> [] then nl @ concat (map peer_block (st_Peers s)) else []) @
     concat (map observed_block (st_ObservedRepos s)) @
     (if st_LastSeenPeers s \<noteq> []
      then ''[last_seen_peers]'' @ nl @
           concat (map (\<lambda>(d, t). go_quote (sanitizeTOMLKey d) @ '' = '' @ fmt_rfc3339 t @ nl) (st_LastSeenPeers s))
      else [])"

definition machine_text :: "MachineConfigV2 \<Rightarrow> string" where
  "machine_text cfg =
     ''# dotkeeper machine config (v2) '' @ em_dash @ '' declarative, non-secret'' @ nl @
     ''# Safe to author by hand or generate via Nix/home-manager.'' @ nl @ nl @
     kv_d ''schema_version'' (mc_SchemaVersion cfg) @ kv_q ''name'' (mc_Name cfg) @
     kv_d ''slot'' (mc_Slot cfg) @
     kv_q ''default_commit_policy'' (mc_DefaultCommitPolicy cfg) @
     kv_q ''default_git_interval'' (mc_DefaultGitInterval cfg) @
     kv_d ''default_slot_offset_minutes'' (mc_DefaultSlotOffsetMinutes cfg) @
     kv_q ''reconcile_interval'' (mc_ReconcileInterval cfg) @
     ''default_share_with = ['' @ str_Join (map go_quote (mc_DefaultShareWith cfg)) '', '' @ '']'' @ nl @
     (if mc_Peers cfg \<noteq> [] then nl @ concat (map peer_block (mc_Peers cfg)) else []) @
     nl @ ''[discovery]'' @ nl @
     list_block ''scan_roots'' (dc_ScanRoots (mc_Discovery cfg)) @
     list_block ''exclude'' (dc_Exclude (mc_Discovery cfg)) @
     kv_q ''scan_interval'' (dc_ScanInterval (mc_Discovery cfg)) @
     ''scan_depth = '' @ (if dc_ScanDepth (mc_Discovery cfg) < 0 then ''-'' else []) @
       nat_digits (nat \<bar>dc_ScanDepth (mc_Discovery cfg)\<bar>) @ nl"

definition repo_text :: "RepoConfigV2 \<Rightarrow> string" where
  "repo_text cfg =
     ''# Managed by dotkeeper - https://github.com/corbet-labs/dotkeeper'' @ nl @
     ''# Local machine state. Do not commit or sync this file.'' @ nl @ nl @
     kv_d ''schema_version'' (rp_SchemaVersion cfg) @ nl @
     ''[repo]'' @ nl @ kv_q ''name'' (rm_Name (rp_Meta cfg)) @ kv_q ''added'' (rm_Added (rp_Meta cfg)) @
       kv_q ''added_by'' (rm_AddedBy (rp_Meta cfg)) @
     nl @ ''[sync]'' @ nl @ kv_q ''syncthing_folder_id'' (rs_SyncthingFolderID (rp_Sync cfg)) @
       list_block ''ignore'' (rs_Ignore (rp_Sync cfg)) @ list_block ''share_with'' (rs_ShareWith (rp_Sync cfg)) @
     nl @ ''[commit]'' @ nl @ kv_q ''policy'' (rc_Policy (rp_Commit cfg)) @
       kv_d ''idle_seconds'' (rc_IdleSeconds (rp_Commit cfg)) @
     nl @ ''[git_backup]'' @ nl @ kv_q ''interval'' (rb_Interval (rp_GitBackup cfg)) @
       ''skip_slots = ['' @ str_Join (map nat_digits (rb_SkipSlots (rp_GitBackup cfg))) '', '' @ '']'' @ nl @
     (if rg_Remote (rp_Git cfg) \<noteq> '''' \<or> rg_Canonical (rp_Git cfg) \<noteq> ''''
      then nl @ ''[git]'' @ nl @ kv_q ''remote'' (rg_Remote (rp_Git cfg)) @
           kv_q ''canonical'' (rg_Canonical (rp_Git cfg))
      else [])"

section \<open>Loading\<close>

text \<open>
  A file is \<open>None\<close> when absent. \<open>decode\<close> is the TOML decoder: it gives an error or the record.
  Absent is not an error (first run), a broken file is one.
\<close>

definition LoadStateV2 :: "(string \<Rightarrow> 'e + StateV2) \<Rightarrow> string option \<Rightarrow> 'e + StateV2 option" where
  "LoadStateV2 decode file = (case file of
      None \<Rightarrow> Inr None
    | Some text \<Rightarrow> (case decode text of Inl e \<Rightarrow> Inl e | Inr s \<Rightarrow> Inr (Some s)))"

definition LoadMachineConfigV2 ::
    "(string \<Rightarrow> 'e + MachineConfigV2) \<Rightarrow> string option \<Rightarrow> 'e + MachineConfigV2 option" where
  "LoadMachineConfigV2 decode file = (case file of
      None \<Rightarrow> Inr None
    | Some text \<Rightarrow> (case decode text of Inl e \<Rightarrow> Inl e | Inr m \<Rightarrow> Inr (Some (applyMachineV2Defaults m))))"

definition LoadRepoConfigV2 ::
    "(string \<Rightarrow> 'e + RepoConfigV2) \<Rightarrow> string option \<Rightarrow> 'e + RepoConfigV2 option" where
  "LoadRepoConfigV2 decode file = (case file of
      None \<Rightarrow> Inr None
    | Some text \<Rightarrow> (case decode text of Inl e \<Rightarrow> Inl e | Inr r \<Rightarrow> Inr (Some r)))"

section \<open>Lemmas\<close>

lemma of_char_less: "(of_char c :: nat) < 256"
  by (rule nat_of_char_less_256)

lemma char_nl_iff: "c = newline \<longleftrightarrow> (of_char c :: nat) = 10"
proof
  assume "(of_char c :: nat) = 10"
  then have "(of_char c :: nat) = of_char newline" by (simp add: newline_def)
  then show "c = newline" by (simp only: of_char_eq_iff)
qed (simp add: newline_def)

lemma hex_digit_not_nl: "n < 16 \<Longrightarrow> hex_digit n \<noteq> newline"
  by (simp add: hex_digit_def char_nl_iff)

lemma escape_char_not_nl: "newline \<notin> set (escape_char c)"
proof -
  have "hex_digit ((of_char c :: nat) div 16) \<noteq> newline"
    using of_char_less[of c] by (intro hex_digit_not_nl less_mult_imp_div_less) simp
  moreover have "hex_digit ((of_char c :: nat) mod 16) \<noteq> newline"
    by (intro hex_digit_not_nl) simp
  ultimately show ?thesis
    using char_nl_iff[of c] by (auto simp: escape_char_def Let_def newline_def)
qed

section \<open>Properties\<close>

lemma state_text_drops_subscriptions: "state_text (s\<lparr>st_Subscriptions := subs\<rparr>) = state_text s"
  by (simp add: state_text_def)

text \<open>
  The subscriptions of the state do not survive a write: whatever decoder reads the file
  back, states that differ only in their subscriptions are read back alike, so no decoder makes
  LoadStateV2 the inverse of WriteStateV2.
\<close>

theorem subscriptions_lost_on_write:
  "LoadStateV2 decode (Some (state_text (s\<lparr>st_Subscriptions := subs\<rparr>))) = LoadStateV2 decode (Some (state_text s)) \<and>
   \<not> (\<exists>dec. \<forall>s. LoadStateV2 dec (Some (state_text s)) = (Inr (Some s) :: unit + StateV2 option))"
proof (intro conjI notI)
  assume "\<exists>dec. \<forall>s. LoadStateV2 dec (Some (state_text s)) = (Inr (Some s) :: unit + StateV2 option)"
  then obtain dec where d: "\<And>s. LoadStateV2 dec (Some (state_text s)) = (Inr (Some s) :: unit + StateV2 option)" by blast
  let ?e = "\<lparr>sub_Canonical = ''c'', sub_Name = [], sub_Path = [], sub_AddedAt = 0\<rparr>"
  have "Some (fresh_state\<lparr>st_Subscriptions := [?e]\<rparr>) = Some fresh_state"
    using d[of "fresh_state\<lparr>st_Subscriptions := [?e]\<rparr>"] d[of fresh_state] unfolding state_text_drops_subscriptions by simp
  then show False by (simp add: fresh_state_def)
qed (simp add: state_text_drops_subscriptions)

end
