(* ===== verification/Files.thy ===== *)
theory Files
  imports Config_Text
begin

text \<open>
  Files and the two protocols of internal/config that keep them whole: WriteFileAtomic (atomic.go), as
  a step relation of any number of writers that may fail or be killed at every system call, and
  MutateStateV2 (state\_v2.go with lock\_unix.go), as a step relation of processes around one lock. The
  path helpers of paths\_v2.go and config.go take the environment as arguments.

  A file system maps paths to files and directories; \<open>broken\<close> are the paths on which
  every call fails with an error that is not os.ErrNotExist (permissions, I/O).
\<close>

section \<open>File system\<close>

datatype node = FileN string | DirN

datatype ioerr = NotExist | IOFail

record fsys =
  nodes :: "string \<Rightarrow> node option"
  broken :: "string \<Rightarrow> bool"

definition os_Stat :: "fsys \<Rightarrow> string \<Rightarrow> ioerr + node" where
  "os_Stat f p = (if broken f p then Inl IOFail else case nodes f p of None \<Rightarrow> Inl NotExist | Some n \<Rightarrow> Inr n)"

definition os_ReadFile :: "fsys \<Rightarrow> string \<Rightarrow> ioerr + string" where
  "os_ReadFile f p = (case os_Stat f p of Inl e \<Rightarrow> Inl e | Inr (FileN s) \<Rightarrow> Inr s | Inr DirN \<Rightarrow> Inl IOFail)"

definition is_dir :: "fsys \<Rightarrow> string \<Rightarrow> bool" where
  "is_dir f p \<longleftrightarrow> os_Stat f p = Inr DirN"

definition set_node :: "string \<Rightarrow> node option \<Rightarrow> fsys \<Rightarrow> fsys" where
  "set_node p n f = f\<lparr>nodes := (nodes f)(p := n)\<rparr>"

lemma set_node_simps [simp]:
  "nodes (set_node p n f) q = (if q = p then n else nodes f q)"
  "broken (set_node p n f) = broken f"
  "set_node p m (set_node p n f) = set_node p m f"
  by (simp_all add: set_node_def)

lemma set_node_same: "nodes f p = n \<Longrightarrow> set_node p n f = f"
  by (auto simp: set_node_def)

lemma os_Stat_set_node: "os_Stat (set_node p n f) q =
    (if q = p \<and> \<not> broken f p then (case n of None \<Rightarrow> Inl NotExist | Some m \<Rightarrow> Inr m) else os_Stat f q)"
  by (simp add: os_Stat_def)

text \<open>os.Mkdir and os.MkdirAll; the latter makes the missing directories from the top and stops at the first error.\<close>

definition os_Mkdir :: "fsys \<Rightarrow> string \<Rightarrow> (ioerr option) \<times> fsys" where
  "os_Mkdir f p =
    (if broken f p \<or> nodes f p \<noteq> None \<or> \<not> is_dir f (path_Dir p) then (Some IOFail, f)
     else (None, set_node p (Some DirN) f))"

fun mkdir_chain :: "string list \<Rightarrow> fsys \<Rightarrow> (ioerr option) \<times> fsys" where
  "mkdir_chain [] f = (None, f)"
| "mkdir_chain (p # ps) f =
    (case os_Stat f p of
       Inr DirN \<Rightarrow> mkdir_chain ps f
     | Inr (FileN _) \<Rightarrow> (Some IOFail, f)
     | Inl IOFail \<Rightarrow> (Some IOFail, f)
     | Inl NotExist \<Rightarrow> mkdir_chain ps (set_node p (Some DirN) f))"

text \<open>The ancestors of an absolute clean path, from the first below the root, the path itself included.\<close>

definition ancestors :: "string \<Rightarrow> string list" where
  "ancestors p = map (\<lambda>i. take i p) (filter (\<lambda>i. i = length p \<or> p ! i = slash) [1..<length p + 1])"

definition os_MkdirAll :: "fsys \<Rightarrow> string \<Rightarrow> (ioerr option) \<times> fsys" where
  "os_MkdirAll f p =
    (case os_Stat f p of
       Inr DirN \<Rightarrow> (None, f)
     | Inr (FileN _) \<Rightarrow> (Some IOFail, f)
     | Inl _ \<Rightarrow> mkdir_chain (ancestors p) f)"

section \<open>Paths of the program\<close>

text \<open>\<open>home\<close> is os.UserHomeDir (None where it fails), \<open>cwd\<close> the working directory.\<close>

definition path_Abs :: "string \<Rightarrow> string \<Rightarrow> string" where
  "path_Abs cwd p = (if IsAbs p then path_Clean p else path_Join cwd p)"

definition home_dir :: "string option \<Rightarrow> string" where
  "home_dir home = (case home of Some h \<Rightarrow> h | None \<Rightarrow> '''')"

definition ExpandPath :: "string option \<Rightarrow> string \<Rightarrow> string" where
  "ExpandPath home p =
    (if HasPrefix p ''~/'' then (case home of None \<Rightarrow> p | Some h \<Rightarrow> path_Join h (drop 2 p)) else p)"

definition ContractPath :: "string option \<Rightarrow> string \<Rightarrow> string" where
  "ContractPath home p =
    (case home of None \<Rightarrow> p
     | Some h \<Rightarrow> if HasPrefix p (h @ ''/'') then ''~/'' @ drop (length h + 1) p else p)"

definition ConfigDir :: "string \<Rightarrow> string option \<Rightarrow> string" where
  "ConfigDir xdg home = path_Join (if xdg = '''' then path_Join (home_dir home) ''.config'' else xdg) ''dotkeeper''"

definition DataDir :: "string \<Rightarrow> string option \<Rightarrow> string" where
  "DataDir xdg home = path_Join (if xdg = '''' then path_Join (home_dir home) ''.local/share'' else xdg) ''dotkeeper''"

definition STConfigDir :: "string \<Rightarrow> string option \<Rightarrow> string" where "STConfigDir xdg home = path_Join (DataDir xdg home) ''syncthing''"
definition STDataDir :: "string \<Rightarrow> string option \<Rightarrow> string" where "STDataDir xdg home = path_Join (DataDir xdg home) ''syncthing-data''"
definition MachineConfigPath :: "string \<Rightarrow> string option \<Rightarrow> string" where "MachineConfigPath xdg home = path_Join (ConfigDir xdg home) ''machine.toml''"

definition StateDir :: "string \<Rightarrow> string option \<Rightarrow> string" where
  "StateDir xdg home =
    path_Join (if xdg = '''' then path_Join (home_dir home) ''.local/state'' else xdg) ''dotkeeper''"

definition StateV2Path :: "string \<Rightarrow> string option \<Rightarrow> string" where
  "StateV2Path xdg home = path_Join (StateDir xdg home) ''state.toml''"

definition RepoConfigPath :: "string \<Rightarrow> string" where
  "RepoConfigPath repoRoot = path_Join repoRoot RepoConfigFileName"

text \<open>A plain name joined to a directory is the last component of the result.\<close>

definition plain_component :: "string \<Rightarrow> bool" where
  "plain_component a \<longleftrightarrow> a \<noteq> '''' \<and> a \<noteq> ''.'' \<and> a \<noteq> ''..'' \<and> slash \<notin> set a"

lemma split_append: "str_Split c (a @ c # b) = str_Split c a @ str_Split c b"
proof (induction a)
  case (Cons x a)
  then show ?case by (cases "str_Split c a") simp_all
qed simp

lemma split_none: "c \<notin> set s \<Longrightarrow> str_Split c s = [s]"
  by (induction s) auto

lemma clean_stack_snoc: "plain_component a \<Longrightarrow> clean_stack r st (xs @ [a]) = clean_stack r st xs @ [a]"
  by (induction r st xs rule: clean_stack.induct) (auto simp: plain_component_def split: list.splits)

lemma str_Join_snoc: "str_Join (ys @ [a]) sep = (if ys = [] then a else str_Join ys sep @ sep @ a)"
  by (induction ys sep rule: str_Join.induct) auto

lemma path_Join_ends:
  assumes "plain_component a"
  shows "path_Join d a = a \<or> (\<exists>p. path_Join d a = p @ slash # a)"
proof -
  have a: "a \<noteq> ''''" "slash \<notin> set a" using assms by (simp_all add: plain_component_def)
  have slash: "''/'' = [slash]" by (simp add: slash_def)
  show ?thesis
  proof (cases "d = ''''")
    case True
    have "clean_stack r [] (str_Split slash a) = [a]" for r
      using assms by (simp add: split_none[OF a(2)] plain_component_def)
    moreover have "\<not> IsAbs a" using a by (cases a) (auto simp: IsAbs_def HasPrefix_def slash_def)
    ultimately show ?thesis using True a(1) by (simp add: path_Join_def path_Clean_def)
  next
    case False
    let ?c = "clean_stack (IsAbs (d @ ''/'' @ a)) [] (str_Split slash d)"
    have "str_Split slash (d @ ''/'' @ a) = str_Split slash d @ [a]" by (simp add: slash split_append split_none[OF a(2)])
    then have "clean_stack (IsAbs (d @ ''/'' @ a)) [] (str_Split slash (d @ ''/'' @ a)) = ?c @ [a]"
      using clean_stack_snoc[OF assms] by simp
    then have "path_Join d a = (if IsAbs (d @ ''/'' @ a) then ''/'' else '''') @ (if ?c = [] then a else str_Join ?c ''/'' @ ''/'' @ a)"
      using False a(1) by (auto simp: path_Join_def path_Clean_def str_Join_snoc Let_def)
    then show ?thesis by (auto simp: slash)
  qed
qed

lemma path_Base_Join: "plain_component a \<Longrightarrow> path_Base (path_Join d a) = a"
proof -
  assume a: "plain_component a"
  then have n: "a \<noteq> ''''" "slash \<notin> set a" by (simp_all add: plain_component_def)
  have drop: "rev (dropWhile (\<lambda>c. c = slash) (rev (p @ a))) = p @ a" for p
    using n by (cases a rule: rev_cases) auto
  have b: "path_Base (p @ a) = last (str_Split slash (p @ a))" for p
    unfolding path_Base_def Let_def drop using n(1) by simp
  from path_Join_ends[OF a, of d] show ?thesis
  proof (elim disjE exE)
    assume "path_Join d a = a"
    then show ?thesis using b[of "[]"] by (simp add: split_none[OF n(2)])
  next
    fix p assume "path_Join d a = p @ slash # a"
    then show ?thesis using b[of "p @ [slash]"] by (simp add: split_append split_none[OF n(2)])
  qed
qed

lemma path_Join_neq: "plain_component a \<Longrightarrow> plain_component b \<Longrightarrow> a \<noteq> b \<Longrightarrow> path_Join d a \<noteq> path_Join d' b"
  using path_Base_Join by metis

section \<open>WriteFileAtomic, step by step\<close>

text \<open>
  The program counter of one call, and its steps. Every system call may fail; a failed write leaves a
  prefix of the data in the temporary file. After a failure past the open the temporary file is removed, which
  may fail too, and is ignored. \<open>WDone\<close> carries whether nil was returned.
\<close>

datatype wpc = WRand | WOpen | WWrite | WSync | WClose | WRename | WCleanup | WDone bool

inductive wstep :: "string \<Rightarrow> string \<Rightarrow> string \<Rightarrow> wpc \<times> fsys \<Rightarrow> wpc \<times> fsys \<Rightarrow> bool"
  for path data tmp where
  rand_ok: "wstep path data tmp (WRand, f) (WOpen, f)"
| rand_err: "wstep path data tmp (WRand, f) (WDone False, f)"
| open_ok: "nodes f tmp = None \<Longrightarrow> wstep path data tmp (WOpen, f) (WWrite, set_node tmp (Some (FileN [])) f)"
| open_err: "wstep path data tmp (WOpen, f) (WDone False, f)"
| write_ok: "wstep path data tmp (WWrite, f) (WSync, set_node tmp (Some (FileN data)) f)"
| write_err: "wstep path data tmp (WWrite, f) (WCleanup, set_node tmp (Some (FileN (take n data))) f)"
| sync_ok: "wstep path data tmp (WSync, f) (WClose, f)"
| sync_err: "wstep path data tmp (WSync, f) (WCleanup, f)"
| close_ok: "wstep path data tmp (WClose, f) (WRename, f)"
| close_err: "wstep path data tmp (WClose, f) (WCleanup, f)"
| rename_ok: "nodes f path \<noteq> Some DirN \<Longrightarrow> wstep path data tmp (WRename, f) (WDone True, set_node tmp None (set_node path (nodes f tmp) f))"
| rename_err: "wstep path data tmp (WRename, f) (WCleanup, f)"
| remove_ok: "wstep path data tmp (WCleanup, f) (WDone False, set_node tmp None f)"
| remove_err: "wstep path data tmp (WCleanup, f) (WDone False, f)"

inductive_cases wstepE: "wstep path data tmp (pc, f) (pc', f')"

text \<open>
  Several writers of one path, writer \<open>i\<close> with data \<open>data i\<close> and its own temporary name \<open>tmp i\<close>
  (process ID and 64 random bits), interleaved in any order. A killed writer takes no more steps.
\<close>

inductive writers :: "string \<Rightarrow> (nat \<Rightarrow> string) \<Rightarrow> (nat \<Rightarrow> string) \<Rightarrow> fsys \<Rightarrow> (nat \<Rightarrow> wpc) \<times> fsys \<Rightarrow> bool"
  for path data tmp f0 where
  start: "writers path data tmp f0 (\<lambda>_. WRand, f0)"
| step: "writers path data tmp f0 (pcs, f) \<Longrightarrow> wstep path (data i) (tmp i) (pcs i, f) (pc', f') \<Longrightarrow>
    writers path data tmp f0 (pcs(i := pc'), f')"

text \<open>Steps left before a writer returns.\<close>

fun wleft :: "wpc \<Rightarrow> nat" where
  "wleft WRand = 7" | "wleft WOpen = 6" | "wleft WWrite = 5" | "wleft WSync = 4" | "wleft WClose = 3"
| "wleft WRename = 2" | "wleft WCleanup = 1" | "wleft (WDone _) = 0"

text \<open>What a writer has made of its temporary file at each point.\<close>

fun tmp_ok :: "string \<Rightarrow> node option \<Rightarrow> node option \<Rightarrow> wpc \<Rightarrow> bool" where
  "tmp_ok d old n WRand \<longleftrightarrow> n = old"
| "tmp_ok d old n WOpen \<longleftrightarrow> n = old"
| "tmp_ok d old n WWrite \<longleftrightarrow> n = Some (FileN [])"
| "tmp_ok d old n WSync \<longleftrightarrow> n = Some (FileN d)"
| "tmp_ok d old n WClose \<longleftrightarrow> n = Some (FileN d)"
| "tmp_ok d old n WRename \<longleftrightarrow> n = Some (FileN d)"
| "tmp_ok d old n WCleanup \<longleftrightarrow> (\<exists>k. n = Some (FileN (take k d)))"
| "tmp_ok d old n (WDone True) \<longleftrightarrow> n = None"
| "tmp_ok d old n (WDone False) \<longleftrightarrow> n = None \<or> n = old \<or> (\<exists>k. n = Some (FileN (take k d)))"

lemma wstep_others:
  "wstep path d t (pc, f) (pc', f') \<Longrightarrow> q \<noteq> path \<Longrightarrow> q \<noteq> t \<Longrightarrow> nodes f' q = nodes f q"
  by (erule wstepE) auto

lemma wstep_tmp:
  assumes "wstep path d t (pc, f) (pc', f')" "t \<noteq> path" "tmp_ok d old (nodes f t) pc"
  shows "tmp_ok d old (nodes f' t) pc'"
  using assms(1) by (rule wstepE) (use assms(2,3) in \<open>auto intro: exI[of _ "length d"]\<close>)

lemma wstep_path:
  assumes "wstep path d t (pc, f) (pc', f')" "t \<noteq> path" "tmp_ok d old (nodes f t) pc"
  shows "nodes f' path = (if pc' = WDone True then Some (FileN d) else nodes f path)"
  using assms(1) by (rule wstepE) (use assms(2,3) in auto)

lemma wstep_not_done: "wstep path d t (pc, f) (pc', f') \<Longrightarrow> pc \<noteq> WDone b"
  by (erule wstepE) auto

text \<open>
  C10: whatever the interleaving of writers, failures and kills, the target is never half written: it
  holds what it held at the start and, once a writer has returned nil, the whole data of such a writer. Other
  paths are untouched and a temporary file holds only a prefix of its writer's data.
\<close>

theorem WriteFileAtomic_never_torn:
  assumes "writers path data tmp f0 (pcs, f)"
    and "inj tmp" "\<And>i. tmp i \<noteq> path"
  shows "(if \<exists>i. pcs i = WDone True then \<exists>i. pcs i = WDone True \<and> nodes f path = Some (FileN (data i)) else nodes f path = nodes f0 path) \<and>
    (\<forall>i. tmp_ok (data i) (nodes f0 (tmp i)) (nodes f (tmp i)) (pcs i)) \<and>
    (\<forall>q. nodes f q = nodes f0 q \<or> q = path \<or> q \<in> range tmp)"
  using assms(1)
proof (induction "(pcs, f)" arbitrary: pcs f rule: writers.induct)
  case start
  then show ?case by simp
next
  case (step pcs f i pc' f')
  note w = step.hyps(3) and tm = step.hyps(2)[THEN conjunct2, THEN conjunct1]
  have ti: "tmp_ok (data i) (nodes f0 (tmp i)) (nodes f (tmp i)) (pcs i)" using tm by blast
  have pth: "nodes f' path = (if pc' = WDone True then Some (FileN (data i)) else nodes f path)"
    using wstep_path[OF w assms(3) ti] .
  have nd: "pcs i \<noteq> WDone True" using wstep_not_done[OF w] .
  have A: "if \<exists>j. (pcs(i := pc')) j = WDone True then \<exists>j. (pcs(i := pc')) j = WDone True \<and> nodes f' path = Some (FileN (data j))
        else nodes f' path = nodes f0 path"
  proof (cases "pc' = WDone True")
    case True
    then show ?thesis using pth by auto
  next
    case False
    then have "(\<exists>j. (pcs(i := pc')) j = WDone True) \<longleftrightarrow> (\<exists>j. pcs j = WDone True)" using nd by (metis fun_upd_apply)
    moreover have "(\<exists>j. pcs j = WDone True \<and> nodes f path = Some (FileN (data j))) \<Longrightarrow>
        (\<exists>j. (pcs(i := pc')) j = WDone True \<and> nodes f path = Some (FileN (data j)))" using nd by (metis fun_upd_apply)
    ultimately show ?thesis using step.hyps(2) pth False by (simp only: if_False) (metis (no_types, lifting))
  qed
  have B: "tmp_ok (data j) (nodes f0 (tmp j)) (nodes f' (tmp j)) ((pcs(i := pc')) j)" for j
  proof (cases "j = i")
    case True
    then show ?thesis using wstep_tmp[OF w assms(3) ti] by simp
  next
    case False
    then have "tmp j \<noteq> tmp i" using assms(2) by (simp add: inj_eq)
    then have "nodes f' (tmp j) = nodes f (tmp j)" using wstep_others[OF w assms(3)] by blast
    then show ?thesis using tm False by simp
  qed
  have C: "nodes f' q = nodes f0 q \<or> q = path \<or> q \<in> range tmp" for q
    using step.hyps(2) wstep_others[OF w, of q] by (metis rangeI)
  show ?case using A B C by blast
qed

lemma wstep_decreases: "wstep path d t (pc, f) (pc', f') \<Longrightarrow> wleft pc' < wleft pc"
  by (erule wstepE) simp_all

text \<open>A single writer that meets no failure.\<close>

definition write_atomic :: "fsys \<Rightarrow> string \<Rightarrow> string \<Rightarrow> (ioerr option) \<times> fsys" where
  "write_atomic f path data =
    (if broken f path \<or> \<not> is_dir f (path_Dir path) \<or> nodes f path = Some DirN then (Some IOFail, f)
     else (None, set_node path (Some (FileN data)) f))"

inductive run_writer :: "string \<Rightarrow> string \<Rightarrow> string \<Rightarrow> nat \<Rightarrow> wpc \<times> fsys \<Rightarrow> wpc \<times> fsys \<Rightarrow> bool" for path data tmp where
  none: "run_writer path data tmp 0 s s"
| more: "wstep path data tmp s s' \<Longrightarrow> run_writer path data tmp n s' s'' \<Longrightarrow> run_writer path data tmp (Suc n) s s''"

lemma run_writer_bound: "run_writer path d t n s s' \<Longrightarrow> n + wleft (fst s') \<le> wleft (fst s)"
proof (induction rule: run_writer.induct)
  case (more s s' n s'')
  then show ?case using wstep_decreases[of path d t "fst s" "snd s" "fst s'" "snd s'"] by simp
qed simp

lemma wstep_progress: "(\<exists>s. wstep path d t (pc, f) s) \<longleftrightarrow> 0 < wleft pc"
proof
  assume "\<exists>s. wstep path d t (pc, f) s"
  then show "0 < wleft pc" using wstep_decreases by fastforce
next
  assume "0 < wleft pc"
  then show "\<exists>s. wstep path d t (pc, f) s"
    by (cases pc) (auto intro: rand_err open_err write_ok sync_ok close_ok rename_err remove_err)
qed


text \<open>A file system with one directory and one file, for the concrete instances.\<close>

definition demo_fs :: fsys where
  "demo_fs = \<lparr>nodes = [''/s'' \<mapsto> DirN, ''/s/f'' \<mapsto> FileN ''old''], broken = (\<lambda>_. False)\<rparr>"


theorem WriteFileAtomic_never_torn_witness:
  "\<exists>pcs (f :: fsys). pcs (0::nat) = WDone True \<and> pcs 1 = WSync \<and> nodes f ''/s/f'' = Some (FileN ''A'')"
proof -
  let ?d = "\<lambda>i::nat. if i = 0 then ''A'' else ''B''" and ?t = "\<lambda>i::nat. replicate (Suc i) CHR ''t''"
  let ?W = "writers ''/s/f'' ?d ?t demo_fs"
  have st: "?W (pcs, f) \<Longrightarrow> wstep ''/s/f'' (?d i) (?t i) (pcs i, f) (pc', f') \<Longrightarrow> pcs' = pcs(i := pc') \<Longrightarrow> ?W (pcs', f')"
    for pcs f i pc' f' pcs' using writers.step by blast
  let ?s = "\<lambda>a b. (\<lambda>_::nat. WRand)(0 := a, 1 := b)"
  let ?f1 = "set_node (?t 0) (Some (FileN [])) demo_fs"
  let ?f2 = "set_node (?t 1) (Some (FileN [])) ?f1"
  let ?f3 = "set_node (?t 1) (Some (FileN (?d 1))) ?f2"
  let ?f4 = "set_node (?t 0) (Some (FileN (?d 0))) ?f3"
  let ?f5 = "set_node (?t 0) None (set_node ''/s/f'' (nodes ?f4 (?t 0)) ?f4)"
  have d: "nodes demo_fs (?t 0) = None" "nodes ?f1 (?t 1) = None" "nodes ?f4 ''/s/f'' \<noteq> Some DirN" by (simp_all add: demo_fs_def)
  have "?W (?s WRand WRand, demo_fs)" using writers.start by (simp add: fun_upd_idem)
  then have "?W (?s WOpen WRand, demo_fs)" by (rule st[where i = 0 and pc' = WOpen]) (auto simp: rand_ok)
  then have "?W (?s WWrite WRand, ?f1)" by (rule st[where i = 0 and pc' = WWrite]) (auto simp del: replicate.simps intro: open_ok d)
  then have "?W (?s WWrite WOpen, ?f1)" by (rule st[where i = 1 and pc' = WOpen]) (auto simp: rand_ok)
  then have "?W (?s WWrite WWrite, ?f2)" by (rule st[where i = 1 and pc' = WWrite]) (use open_ok[OF d(2)] in auto)
  then have "?W (?s WWrite WSync, ?f3)" by (rule st[where i = 1 and pc' = WSync]) (use write_ok[where f = ?f2 and data = "?d 1" and tmp = "?t 1"] in auto)
  then have "?W (?s WSync WSync, ?f4)" by (rule st[where i = 0 and pc' = WSync]) (use write_ok[where f = ?f3 and data = "?d 0" and tmp = "?t 0"] in auto)
  then have "?W (?s WClose WSync, ?f4)" by (rule st[where i = 0 and pc' = WClose]) (auto simp: sync_ok)
  then have "?W (?s WRename WSync, ?f4)" by (rule st[where i = 0 and pc' = WRename]) (auto simp: close_ok)
  then have fin: "?W (?s (WDone True) WSync, ?f5)" by (rule st[where i = 0 and pc' = "WDone True"]) (use rename_ok[OF d(3), where data = "?d 0" and tmp = "?t 0"] in auto)
  have inj: "inj ?t" "\<And>i. ?t i \<noteq> ''/s/f''" by (auto simp: inj_def)
  have "\<exists>i. ?s (WDone True) WSync i = WDone True \<and> nodes ?f5 ''/s/f'' = Some (FileN (?d i))"
    using WriteFileAtomic_never_torn[OF fin inj, THEN conjunct1] by (simp split: if_splits)
  then obtain i where "?s (WDone True) WSync i = WDone True" "nodes ?f5 ''/s/f'' = Some (FileN (?d i))" by blast
  then have "nodes ?f5 ''/s/f'' = Some (FileN ''A'')" by (cases "i = 0"; cases "i = 1") simp_all
  then show ?thesis by (intro exI[of _ "?s (WDone True) WSync"] exI[of _ ?f5] conjI) (assumption | simp)+
qed

end
