(* ===== verification/State_File.thy ===== *)
theory State_File
  imports Files
begin

text \<open>
  The protocol of MutateStateV2 (internal/config/state\_v2.go): processes that each take the lock of
  state.toml, read the file, apply one mutation and write it back. A process may fail or be killed at
  any point; the lock goes with it. A process with \<open>locked i = False\<close> reads and writes without
  the lock, as runSubscribe and runUnsubscribe of cmd/dotkeeper/subscribe.go do.
\<close>

section \<open>One mutation\<close>

text \<open>What is read is normalised before the mutation sees it; \<open>mutate\<close> gives None for an error.\<close>

definition state_or_fresh :: "StateV2 option \<Rightarrow> StateV2" where
  "state_or_fresh so = (case so of
      None \<Rightarrow> fresh_state
    | Some s \<Rightarrow> if st_SchemaVersion s = 0 then s\<lparr>st_SchemaVersion := 2\<rparr> else s)"

definition mutate_text :: "(string \<Rightarrow> 'e + StateV2) \<Rightarrow> (StateV2 \<Rightarrow> StateV2 option) \<Rightarrow> string option \<Rightarrow> string option" where
  "mutate_text decode mutate file = (case LoadStateV2 decode file of
      Inl _ \<Rightarrow> None
    | Inr so \<Rightarrow> map_option state_text (mutate (state_or_fresh so)))"

text \<open>The mutations of the program: applyTrackRepo, applyUntrackRepo, markRepoPushed.\<close>

definition track_mutation :: "string \<Rightarrow> StateV2 \<Rightarrow> StateV2 option" where
  "track_mutation path s =
    Some (if path \<in> set (st_TrackedOverrides s) then s else s\<lparr>st_TrackedOverrides := st_TrackedOverrides s @ [path]\<rparr>)"

definition untrack_mutation :: "string \<Rightarrow> StateV2 \<Rightarrow> StateV2 option" where
  "untrack_mutation path s = Some (s\<lparr>st_TrackedOverrides := filter (\<lambda>p. p \<noteq> path) (st_TrackedOverrides s)\<rparr>)"

definition pushed_mutation :: "string \<Rightarrow> string \<Rightarrow> gotime \<Rightarrow> StateV2 \<Rightarrow> StateV2 option" where
  "pushed_mutation repoPath head now s =
    Some (s\<lparr>st_ObservedRepos := AList.update repoPath
      \<lparr>or_LastReconciledCommit = head, or_LastPushedCommit = head, or_LastBackupAt = now\<rparr> (st_ObservedRepos s)\<rparr>)"

section \<open>Processes around one lock\<close>

datatype mpc = MStart | MHold | MLoaded StateV2 | MMutated StateV2 | MDone bool

record msys =
  ms_file :: "string option"
  ms_holder :: "nat option"
  ms_pc :: "nat \<Rightarrow> mpc"
  ms_log :: "nat list"

definition release :: "nat \<Rightarrow> nat option \<Rightarrow> nat option" where
  "release i h = (if h = Some i then None else h)"

text \<open>\<open>ms_log\<close> is a ghost: the processes whose write has reached the file, in order.\<close>

inductive mstep :: "(string \<Rightarrow> 'e + StateV2) \<Rightarrow> (nat \<Rightarrow> StateV2 \<Rightarrow> StateV2 option) \<Rightarrow> (nat \<Rightarrow> bool) \<Rightarrow> msys \<Rightarrow> msys \<Rightarrow> bool"
  for decode mut locked where
  acquire: "ms_pc s i = MStart \<Longrightarrow> locked i \<Longrightarrow> ms_holder s = None \<Longrightarrow>
    mstep decode mut locked s (s\<lparr>ms_pc := (ms_pc s)(i := MHold), ms_holder := Some i\<rparr>)"
| no_lock: "ms_pc s i = MStart \<Longrightarrow> \<not> locked i \<Longrightarrow> mstep decode mut locked s (s\<lparr>ms_pc := (ms_pc s)(i := MHold)\<rparr>)"
| load: "ms_pc s i = MHold \<Longrightarrow> LoadStateV2 decode (ms_file s) = Inr so \<Longrightarrow>
    mstep decode mut locked s (s\<lparr>ms_pc := (ms_pc s)(i := MLoaded (state_or_fresh so))\<rparr>)"
| mutate: "ms_pc s i = MLoaded st \<Longrightarrow> mut i st = Some st' \<Longrightarrow>
    mstep decode mut locked s (s\<lparr>ms_pc := (ms_pc s)(i := MMutated st')\<rparr>)"
| put: "ms_pc s i = MMutated st \<Longrightarrow>
    mstep decode mut locked s (s\<lparr>ms_file := Some (state_text st), ms_pc := (ms_pc s)(i := MDone True),
      ms_holder := release i (ms_holder s), ms_log := ms_log s @ [i]\<rparr>)"
| fail: "ms_pc s i \<noteq> MDone True \<Longrightarrow> ms_pc s i \<noteq> MDone False \<Longrightarrow>
    mstep decode mut locked s (s\<lparr>ms_pc := (ms_pc s)(i := MDone False), ms_holder := release i (ms_holder s)\<rparr>)"

inductive msys_reach :: "(string \<Rightarrow> 'e + StateV2) \<Rightarrow> (nat \<Rightarrow> StateV2 \<Rightarrow> StateV2 option) \<Rightarrow> (nat \<Rightarrow> bool) \<Rightarrow> string option \<Rightarrow> msys \<Rightarrow> bool"
  for decode mut locked file0 where
  start: "msys_reach decode mut locked file0 \<lparr>ms_file = file0, ms_holder = None, ms_pc = (\<lambda>_. MStart), ms_log = []\<rparr>"
| step: "msys_reach decode mut locked file0 s \<Longrightarrow> mstep decode mut locked s s' \<Longrightarrow> msys_reach decode mut locked file0 s'"

text \<open>The file after the mutations of a log, one after the other, each on what the one before wrote.\<close>

fun replay :: "(string \<Rightarrow> 'e + StateV2) \<Rightarrow> (nat \<Rightarrow> StateV2 \<Rightarrow> StateV2 option) \<Rightarrow> nat list \<Rightarrow> string option \<Rightarrow> string option" where
  "replay decode mut [] t = t"
| "replay decode mut (i # js) t =
     replay decode mut js (case mutate_text decode (mut i) t of None \<Rightarrow> t | Some t' \<Rightarrow> Some t')"

lemma replay_append: "replay decode mut (is1 @ js) t = replay decode mut js (replay decode mut is1 t)"
  by (induction is1 arbitrary: t) simp_all

lemma replay_snoc: "mutate_text decode (mut i) (replay decode mut js t) = Some t' \<Longrightarrow> replay decode mut (js @ [i]) t = Some t'"
  by (simp add: replay_append)

text \<open>What the lock protects: a process past the lock holds it, and what it has read is the file.\<close>

fun in_section :: "(string \<Rightarrow> 'e + StateV2) \<Rightarrow> (nat \<Rightarrow> StateV2 \<Rightarrow> StateV2 option) \<Rightarrow> string option \<Rightarrow> nat \<Rightarrow> mpc \<Rightarrow> bool" where
  "in_section decode mut file i (MLoaded st) \<longleftrightarrow> (\<exists>so. LoadStateV2 decode file = Inr so \<and> st = state_or_fresh so)"
| "in_section decode mut file i (MMutated st) \<longleftrightarrow> (\<exists>so. LoadStateV2 decode file = Inr so \<and> mut i (state_or_fresh so) = Some st)"
| "in_section decode mut file i _ \<longleftrightarrow> True"

definition busy :: "mpc \<Rightarrow> bool" where
  "busy pc \<longleftrightarrow> pc \<noteq> MStart \<and> pc \<noteq> MDone True \<and> pc \<noteq> MDone False"

lemma busy_simps [simp]: "\<not> busy MStart" "\<not> busy (MDone b)" "busy MHold" "busy (MLoaded st)" "busy (MMutated st)"
  by (cases b) (auto simp: busy_def)

definition lock_inv :: "(string \<Rightarrow> 'e + StateV2) \<Rightarrow> (nat \<Rightarrow> StateV2 \<Rightarrow> StateV2 option) \<Rightarrow> string option \<Rightarrow> msys \<Rightarrow> bool" where
  "lock_inv decode mut file0 s \<longleftrightarrow>
     (\<forall>i. busy (ms_pc s i) \<longrightarrow> ms_holder s = Some i \<and> in_section decode mut (ms_file s) i (ms_pc s i)) \<and>
     ms_file s = replay decode mut (ms_log s) file0 \<and>
     distinct (ms_log s) \<and> (\<forall>i. i \<in> set (ms_log s) \<longleftrightarrow> ms_pc s i = MDone True)"

inductive_cases mstepE: "mstep decode mut locked s s'"

lemma lock_inv_step:
  assumes "mstep decode mut (\<lambda>_. True) s s'" "lock_inv decode mut file0 s"
  shows "lock_inv decode mut file0 s'"
  using assms(1)
proof (cases rule: mstep.cases)
  case (acquire i)
  then show ?thesis using assms(2) by (auto simp: lock_inv_def)
next
  case (no_lock i)
  then show ?thesis by simp
next
  case (load i so)
  then show ?thesis using assms(2) by (auto simp: lock_inv_def)
next
  case (mutate i st st')
  have h: "ms_holder s = Some i" "in_section decode mut (ms_file s) i (ms_pc s i)"
    using assms(2) mutate(2) unfolding lock_inv_def by (metis busy_simps(4))+
  show ?thesis using assms(2) mutate h by (auto simp: lock_inv_def)
next
  case (put i st)
  have h: "ms_holder s = Some i" "in_section decode mut (ms_file s) i (ms_pc s i)"
    using assms(2) put(2) unfolding lock_inv_def by (metis busy_simps(5))+
  then obtain so where so: "LoadStateV2 decode (ms_file s) = Inr so" "mut i (state_or_fresh so) = Some st" using put(2) by auto
  have t: "mutate_text decode (mut i) (ms_file s) = Some (state_text st)" by (simp add: mutate_text_def so)
  have "replay decode mut (ms_log s @ [i]) file0 = Some (state_text st)"
    using assms(2) t by (simp add: lock_inv_def replay_snoc)
  moreover have "i \<notin> set (ms_log s)" using assms(2) put(2) by (auto simp: lock_inv_def)
  moreover have "\<not> busy (ms_pc s j)" if "j \<noteq> i" for j using assms(2) h(1) that by (auto simp: lock_inv_def)
  ultimately show ?thesis using assms(2) put h by (auto simp: lock_inv_def release_def)
next
  case (fail i)
  then show ?thesis using assms(2) by (auto simp: lock_inv_def release_def)
qed

text \<open>
  C9: MutateStateV2 loses no update. In every state that concurrent calls reach, with failures and kills
  anywhere, the file is what the completed mutations give one after the other, in the order of their writes; a
  call that returned nil is among them exactly once, one that failed is not.
\<close>

theorem MutateStateV2_serializable:
  assumes "msys_reach decode mut (\<lambda>_. True) file0 s"
  shows "ms_file s = replay decode mut (ms_log s) file0 \<and> distinct (ms_log s) \<and>
    set (ms_log s) = {i. ms_pc s i = MDone True} \<and> (\<forall>i j. busy (ms_pc s i) \<and> busy (ms_pc s j) \<longrightarrow> i = j)"
proof -
  have "lock_inv decode mut file0 s"
    using assms
  proof induction
    case start
    then show ?case by (simp add: lock_inv_def)
  qed (rule lock_inv_step)
  then have i: "\<And>i. busy (ms_pc s i) \<Longrightarrow> ms_holder s = Some i" "ms_file s = replay decode mut (ms_log s) file0"
      "distinct (ms_log s)" "\<And>i. i \<in> set (ms_log s) \<longleftrightarrow> ms_pc s i = MDone True"
    by (auto simp: lock_inv_def)
  have "i = j" if "busy (ms_pc s i)" "busy (ms_pc s j)" for i j using i(1)[OF that(1)] i(1)[OF that(2)] by simp
  then show ?thesis using i(2-4) by auto
qed

text \<open>A decoder that reads back the two states of the instances; any text it does not know is an error.\<close>

definition demo_decode :: "string \<Rightarrow> unit + StateV2" where
  "demo_decode t = (if t = state_text fresh_state then Inr fresh_state else Inl ())"

definition demo_mut :: "nat \<Rightarrow> StateV2 \<Rightarrow> StateV2 option" where
  "demo_mut i = track_mutation (if i = 0 then ''/a'' else ''/b'')"

text \<open>One process that runs to the end while the other is at rest.\<close>

abbreviation sys :: "string option \<Rightarrow> nat option \<Rightarrow> (nat \<Rightarrow> mpc) \<Rightarrow> nat list \<Rightarrow> msys" where
  "sys fl h pc lg \<equiv> \<lparr>ms_file = fl, ms_holder = h, ms_pc = pc, ms_log = lg\<rparr>"

lemma run_alone:
  assumes "msys_reach decode mut locked file0 (sys fl None pc lg)" "pc i = MStart"
    and "LoadStateV2 decode fl = Inr so" "mut i (state_or_fresh so) = Some st"
  shows "msys_reach decode mut locked file0 (sys (Some (state_text st)) None (pc(i := MDone True)) (lg @ [i]))"
proof -
  let ?R = "msys_reach decode mut locked file0" and ?h = "if locked i then Some i else None"
  have 1: "?R (sys fl ?h (pc(i := MHold)) lg)"
    using msys_reach.step[OF assms(1) acquire[of "sys fl None pc lg" i]] msys_reach.step[OF assms(1) no_lock[of "sys fl None pc lg" i]] assms(2)
    by (cases "locked i") simp_all
  have 2: "?R (sys fl ?h (pc(i := MLoaded (state_or_fresh so))) lg)"
    using msys_reach.step[OF 1 load[of _ i decode so]] assms(3) by simp
  have 3: "?R (sys fl ?h (pc(i := MMutated st)) lg)"
    using msys_reach.step[OF 2 mutate[of _ i "state_or_fresh so" mut st]] assms(4) by simp
  have "?R (sys (Some (state_text st)) (release i ?h) (pc(i := MDone True)) (lg @ [i]))"
    using msys_reach.step[OF 3 put[of _ i st]] by simp
  then show ?thesis by (cases "locked i") (simp_all add: release_def)
qed

theorem MutateStateV2_serializable_witness:
  "\<exists>s :: msys. ms_log s = [0] \<and> ms_file s = replay demo_decode demo_mut [0] None \<and>
     ms_file s = Some (state_text (fresh_state\<lparr>st_TrackedOverrides := [''/a'']\<rparr>))"
proof -
  let ?t = "sys (Some (state_text (fresh_state\<lparr>st_TrackedOverrides := [''/a'']\<rparr>))) None ((\<lambda>_. MStart)(0 := MDone True)) ([] @ [0])"
  have r: "msys_reach demo_decode demo_mut (\<lambda>_. True) None ?t"
    by (rule run_alone[OF msys_reach.start, where so = None])
      (simp_all add: LoadStateV2_def demo_mut_def track_mutation_def state_or_fresh_def fresh_state_def)
  have t: "ms_log ?t = [0]" "ms_file ?t = Some (state_text (fresh_state\<lparr>st_TrackedOverrides := [''/a'']\<rparr>))" by simp_all
  show ?thesis
  proof (intro exI[of _ ?t] conjI)
    show "ms_file ?t = replay demo_decode demo_mut [0] None"
      using MutateStateV2_serializable[OF r, THEN conjunct1] unfolding t(1) .
  qed (rule t)+
qed

text \<open>
  Without the lock an update is lost: a process that reads and writes state.toml as runSubscribe does, and a
  MutateStateV2 that completes between its read and its write, both report success, and the file is as if the
  second had never run.
\<close>

theorem unlocked_write_loses_update:
  assumes "LoadStateV2 decode file0 = Inr so" "mut 0 (state_or_fresh so) = Some st0" "mut 1 (state_or_fresh so) = Some st1"
  shows "\<exists>s. msys_reach decode mut (\<lambda>i. i \<noteq> 0) file0 s \<and> ms_pc s 0 = MDone True \<and> ms_pc s 1 = MDone True \<and>
    ms_file s = Some (state_text st0) \<and> ms_file s = mutate_text decode (mut 0) file0"
proof -
  let ?R = "msys_reach decode mut (\<lambda>i. i \<noteq> 0) file0" and ?m = "state_or_fresh so"
  let ?s0 = "sys file0 None (\<lambda>_. MStart) []"
  let ?t1 = "Some (state_text st1)"
  have 1: "?R (sys file0 None ((\<lambda>_. MStart)(0 := MHold)) [])"
    using msys_reach.step[OF msys_reach.start no_lock[of ?s0 0 "\<lambda>i. i \<noteq> 0" decode mut]] by simp
  have 2: "?R (sys file0 None ((\<lambda>_. MStart)(0 := MLoaded ?m)) [])"
    using msys_reach.step[OF 1 load[of _ 0 decode so]] assms(1) by simp
  have 3: "?R (sys ?t1 None ((\<lambda>_. MStart)(0 := MLoaded ?m, 1 := MDone True)) [1])"
    using run_alone[OF 2, of 1 so st1] assms(1,3) by simp
  have 4: "?R (sys ?t1 None ((\<lambda>_. MStart)(0 := MLoaded ?m, 1 := MDone True, 0 := MMutated st0)) [1])"
    using msys_reach.step[OF 3 mutate[of _ 0 ?m mut st0]] assms(2) by simp
  let ?e = "sys (Some (state_text st0)) None ((\<lambda>_. MStart)(0 := MLoaded ?m, 1 := MDone True, 0 := MMutated st0, 0 := MDone True)) [1, 0]"
  have 5: "?R ?e" using msys_reach.step[OF 4 put[of _ 0 st0]] by (simp add: release_def)
  have "ms_file ?e = mutate_text decode (mut 0) file0" using assms(1,2) by (simp add: mutate_text_def)
  then show ?thesis using 5 by (intro exI[of _ ?e] conjI) simp_all
qed

theorem unlocked_write_loses_update_witness:
  "\<exists>s. msys_reach demo_decode demo_mut (\<lambda>i. i \<noteq> 0) None s \<and> ms_pc s 1 = MDone True \<and>
     ms_file s = Some (state_text (fresh_state\<lparr>st_TrackedOverrides := [''/a'']\<rparr>))"
proof -
  have "LoadStateV2 demo_decode None = Inr None" by (simp add: LoadStateV2_def)
  from unlocked_write_loses_update[OF this, of demo_mut "fresh_state\<lparr>st_TrackedOverrides := [''/a'']\<rparr>" "fresh_state\<lparr>st_TrackedOverrides := [''/b'']\<rparr>"]
  show ?thesis by (fastforce simp: demo_mut_def track_mutation_def state_or_fresh_def fresh_state_def)
qed

end
