(* ===== verification/Git_Commands.thy ===== *)
theory Git_Commands
  imports State_File
begin

text \<open>
  Running git. The git program is a parameter: a function of the directory, the arguments and the state of the
  world, giving success, standard output, standard error and the new state. \<open>git_laws\<close> is what its
  documentation promises of the commands the code runs on one repository, in terms of four trees: the
  commit at HEAD, the index, the working tree (of the files git does not ignore) and the upstream branch. The helpers
  are those of internal/gitsync/sync.go and internal/reconcile/applier.go.
\<close>

section \<open>Calling git\<close>

type_synonym 'w git = "string \<Rightarrow> string list \<Rightarrow> 'w \<Rightarrow> (bool \<times> string \<times> string) \<times> 'w"

text \<open>gitRun, run and runCapture: nil, or the trimmed standard error.\<close>

definition gitRun :: "'w git \<Rightarrow> string \<Rightarrow> string list \<Rightarrow> 'w \<Rightarrow> string option \<times> 'w" where
  "gitRun git dir args w = (case git dir args w of ((ok, out, err), w') \<Rightarrow> (if ok then None else Some (TrimSpace err), w'))"

text \<open>runOutput and procnice.Output: standard output, None for an error.\<close>

definition runOutput :: "'w git \<Rightarrow> string \<Rightarrow> string list \<Rightarrow> 'w \<Rightarrow> string option \<times> 'w" where
  "runOutput git dir args w = (case git dir args w of ((ok, out, err), w') \<Rightarrow> (if ok then Some out else None, w'))"

definition splitLines :: "string \<Rightarrow> string list" where
  "splitLines s = (let t = TrimSpace s in if t = '''' then [] else str_Split newline t)"

definition list_deletions :: "string list" where
  "list_deletions = [''diff'', ''--cached'', ''--name-only'', ''--diff-filter=D'']"

definition stagedDeletions :: "'w git \<Rightarrow> string \<Rightarrow> 'w \<Rightarrow> string list \<times> 'w" where
  "stagedDeletions git dir w =
    (case runOutput git dir list_deletions w of (out, w') \<Rightarrow> (case out of None \<Rightarrow> [] | Some s \<Rightarrow> splitLines s, w'))"

text \<open>gitHeadHash and gitHeadCommit: the commit at HEAD, empty where git fails.\<close>

definition gitHeadHash :: "'w git \<Rightarrow> string \<Rightarrow> 'w \<Rightarrow> string \<times> 'w" where
  "gitHeadHash git dir w =
    (case runOutput git dir [''rev-parse'', ''HEAD''] w of (out, w') \<Rightarrow> (case out of None \<Rightarrow> [] | Some s \<Rightarrow> TrimSpace s, w'))"

definition quiet_check :: "string list" where
  "quiet_check = [''diff'', ''--cached'', ''--quiet'']"

section \<open>What git documents\<close>

record trees =
  t_head :: "string \<Rightarrow> string option"
  t_index :: "string \<Rightarrow> string option"
  t_work :: "string \<Rightarrow> string option"
  t_up :: "string \<Rightarrow> string option"

text \<open>\<open>quote\<close> is how git prints a path name: as it is, unless it holds bytes git escapes.\<close>

definition git_laws :: "'w git \<Rightarrow> string \<Rightarrow> ('w \<Rightarrow> trees) \<Rightarrow> (string \<Rightarrow> string) \<Rightarrow> bool" where
  "git_laws git dir view quote \<longleftrightarrow>
    (\<forall>w. case git dir list_deletions w of ((ok, out, err), w') \<Rightarrow> view w' = view w \<and>
        (ok \<longrightarrow> (\<exists>ps. set ps = {p. t_head (view w) p \<noteq> None \<and> t_index (view w) p = None} \<and>
                   out = concat (map (\<lambda>p. quote p @ nl) ps)))) \<and>
    (\<forall>w. case git dir [''add'', ''-A''] w of ((ok, out, err), w') \<Rightarrow>
        (if ok then view w' = (view w)\<lparr>t_index := t_work (view w)\<rparr>
         else t_head (view w') = t_head (view w) \<and> t_work (view w') = t_work (view w) \<and> t_up (view w') = t_up (view w))) \<and>
    (\<forall>w. case git dir quiet_check w of ((ok, out, err), w') \<Rightarrow>
        view w' = view w \<and> (ok \<longrightarrow> t_index (view w) = t_head (view w))) \<and>
    (\<forall>w ps. case git dir ([''reset'', ''HEAD'', ''--''] @ ps) w of ((ok, out, err), w') \<Rightarrow>
        view w' = (if ok then (view w)\<lparr>t_index := \<lambda>p. if p \<in> set ps then t_head (view w) p else t_index (view w) p\<rparr> else view w)) \<and>
    (\<forall>w m opts. case git dir ([''commit'', ''-m'', m] @ opts) w of ((ok, out, err), w') \<Rightarrow>
        view w' = (if ok then (view w)\<lparr>t_head := t_index (view w)\<rparr> else view w)) \<and>
    (\<forall>w n. view (snd (git dir [''notes'', ''--ref=dotkeeper'', ''add'', ''-f'', ''-m'', n, ''HEAD''] w)) = view w)"

text \<open>A name git prints as it is and that is one line of the listing.\<close>

definition plain_file :: "(string \<Rightarrow> string) \<Rightarrow> string \<Rightarrow> bool" where
  "plain_file quote p \<longleftrightarrow> p \<noteq> '''' \<and> list_all (\<lambda>c. \<not> is_space c) p \<and> quote p = p"

section \<open>Lines of a listing\<close>

lemma is_space_newline [simp]: "is_space newline"
  by (simp add: is_space_def newline_def)

lemma nl_newline: "nl = [newline]"
  by (simp add: nl_def newline_def)

lemma dropWhile_suffix: "\<exists>a'. dropWhile P (a @ p @ b) = a' @ p @ b \<and> (\<exists>a''. a = a'' @ a')"
  if "p \<noteq> []" "list_all (\<lambda>c. \<not> P c) p" for a p b
proof (cases "\<exists>x\<in>set a. \<not> P x")
  case True
  then have "dropWhile P (a @ p @ b) = dropWhile P a @ p @ b" by (auto simp: dropWhile_append1)
  then show ?thesis by (metis takeWhile_dropWhile_id)
next
  case False
  then have "dropWhile P (a @ p @ b) = dropWhile P (p @ b)" by (auto simp: dropWhile_append2)
  moreover have "dropWhile P (p @ b) = p @ b" using that by (cases p) auto
  ultimately show ?thesis by (metis append_Nil append_Nil2)
qed

lemma TrimSpace_keeps:
  assumes "p \<noteq> []" "list_all (\<lambda>c. \<not> is_space c) p"
  obtains a' a'' b' b'' where "TrimSpace (a @ p @ b) = a' @ p @ b'" "a = a'' @ a'" "b = b' @ b''"
proof -
  obtain a' a'' where a: "dropWhile is_space (a @ p @ b) = a' @ p @ b" "a = a'' @ a'"
    using dropWhile_suffix[where P = is_space, OF assms] by metis
  have "rev p \<noteq> []" "list_all (\<lambda>c. \<not> is_space c) (rev p)" using assms by simp_all
  then obtain b' b'' where b: "dropWhile is_space (rev b @ rev p @ rev a') = b' @ rev p @ rev a'" "rev b = b'' @ b'"
    using dropWhile_suffix[where P = is_space] by metis
  have "TrimSpace (a @ p @ b) = a' @ p @ rev b'" unfolding TrimSpace_def a(1) using b(1) by simp
  moreover have "b = rev b' @ rev b''" using b(2) by (metis rev_append rev_rev_ident)
  ultimately show ?thesis using a(2) that by blast
qed

text \<open>A plain name on a line of its own is among the lines, whatever is printed around it.\<close>

lemma splitLines_mem:
  assumes p: "p \<noteq> ''''" "list_all (\<lambda>c. \<not> is_space c) p"
    and a: "a = '''' \<or> last a = newline" and b: "b = '''' \<or> hd b = newline"
  shows "p \<in> set (splitLines (a @ p @ b))"
proof -
  obtain a' a'' b' b'' where t: "TrimSpace (a @ p @ b) = a' @ p @ b'" "a = a'' @ a'" "b = b' @ b''"
    using TrimSpace_keeps[OF p] by metis
  have np: "newline \<notin> set p" using p(2) by (auto simp: list_all_iff)
  have "a' = [] \<or> last a' = newline" using a t(2) by (auto simp: last_append split: if_splits)
  then obtain xs where xs: "a' = [] \<or> a' = xs @ [newline]" by (metis append_butlast_last_id)
  have "b' = [] \<or> hd b' = newline" using b t(3) by (auto simp: hd_append split: if_splits)
  then obtain ys where ys: "b' = [] \<or> b' = newline # ys" by (metis list.collapse)
  have s: "p \<in> set (str_Split newline (p @ b'))"
    using ys np split_append[of newline p ys] by (auto simp: split_none)
  then have "p \<in> set (str_Split newline (a' @ p @ b'))"
    using xs split_append[of newline xs "p @ b'"] by auto
  then show ?thesis using p(1) by (simp add: splitLines_def t(1) Let_def)
qed

lemma splitLines_listing:
  assumes "plain_file quote p" "p \<in> set ps"
  shows "p \<in> set (splitLines (concat (map (\<lambda>p. quote p @ nl) ps)))"
proof -
  obtain xs ys where ps: "ps = xs @ p # ys" using assms(2) by (metis split_list)
  let ?L = "\<lambda>ps. concat (map (\<lambda>p. quote p @ nl) ps)"
  have q: "quote p = p" using assms(1) by (simp add: plain_file_def)
  have "?L ps = ?L xs @ p @ (newline # ?L ys)" by (simp add: ps q nl_newline)
  moreover have "?L xs = '''' \<or> last (?L xs) = newline"
    by (cases xs rule: rev_cases) (simp_all add: nl_newline)
  ultimately show ?thesis using splitLines_mem[of p "?L xs" "newline # ?L ys"] assms(1) by (simp add: plain_file_def)
qed

end
