(* ===== verification/Git_Backup.thy ===== *)
theory Git_Backup
  imports Git_Commands
begin

text \<open>
  The two routines that commit and push on the user's behalf: applyGitCommitDirty and applyGitPushRepo of
  internal/reconcile/applier.go and SyncRepo of internal/gitsync/sync.go. Both stage everything and then take out
  of the index the deletions the user had not staged before.
\<close>

section \<open>applyGitCommitDirty\<close>

datatype git_error = StageFailed string | CommitFailed string | PullFailed string | PushFailed string | RecordFailed
  | NotGitRepo | RemoteUnreachable | FetchFailed

definition note_text :: "string \<Rightarrow> gotime \<Rightarrow> string" where
  "note_text machine now = ''machine='' @ machine @ nl @ ''time='' @ fmt_rfc3339 now @ nl"

definition add_note :: "'w git \<Rightarrow> string \<Rightarrow> string \<Rightarrow> 'w \<Rightarrow> 'w" where
  "add_note git dir note w = snd (gitRun git dir [''notes'', ''--ref=dotkeeper'', ''add'', ''-f'', ''-m'', note, ''HEAD''] w)"

text \<open>\<open>machine\<close> is the name in machine.toml where that loads; the note is written only then.\<close>

definition commit_with_note :: "'w git \<Rightarrow> string option \<Rightarrow> gotime \<Rightarrow> string \<Rightarrow> string \<Rightarrow> 'w \<Rightarrow> git_error option \<times> 'w" where
  "commit_with_note git machine now dir msg w =
    (case gitRun git dir [''commit'', ''-m'', msg] w of
       (Some e, w1) \<Rightarrow> (Some (CommitFailed e), w1)
     | (None, w1) \<Rightarrow> (None, case machine of None \<Rightarrow> w1 | Some m \<Rightarrow> add_note git dir (note_text m now) w1))"

definition applyGitCommitDirty :: "'w git \<Rightarrow> string option \<Rightarrow> gotime \<Rightarrow> string \<Rightarrow> string \<Rightarrow> 'w \<Rightarrow> git_error option \<times> 'w" where
  "applyGitCommitDirty git machine now dir msg w =
    (case stagedDeletions git dir w of (preDels, w1) \<Rightarrow>
     case gitRun git dir [''add'', ''-A''] w1 of
       (Some e, w2) \<Rightarrow> (Some (StageFailed e), w2)
     | (None, w2) \<Rightarrow>
     case gitRun git dir quiet_check w2 of
       (None, w3) \<Rightarrow> (None, w3)
     | (Some _, w3) \<Rightarrow>
     case stagedDeletions git dir w3 of (dels, w4) \<Rightarrow>
       let unintended = filter (\<lambda>f. f \<notin> set preDels) dels in
       if unintended = [] then commit_with_note git machine now dir msg w4
       else case gitRun git dir ([''reset'', ''HEAD'', ''--''] @ unintended) w4 of (_, w5) \<Rightarrow>
            case gitRun git dir quiet_check w5 of
              (None, w6) \<Rightarrow> (None, w6)
            | (Some _, w6) \<Rightarrow> commit_with_note git machine now dir msg w6)"

text \<open>
  applyGitPushRepo: pull with rebase, push, then record the pushed commit, \<open>record_push\<close> being
  MutateStateV2 with \<open>pushed_mutation\<close>; an unknown HEAD is not recorded.
\<close>

definition markRepoPushed :: "'w git \<Rightarrow> (string \<Rightarrow> string \<Rightarrow> 'w \<Rightarrow> bool \<times> 'w) \<Rightarrow> string \<Rightarrow> 'w \<Rightarrow> bool \<times> 'w" where
  "markRepoPushed git record_push dir w =
    (case gitHeadHash git dir w of (head, w1) \<Rightarrow> if head = '''' then (True, w1) else record_push dir head w1)"

definition applyGitPushRepo :: "'w git \<Rightarrow> (string \<Rightarrow> string \<Rightarrow> 'w \<Rightarrow> bool \<times> 'w) \<Rightarrow> string \<Rightarrow> 'w \<Rightarrow> git_error option \<times> 'w" where
  "applyGitPushRepo git record_push dir w =
    (case gitRun git dir [''pull'', ''--rebase'', ''--autostash'', ''--quiet''] w of
       (Some e, w1) \<Rightarrow> (Some (PullFailed e), snd (gitRun git dir [''rebase'', ''--abort''] w1))
     | (None, w1) \<Rightarrow>
     case gitRun git dir [''push''] w1 of
       (Some e, w2) \<Rightarrow> (Some (PushFailed e), w2)
     | (None, w2) \<Rightarrow>
     case markRepoPushed git record_push dir w2 of (ok, w3) \<Rightarrow> (if ok then None else Some RecordFailed, w3))"

section \<open>SyncRepo\<close>

text \<open>\<open>fmt.Sscanf(s, "%d", &n)\<close>: the sign and digits at the front, 0 where there are none.\<close>

fun digits_val :: "nat \<Rightarrow> string \<Rightarrow> nat" where
  "digits_val acc [] = acc"
| "digits_val acc (c # s) = (if is_digit c then digits_val (10 * acc + (of_char c - 48)) s else acc)"

definition scan_int :: "string \<Rightarrow> int" where
  "scan_int s =
    (let n = (case s of c # r \<Rightarrow> if c = CHR ''-'' then - int (digits_val 0 r) else if c = CHR ''+'' then int (digits_val 0 r) else int (digits_val 0 s) | [] \<Rightarrow> 0)
     in if \<bar>n\<bar> < 2 ^ 63 then n else 0)"

definition upstream_ref :: string where
  "upstream_ref = CHR 0x40 # ''{upstream}''"

definition count_revs :: "string \<Rightarrow> 'w git \<Rightarrow> string \<Rightarrow> 'w \<Rightarrow> int \<times> 'w" where
  "count_revs rng git dir w =
    (case runOutput git dir [''rev-list'', ''--count'', rng] w of
       (None, w1) \<Rightarrow> (0, w1) | (Some out, w1) \<Rightarrow> (scan_int (TrimSpace out), w1))"

definition countAhead :: "'w git \<Rightarrow> string \<Rightarrow> 'w \<Rightarrow> int \<times> 'w" where
  "countAhead = count_revs (upstream_ref @ ''..HEAD'')"

definition countBehind :: "'w git \<Rightarrow> string \<Rightarrow> 'w \<Rightarrow> int \<times> 'w" where
  "countBehind = count_revs (''HEAD..'' @ upstream_ref)"

text \<open>\<open>strings.Fields\<close>.\<close>

definition str_Fields :: "string \<Rightarrow> string list" where
  "str_Fields s = filter (\<lambda>x. x \<noteq> '''') (str_Split CHR '' '' (map (\<lambda>c. if is_space c then CHR '' '' else c) s))"

definition matchesUpstream :: "'w git \<Rightarrow> string \<Rightarrow> string \<Rightarrow> string \<Rightarrow> 'w \<Rightarrow> bool \<times> 'w" where
  "matchesUpstream git dir relPath upstream w =
    (if relPath = '''' then (False, w)
     else case runOutput git dir [''hash-object'', ''--'', relPath] w of
       (None, w1) \<Rightarrow> (False, w1)
     | (Some localHash, w1) \<Rightarrow>
     case runOutput git dir [''ls-tree'', upstream, ''--'', relPath] w1 of
       (None, w2) \<Rightarrow> (False, w2)
     | (Some lsOut, w2) \<Rightarrow>
       let fields = str_Fields lsOut in
       (if length fields < 3 \<or> fields ! 1 \<noteq> ''blob'' then False else fields ! 2 = TrimSpace localHash, w2))"

text \<open>The two loops of the slow path; \<open>act\<close> clears one path and tells whether it worked.\<close>

fun clear_matching :: "'w git \<Rightarrow> string \<Rightarrow> string \<Rightarrow> (string \<Rightarrow> 'w \<Rightarrow> bool \<times> 'w) \<Rightarrow> string list \<Rightarrow> nat \<Rightarrow> 'w \<Rightarrow> nat \<times> 'w" where
  "clear_matching git dir upstream act [] n w = (n, w)"
| "clear_matching git dir upstream act (l # ls) n w =
    (case matchesUpstream git dir l upstream w of
       (False, w1) \<Rightarrow> clear_matching git dir upstream act ls n w1
     | (True, w1) \<Rightarrow> (case act l w1 of (ok, w2) \<Rightarrow> clear_matching git dir upstream act ls (if ok then Suc n else n) w2))"

text \<open>\<open>rm\<close> is os.Remove. The result is the status line.\<close>

definition opt_lines :: "string option \<Rightarrow> string list" where
  "opt_lines o1 = (case o1 of None \<Rightarrow> [] | Some s \<Rightarrow> splitLines s)"

definition checkout_path :: "'w git \<Rightarrow> string \<Rightarrow> string \<Rightarrow> string \<Rightarrow> 'w \<Rightarrow> bool \<times> 'w" where
  "checkout_path git dir upstream l w = (case gitRun git dir [''checkout'', upstream, ''--'', l] w of (e, w') \<Rightarrow> (e = None, w'))"

definition slow_path :: "'w git \<Rightarrow> (string \<Rightarrow> 'w \<Rightarrow> bool \<times> 'w) \<Rightarrow> string \<Rightarrow> string \<Rightarrow> 'w \<Rightarrow> nat \<times> 'w" where
  "slow_path git rm dir upstream w =
    (case runOutput git dir [''ls-files'', ''--others'', ''--exclude-standard''] w of (untracked, w1) \<Rightarrow>
     case clear_matching git dir upstream (\<lambda>l. rm (path_Join dir l)) (opt_lines untracked) 0 w1 of (n, w2) \<Rightarrow>
     case runOutput git dir [''diff'', ''--name-only''] w2 of (modified, w3) \<Rightarrow>
     clear_matching git dir upstream (checkout_path git dir upstream) (opt_lines modified) n w3)"

definition reconcileSyncthingDelivery :: "'w git \<Rightarrow> (string \<Rightarrow> 'w \<Rightarrow> bool \<times> 'w) \<Rightarrow> string \<Rightarrow> 'w \<Rightarrow> string \<times> 'w" where
  "reconcileSyncthingDelivery git rm dir w =
    (case runOutput git dir [''rev-parse'', ''--abbrev-ref'', upstream_ref] w of
       (None, w1) \<Rightarrow> ('''', w1)
     | (Some out, w1) \<Rightarrow>
       let upstream = TrimSpace out in
       if upstream = '''' then ('''', w1)
       else case gitRun git dir [''diff'', ''--quiet'', upstream, ''--''] w1 of (e1, w2) \<Rightarrow>
       case (if e1 = None then gitRun git dir [''diff'', ''--cached'', ''--quiet'', upstream, ''--''] w2 else (e1, w2)) of (e2, w3) \<Rightarrow>
       if e2 = None then
         (case countBehind git dir w3 of (behind, w4) \<Rightarrow>
          if behind > 0 then
            (case gitRun git dir [''reset'', ''--hard'', upstream] w4 of
               (Some _, w5) \<Rightarrow> ('''', w5)
             | (None, w5) \<Rightarrow> (''reconciled '' @ nat_digits (nat behind) @ '' upstream commit(s) (working tree already matched)'', w5))
          else ('''', w4))
       else (case slow_path git rm dir upstream w3 of (n, w4) \<Rightarrow>
          (if n > 0 then ''reconciled '' @ nat_digits n @ '' file(s) already matching upstream'' else '''', w4)))"

text \<open>The parts of SyncRepo: pull, the guarded commit, push.\<close>

definition sync_pull :: "'w git \<Rightarrow> string \<Rightarrow> 'w \<Rightarrow> git_error option \<times> 'w" where
  "sync_pull git dir w =
    (case gitRun git dir [''pull'', ''--rebase'', ''--autostash'', ''--quiet''] w of
       (None, w1) \<Rightarrow> (None, w1)
     | (Some _, w1) \<Rightarrow>
     case gitRun git dir [''rebase'', ''--abort''] w1 of (_, w2) \<Rightarrow>
     case gitRun git dir [''pull'', ''--autostash'', ''--quiet''] w2 of
       (Some e, w3) \<Rightarrow> (Some (PullFailed e), w3)
     | (None, w3) \<Rightarrow> (None, w3))"

definition sync_commit :: "'w git \<Rightarrow> string \<Rightarrow> gotime \<Rightarrow> string \<Rightarrow> 'w \<Rightarrow> git_error option \<times> 'w" where
  "sync_commit git machineName now dir w =
    (case stagedDeletions git dir w of (preDels, w1) \<Rightarrow>
     case gitRun git dir [''add'', ''-A''] w1 of
       (Some e, w2) \<Rightarrow> (Some (StageFailed e), w2)
     | (None, w2) \<Rightarrow>
     case stagedDeletions git dir w2 of (dels, w3) \<Rightarrow>
       let unintended = filter (\<lambda>f. f \<notin> set preDels) dels in
       case (if unintended = [] then (None, w3) else gitRun git dir ([''reset'', ''HEAD'', ''--''] @ unintended) w3) of (_, w4) \<Rightarrow>
       case gitRun git dir quiet_check w4 of
         (None, w5) \<Rightarrow> (None, w5)
       | (Some _, w5) \<Rightarrow>
         (case gitRun git dir [''commit'', ''-m'', ''auto: scheduled backup'', ''--quiet''] w5 of
            (Some e, w6) \<Rightarrow> (Some (CommitFailed e), w6)
          | (None, w6) \<Rightarrow> (None, add_note git dir (note_text machineName now) w6)))"

definition sync_push :: "'w git \<Rightarrow> string \<Rightarrow> 'w \<Rightarrow> git_error option \<times> 'w" where
  "sync_push git dir w =
    (case countAhead git dir w of (ahead, w1) \<Rightarrow>
     if ahead > 0 then
       (case gitRun git dir [''push'', ''--quiet''] w1 of (Some e, w2) \<Rightarrow> (Some (PushFailed e), w2) | (None, w2) \<Rightarrow> (None, w2))
     else (None, w1))"

definition SyncRepo :: "'w git \<Rightarrow> (string \<Rightarrow> 'w \<Rightarrow> bool \<times> 'w) \<Rightarrow> string \<Rightarrow> gotime \<Rightarrow> string \<Rightarrow> 'w \<Rightarrow> git_error option \<times> 'w" where
  "SyncRepo git rm machineName now dir w =
    (case gitRun git dir [''rev-parse'', ''--git-dir''] w of
       (Some _, w1) \<Rightarrow> (Some NotGitRepo, w1)
     | (None, w1) \<Rightarrow>
     case gitRun git dir [''ls-remote'', ''origin''] w1 of
       (Some _, w2) \<Rightarrow> (Some RemoteUnreachable, w2)
     | (None, w2) \<Rightarrow>
     case gitRun git dir [''fetch'', ''--quiet''] w2 of
       (Some _, w3) \<Rightarrow> (Some FetchFailed, w3)
     | (None, w3) \<Rightarrow>
     case reconcileSyncthingDelivery git rm dir w3 of (_, w4) \<Rightarrow>
     case sync_pull git dir w4 of
       (Some e, w5) \<Rightarrow> (Some e, w5)
     | (None, w5) \<Rightarrow>
     case sync_commit git machineName now dir w5 of
       (Some e, w6) \<Rightarrow> (Some e, w6)
     | (None, w6) \<Rightarrow> sync_push git dir w6)"

section \<open>What reaches the commit\<close>

lemma git_lawsD:
  assumes "git_laws git dir view quote"
  shows laws_dels: "\<And>w. stagedDeletions git dir w = (ds, w') \<Longrightarrow> view w' = view w"
    and laws_add: "\<And>w. gitRun git dir [''add'', ''-A''] w = (None, w') \<Longrightarrow> view w' = (view w)\<lparr>t_index := t_work (view w)\<rparr>"
    and laws_add_err: "\<And>w. gitRun git dir [''add'', ''-A''] w = (Some e, w') \<Longrightarrow> t_head (view w') = t_head (view w)"
    and laws_quiet: "\<And>w. gitRun git dir quiet_check w = (r, w') \<Longrightarrow> view w' = view w \<and> (r = None \<longrightarrow> t_index (view w) = t_head (view w))"
    and laws_reset: "\<And>w. gitRun git dir ([''reset'', ''HEAD'', ''--''] @ ps) w = (r, w') \<Longrightarrow>
      view w' = (if r = None then (view w)\<lparr>t_index := \<lambda>p. if p \<in> set ps then t_head (view w) p else t_index (view w) p\<rparr> else view w)"
    and laws_commit: "\<And>w. gitRun git dir ([''commit'', ''-m'', m] @ opts) w = (r, w') \<Longrightarrow>
      view w' = (if r = None then (view w)\<lparr>t_head := t_index (view w)\<rparr> else view w)"
    and laws_note: "\<And>w. view (add_note git dir n w) = view w"
proof -
  note L = assms[unfolded git_laws_def]
  show "view w' = view w" if "stagedDeletions git dir w = (ds, w')" for w
    using L[THEN conjunct1, rule_format, of w] that by (auto simp: stagedDeletions_def runOutput_def split: prod.splits if_splits)
  show "view w' = (view w)\<lparr>t_index := t_work (view w)\<rparr>" if "gitRun git dir [''add'', ''-A''] w = (None, w')" for w
    using L[THEN conjunct2, THEN conjunct1, THEN spec, of w] that by (auto simp: gitRun_def split: prod.splits if_splits)
  show "t_head (view w') = t_head (view w)" if "gitRun git dir [''add'', ''-A''] w = (Some e, w')" for w
    using L[THEN conjunct2, THEN conjunct1, THEN spec, of w] that by (auto simp: gitRun_def split: prod.splits if_splits)
  show "view w' = view w \<and> (r = None \<longrightarrow> t_index (view w) = t_head (view w))" if "gitRun git dir quiet_check w = (r, w')" for w
    using L[THEN conjunct2, THEN conjunct2, THEN conjunct1, THEN spec, of w] that by (auto simp: gitRun_def split: prod.splits if_splits)
  show "view w' = (if r = None then (view w)\<lparr>t_index := \<lambda>p. if p \<in> set ps then t_head (view w) p else t_index (view w) p\<rparr> else view w)"
    if "gitRun git dir ([''reset'', ''HEAD'', ''--''] @ ps) w = (r, w')" for w
    using L[THEN conjunct2, THEN conjunct2, THEN conjunct2, THEN conjunct1, THEN spec[where x = w], THEN spec[where x = ps]] that
    by (auto simp: gitRun_def split: prod.splits if_splits)
  show "view w' = (if r = None then (view w)\<lparr>t_head := t_index (view w)\<rparr> else view w)"
    if "gitRun git dir ([''commit'', ''-m'', m] @ opts) w = (r, w')" for w
    using L[THEN conjunct2, THEN conjunct2, THEN conjunct2, THEN conjunct2, THEN conjunct1, THEN spec[where x = w], THEN spec[where x = m], THEN spec[where x = opts]] that
    by (auto simp: gitRun_def split: prod.splits if_splits)
  show "view (add_note git dir n w) = view w" for w
    using L[THEN conjunct2, THEN conjunct2, THEN conjunct2, THEN conjunct2, THEN conjunct2, THEN spec[where x = w], THEN spec[where x = n]]
    by (auto simp: add_note_def gitRun_def split: prod.splits)
qed

text \<open>git answers: the listing and the reset succeed whenever they are asked.\<close>

definition git_answers :: "'w git \<Rightarrow> string \<Rightarrow> bool" where
  "git_answers git dir \<longleftrightarrow> (\<forall>w. fst (fst (git dir list_deletions w))) \<and>
     (\<forall>w ps. fst (fst (git dir ([''reset'', ''HEAD'', ''--''] @ ps) w)))"

lemma listed:
  assumes "git_laws git dir view quote" "git_answers git dir" "plain_file quote p"
    and "stagedDeletions git dir w = (ds, w')" "t_head (view w) p \<noteq> None" "t_index (view w) p = None"
  shows "p \<in> set ds"
proof -
  obtain out err where g: "git dir list_deletions w = ((True, out, err), w')"
    using assms(2,4) unfolding git_answers_def stagedDeletions_def runOutput_def
    by (auto split: prod.splits if_splits) (metis fst_conv)+
  then have "ds = splitLines out" using assms(4) by (auto simp: stagedDeletions_def runOutput_def)
  moreover obtain ps where "set ps = {p. t_head (view w) p \<noteq> None \<and> t_index (view w) p = None}"
      "out = concat (map (\<lambda>p. quote p @ nl) ps)"
    using assms(1)[unfolded git_laws_def, THEN conjunct1, THEN spec, of w] by (auto simp: g)
  ultimately show ?thesis using splitLines_listing[OF assms(3), of ps] assms(5,6) by simp
qed

text \<open>The step the two routines share: list the deletions again and reset those that were not listed before.\<close>

lemma guarded_index:
  assumes L: "git_laws git dir view quote" and A: "git_answers git dir"
    and idx: "t_index (view w2) = t_work (view w2)"
    and ls: "stagedDeletions git dir w2 = (dels, w3)"
    and rs: "(if filter (\<lambda>f. f \<notin> set pre) dels = [] then (None, w3)
              else gitRun git dir ([''reset'', ''HEAD'', ''--''] @ filter (\<lambda>f. f \<notin> set pre) dels) w3) = (r, w4)"
  shows "t_head (view w4) = t_head (view w2)" "t_work (view w4) = t_work (view w2)"
    and "t_index (view w4) q = t_head (view w2) q \<or> t_index (view w4) q = t_work (view w2) q"
    and "plain_file quote p \<Longrightarrow> p \<notin> set pre \<Longrightarrow> t_head (view w2) p \<noteq> None \<Longrightarrow> t_index (view w4) p \<noteq> None"
proof -
  let ?u = "filter (\<lambda>f. f \<notin> set pre) dels"
  have v3: "view w3 = view w2" using laws_dels[OF L ls] .
  have "r = None" using rs A unfolding git_answers_def gitRun_def by (auto split: if_splits prod.splits) (metis fst_conv)+
  then have v4: "view w4 = (view w2)\<lparr>t_index := \<lambda>p. if p \<in> set ?u then t_head (view w2) p else t_index (view w2) p\<rparr>"
    using rs v3 laws_reset[OF L, where w = w3 and ps = ?u and r = r and w' = w4, unfolded v3] by (cases "?u = []") auto
  then show "t_head (view w4) = t_head (view w2)" "t_work (view w4) = t_work (view w2)" by simp_all
  show "t_index (view w4) q = t_head (view w2) q \<or> t_index (view w4) q = t_work (view w2) q" using v4 idx by simp
  assume p: "plain_file quote p" "p \<notin> set pre" "t_head (view w2) p \<noteq> None"
  have "p \<in> set ?u" if "t_index (view w2) p = None" using listed[OF L A p(1) ls p(3) that] p(2) by simp
  then show "t_index (view w4) p \<noteq> None" using v4 p(3) by auto
qed

lemma commit_with_note_head:
  assumes "git_laws git dir view quote"
  shows "t_head (view (snd (commit_with_note git machine now dir msg w))) = t_index (view w) \<or>
         view (snd (commit_with_note git machine now dir msg w)) = view w"
  using laws_commit[OF assms, where w = w and m = msg and opts = "[]"] laws_note[OF assms]
  by (auto simp: commit_with_note_def split: prod.splits option.splits)

text \<open>What one routine makes of HEAD: \<open>p\<close> stays, and every file is the old one or the one of the working tree.\<close>

definition spares :: "trees \<Rightarrow> string \<Rightarrow> (string \<Rightarrow> string option) \<Rightarrow> bool" where
  "spares t p h \<longleftrightarrow> h p \<noteq> None \<and> (\<forall>q. h q \<in> {t_head t q, t_work t q})"

lemma guard_spares:
  assumes L: "git_laws git dir view quote" and A: "git_answers git dir" and p: "plain_file quote p" "p \<notin> set pr"
    and v: "view wa = t\<lparr>t_index := t_work t\<rparr>" and h: "t_head t p \<noteq> None"
    and ls: "stagedDeletions git dir wa = (dels, w3)"
    and rs: "(if filter (\<lambda>f. f \<notin> set pr) dels = [] then (None, w3)
              else gitRun git dir ([''reset'', ''HEAD'', ''--''] @ filter (\<lambda>f. f \<notin> set pr) dels) w3) = (r, w4)"
  shows "t_head (view w4) = t_head t" "spares t p (t_index (view w4))"
proof -
  have "t_index (view wa) = t_work (view wa)" using v by simp
  note g = guarded_index[OF L A this ls rs]
  show "t_head (view w4) = t_head t" using g(1) v by simp
  show "spares t p (t_index (view w4))" using g(3) g(4)[OF p] v h by (simp add: spares_def)
qed

lemma spares_same: "t_head t p \<noteq> None \<Longrightarrow> spares t p (t_head t)"
  by (simp add: spares_def)

lemma commit_with_note_spares:
  assumes "git_laws git dir view quote" "t_head (view w) = t_head t" "t_head t p \<noteq> None" "spares t p (t_index (view w))"
  shows "spares t p (t_head (view (snd (commit_with_note git machine now dir msg w))))"
  using commit_with_note_head[OF assms(1), of machine now msg w] assms(2-4) spares_same by metis

lemma applyGitCommitDirty_spares:
  assumes L: "git_laws git dir view quote" and A: "git_answers git dir" and p: "plain_file quote p"
    and pre: "p \<notin> set (fst (stagedDeletions git dir w))" and h: "t_head (view w) p \<noteq> None"
  shows "spares (view w) p (t_head (view (snd (applyGitCommitDirty git machine now dir msg w))))"
proof -
  obtain pr w1 where 1: "stagedDeletions git dir w = (pr, w1)" by (cases "stagedDeletions git dir w")
  have v1: "view w1 = view w" using laws_dels[OF L 1] .
  obtain e w2 where 2: "gitRun git dir [''add'', ''-A''] w1 = (e, w2)" by (cases "gitRun git dir [''add'', ''-A''] w1")
  show ?thesis
  proof (cases e)
    case (Some x)
    then show ?thesis using laws_add_err[OF L 2[unfolded Some]] v1 spares_same[of "view w" p] h
      by (simp add: applyGitCommitDirty_def 1 2)
  next
    case None
    obtain qk w3 where 3: "gitRun git dir quiet_check w2 = (qk, w3)" by (cases "gitRun git dir quiet_check w2")
    have v3: "view w3 = (view w)\<lparr>t_index := t_work (view w)\<rparr>" using laws_add[OF L 2[unfolded None]] v1 laws_quiet[OF L 3] by simp
    obtain dels w4 where 4: "stagedDeletions git dir w3 = (dels, w4)" by (cases "stagedDeletions git dir w3")
    let ?u = "filter (\<lambda>f. f \<notin> set pr) dels"
    obtain r w5 where 5: "(if ?u = [] then (None, w4) else gitRun git dir ([''reset'', ''HEAD'', ''--''] @ ?u) w4) = (r, w5)"
      by (cases "(if ?u = [] then (None, w4) else gitRun git dir ([''reset'', ''HEAD'', ''--''] @ ?u) w4)")
    note g = guard_spares[OF L A p _ v3 h 4 5]
    obtain q2 w6 where 6: "gitRun git dir quiet_check w5 = (q2, w6)" by (cases "gitRun git dir quiet_check w5")
    have v6: "view w6 = view w5" using laws_quiet[OF L 6] by simp
    have "applyGitCommitDirty git machine now dir msg w =
        (if qk = None then (None, w3) else if ?u = [] then commit_with_note git machine now dir msg w5
         else if q2 = None then (None, w6) else commit_with_note git machine now dir msg w6)"
      using 5 6 by (auto simp: applyGitCommitDirty_def 1 2 3 4 None Let_def split: option.splits)
    then show ?thesis
      using g pre commit_with_note_spares[OF L _ h, of w5] commit_with_note_spares[OF L _ h, of w6] spares_same[of "view w" p] h v3 v6
      by (auto simp: 1)
  qed
qed

lemma sync_commit_spares:
  assumes L: "git_laws git dir view quote" and A: "git_answers git dir" and p: "plain_file quote p"
    and pre: "p \<notin> set (fst (stagedDeletions git dir w))" and h: "t_head (view w) p \<noteq> None"
  shows "spares (view w) p (t_head (view (snd (sync_commit git name now dir w))))"
proof -
  obtain pr w1 where 1: "stagedDeletions git dir w = (pr, w1)" by (cases "stagedDeletions git dir w")
  have v1: "view w1 = view w" using laws_dels[OF L 1] .
  obtain e w2 where 2: "gitRun git dir [''add'', ''-A''] w1 = (e, w2)" by (cases "gitRun git dir [''add'', ''-A''] w1")
  show ?thesis
  proof (cases e)
    case (Some x)
    then show ?thesis using laws_add_err[OF L 2[unfolded Some]] v1 spares_same[of "view w" p] h by (simp add: sync_commit_def 1 2)
  next
    case None
    have v2: "view w2 = (view w)\<lparr>t_index := t_work (view w)\<rparr>" using laws_add[OF L 2[unfolded None]] v1 by simp
    obtain dels w3 where 3: "stagedDeletions git dir w2 = (dels, w3)" by (cases "stagedDeletions git dir w2")
    let ?u = "filter (\<lambda>f. f \<notin> set pr) dels"
    obtain r w4 where 4: "(if ?u = [] then (None, w3) else gitRun git dir ([''reset'', ''HEAD'', ''--''] @ ?u) w3) = (r, w4)"
      by (cases "(if ?u = [] then (None, w3) else gitRun git dir ([''reset'', ''HEAD'', ''--''] @ ?u) w3)")
    note g = guard_spares[OF L A p _ v2 h 3 4]
    obtain qk w5 where 5: "gitRun git dir quiet_check w4 = (qk, w5)" by (cases "gitRun git dir quiet_check w4")
    have v5: "view w5 = view w4" using laws_quiet[OF L 5] by simp
    let ?c = "[''commit'', ''-m'', ''auto: scheduled backup''] @ [''--quiet'']"
    obtain e6 w6 where 6: "gitRun git dir ?c w5 = (e6, w6)" by (cases "gitRun git dir ?c w5")
    have "t_head (view (snd (sync_commit git name now dir w))) = (if qk = None then t_head (view w5) else t_head (view w6))"
      using 4 5 6 laws_note[OF L] by (auto simp: sync_commit_def 1 2 3 None Let_def split: option.splits)
    then show ?thesis using g pre v5 laws_commit[OF L 6] spares_same[of "view w" p] h by (auto simp: 1 split: if_splits)
  qed
qed


text \<open>
  A small git for the instances: four trees as lists; \<open>fails\<close> tells which command lines do not
  succeed.
\<close>

record sim =
  s_head :: "(string \<times> string) list"
  s_index :: "(string \<times> string) list"
  s_work :: "(string \<times> string) list"

definition sim_view :: "sim \<Rightarrow> trees" where
  "sim_view w = \<lparr>t_head = map_of (s_head w), t_index = map_of (s_index w), t_work = map_of (s_work w), t_up = Map.empty\<rparr>"

definition sim_reset :: "string list \<Rightarrow> (string \<times> string) list \<Rightarrow> (string \<times> string) list \<Rightarrow> (string \<times> string) list" where
  "sim_reset ps h i = filter (\<lambda>x. fst x \<notin> set ps) i @ filter (\<lambda>x. fst x \<in> set ps) h"

definition same_tree :: "(string \<times> string) list \<Rightarrow> (string \<times> string) list \<Rightarrow> bool" where
  "same_tree a b \<longleftrightarrow> list_all (\<lambda>x. map_of a (fst x) = map_of b (fst x)) (a @ b)"

definition sim_git :: "(string list \<Rightarrow> bool) \<Rightarrow> sim git" where
  "sim_git fails dir args w =
    (if fails args then ((False, '''', ''error''), w)
     else if args = list_deletions then
       ((True, concat (map (\<lambda>p. p @ nl) (filter (\<lambda>p. map_of (s_index w) p = None) (map fst (s_head w)))), ''''), w)
     else if args = [''add'', ''-A''] then ((True, '''', ''''), w\<lparr>s_index := s_work w\<rparr>)
     else if args = quiet_check then ((same_tree (s_index w) (s_head w), '''', ''''), w)
     else if take 3 args = [''reset'', ''HEAD'', ''--''] then ((True, '''', ''''), w\<lparr>s_index := sim_reset (drop 3 args) (s_head w) (s_index w)\<rparr>)
     else if take 2 args = [''commit'', ''-m''] then ((True, '''', ''''), w\<lparr>s_head := s_index w\<rparr>)
     else ((True, '''', ''''), w))"

lemma map_of_filter_key: "map_of (filter (\<lambda>x. P (fst x)) xs) p = (if P p then map_of xs p else None)"
  by (induction xs) auto

lemma same_tree_eq: "same_tree a b \<Longrightarrow> map_of a = map_of b"
proof
  fix p assume s: "same_tree a b"
  show "map_of a p = map_of b p"
  proof (cases "p \<in> fst ` set (a @ b)")
    case True
    then show ?thesis using s by (auto simp: same_tree_def list_all_iff)
  next
    case False
    then have "map_of a p = None" "map_of b p = None" by (auto simp: map_of_eq_None_iff)
    then show ?thesis by simp
  qed
qed

lemma sim_cmds:
  "sim_git fails dir list_deletions w = (if fails list_deletions then ((False, '''', ''error''), w) else
     ((True, concat (map (\<lambda>p. p @ nl) (filter (\<lambda>p. map_of (s_index w) p = None) (map fst (s_head w)))), ''''), w))"
  "sim_git fails dir [''add'', ''-A''] w = (if fails [''add'', ''-A''] then ((False, '''', ''error''), w) else
     ((True, '''', ''''), w\<lparr>s_index := s_work w\<rparr>))"
  "sim_git fails dir quiet_check w = (if fails quiet_check then ((False, '''', ''error''), w) else
     ((same_tree (s_index w) (s_head w), '''', ''''), w))"
  "sim_git fails dir ([''reset'', ''HEAD'', ''--''] @ ps) w = (if fails ([''reset'', ''HEAD'', ''--''] @ ps) then ((False, '''', ''error''), w) else
     ((True, '''', ''''), w\<lparr>s_index := sim_reset ps (s_head w) (s_index w)\<rparr>))"
  "sim_git fails dir ([''commit'', ''-m'', m] @ opts) w = (if fails ([''commit'', ''-m'', m] @ opts) then ((False, '''', ''error''), w) else
     ((True, '''', ''''), w\<lparr>s_head := s_index w\<rparr>))"
  "snd (sim_git fails dir [''notes'', a, b, c, d, n, e] w) = w"
  by (simp_all add: sim_git_def list_deletions_def quiet_check_def)

lemma sim_reset_map: "map_of (sim_reset ps h i) = (\<lambda>p. if p \<in> set ps then map_of h p else map_of i p)"
  by (rule ext)
    (simp add: sim_reset_def map_add_def map_of_filter_key[of "\<lambda>x. x \<notin> set ps"] map_of_filter_key[of "\<lambda>x. x \<in> set ps"] split: option.splits)

lemma sim_listing: "set (filter (\<lambda>p. map_of i p = None) (map fst h)) = {p. map_of h p \<noteq> None \<and> map_of i p = None}"
  using map_of_eq_None_iff[of h] by auto

lemma sim_laws: "git_laws (sim_git fails) dir sim_view id"
proof -
  have lst: "\<exists>ps. set ps = {p. t_head (sim_view w) p \<noteq> None \<and> t_index (sim_view w) p = None} \<and>
      concat (map (\<lambda>p. p @ nl) (filter (\<lambda>p. map_of (s_index w) p = None) (map fst (s_head w)))) = concat (map (\<lambda>p. id p @ nl) ps)" for w
    by (rule exI[of _ "filter (\<lambda>p. map_of (s_index w) p = None) (map fst (s_head w))"])
      (simp only: sim_listing sim_view_def trees.select_convs id_apply simp_thms)
  show ?thesis
    unfolding git_laws_def sim_cmds
  proof (intro conjI allI, goal_cases)
    case (1 w)
    show ?case using lst[of w] by simp
  qed (simp_all add: sim_view_def sim_reset_map same_tree_eq cong: if_cong)
qed


text \<open>
  The guard is not checked. Where the listing does not name a vanished file (it fails, or git prints the name
  escaped), or where git reset fails, the applier's commit still goes ahead, reports success and the file is gone from
  it.
\<close>

theorem failed_guard_commits_deletion:
  assumes L: "git_laws git dir view quote"
    and bad: "(\<forall>w. p \<notin> set (fst (stagedDeletions git dir w))) \<or> (\<forall>w ps. \<not> fst (fst (git dir ([''reset'', ''HEAD'', ''--''] @ ps) w)))"
    and p: "t_head (view w) p \<noteq> None" "t_work (view w) p = None"
    and ok: "fst (applyGitCommitDirty git machine now dir msg w) = None"
  shows "t_head (view (snd (applyGitCommitDirty git machine now dir msg w))) p = None"
proof -
  obtain pr w1 where 1: "stagedDeletions git dir w = (pr, w1)" by (cases "stagedDeletions git dir w")
  obtain e w2 where 2: "gitRun git dir [''add'', ''-A''] w1 = (e, w2)" by (cases "gitRun git dir [''add'', ''-A''] w1")
  have e: "e = None" using ok by (cases e) (simp_all add: applyGitCommitDirty_def 1 2)
  obtain qk w3 where 3: "gitRun git dir quiet_check w2 = (qk, w3)" by (cases "gitRun git dir quiet_check w2")
  have v3: "view w3 = (view w)\<lparr>t_index := t_work (view w)\<rparr>" "view w2 = view w3"
    using laws_add[OF L 2[unfolded e]] laws_dels[OF L 1] laws_quiet[OF L 3] by simp_all
  have q1: "qk \<noteq> None" using laws_quiet[OF L 3] v3 p by auto
  obtain dels w4 where 4: "stagedDeletions git dir w3 = (dels, w4)" by (cases "stagedDeletions git dir w3")
  let ?u = "filter (\<lambda>f. f \<notin> set pr) dels"
  obtain r w5 where 5: "(if ?u = [] then (None, w4) else gitRun git dir ([''reset'', ''HEAD'', ''--''] @ ?u) w4) = (r, w5)"
    by (cases "(if ?u = [] then (None, w4) else gitRun git dir ([''reset'', ''HEAD'', ''--''] @ ?u) w4)")
  have "view w5 = view w4 \<or> p \<notin> set ?u \<and> t_index (view w5) p = t_index (view w4) p \<and> t_head (view w5) = t_head (view w4)"
  proof (cases "?u = []")
    case False
    then have g: "gitRun git dir ([''reset'', ''HEAD'', ''--''] @ ?u) w4 = (r, w5)" using 5 by simp
    have "p \<notin> set ?u \<or> r \<noteq> None"
      using bad g 4 unfolding gitRun_def by (auto split: prod.splits if_splits) (metis fst_conv)+
    then show ?thesis using laws_reset[OF L g] by (cases "r = None") auto
  qed (use 5 in simp)
  then have v5: "t_index (view w5) p = None" "t_head (view w5) p \<noteq> None" using laws_dels[OF L 4] v3 p by auto
  obtain q2 w6 where 6: "gitRun git dir quiet_check w5 = (q2, w6)" by (cases "gitRun git dir quiet_check w5")
  have q2: "q2 \<noteq> None" "view w6 = view w5" using laws_quiet[OF L 6] v5 by auto
  have eq: "applyGitCommitDirty git machine now dir msg w = commit_with_note git machine now dir msg (if ?u = [] then w5 else w6)"
    using 5 6 q1 q2 by (auto simp: applyGitCommitDirty_def 1 2 3 4 e Let_def split: option.splits)
  let ?v = "if ?u = [] then w5 else w6"
  obtain c w7 where 7: "gitRun git dir ([''commit'', ''-m'', msg] @ []) ?v = (c, w7)" by (cases "gitRun git dir ([''commit'', ''-m'', msg] @ []) ?v")
  have c: "c = None" using ok unfolding eq by (cases c) (use 7 in \<open>simp_all add: commit_with_note_def\<close>)
  have "view (snd (commit_with_note git machine now dir msg ?v)) = view w7"
    using 7 c laws_note[OF L] by (simp add: commit_with_note_def split: option.splits)
  then show ?thesis unfolding eq using laws_commit[OF L 7] c v5 q2(2) by (simp split: if_splits)
qed

theorem failed_guard_commits_deletion_witness:
  "s_head (snd (applyGitCommitDirty (sim_git (\<lambda>args. take 1 args = [''reset''])) None 0 ''/r'' ''m''
     \<lparr>s_head = [(''a'', ''1''), (''b'', ''2'')], s_index = [(''a'', ''1''), (''b'', ''2'')], s_work = [(''a'', ''3'')]\<rparr>)) = [(''a'', ''3'')] \<and>
   map_of [(''a'', ''3'')] ''b'' = (None :: string option)"
proof -
  let ?g = "sim_git (\<lambda>args. take 1 args = [''reset''])"
  let ?w = "\<lparr>s_head = [(''a'', ''1''), (''b'', ''2'')], s_index = [(''a'', ''1''), (''b'', ''2'')], s_work = [(''a'', ''3'')]\<rparr>"
  have bad: "(\<forall>w. ''b'' \<notin> set (fst (stagedDeletions ?g ''/r'' w))) \<or> (\<forall>w ps. \<not> fst (fst (?g ''/r'' ([''reset'', ''HEAD'', ''--''] @ ps) w)))"
    by (simp add: sim_git_def)
  have h: "t_head (sim_view ?w) ''b'' \<noteq> None" "t_work (sim_view ?w) ''b'' = None" by (simp_all add: sim_view_def)
  have r: "applyGitCommitDirty ?g None 0 ''/r'' ''m'' ?w =
      (None, \<lparr>s_head = [(''a'', ''3'')], s_index = [(''a'', ''3'')], s_work = [(''a'', ''3'')]\<rparr>)" by code_simp
  have "fst (applyGitCommitDirty ?g None 0 ''/r'' ''m'' ?w) = None" using r by simp
  from failed_guard_commits_deletion[where view = sim_view and quote = id, OF sim_laws bad h this]
  show ?thesis unfolding r by (simp add: sim_view_def)
qed

section \<open>Syncthing delivery\<close>

text \<open>
  What is documented of the commands of reconcileSyncthingDelivery: \<open>u\<close> is the name of the upstream branch,
  \<open>H\<close> the blob hash. Only the last three laws speak of commands that write.
\<close>

definition read_only :: "string list \<Rightarrow> bool" where
  "read_only args \<longleftrightarrow> take 1 args \<in> {[''rev-parse''], [''rev-list''], [''ls-files''], [''hash-object''], [''ls-tree''], [''diff'']}"

definition delivery_laws :: "'w git \<Rightarrow> (string \<Rightarrow> 'w \<Rightarrow> bool \<times> 'w) \<Rightarrow> string \<Rightarrow> string \<Rightarrow> (string \<Rightarrow> string) \<Rightarrow> ('w \<Rightarrow> trees) \<Rightarrow> bool" where
  "delivery_laws git rm dir u H view \<longleftrightarrow> (inj H) \<and>
    (\<forall>w args. read_only args \<longrightarrow> view (snd (git dir args w)) = view w) \<and>
    (\<forall>w out w'. runOutput git dir [''rev-parse'', ''--abbrev-ref'', upstream_ref] w = (Some out, w') \<longrightarrow> TrimSpace out = u) \<and>
    (\<forall>w w' p. gitRun git dir [''diff'', ''--quiet'', u, ''--''] w = (None, w') \<longrightarrow> t_index (view w) p \<noteq> None \<or> t_up (view w) p \<noteq> None \<longrightarrow>
       t_work (view w) p = t_up (view w) p) \<and>
    (\<forall>w w' p out. runOutput git dir [''hash-object'', ''--'', p] w = (Some out, w') \<longrightarrow> (\<exists>c. t_work (view w) p = Some c \<and> TrimSpace out = H c)) \<and>
    (\<forall>w w' p out. runOutput git dir [''ls-tree'', u, ''--'', p] w = (Some out, w') \<longrightarrow> 3 \<le> length (str_Fields out) \<longrightarrow>
       str_Fields out ! 1 = ''blob'' \<longrightarrow> (\<exists>c. t_up (view w) p = Some c \<and> str_Fields out ! 2 = H c)) \<and>
    (\<forall>w w' p ok. rm (path_Join dir p) w = (ok, w') \<longrightarrow> t_work (view w) p \<noteq> None \<longrightarrow>
       view w' = (if ok then (view w)\<lparr>t_work := (t_work (view w))(p := None)\<rparr> else view w)) \<and>
    (\<forall>w w' p e. gitRun git dir [''checkout'', u, ''--'', p] w = (e, w') \<longrightarrow> t_up (view w) p \<noteq> None \<longrightarrow>
       view w' = (if e = None then (view w)\<lparr>t_index := (t_index (view w))(p := t_up (view w) p), t_work := (t_work (view w))(p := t_up (view w) p)\<rparr> else view w)) \<and>
    (\<forall>w w' e. gitRun git dir [''reset'', ''--hard'', u] w = (e, w') \<longrightarrow>
       view w' = (if e = None then (view w)\<lparr>t_head := t_up (view w), t_index := t_up (view w),
           t_work := \<lambda>p. if t_index (view w) p \<noteq> None \<or> t_up (view w) p \<noteq> None then t_up (view w) p else t_work (view w) p\<rparr> else view w))"

lemma delivery_lawsD:
  assumes "delivery_laws git rm dir u H view"
  shows del_inj: "inj H"
    and del_read: "\<And>w args. read_only args \<Longrightarrow> view (snd (git dir args w)) = view w"
    and del_name: "\<And>w out w'. runOutput git dir [''rev-parse'', ''--abbrev-ref'', upstream_ref] w = (Some out, w') \<Longrightarrow> TrimSpace out = u"
    and del_diff: "\<And>w w' p. gitRun git dir [''diff'', ''--quiet'', u, ''--''] w = (None, w') \<Longrightarrow> t_index (view w) p \<noteq> None \<or> t_up (view w) p \<noteq> None \<Longrightarrow>
       t_work (view w) p = t_up (view w) p"
    and del_hash: "\<And>w w' p out. runOutput git dir [''hash-object'', ''--'', p] w = (Some out, w') \<Longrightarrow> \<exists>c. t_work (view w) p = Some c \<and> TrimSpace out = H c"
    and del_tree: "\<And>w w' p out. runOutput git dir [''ls-tree'', u, ''--'', p] w = (Some out, w') \<Longrightarrow> 3 \<le> length (str_Fields out) \<Longrightarrow>
       str_Fields out ! 1 = ''blob'' \<Longrightarrow> \<exists>c. t_up (view w) p = Some c \<and> str_Fields out ! 2 = H c"
    and del_rm: "\<And>w w' p ok. rm (path_Join dir p) w = (ok, w') \<Longrightarrow> t_work (view w) p \<noteq> None \<Longrightarrow>
       view w' = (if ok then (view w)\<lparr>t_work := (t_work (view w))(p := None)\<rparr> else view w)"
    and del_checkout: "\<And>w w' p e. gitRun git dir [''checkout'', u, ''--'', p] w = (e, w') \<Longrightarrow> t_up (view w) p \<noteq> None \<Longrightarrow>
       view w' = (if e = None then (view w)\<lparr>t_index := (t_index (view w))(p := t_up (view w) p), t_work := (t_work (view w))(p := t_up (view w) p)\<rparr> else view w)"
    and del_reset: "\<And>w w' e. gitRun git dir [''reset'', ''--hard'', u] w = (e, w') \<Longrightarrow>
       view w' = (if e = None then (view w)\<lparr>t_head := t_up (view w), t_index := t_up (view w),
           t_work := \<lambda>p. if t_index (view w) p \<noteq> None \<or> t_up (view w) p \<noteq> None then t_up (view w) p else t_work (view w) p\<rparr> else view w)"
  using assms unfolding delivery_laws_def by - (elim conjE, fast)+

text \<open>Every file is as it was, or it was what upstream has; upstream itself does not move.\<close>

definition only_upstream_changed :: "trees \<Rightarrow> trees \<Rightarrow> bool" where
  "only_upstream_changed t t' \<longleftrightarrow> t_up t' = t_up t \<and> (\<forall>q. t_work t' q = t_work t q \<or> t_work t q = t_up t q)"

lemma matchesUpstream_true:
  assumes L: "delivery_laws git rm dir u H view" and "matchesUpstream git dir l u w = (b, w')"
  shows "view w' = view w" "b \<Longrightarrow> t_up (view w) l \<noteq> None \<and> t_work (view w) l = t_up (view w) l"
proof -
  have ro: "view w2 = view w1" if "runOutput git dir args w1 = (r, w2)" "read_only args" for args w1 r w2
    using del_read[OF L that(2), of w1] that(1) by (auto simp: runOutput_def split: prod.splits if_splits)
  have "read_only [''hash-object'', ''--'', l]" "read_only [''ls-tree'', u, ''--'', l]" by (simp_all add: read_only_def)
  note ro = ro[OF _ this(1)] ro[OF _ this(2)]
  show "view w' = view w"
    using assms(2) ro by (auto simp: matchesUpstream_def Let_def split: if_splits prod.splits option.splits)
  assume b
  then obtain h w1 out where h: "runOutput git dir [''hash-object'', ''--'', l] w = (Some h, w1)"
      "runOutput git dir [''ls-tree'', u, ''--'', l] w1 = (Some out, w')" "3 \<le> length (str_Fields out)"
      "str_Fields out ! 1 = ''blob''" "str_Fields out ! 2 = TrimSpace h"
    using assms(2) by (auto simp: matchesUpstream_def Let_def not_less split: if_splits prod.splits option.splits)
  have v: "view w1 = view w" using ro(1)[OF h(1)] .
  obtain c where c: "t_work (view w) l = Some c" "TrimSpace h = H c" using del_hash[OF L h(1)] by blast
  obtain d where d: "t_up (view w) l = Some d" "str_Fields out ! 2 = H d" using del_tree[OF L h(2,3,4)] v by auto
  have "c = d" using c d h(5) del_inj[OF L] by (metis injD)
  then show "t_up (view w) l \<noteq> None \<and> t_work (view w) l = t_up (view w) l" using c d by simp
qed

lemma only_upstream_refl: "only_upstream_changed t t"
  by (simp add: only_upstream_changed_def)

lemma only_upstream_trans:
  "only_upstream_changed t t' \<Longrightarrow> only_upstream_changed t' t'' \<Longrightarrow> only_upstream_changed t t''"
  unfolding only_upstream_changed_def by metis

lemma clear_matching_safe:
  assumes L: "delivery_laws git rm dir u H view"
    and act: "\<And>l w ok w'. act l w = (ok, w') \<Longrightarrow> t_up (view w) l \<noteq> None \<Longrightarrow> t_work (view w) l = t_up (view w) l \<Longrightarrow>
        only_upstream_changed (view w) (view w')"
  shows "clear_matching git dir u act ls n w = (m, w') \<Longrightarrow> only_upstream_changed (view w) (view w')"
proof (induction ls arbitrary: n w)
  case (Cons l ls)
  obtain b w1 where b: "matchesUpstream git dir l u w = (b, w1)" by (cases "matchesUpstream git dir l u w")
  note M = matchesUpstream_true[OF L b]
  show ?case
  proof (cases b)
    case True
    obtain ok w2 where a: "act l w1 = (ok, w2)" by (cases "act l w1")
    have "only_upstream_changed (view w) (view w2)" using act[OF a] M True by simp
    then show ?thesis using Cons.IH[of "if ok then Suc n else n" w2] Cons.prems b a True by (auto intro: only_upstream_trans)
  next
    case False
    then show ?thesis using Cons.IH[of n w1] Cons.prems b M(1) by simp
  qed
qed (simp add: only_upstream_refl)

text \<open>What every path of the delivery is made of: commands that only read, and the two loops of the slow path.\<close>

lemma delivery_reads:
  assumes "delivery_laws git rm dir u H view" "read_only args"
    and "runOutput git dir args w1 = (r, w2) \<or> gitRun git dir args w1 = (e, w2)"
  shows "view w2 = view w1"
  using del_read[OF assms(1,2), of w1] assms(3) by (auto simp: runOutput_def gitRun_def split: prod.splits if_splits)

lemma delivery_counts:
  assumes "delivery_laws git rm dir u H view" "countBehind git dir w1 = (n, w2)"
  shows "view w2 = view w1"
  using del_read[OF assms(1), of "[''rev-list'', ''--count'', ''HEAD..'' @ upstream_ref]" w1] assms(2)
  by (auto simp: countBehind_def count_revs_def runOutput_def read_only_def split: prod.splits if_splits)

lemma slow_path_safe:
  assumes L: "delivery_laws git rm dir u H view"
  shows "only_upstream_changed (view w3) (view (snd (slow_path git rm dir u w3)))"
proof -
  obtain ou w4 where 4: "runOutput git dir [''ls-files'', ''--others'', ''--exclude-standard''] w3 = (ou, w4)" by fastforce
  obtain n w5 where 5: "clear_matching git dir u (\<lambda>l. rm (path_Join dir l)) (opt_lines ou) 0 w4 = (n, w5)" by fastforce
  obtain om w6 where 6: "runOutput git dir [''diff'', ''--name-only''] w5 = (om, w6)" by fastforce
  obtain m w7 where 7: "clear_matching git dir u (checkout_path git dir u) (opt_lines om) n w6 = (m, w7)" by fastforce
  have "only_upstream_changed (view w4) (view w5)"
    by (rule clear_matching_safe[OF L _ 5]) (drule del_rm[OF L], auto simp: only_upstream_changed_def split: if_splits)
  moreover have "only_upstream_changed (view w6) (view w7)"
    by (rule clear_matching_safe[OF L _ 7])
      (auto simp: checkout_path_def only_upstream_changed_def dest!: del_checkout[OF L] split: prod.splits if_splits)
  moreover have "view w4 = view w3" "view w6 = view w5"
    using delivery_reads[OF L _ disjI1[OF 4]] delivery_reads[OF L _ disjI1[OF 6]] by (simp_all add: read_only_def)
  ultimately show ?thesis using only_upstream_trans by (auto simp: slow_path_def 4 5 6 7)
qed

text \<open>
  C12: bringing a repository in line with what Syncthing has delivered destroys no local work: every file of the
  working tree is as it was, or its content was the one upstream has for it, whichever path is taken and
  whichever commands fail.
\<close>

theorem delivery_keeps_local_work:
  assumes L: "delivery_laws git rm dir u H view"
  shows "only_upstream_changed (view w) (view (snd (reconcileSyncthingDelivery git rm dir w)))"
proof -
  obtain o1 w1 where 1: "runOutput git dir [''rev-parse'', ''--abbrev-ref'', upstream_ref] w = (o1, w1)" by fastforce
  have v1: "view w1 = view w" using delivery_reads[OF L _ disjI1[OF 1]] by (simp add: read_only_def)
  show ?thesis
  proof (cases "o1 = None \<or> u = ''''")
    case True
    then show ?thesis using v1 del_name[OF L] 1 by (cases o1) (auto simp: reconcileSyncthingDelivery_def only_upstream_refl)
  next
    case False
    then obtain out where o: "o1 = Some out" "TrimSpace out = u" using 1 del_name[OF L] by (cases o1) auto
    obtain e1 w2 where 2: "gitRun git dir [''diff'', ''--quiet'', u, ''--''] w1 = (e1, w2)" by fastforce
    have v2: "view w2 = view w" using delivery_reads[OF L _ disjI2[OF 2]] v1 by (simp add: read_only_def)
    obtain e2 w3 where 3: "(if e1 = None then gitRun git dir [''diff'', ''--cached'', ''--quiet'', u, ''--''] w2 else (e1, w2)) = (e2, w3)" by fastforce
    have v3: "view w3 = view w" using delivery_reads[OF L, of "[''diff'', ''--cached'', ''--quiet'', u, ''--'']" w2 _ w3 e2] 3 v2 by (auto simp: read_only_def split: if_splits)
    note R = reconcileSyncthingDelivery_def[of git rm dir w, unfolded 1 o prod.case option.case Let_def o(2), unfolded 2 prod.case 3]
    show ?thesis
    proof (cases "e2 = None")
      case True
      then have e1: "e1 = None" using 3 by (auto split: if_splits)
      obtain n w4 where 4: "countBehind git dir w3 = (n, w4)" by fastforce
      have v4: "view w4 = view w" using delivery_counts[OF L 4] v3 by simp
      obtain e5 w5 where 5: "gitRun git dir [''reset'', ''--hard'', u] w4 = (e5, w5)" by fastforce
      have "only_upstream_changed (view w) (view w5)"
        using del_reset[OF L 5] v4 del_diff[OF L 2[unfolded e1]] v1 by (auto simp: only_upstream_changed_def)
      then show ?thesis using False True v4 4 5 unfolding R by (auto simp: only_upstream_refl split: option.splits)
    next
      case slow: False
      obtain n w4 where "slow_path git rm dir u w3 = (n, w4)" by fastforce
      then show ?thesis using slow_path_safe[OF L, of w3] v3 False slow unfolding R by auto
    qed
  qed
qed

text \<open>An instance: git that answers the reading commands from the trees and the hash of a file is its content.\<close>

record sim2 = sim +
  s_up :: "(string \<times> string) list"

definition sim2_view :: "sim2 \<Rightarrow> trees" where
  "sim2_view w = \<lparr>t_head = map_of (s_head w), t_index = map_of (s_index w), t_work = map_of (s_work w), t_up = map_of (s_up w)\<rparr>"

definition plain_text :: "string \<Rightarrow> bool" where
  "plain_text c \<longleftrightarrow> c \<noteq> '''' \<and> list_all (\<lambda>x. \<not> is_space x) c"

definition put_key :: "string \<Rightarrow> (string \<times> string) list \<Rightarrow> (string \<times> string) list \<Rightarrow> (string \<times> string) list" where
  "put_key p src xs = filter (\<lambda>x. fst x = p) src @ filter (\<lambda>x. fst x \<noteq> p) xs"

definition sim2_rm :: "string \<Rightarrow> string \<Rightarrow> sim2 \<Rightarrow> bool \<times> sim2" where
  "sim2_rm dir path w =
    (case filter (\<lambda>p. path_Join dir p = path) (remdups (map fst (s_work w))) of
       [p] \<Rightarrow> (True, w\<lparr>s_work := filter (\<lambda>x. fst x \<noteq> p) (s_work w)\<rparr>)
     | _ \<Rightarrow> (False, w))"

definition show_blob :: "string option \<Rightarrow> (string \<Rightarrow> string) \<Rightarrow> bool \<times> string \<times> string" where
  "show_blob b f = (case b of Some c \<Rightarrow> if plain_text c then (True, f c, '''') else (False, '''', '''') | None \<Rightarrow> (False, '''', ''''))"

definition sim2_git :: "sim2 git" where
  "sim2_git dir args w =
    (if args = [''rev-parse'', ''--abbrev-ref'', upstream_ref] then ((True, ''up'', ''''), w)
     else if args = [''rev-list'', ''--count'', ''HEAD..'' @ upstream_ref] then ((True, ''1'', ''''), w)
     else if args = [''diff'', ''--quiet'', ''up'', ''--''] then
       ((list_all (\<lambda>x. map_of (s_work w) (fst x) = map_of (s_up w) (fst x)) (s_index w @ s_up w), '''', ''''), w)
     else if args = [''diff'', ''--cached'', ''--quiet'', ''up'', ''--''] then ((same_tree (s_index w) (s_up w), '''', ''''), w)
     else if args = [''ls-files'', ''--others'', ''--exclude-standard''] then
       ((True, concat (map (\<lambda>p. p @ nl) (filter (\<lambda>p. map_of (s_index w) p = None) (map fst (s_work w)))), ''''), w)
     else if args = [''diff'', ''--name-only''] then
       ((True, concat (map (\<lambda>p. p @ nl) (filter (\<lambda>p. map_of (s_work w) p \<noteq> map_of (s_index w) p) (map fst (s_index w)))), ''''), w)
     else if take 2 args = [''hash-object'', ''--''] then (show_blob (map_of (s_work w) (hd (drop 2 args))) (\<lambda>c. c), w)
     else if take 3 args = [''ls-tree'', ''up'', ''--''] then
       (show_blob (map_of (s_up w) (hd (drop 3 args))) (\<lambda>c. ''100644 blob '' @ c @ CHR 0x09 # hd (drop 3 args)), w)
     else if take 3 args = [''checkout'', ''up'', ''--''] then
       ((True, '''', ''''), w\<lparr>s_index := put_key (hd (drop 3 args)) (s_up w) (s_index w), s_work := put_key (hd (drop 3 args)) (s_up w) (s_work w)\<rparr>)
     else if args = [''reset'', ''--hard'', ''up''] then
       ((True, '''', ''''), w\<lparr>s_head := s_up w, s_index := s_up w,
          s_work := s_up w @ filter (\<lambda>x. map_of (s_index w) (fst x) = None) (s_work w)\<rparr>)
     else ((False, '''', ''''), w))"

lemma plain_Trim: "plain_text c \<Longrightarrow> TrimSpace c = c"
proof -
  have "dropWhile is_space xs = xs" if "list_all (\<lambda>x. \<not> is_space x) xs" for xs using that by (cases xs) auto
  then show "plain_text c \<Longrightarrow> TrimSpace c = c" by (simp add: TrimSpace_def plain_text_def)
qed

lemma fields_blob: "plain_text c \<Longrightarrow> \<exists>r. str_Fields (''100644 blob '' @ c @ CHR 0x09 # p) = ''100644'' # ''blob'' # c # r"
proof -
  let ?f = "\<lambda>c. if is_space c then CHR '' '' else c"
  assume c: "plain_text c"
  then have m: "map ?f c = c" by (intro map_idI) (auto simp: plain_text_def list_all_iff)
  have n: "CHR '' '' \<notin> set c" using c by (auto simp: plain_text_def list_all_iff is_space_def)
  have "str_Split CHR '' '' (c @ CHR '' '' # map ?f p) = [c] @ str_Split CHR '' '' (map ?f p)"
    by (simp only: split_append split_none[OF n])
  moreover have "map ?f (''100644 blob '' @ c @ CHR 0x09 # p) = ''100644 blob '' @ c @ CHR '' '' # map ?f p"
    using m by (simp add: is_space_def)
  ultimately show ?thesis using c by (simp add: str_Fields_def plain_text_def)
qed

lemma map_of_put_key: "map_of (put_key p src xs) = (map_of xs)(p := map_of src p)" if "map_of src p \<noteq> None"
proof
  fix q
  show "map_of (put_key p src xs) q = ((map_of xs)(p := map_of src p)) q"
    using that by (auto simp: put_key_def map_add_def map_of_filter_key[of "\<lambda>x. x = p"] map_of_filter_key[of "\<lambda>x. x \<noteq> p"] split: option.splits)
qed

lemma sim2_laws: "delivery_laws sim2_git (sim2_rm dir) dir ''up'' id sim2_view"
  unfolding delivery_laws_def
proof (intro conjI allI impI, goal_cases)
  case (2 w args)
  then obtain a r where a: "args = a # r" "a \<noteq> ''checkout''" "a \<noteq> ''reset''" by (cases args) (auto simp: read_only_def)
  then have "take 3 args \<noteq> [''checkout'', ''up'', ''--'']" "args \<noteq> [''reset'', ''--hard'', ''up'']" by (simp_all add: numeral_3_eq_3)
  then show ?case by (simp add: sim2_git_def)
next
  case (3 w out w')
  have "TrimSpace ''up'' = ''up''" by code_simp
  then show ?case using 3 by (simp add: sim2_git_def runOutput_def)
next
  case (4 w w' p)
  then have l: "list_all (\<lambda>x. map_of (s_work w) (fst x) = map_of (s_up w) (fst x)) (s_index w @ s_up w)"
    by (simp add: sim2_git_def gitRun_def split: if_splits)
  have "p \<in> fst ` set (s_index w @ s_up w)" using 4(2) by (force simp: sim2_view_def dest: map_of_SomeD)
  then show ?case using l by (auto simp: sim2_view_def list_all_iff)
next
  case (5 w w' p out)
  then show ?case by (auto simp: sim2_git_def runOutput_def show_blob_def sim2_view_def plain_Trim split: option.splits if_splits)
next
  case (6 w w' p out)
  then obtain c where c: "map_of (s_up w) p = Some c" "plain_text c" "out = ''100644 blob '' @ c @ CHR 0x09 # p"
    by (auto simp: sim2_git_def runOutput_def show_blob_def split: option.splits if_splits)
  then show ?case using fields_blob[OF c(2), of p] by (auto simp: sim2_view_def)
next
  case (7 w w' p ok)
  let ?ks = "filter (\<lambda>q. path_Join dir q = path_Join dir p) (remdups (map fst (s_work w)))"
  have p: "p \<in> set ?ks" using 7(2) by (force simp: sim2_view_def dest: map_of_SomeD)
  show ?case
  proof (cases "\<exists>q. ?ks = [q]")
    case True
    then obtain q where "?ks = [q]" by blast
    then have "?ks = [p]" using p by (metis empty_iff empty_set set_ConsD)
    then show ?thesis using 7(1)
      by (auto simp: sim2_rm_def sim2_view_def fun_eq_iff map_of_filter_key[of "\<lambda>x. x \<noteq> p"])
  next
    case False
    then show ?thesis using 7(1) by (auto simp: sim2_rm_def split: list.splits)
  qed
next
  case (8 w w' p e)
  then show ?case by (auto simp: sim2_git_def gitRun_def sim2_view_def map_of_put_key)
next
  case (9 w w' e)
  then show ?case
    by (auto simp: sim2_git_def gitRun_def sim2_view_def fun_eq_iff map_add_def map_of_filter_key[of "\<lambda>x. map_of (s_index w) x = None"] split: option.splits)
qed simp

theorem delivery_keeps_local_work_witness:
  "map_of (s_work (snd (reconcileSyncthingDelivery sim2_git (sim2_rm ''/r'') ''/r''
      \<lparr>s_head = [(''a'', ''1'')], s_index = [(''a'', ''1'')], s_work = [(''a'', ''9''), (''n'', ''2'')], s_up = [(''a'', ''1''), (''n'', ''2'')]\<rparr>)))
     = [''a'' \<mapsto> ''9''] \<and>
   only_upstream_changed (sim2_view \<lparr>s_head = [(''a'', ''1'')], s_index = [(''a'', ''1'')], s_work = [(''a'', ''9''), (''n'', ''2'')], s_up = [(''a'', ''1''), (''n'', ''2'')]\<rparr>)
     (sim2_view (snd (reconcileSyncthingDelivery sim2_git (sim2_rm ''/r'') ''/r''
      \<lparr>s_head = [(''a'', ''1'')], s_index = [(''a'', ''1'')], s_work = [(''a'', ''9''), (''n'', ''2'')], s_up = [(''a'', ''1''), (''n'', ''2'')]\<rparr>)))"
proof
  let ?w = "\<lparr>s_head = [(''a'', ''1'')], s_index = [(''a'', ''1'')], s_work = [(''a'', ''9''), (''n'', ''2'')], s_up = [(''a'', ''1''), (''n'', ''2'')]\<rparr>"
  have "s_work (snd (reconcileSyncthingDelivery sim2_git (sim2_rm ''/r'') ''/r'' ?w)) = [(''a'', ''9'')]" by code_simp
  then show "map_of (s_work (snd (reconcileSyncthingDelivery sim2_git (sim2_rm ''/r'') ''/r'' ?w))) = [''a'' \<mapsto> ''9'']" by simp
  show "only_upstream_changed (sim2_view ?w) (sim2_view (snd (reconcileSyncthingDelivery sim2_git (sim2_rm ''/r'') ''/r'' ?w)))"
    by (rule delivery_keeps_local_work[OF sim2_laws])
qed

end
