(* ===== verification/Applier.thy ===== *)
theory Applier
  imports Client Git_Backup
begin

text \<open>
  internal/reconcile/applier.go: RealApplier.Apply, one handler per action, on a world of the file system, the Syncthing
  client and server, git, state.toml and the records of the watch-health tracker. The git program, the server, the
  TOML decoder and the clock come from the environment.
\<close>

section \<open>Environment and world\<close>

record ('s, 'g) aworld =
  aw_fs :: fsys
  aw_client :: client
  aw_srv :: 's
  aw_git :: 'g
  aw_state :: "string option"
  aw_resets :: "string list"
  aw_rescans :: "(string \<times> gotime) list"
  aw_propagated :: "string list"

text \<open>\<open>ae_http\<close> is None where the applier has no client; three flags tell which optional
  parts are wired, \<open>ae_state_ok\<close> whether state.toml can be locked and written.\<close>

record ('s, 'g) aenv =
  ae_http :: "'s http option"
  ae_git :: "'g git"
  ae_decode :: "string \<Rightarrow> unit + StateV2"
  ae_now :: gotime
  ae_home :: "string option"
  ae_cwd :: string
  ae_machine :: "string option"
  ae_health :: bool
  ae_recorder :: bool
  ae_propagator :: bool
  ae_state_ok :: bool

datatype apply_error = ClientUnavailable | EmptyPath | StatFailed | NotDirectory | MarkerNotDirectory | MkdirFailed
  | WriteFailed | ReadFailed | ClientFailed | GitFailed git_error | StateFailed

section \<open>Folder marker\<close>

definition applyEnsureFolderMarker :: "string \<Rightarrow> fsys \<Rightarrow> apply_error option \<times> fsys" where
  "applyEnsureFolderMarker repo f =
    (if repo = '''' then (Some EmptyPath, f)
     else case os_Stat f repo of
       Inl _ \<Rightarrow> (Some StatFailed, f)
     | Inr (FileN _) \<Rightarrow> (Some NotDirectory, f)
     | Inr DirN \<Rightarrow>
       let markerPath = path_Join repo FolderMarkerName in
       (case os_Stat f markerPath of
          Inr DirN \<Rightarrow> (None, f)
        | Inr (FileN _) \<Rightarrow> (Some MarkerNotDirectory, f)
        | Inl IOFail \<Rightarrow> (Some StatFailed, f)
        | Inl NotExist \<Rightarrow> (case os_Mkdir f markerPath of (e, f') \<Rightarrow> (if e = None then None else Some MkdirFailed, f'))))"

section \<open>Ignore file and git exclude\<close>

definition excludeHasPattern :: "string \<Rightarrow> string \<Rightarrow> bool" where
  "excludeHasPattern content pat \<longleftrightarrow> list_ex (\<lambda>line. TrimSpace line = pat) (str_Split newline content)"

definition exclude_header :: string where "exclude_header = ''# dotkeeper local files''"

text \<open>The new content of the exclude file, None where nothing is missing.\<close>

definition exclude_content :: "string \<Rightarrow> string list \<Rightarrow> string option" where
  "exclude_content content patterns =
    (let missing = filter (\<lambda>p. \<not> excludeHasPattern content p) patterns
     in if missing = [] then None
        else Some (content @ (if content \<noteq> '''' \<and> \<not> HasSuffix content nl then nl else '''') @
          (if str_Contains content exclude_header then '''' else exclude_header @ nl) @ concat (map (\<lambda>p. p @ nl) missing)))"

definition gitInfoExcludePath :: "'g git \<Rightarrow> string \<Rightarrow> 'g \<Rightarrow> string option \<times> 'g" where
  "gitInfoExcludePath git repo g =
    (case runOutput git repo [''rev-parse'', ''--git-path'', ''info/exclude''] g of
       (None, g') \<Rightarrow> (None, g')
     | (Some out, g') \<Rightarrow>
       let path = TrimSpace out in
       (if path = '''' then None else if IsAbs path then Some path else Some (path_Join repo path), g'))"

definition ensureGitInfoExclude :: "'g git \<Rightarrow> string \<Rightarrow> string list \<Rightarrow> fsys \<Rightarrow> 'g \<Rightarrow> apply_error option \<times> fsys \<times> 'g" where
  "ensureGitInfoExclude git repo patterns f g =
    (case gitInfoExcludePath git repo g of
       (None, g') \<Rightarrow> (None, f, g')
     | (Some path, g') \<Rightarrow>
       (case os_ReadFile f path of
          Inl IOFail \<Rightarrow> (Some ReadFailed, f, g')
        | r \<Rightarrow>
          (case exclude_content (case r of Inr s \<Rightarrow> s | Inl _ \<Rightarrow> '''') patterns of
             None \<Rightarrow> (None, f, g')
           | Some text \<Rightarrow>
             (case os_MkdirAll f (path_Dir path) of
                (Some _, f1) \<Rightarrow> (Some MkdirFailed, f1, g')
              | (None, f1) \<Rightarrow> (case write_atomic f1 path text of (e, f2) \<Rightarrow> (if e = None then None else Some WriteFailed, f2, g'))))))"

definition applyEnsureIgnoreFile :: "'g git \<Rightarrow> string \<Rightarrow> string list \<Rightarrow> fsys \<Rightarrow> 'g \<Rightarrow> apply_error option \<times> fsys \<times> 'g" where
  "applyEnsureIgnoreFile git repo patterns f g =
    (if repo = '''' then (Some EmptyPath, f, g)
     else case os_Stat f repo of
       Inl _ \<Rightarrow> (Some StatFailed, f, g)
     | Inr (FileN _) \<Rightarrow> (Some NotDirectory, f, g)
     | Inr DirN \<Rightarrow>
       let want = SyncIgnoreFileContent patterns; path = path_Join repo ''.stignore'' in
       if os_ReadFile f path = Inr want then ensureGitInfoExclude git repo DefaultGitExcludePatterns f g
       else (case write_atomic f path want of
          (Some _, f1) \<Rightarrow> (Some WriteFailed, f1, g)
        | (None, f1) \<Rightarrow> ensureGitInfoExclude git repo DefaultGitExcludePatterns f1 g))"

section \<open>Subscriptions\<close>

definition expandSubscriptionPath :: "string option \<Rightarrow> string \<Rightarrow> string \<Rightarrow> string" where
  "expandSubscriptionPath home cwd p =
    (let q = (if HasPrefix p ''~/'' \<or> p = ''~'' then (case home of Some h \<Rightarrow> path_Join h (TrimPrefix p ''~'') | None \<Rightarrow> p) else p)
     in if IsAbs q then q else path_Abs cwd q)"

definition subscription_config :: "string \<Rightarrow> gotime \<Rightarrow> string \<Rightarrow> string \<Rightarrow> string \<Rightarrow> string \<Rightarrow> RepoConfigV2" where
  "subscription_config path now folderID label dev peer =
    \<lparr>rp_SchemaVersion = 2,
     rp_Meta = \<lparr>rm_Name = path_Base path, rm_Added = fmt_rfc3339 now, rm_AddedBy = ''subscription:'' @ peer\<rparr>,
     rp_Sync = \<lparr>rs_SyncthingFolderID = folderID, rs_Ignore = [], rs_ShareWith = [dev]\<rparr>,
     rp_Commit = \<lparr>rc_Policy = '''', rc_IdleSeconds = 0\<rparr>,
     rp_GitBackup = \<lparr>rb_Interval = '''', rb_SkipSlots = []\<rparr>,
     rp_Git = (if str_Contains label ''/'' \<and> \<not> HasPrefix label ''dk:'' then \<lparr>rg_Remote = '''', rg_Canonical = label\<rparr>
               else \<lparr>rg_Remote = '''', rg_Canonical = ''''\<rparr>)\<rparr>"

definition writeSubscriptionMarker :: "string \<Rightarrow> gotime \<Rightarrow> string \<Rightarrow> string \<Rightarrow> string \<Rightarrow> string \<Rightarrow> fsys \<Rightarrow> apply_error option \<times> fsys" where
  "writeSubscriptionMarker path now folderID label dev peer f =
    (case os_Stat f (path_Join path RepoConfigFileName) of
       Inr _ \<Rightarrow> (None, f)
     | Inl _ \<Rightarrow>
       (case write_atomic f (path_Join path RepoConfigFileName) (repo_text (subscription_config path now folderID label dev peer)) of
          (e, f') \<Rightarrow> (if e = None then None else Some WriteFailed, f')))"

definition applyAcceptSubscription :: "('s, 'g) aenv \<Rightarrow> string \<Rightarrow> string \<Rightarrow> string \<Rightarrow> string \<Rightarrow> string \<Rightarrow> ('s, 'g) aworld \<Rightarrow> apply_error option \<times> ('s, 'g) aworld" where
  "applyAcceptSubscription E folderID label p dev peer w =
    (case ae_http E of
       None \<Rightarrow> (Some ClientUnavailable, w)
     | Some http \<Rightarrow>
       if p = '''' then (Some EmptyPath, w)
       else let path = expandSubscriptionPath (ae_home E) (ae_cwd E) p in
       (case os_MkdirAll (aw_fs w) path of
          (Some _, f1) \<Rightarrow> (Some MkdirFailed, w\<lparr>aw_fs := f1\<rparr>)
        | (None, f1) \<Rightarrow>
       (case writeSubscriptionMarker path (ae_now E) folderID label dev peer f1 of
          (Some e, f2) \<Rightarrow> (Some e, w\<lparr>aw_fs := f2\<rparr>)
        | (None, f2) \<Rightarrow>
       (case applyEnsureFolderMarker path f2 of
          (Some e, f3) \<Rightarrow> (Some e, w\<lparr>aw_fs := f3\<rparr>)
        | (None, f3) \<Rightarrow>
       (case edit_config_id http (\<lambda>myID. AddOrUpdateFolder myID folderID label path [dev]) (aw_client w) (aw_srv w) of
          (ok, c, s) \<Rightarrow> (if ok then None else Some ClientFailed, w\<lparr>aw_fs := f3, aw_client := c, aw_srv := s\<rparr>))))))"

section \<open>Apply\<close>

text \<open>Handlers that only edit the configuration.\<close>

definition via_client :: "('s, 'g) aenv \<Rightarrow> ('s http \<Rightarrow> client \<Rightarrow> 's \<Rightarrow> bool \<times> client \<times> 's) \<Rightarrow> ('s, 'g) aworld \<Rightarrow> apply_error option \<times> ('s, 'g) aworld" where
  "via_client E call w =
    (case ae_http E of
       None \<Rightarrow> (Some ClientUnavailable, w)
     | Some http \<Rightarrow> (case call http (aw_client w) (aw_srv w) of
         (ok, c, s) \<Rightarrow> (if ok then None else Some ClientFailed, w\<lparr>aw_client := c, aw_srv := s\<rparr>)))"

definition applyAddSyncthingFolder :: "('s, 'g) aenv \<Rightarrow> string \<Rightarrow> string \<Rightarrow> string list \<Rightarrow> string \<Rightarrow> ('s, 'g) aworld \<Rightarrow> apply_error option \<times> ('s, 'g) aworld" where
  "applyAddSyncthingFolder E folderID path devices label w =
    (if ae_http E = None then (Some ClientUnavailable, w)
     else case applyEnsureFolderMarker path (aw_fs w) of
       (Some e, f) \<Rightarrow> (Some e, w\<lparr>aw_fs := f\<rparr>)
     | (None, f) \<Rightarrow>
       via_client E (\<lambda>http. edit_config_id http (\<lambda>myID. AddOrUpdateFolder myID folderID (if label = '''' then folderID else label) path devices))
         (w\<lparr>aw_fs := f\<rparr>))"

definition applyRescanFolderNow :: "('s, 'g) aenv \<Rightarrow> string \<Rightarrow> string \<Rightarrow> ('s, 'g) aworld \<Rightarrow> apply_error option \<times> ('s, 'g) aworld" where
  "applyRescanFolderNow E folderID path w =
    (case via_client E (\<lambda>http c s. case ScheduleRescan http folderID s of (ok, s') \<Rightarrow> (ok, c, s')) w of
       (Some e, w1) \<Rightarrow> (Some e, w1)
     | (None, w1) \<Rightarrow>
       let w2 = (if ae_health E \<and> path \<noteq> '''' then w1\<lparr>aw_resets := aw_resets w1 @ [path]\<rparr> else w1)
       in (None, if ae_recorder E \<and> path \<noteq> '''' then w2\<lparr>aw_rescans := aw_rescans w2 @ [(path, ae_now E)]\<rparr> else w2))"

definition mutate_state :: "('s, 'g) aenv \<Rightarrow> (StateV2 \<Rightarrow> StateV2 option) \<Rightarrow> ('s, 'g) aworld \<Rightarrow> bool \<times> ('s, 'g) aworld" where
  "mutate_state E mutate w =
    (if \<not> ae_state_ok E then (False, w)
     else case mutate_text (ae_decode E) mutate (aw_state w) of
       None \<Rightarrow> (False, w) | Some t \<Rightarrow> (True, w\<lparr>aw_state := Some t\<rparr>))"

text \<open>GitPushRepo on the whole world: git and state.toml together.\<close>

definition world_git :: "'g git \<Rightarrow> ('s, 'g) aworld git" where
  "world_git git dir args w = (case git dir args (aw_git w) of (r, g) \<Rightarrow> (r, w\<lparr>aw_git := g\<rparr>))"

definition commit_and_propagate :: "('s, 'g) aenv \<Rightarrow> string \<Rightarrow> string \<Rightarrow> ('s, 'g) aworld \<Rightarrow> apply_error option \<times> ('s, 'g) aworld" where
  "commit_and_propagate E repo msg w =
    (case gitHeadHash (ae_git E) repo (aw_git w) of (preHead, g1) \<Rightarrow>
     case applyGitCommitDirty (ae_git E) (ae_machine E) (ae_now E) repo msg g1 of
       (Some e, g2) \<Rightarrow> (Some (GitFailed e), w\<lparr>aw_git := g2\<rparr>)
     | (None, g2) \<Rightarrow>
     case gitHeadHash (ae_git E) repo g2 of (postHead, g3) \<Rightarrow>
       (None, if ae_propagator E \<and> preHead \<noteq> postHead then w\<lparr>aw_git := g3, aw_propagated := aw_propagated w @ [repo]\<rparr>
              else w\<lparr>aw_git := g3\<rparr>))"

definition lift_fs :: "apply_error option \<times> fsys \<Rightarrow> ('s, 'g) aworld \<Rightarrow> apply_error option \<times> ('s, 'g) aworld" where
  "lift_fs r w = (case r of (e, f) \<Rightarrow> (e, w\<lparr>aw_fs := f\<rparr>))"

fun Apply :: "('s, 'g) aenv \<Rightarrow> Action \<Rightarrow> ('s, 'g) aworld \<Rightarrow> apply_error option \<times> ('s, 'g) aworld" where
  "Apply E (AddSyncthingFolder f p ds l) w = applyAddSyncthingFolder E f p ds l w"
| "Apply E (RemoveSyncthingFolder f) w = via_client E (\<lambda>http. edit_config http (RemoveFolder f)) w"
| "Apply E (UpdateSyncthingFolderDevices f ds) w = via_client E (\<lambda>http. edit_config_id http (\<lambda>myID. UpdateFolderDevices myID f ds)) w"
| "Apply E (UpdateSyncthingFolderSchedule f) w = via_client E (\<lambda>http. edit_config http (UpdateFolderSchedule f)) w"
| "Apply E (PauseSyncthingFolder f) w = via_client E (\<lambda>http. edit_config http (SetFolderPaused f True)) w"
| "Apply E (UnpauseSyncthingFolder f) w = via_client E (\<lambda>http. edit_config http (SetFolderPaused f False)) w"
| "Apply E (RescanFolderNow f p r) w = applyRescanFolderNow E f p w"
| "Apply E (AddSyncthingDevice n dev) w = via_client E (\<lambda>http. edit_config http (AddDevice dev n)) w"
| "Apply E (EnsureIgnoreFile r ps) w =
     (case applyEnsureIgnoreFile (ae_git E) r ps (aw_fs w) (aw_git w) of (e, f, g) \<Rightarrow> (e, w\<lparr>aw_fs := f, aw_git := g\<rparr>))"
| "Apply E (EnsureFolderMarker r) w = lift_fs (applyEnsureFolderMarker r (aw_fs w)) w"
| "Apply E (AcceptSubscription f l p dev n c) w = applyAcceptSubscription E f l p dev n w"
| "Apply E (GitCommitDirty r m) w = commit_and_propagate E r m w"
| "Apply E (GitPushRepo r) w =
     (case applyGitPushRepo (world_git (ae_git E)) (\<lambda>dir head. mutate_state E (pushed_mutation dir head (ae_now E))) r w of
        (e, w') \<Rightarrow> (map_option GitFailed e, w'))"
| "Apply E (TrackRepo p) w = (case mutate_state E (track_mutation p) w of (ok, w') \<Rightarrow> (if ok then None else Some StateFailed, w'))"
| "Apply E (UntrackRepo p) w = (case mutate_state E (untrack_mutation p) w of (ok, w') \<Rightarrow> (if ok then None else Some StateFailed, w'))"

section \<open>The git exclude file\<close>

lemma excludeHasPattern_append: "excludeHasPattern c p \<Longrightarrow> c = '''' \<or> HasSuffix c nl \<or> hd t = newline \<or> t = '''' \<Longrightarrow> p \<noteq> '''' \<Longrightarrow> excludeHasPattern (c @ t) p"
proof -
  assume h: "excludeHasPattern c p" and e: "c = '''' \<or> HasSuffix c nl \<or> hd t = newline \<or> t = ''''" and ne: "p \<noteq> ''''"
  have nil: "\<not> excludeHasPattern '''' p" using ne by (simp add: excludeHasPattern_def TrimSpace_def)
  consider "t = ''''" | c' where "c = c' @ [newline]" | t' where "t = newline # t'"
    using e h nil by (cases t) (auto simp: HasSuffix_iff nl_newline)
  then show ?thesis
  proof cases
    case (2 c')
    have "excludeHasPattern c' p" using h ne by (simp add: 2 excludeHasPattern_def split_append TrimSpace_def)
    then show ?thesis using 2 split_append[of newline c' t] by (simp add: excludeHasPattern_def)
  next
    case (3 t')
    then show ?thesis using h split_append[of newline c t'] by (simp add: excludeHasPattern_def)
  qed (use h in simp)
qed

text \<open>Lines added behind a line end are all found.\<close>

lemma excludeHasPattern_lines:
  assumes "p \<in> set ps" "TrimSpace p = p" "newline \<notin> set p" "c = '''' \<or> HasSuffix c nl"
  shows "excludeHasPattern (c @ concat (map (\<lambda>p. p @ nl) ps)) p"
proof -
  obtain xs ys where ps: "ps = xs @ p # ys" using assms(1) by (metis split_list)
  let ?L = "\<lambda>ps. concat (map (\<lambda>p. p @ nl) ps)"
  have e: "c @ ?L ps = (c @ ?L xs) @ p @ newline # ?L ys" by (simp add: ps nl_newline)
  have "c @ ?L xs = '''' \<or> (\<exists>d. c @ ?L xs = d @ [newline])"
    using assms(4) by (cases xs rule: rev_cases) (auto simp: nl_newline HasSuffix_iff)
  moreover have "p \<in> set (str_Split newline (p @ newline # ?L ys))" by (simp add: split_append split_none[OF assms(3)])
  moreover have "p \<in> set (str_Split newline ((d @ [newline]) @ p @ newline # ?L ys))" for d
    using split_append[of newline d "p @ newline # ?L ys"] by (simp add: split_append split_none[OF assms(3)])
  ultimately have "p \<in> set (str_Split newline ((c @ ?L xs) @ p @ newline # ?L ys))" by (metis append_Nil)
  then show ?thesis unfolding e excludeHasPattern_def list_ex_iff using assms(2) by blast
qed

definition excluded :: "string \<Rightarrow> string list \<Rightarrow> string" where
  "excluded c ps = (case exclude_content c ps of None \<Rightarrow> c | Some t \<Rightarrow> t)"

text \<open>
  The exclude file of git ends up with every pattern of the default list on a line of its own, keeps all it
  had, in place, and a second pass finds nothing to add.
\<close>

theorem exclude_file_contract:
  "HasPrefix (excluded c DefaultGitExcludePatterns) c \<and>
   list_all (excludeHasPattern (excluded c DefaultGitExcludePatterns)) DefaultGitExcludePatterns \<and>
   exclude_content (excluded c DefaultGitExcludePatterns) DefaultGitExcludePatterns = None"
proof -
  let ?ps = DefaultGitExcludePatterns
  let ?m = "filter (\<lambda>p. \<not> excludeHasPattern c p) ?ps"
  have pat: "TrimSpace p = p \<and> newline \<notin> set p \<and> p \<noteq> ''''" if "p \<in> set ?ps" for p
  proof -
    have p: "p \<in> set DefaultSyncIgnorePatterns" using that git_excludes_subset by blast
    then have "TrimSpace p = p" using defaults_trimmed by (metis map_idI map_eq_conv list.map_ident)
    then show ?thesis using p defaults_one_line defaults_nonblank by auto
  qed
  have all: "list_all (excludeHasPattern (excluded c ?ps)) ?ps"
  proof (cases "?m = []")
    case True
    then show ?thesis by (auto simp: excluded_def exclude_content_def filter_empty_conv list_all_iff)
  next
    case False
    define a where "a = (if c \<noteq> '''' \<and> \<not> HasSuffix c nl then nl else '''')"
    define b where "b = (if str_Contains c exclude_header then '''' else exclude_header @ nl)"
    have e: "excluded c ?ps = c @ a @ b @ concat (map (\<lambda>p. p @ nl) ?m)"
      using False by (simp add: excluded_def exclude_content_def Let_def a_def b_def)
    have nlend: "c @ a @ b = '''' \<or> HasSuffix (c @ a @ b) nl"
      by (auto simp: a_def b_def HasSuffix_iff)
    show ?thesis unfolding list_all_iff
    proof
      fix p assume p: "p \<in> set ?ps"
      show "excludeHasPattern (excluded c ?ps) p"
      proof (cases "excludeHasPattern c p")
        case True
        have "c = '''' \<or> HasSuffix c nl \<or> hd (a @ b @ concat (map (\<lambda>p. p @ nl) ?m)) = newline"
          by (simp add: a_def nl_newline)
        then show ?thesis unfolding e using excludeHasPattern_append[OF True] pat[OF p] by blast
      next
        case False
        then have "p \<in> set ?m" using p by simp
        then show ?thesis unfolding e using excludeHasPattern_lines[of p ?m "c @ a @ b"] pat[OF p] nlend by simp
      qed
    qed
  qed
  have "exclude_content (excluded c ?ps) ?ps = None" using all by (auto simp: exclude_content_def list_all_iff Let_def filter_empty_conv)
  moreover have "HasPrefix (excluded c ?ps) c" by (auto simp: excluded_def exclude_content_def Let_def HasPrefix_iff)
  ultimately show ?thesis using all by blast
qed

section \<open>Apply and the configuration\<close>

text \<open>The action with the path the handler uses, and the configuration after an action that returned \<open>e\<close>.\<close>

fun with_paths :: "('s, 'g) aenv \<Rightarrow> Action \<Rightarrow> Action" where
  "with_paths E (AcceptSubscription f l p dev n c) =
     AcceptSubscription f l (expandSubscriptionPath (ae_home E) (ae_cwd E) p) dev n c"
| "with_paths E a = a"

lemma via_client_coherent:
  assumes S: "config_server http cfg" "acks http cfg" "status_server http myID" and c: "client_ok (aw_client w) (cfg (aw_srv w)) myID" "ae_http E = Some http"
    and call: "call http = edit_config http (g myID) \<or> call http = edit_config_id http g" "via_client E call w = (e, w')"
  shows "edit_effect (g myID (cfg (aw_srv w))) (e = None) (cfg (aw_srv w)) (cfg (aw_srv w')) \<and> client_ok (aw_client w') (cfg (aw_srv w')) myID"
proof -
  obtain ok c' s where r: "call http (aw_client w) (aw_srv w) = (ok, c', s)" by (metis prod_cases3)
  have w': "w' = w\<lparr>aw_client := c', aw_srv := s\<rparr>" "e = None \<longleftrightarrow> ok" using c(2) call(2) r by (auto simp: via_client_def split: if_splits)
  show ?thesis unfolding w'
    using call(1) r edit_config_coherent[OF S(1,2) c(1), of "g myID" ok c' s] edit_config_id_coherent[OF S c(1), of g ok c' s]
    by auto
qed

text \<open>Actions that have nothing to do with the configuration leave it, and the client, alone.\<close>

lemma mutate_state_frame: "mutate_state E m w = (ok, w') \<Longrightarrow> aw_srv w' = aw_srv w \<and> aw_client w' = aw_client w"
  by (auto simp: mutate_state_def split: if_splits option.splits)

lemma world_git_frame: "world_git git dir args w = (r, w') \<Longrightarrow> aw_srv w' = aw_srv w \<and> aw_client w' = aw_client w"
  by (auto simp: world_git_def split: prod.splits)

lemma gitRun_frame: "gitRun (world_git git) dir args w = (r, w') \<Longrightarrow> aw_srv w' = aw_srv w \<and> aw_client w' = aw_client w"
  by (auto simp: gitRun_def split: prod.splits dest!: world_git_frame)

lemma push_frame:
  assumes "applyGitPushRepo (world_git git) (\<lambda>dir head. mutate_state E (m dir head)) r w = (e, w')"
  shows "aw_srv w' = aw_srv w \<and> aw_client w' = aw_client w"
proof -
  have h: "gitHeadHash (world_git git) dir w = (x, w') \<Longrightarrow> aw_srv w' = aw_srv w \<and> aw_client w' = aw_client w" for dir x w w'
    by (auto simp: gitHeadHash_def runOutput_def split: prod.splits dest!: world_git_frame)
  obtain e1 w1 where 1: "gitRun (world_git git) r [''pull'', ''--rebase'', ''--autostash'', ''--quiet''] w = (e1, w1)" by fastforce
  obtain e2 w2 where 2: "gitRun (world_git git) r [''push''] w1 = (e2, w2)" by fastforce
  obtain e3 w3 where 3: "gitRun (world_git git) r [''rebase'', ''--abort''] w1 = (e3, w3)" by fastforce
  obtain hd w4 where 4: "gitHeadHash (world_git git) r w2 = (hd, w4)" by fastforce
  obtain ok w5 where 5: "mutate_state E (m r hd) w4 = (ok, w5)" by fastforce
  note F = gitRun_frame[OF 1] gitRun_frame[OF 2] gitRun_frame[OF 3] h[OF 4] mutate_state_frame[OF 5]
  have "w' \<in> {w2, w3, w4, w5}" using assms
    by (auto simp: applyGitPushRepo_def markRepoPushed_def 1 2 3 4 5 split: option.splits if_splits prod.splits)
  then show ?thesis using F by auto
qed

lemma edit_effect_refl: "edit_effect Unchanged ok m m"
  by (simp add: edit_effect_def)

lemma edit_effect_failed: "edit_effect x False m m"
  by (simp add: edit_effect_def)

lemma Apply_configuration:
  assumes S: "config_server http cfg" "acks http cfg" "status_server http myID" "\<And>ep s. cfg (snd (http ''POST'' ep None s)) = cfg s"
    and c: "client_ok (aw_client w) (cfg (aw_srv w)) myID" "ae_http E = Some http" and a: "Apply E a w = (e, w')"
  shows "edit_effect (action_edit myID (with_paths E a) (cfg (aw_srv w))) (e = None) (cfg (aw_srv w)) (cfg (aw_srv w'))
    \<and> client_ok (aw_client w') (cfg (aw_srv w')) myID"
proof -
  note V = via_client_coherent[OF S(1,2,3) c]
  have keep: ?thesis if "aw_srv w' = aw_srv w" "aw_client w' = aw_client w" "action_edit myID (with_paths E a) (cfg (aw_srv w)) = Unchanged \<or> e \<noteq> None"
    using that c by (metis edit_effect_failed edit_effect_refl)
  show ?thesis
  proof (cases a)
    case (AddSyncthingDevice n dev)
    then show ?thesis using V[of "\<lambda>http. edit_config http (AddDevice dev n)" "\<lambda>i. AddDevice dev n" e w'] a by auto
  next
    case (RemoveSyncthingFolder f)
    then show ?thesis using V[of "\<lambda>http. edit_config http (RemoveFolder f)" "\<lambda>i. RemoveFolder f" e w'] a by auto
  next
    case (UpdateSyncthingFolderDevices f ds)
    then show ?thesis using V[of "\<lambda>http. edit_config_id http (\<lambda>i. UpdateFolderDevices i f ds)" "\<lambda>i. UpdateFolderDevices i f ds" e w'] a by auto
  next
    case (UpdateSyncthingFolderSchedule f)
    then show ?thesis using V[of "\<lambda>http. edit_config http (UpdateFolderSchedule f)" "\<lambda>i. UpdateFolderSchedule f" e w'] a by auto
  next
    case (PauseSyncthingFolder f)
    then show ?thesis using V[of "\<lambda>http. edit_config http (SetFolderPaused f True)" "\<lambda>i. SetFolderPaused f True" e w'] a by auto
  next
    case (UnpauseSyncthingFolder f)
    then show ?thesis using V[of "\<lambda>http. edit_config http (SetFolderPaused f False)" "\<lambda>i. SetFolderPaused f False" e w'] a by auto
  next
    case (RescanFolderNow f p r)
    have "cfg (aw_srv w') = cfg (aw_srv w) \<and> aw_client w' = aw_client w"
      using a S(4) unfolding RescanFolderNow
      by (auto simp: applyRescanFolderNow_def via_client_def c(2) ScheduleRescan_def Let_def split: prod.splits option.splits if_splits)
        (metis snd_conv)+
    then show ?thesis using c(1) RescanFolderNow by (simp add: edit_effect_def)
  next
    case (EnsureIgnoreFile r ps)
    then show ?thesis using a by (intro keep) (auto split: prod.splits)
  next
    case (EnsureFolderMarker r)
    then show ?thesis using a by (intro keep) (auto simp: lift_fs_def split: prod.splits)
  next
    case (GitCommitDirty r m)
    then show ?thesis using a by (intro keep) (auto simp: commit_and_propagate_def split: prod.splits option.splits if_splits)
  next
    case (GitPushRepo r)
    then obtain ge where "applyGitPushRepo (world_git (ae_git E)) (\<lambda>dir head. mutate_state E (pushed_mutation dir head (ae_now E))) r w = (ge, w')"
      using a by (auto split: prod.splits)
    from push_frame[OF this] show ?thesis using GitPushRepo by (intro keep) auto
  next
    case (TrackRepo p)
    then obtain ok where "mutate_state E (track_mutation p) w = (ok, w')" using a by (auto split: prod.splits)
    from mutate_state_frame[OF this] show ?thesis using TrackRepo by (intro keep) auto
  next
    case (UntrackRepo p)
    then obtain ok where "mutate_state E (untrack_mutation p) w = (ok, w')" using a by (auto split: prod.splits)
    from mutate_state_frame[OF this] show ?thesis using UntrackRepo by (intro keep) auto
  next
    case (AddSyncthingFolder f p ds l)
    obtain me f1 where m: "applyEnsureFolderMarker p (aw_fs w) = (me, f1)" by fastforce
    show ?thesis
    proof (cases me)
      case None
      let ?g = "\<lambda>i. AddOrUpdateFolder i f (if l = '''' then f else l) p ds"
      have "via_client E (\<lambda>http. edit_config_id http ?g) (w\<lparr>aw_fs := f1\<rparr>) = (e, w')"
        using a m None c(2) by (simp add: AddSyncthingFolder applyAddSyncthingFolder_def)
      from via_client_coherent[OF S(1,2,3) _ c(2) _ this, of ?g] show ?thesis
        using c(1) AddSyncthingFolder by (auto simp: default_str_def)
    next
      case (Some x)
      then show ?thesis using a m c(2) AddSyncthingFolder by (intro keep) (auto simp: applyAddSyncthingFolder_def)
    qed
  next
    case (AcceptSubscription f l p dev n cl)
    let ?p = "expandSubscriptionPath (ae_home E) (ae_cwd E) p" and ?g = "\<lambda>i. AddOrUpdateFolder i f l (expandSubscriptionPath (ae_home E) (ae_cwd E) p) [dev]"
    obtain e1 f1 where 1: "os_MkdirAll (aw_fs w) ?p = (e1, f1)" by fastforce
    obtain e2 f2 where 2: "writeSubscriptionMarker ?p (ae_now E) f l dev n f1 = (e2, f2)" by fastforce
    obtain e3 f3 where 3: "applyEnsureFolderMarker ?p f2 = (e3, f3)" by fastforce
    show ?thesis
    proof (cases "p = '''' \<or> e1 \<noteq> None \<or> e2 \<noteq> None \<or> e3 \<noteq> None")
      case True
      then show ?thesis using a c(2) 1 2 3 AcceptSubscription
        by (intro keep) (auto simp: applyAcceptSubscription_def Let_def split: option.splits if_splits)
    next
      case False
      then have "via_client E (\<lambda>http. edit_config_id http ?g) (w\<lparr>aw_fs := f3\<rparr>) = (e, w')"
        using a c(2) 1 2 3 AcceptSubscription
        by (auto simp: applyAcceptSubscription_def via_client_def Let_def split: prod.splits)
      from via_client_coherent[OF S(1,2,3) _ c(2) _ this, of ?g] show ?thesis using c(1) AcceptSubscription by auto
    qed
  qed
qed


definition demo_env :: "(jobj, unit) aenv" where
  "demo_env = \<lparr>ae_http = Some (demo_http True), ae_git = (\<lambda>d a g. ((True, '''', ''''), g)), ae_decode = demo_decode, ae_now = 0,
     ae_home = Some ''/h'', ae_cwd = ''/'', ae_machine = None, ae_health = True, ae_recorder = True, ae_propagator = False, ae_state_ok = True\<rparr>"

definition demo_world :: "jobj \<Rightarrow> (jobj, unit) aworld" where
  "demo_world m = \<lparr>aw_fs = \<lparr>nodes = [''/h'' \<mapsto> DirN], broken = (\<lambda>_. False)\<rparr>, aw_client = new_client, aw_srv = m, aw_git = (),
     aw_state = None, aw_resets = [], aw_rescans = [], aw_propagated = []\<rparr>"


section \<open>Accepting a subscription\<close>

lemma os_Mkdir_frame: "os_Mkdir f p = (e, f') \<Longrightarrow> q \<noteq> p \<Longrightarrow> os_ReadFile f' q = os_ReadFile f q"
  by (auto simp: os_Mkdir_def os_ReadFile_def os_Stat_set_node split: if_splits)

lemma marker_frame:
  assumes "applyEnsureFolderMarker repo f = (e, f')" "q \<noteq> path_Join repo FolderMarkerName"
  shows "os_ReadFile f' q = os_ReadFile f q"
  using assms os_Mkdir_frame[where q = q]
  by (auto simp: applyEnsureFolderMarker_def Let_def split: if_splits sum.splits node.splits ioerr.splits prod.splits)

lemma marker_made:
  "applyEnsureFolderMarker repo f = (None, f') \<Longrightarrow> is_dir f' (path_Join repo FolderMarkerName)"
  by (auto simp: applyEnsureFolderMarker_def Let_def is_dir_def os_Mkdir_def os_Stat_def split: if_splits sum.splits node.splits ioerr.splits prod.splits option.splits)

lemma write_atomic_read:
  assumes "write_atomic f p t = (None, f')"
  shows "os_ReadFile f' p = Inr t"
  using assms by (auto simp: write_atomic_def os_ReadFile_def os_Stat_set_node split: if_splits)

lemma dot_names: "plain_component FolderMarkerName" "plain_component RepoConfigFileName" "FolderMarkerName \<noteq> RepoConfigFileName"
  by (simp_all add: plain_component_def FolderMarkerName_def RepoConfigFileName_def slash_def)

text \<open>
  An accepted subscription is there for the next scan: after Apply returned nil the directory of the subscription
  holds a folder marker and a .dotkeeper.toml, the one that was there or, where there was none, one that names
  the accepted folder and shares it with the device it came from.
\<close>

theorem accepted_subscription_is_discoverable:
  assumes "Apply E (AcceptSubscription f l p dev peer cl) w = (None, w')"
  shows "is_dir (aw_fs w') (path_Join (expandSubscriptionPath (ae_home E) (ae_cwd E) p) FolderMarkerName) \<and>
    (\<exists>f1. os_MkdirAll (aw_fs w) (expandSubscriptionPath (ae_home E) (ae_cwd E) p) = (None, f1) \<and>
      os_ReadFile (aw_fs w') (RepoConfigPath (expandSubscriptionPath (ae_home E) (ae_cwd E) p)) =
      (case os_Stat f1 (RepoConfigPath (expandSubscriptionPath (ae_home E) (ae_cwd E) p)) of
         Inr _ \<Rightarrow> os_ReadFile f1 (RepoConfigPath (expandSubscriptionPath (ae_home E) (ae_cwd E) p))
       | Inl _ \<Rightarrow> Inr (repo_text (subscription_config (expandSubscriptionPath (ae_home E) (ae_cwd E) p) (ae_now E) f l dev peer))))"
proof -
  let ?p = "expandSubscriptionPath (ae_home E) (ae_cwd E) p"
  obtain e1 f1 where 1: "os_MkdirAll (aw_fs w) ?p = (e1, f1)" by fastforce
  obtain e2 f2 where 2: "writeSubscriptionMarker ?p (ae_now E) f l dev peer f1 = (e2, f2)" by fastforce
  obtain e3 f3 where 3: "applyEnsureFolderMarker ?p f2 = (e3, f3)" by fastforce
  have ok: "e1 = None" "e2 = None" "e3 = None" "aw_fs w' = f3"
    using assms by (auto simp: applyAcceptSubscription_def Let_def 1 2 3 split: option.splits if_splits prod.splits)
  have "os_ReadFile f3 (RepoConfigPath ?p) = os_ReadFile f2 (RepoConfigPath ?p)"
    using marker_frame[OF 3] path_Join_neq[OF dot_names(2,1) dot_names(3)[symmetric]] by (simp add: RepoConfigPath_def)
  moreover have "os_ReadFile f2 (RepoConfigPath ?p) = (case os_Stat f1 (RepoConfigPath ?p) of Inr _ \<Rightarrow> os_ReadFile f1 (RepoConfigPath ?p)
      | Inl _ \<Rightarrow> Inr (repo_text (subscription_config ?p (ae_now E) f l dev peer)))"
    using 2 ok(2) write_atomic_read by (auto simp: writeSubscriptionMarker_def RepoConfigPath_def split: sum.splits prod.splits if_splits)
  ultimately show ?thesis using marker_made[OF 3[unfolded ok(3)]] 1 ok by auto
qed

theorem accepted_subscription_is_discoverable_witness:
  "os_ReadFile (aw_fs (snd (Apply demo_env (AcceptSubscription ''fx'' ''github.com/o/r'' ''~/r'' ''D1'' ''peer'' '''') (demo_world [])))) ''/h/r/.dotkeeper.toml''
     = Inr (repo_text (subscription_config ''/h/r'' 0 ''fx'' ''github.com/o/r'' ''D1'' ''peer''))"
proof -
  let ?a = "AcceptSubscription ''fx'' ''github.com/o/r'' ''~/r'' ''D1'' ''peer'' ''''"
  have "fst (Apply demo_env ?a (demo_world [])) = None" by code_simp
  then obtain w' where r: "Apply demo_env ?a (demo_world []) = (None, w')" by (metis prod.collapse)
  have p: "expandSubscriptionPath (ae_home demo_env) (ae_cwd demo_env) ''~/r'' = ''/h/r''" by code_simp
  have c: "RepoConfigPath ''/h/r'' = ''/h/r/.dotkeeper.toml''" by code_simp
  have m: "os_Stat (snd (os_MkdirAll (aw_fs (demo_world [])) ''/h/r'')) ''/h/r/.dotkeeper.toml'' = Inl NotExist" by code_simp
  have n: "ae_now demo_env = 0" by (simp add: demo_env_def)
  from accepted_subscription_is_discoverable[OF r, unfolded p c n, THEN conjunct2]
  obtain f1 where f1: "os_MkdirAll (aw_fs (demo_world [])) ''/h/r'' = (None, f1)"
    "os_ReadFile (aw_fs w') ''/h/r/.dotkeeper.toml'' = (case os_Stat f1 ''/h/r/.dotkeeper.toml'' of Inr _ \<Rightarrow> os_ReadFile f1 ''/h/r/.dotkeeper.toml''
       | Inl _ \<Rightarrow> Inr (repo_text (subscription_config ''/h/r'' 0 ''fx'' ''github.com/o/r'' ''D1'' ''peer'')))" by blast
  have "os_Stat f1 ''/h/r/.dotkeeper.toml'' = Inl NotExist" using m f1(1) by (simp only: snd_conv)
  then show ?thesis using f1(2) by (simp only: r snd_conv sum.case)
qed

end
