(* ===== verification/Discovery.thy ===== *)
theory Discovery
  imports Applier
begin

text \<open>
  The desired side of internal/reconcile/providers.go: the walk over the scan roots, the tracked overrides, the loaders
  with their defaults, and NewDesiredProvider with the parsed-file cache of cache.go. The directory tree comes as
  what os.ReadDir and os.Stat answer; the TOML decoders are parameters of the loaders.
\<close>

section \<open>Walking the scan roots\<close>

definition expandTilde :: "string option \<Rightarrow> string \<Rightarrow> string option" where
  "expandTilde home path =
    (if \<not> HasPrefix path ''~'' then Some path
     else case home of None \<Rightarrow> None | Some h \<Rightarrow> Some (path_Join h (drop 1 path)))"

text \<open>
  \<open>dt_entries\<close> is os.ReadDir (name and whether it is a directory; None for an error), \<open>dt_marker\<close> whether the
  configuration file of a directory can be statted, \<open>dt_load\<close> the loader: an error, or the
  configuration (nil where the file has vanished in between).
\<close>

record dirtree =
  dt_entries :: "string \<Rightarrow> (string \<times> bool) list option"
  dt_marker :: "string \<Rightarrow> bool"
  dt_load :: "string \<Rightarrow> unit + RepoConfigV2 option"

type_synonym repos = "(string \<times> RepoConfigV2 option) list"

text \<open>A configuration that does not load is recorded as nil.\<close>

definition loaded :: "dirtree \<Rightarrow> string \<Rightarrow> RepoConfigV2 option" where
  "loaded T dir = (case dt_load T dir of Inl _ \<Rightarrow> None | Inr c \<Rightarrow> c)"

text \<open>\<open>walkDir\<close> with the levels that are left, \<open>maxDepth - currentDepth\<close>.\<close>

primrec walkDir :: "nat \<Rightarrow> dirtree \<Rightarrow> string set \<Rightarrow> string \<Rightarrow> repos \<Rightarrow> repos" where
  "walkDir 0 T excl dir repos =
     (if dir \<in> excl then repos else if dt_marker T dir then AList.update dir (loaded T dir) repos else repos)"
| "walkDir (Suc n) T excl dir repos =
     (if dir \<in> excl then repos
      else if dt_marker T dir then AList.update dir (loaded T dir) repos
      else case dt_entries T dir of
        None \<Rightarrow> repos
      | Some es \<Rightarrow> foldl (\<lambda>r e. if snd e then walkDir n T excl (path_Join dir (fst e)) r else r) repos es)"

definition scan_depth :: "int \<Rightarrow> nat" where
  "scan_depth depth = (if depth \<le> 0 then 3 else nat depth)"

definition exclude_set :: "string option \<Rightarrow> string list \<Rightarrow> string set" where
  "exclude_set home xs = set (List.map_filter (expandTilde home) xs)"

definition discoverRepos :: "string option \<Rightarrow> dirtree \<Rightarrow> DiscoveryConfig \<Rightarrow> repos" where
  "discoverRepos home T d =
    foldl (\<lambda>r root. case expandTilde home root of
        None \<Rightarrow> r
      | Some absRoot \<Rightarrow> walkDir (scan_depth (dc_ScanDepth d)) T (exclude_set home (dc_Exclude d)) absRoot r) []
      (dc_ScanRoots d)"

text \<open>What the walk is to find: a directory with a configuration file, no marked or excluded directory above it.\<close>

inductive found :: "dirtree \<Rightarrow> string set \<Rightarrow> nat \<Rightarrow> string \<Rightarrow> string \<Rightarrow> bool" for T excl where
  here: "dir \<notin> excl \<Longrightarrow> dt_marker T dir \<Longrightarrow> found T excl n dir dir"
| below: "dir \<notin> excl \<Longrightarrow> \<not> dt_marker T dir \<Longrightarrow> dt_entries T dir = Some es \<Longrightarrow> (name, True) \<in> set es \<Longrightarrow>
    found T excl n (path_Join dir name) p \<Longrightarrow> found T excl (Suc n) dir p"

inductive_simps found_0 [simp]: "found T excl 0 dir p"
inductive_simps found_Suc: "found T excl (Suc n) dir p"

lemma found_excluded: "found T excl n dir p \<Longrightarrow> dir \<notin> excl"
  by (cases n) (auto simp: found_Suc)

lemma found_marked: "dt_marker T dir \<Longrightarrow> found T excl n dir p \<longleftrightarrow> dir \<notin> excl \<and> p = dir"
  by (cases n) (auto simp: found_Suc)

text \<open>Steps that each write the same value at a path give a map that does not depend on their order.\<close>

definition overlay :: "dirtree \<Rightarrow> (string \<Rightarrow> bool) \<Rightarrow> repos \<Rightarrow> string \<Rightarrow> RepoConfigV2 option option" where
  "overlay T P r p = (if P p then Some (loaded T p) else map_of r p)"

lemma foldl_overlay:
  assumes "\<And>x r p. x \<in> set xs \<Longrightarrow> map_of (f r x) p = overlay T (P x) r p"
  shows "map_of (foldl f r xs) p = overlay T (\<lambda>p. \<exists>x\<in>set xs. P x p) r p"
  using assms
proof (induction xs arbitrary: r)
  case (Cons x xs)
  have "map_of (foldl f (f r x) xs) p = overlay T (\<lambda>p. \<exists>x\<in>set xs. P x p) (f r x) p"
    by (rule Cons.IH) (simp add: Cons.prems)
  then show ?case using Cons.prems[of x r p] by (auto simp: overlay_def)
qed (simp add: overlay_def)

lemma bex_dirs: "(\<exists>e\<in>set es. snd e \<and> Q (fst e)) \<longleftrightarrow> (\<exists>name. (name, True) \<in> set es \<and> Q name)"
  by (auto simp: Bex_def split_paired_Ex)

lemma walkDir_spec: "map_of (walkDir n T excl dir repos) p = overlay T (found T excl n dir) repos p"
proof (induction n arbitrary: dir repos p)
  case 0
  then show ?case by (auto simp: overlay_def AList.update_conv')
next
  case (Suc n)
  show ?case
  proof (cases "dir \<in> excl \<or> dt_marker T dir \<or> dt_entries T dir = None")
    case stop: True
    have n: "\<not> found T excl (Suc n) dir p" if "dir \<in> excl \<or> \<not> dt_marker T dir" using that stop by (auto simp: found_Suc)
    show ?thesis
    proof (cases "dir \<in> excl \<or> \<not> dt_marker T dir")
      case True
      then have "walkDir (Suc n) T excl dir repos = repos" using stop by auto
      then show ?thesis using n[OF True] by (simp add: overlay_def)
    next
      case False
      then show ?thesis by (simp add: overlay_def found_marked AList.update_conv')
    qed
  next
    case False
    then obtain es where es: "dt_entries T dir = Some es" by auto
    let ?f = "\<lambda>r e. if snd e then walkDir n T excl (path_Join dir (fst e)) r else r"
    have "map_of (foldl ?f repos es) p = overlay T (\<lambda>p. \<exists>e\<in>set es. snd e \<and> found T excl n (path_Join dir (fst e)) p) repos p"
      by (rule foldl_overlay) (simp add: Suc.IH overlay_def)
    moreover have "(\<exists>e\<in>set es. snd e \<and> found T excl n (path_Join dir (fst e)) p) \<longleftrightarrow> found T excl (Suc n) dir p" for p
      using False es bex_dirs[of es "\<lambda>name. found T excl n (path_Join dir name) p"] by (simp add: found_Suc)
    ultimately show ?thesis using False es by simp
  qed
qed

lemma discoverRepos_lookup:
  "map_of (discoverRepos home T d) p =
    (if \<exists>root. Some root \<in> set (map (expandTilde home) (dc_ScanRoots d)) \<and>
        found T (exclude_set home (dc_Exclude d)) (scan_depth (dc_ScanDepth d)) root p
     then Some (loaded T p) else None)"
proof -
  let ?F = "found T (exclude_set home (dc_Exclude d)) (scan_depth (dc_ScanDepth d))"
  let ?P = "\<lambda>root p. case expandTilde home root of None \<Rightarrow> False | Some a \<Rightarrow> ?F a p"
  have "map_of (discoverRepos home T d) p = overlay T (\<lambda>p. \<exists>root\<in>set (dc_ScanRoots d). ?P root p) [] p"
    unfolding discoverRepos_def by (rule foldl_overlay) (simp add: walkDir_spec overlay_def split: option.splits)
  moreover have "?P root p \<longleftrightarrow> (\<exists>a. expandTilde home root = Some a \<and> ?F a p)" for root by (simp split: option.splits)
  then have "(\<exists>root\<in>set (dc_ScanRoots d). ?P root p) \<longleftrightarrow>
      (\<exists>root. Some root \<in> set (map (expandTilde home) (dc_ScanRoots d)) \<and> ?F root p)"
    unfolding set_map image_iff by metis
  ultimately show ?thesis by (simp add: overlay_def)
qed


section \<open>Tracked overrides\<close>

text \<open>The first path that does not resolve or load ends the merge with an error.\<close>

fun mergeTrackedOverrideRepos :: "string option \<Rightarrow> string \<Rightarrow> (string \<Rightarrow> unit + RepoConfigV2 option) \<Rightarrow> string list \<Rightarrow> repos \<Rightarrow> unit + repos" where
  "mergeTrackedOverrideRepos home cwd load [] repos = Inr repos"
| "mergeTrackedOverrideRepos home cwd load (rawPath # rest) repos =
    (case expandTilde home rawPath of
       None \<Rightarrow> Inl ()
     | Some expanded \<Rightarrow>
       let absPath = path_Abs cwd expanded in
       if map_of repos absPath \<noteq> None then mergeTrackedOverrideRepos home cwd load rest repos
       else case load absPath of
         Inl _ \<Rightarrow> Inl ()
       | Inr None \<Rightarrow> mergeTrackedOverrideRepos home cwd load rest repos
       | Inr (Some cfg) \<Rightarrow> mergeTrackedOverrideRepos home cwd load rest (AList.update absPath (Some cfg) repos))"

section \<open>Loaders and the cache of parsed files\<close>

definition applyMachineV2DefaultsLocal :: "MachineConfigV2 \<Rightarrow> MachineConfigV2" where
  "applyMachineV2DefaultsLocal cfg =
    (let c1 = (if mc_DefaultCommitPolicy cfg = '''' then cfg\<lparr>mc_DefaultCommitPolicy := ''manual''\<rparr> else cfg);
         c2 = (if mc_DefaultGitInterval c1 = '''' then c1\<lparr>mc_DefaultGitInterval := ''daily''\<rparr> else c1);
         c3 = (if mc_DefaultSlotOffsetMinutes c2 = 0 then c2\<lparr>mc_DefaultSlotOffsetMinutes := 5\<rparr> else c2);
         d0 = mc_Discovery c3;
         d1 = (if dc_ScanRoots d0 = [] then d0\<lparr>dc_ScanRoots := [''~/Documents/GitHub'']\<rparr> else d0);
         d2 = (if dc_ScanInterval d1 = '''' then d1\<lparr>dc_ScanInterval := ''5m''\<rparr> else d1);
         d3 = (if dc_ScanDepth d2 = 0 then d2\<lparr>dc_ScanDepth := 3\<rparr> else d2);
         c4 = c3\<lparr>mc_Discovery := d3\<rparr>
     in if mc_ReconcileInterval c4 = '''' then c4\<lparr>mc_ReconcileInterval := ''5m''\<rparr> else c4)"

lemma applyMachineV2DefaultsLocal_eq: "applyMachineV2DefaultsLocal cfg = applyMachineV2Defaults cfg"
  by (simp add: applyMachineV2DefaultsLocal_def applyMachineV2Defaults_def applyDiscoveryDefaults_def default_str_def Let_def)

text \<open>Loading from a path, the file being its content or absent; a missing machine.toml is an error, a missing state.toml is not.\<close>

definition loadMachineConfigFromPath :: "(string \<Rightarrow> unit + MachineConfigV2) \<Rightarrow> string option \<Rightarrow> unit + MachineConfigV2" where
  "loadMachineConfigFromPath decode t = (case t of
      None \<Rightarrow> Inl ()
    | Some text \<Rightarrow> (case decode text of Inl e \<Rightarrow> Inl e | Inr m \<Rightarrow> Inr (applyMachineV2DefaultsLocal m)))"

definition loadStateFromPath :: "(string \<Rightarrow> unit + StateV2) \<Rightarrow> string option \<Rightarrow> unit + StateV2 option" where
  "loadStateFromPath decode t = LoadStateV2 decode t"

text \<open>
  One file on disk: its modification time, its size and its content. A cache entry keeps the value with the time and
  size it was loaded under, or the fact that the file was absent.
\<close>

record disk_file =
  df_mtime :: gotime
  df_size :: nat
  df_text :: string

datatype 'v entry = Entry gotime nat 'v | Missing 'v

text \<open>\<open>cached_load\<close> is loadMachine and loadRepo; loadState also remembers that the file was absent.\<close>

definition cached_load :: "(string option \<Rightarrow> unit + 'v) \<Rightarrow> disk_file option \<Rightarrow> 'v entry option \<Rightarrow> (unit + 'v) \<times> 'v entry option" where
  "cached_load load f c =
    (case f of
       None \<Rightarrow> (load None, c)
     | Some d \<Rightarrow>
       (case c of
          Some (Entry mtime sz v) \<Rightarrow>
            (if mtime = df_mtime d \<and> sz = df_size d then (Inr v, c)
             else case load (Some (df_text d)) of Inl e \<Rightarrow> (Inl e, c) | Inr v' \<Rightarrow> (Inr v', Some (Entry (df_mtime d) (df_size d) v')))
        | _ \<Rightarrow> (case load (Some (df_text d)) of Inl e \<Rightarrow> (Inl e, c) | Inr v' \<Rightarrow> (Inr v', Some (Entry (df_mtime d) (df_size d) v')))))"

definition cached_loadState :: "(string option \<Rightarrow> unit + 'v option) \<Rightarrow> disk_file option \<Rightarrow> 'v option entry option \<Rightarrow> (unit + 'v option) \<times> 'v option entry option" where
  "cached_loadState load f c =
    (case f of
       None \<Rightarrow>
         (case c of
            Some (Missing _) \<Rightarrow> (Inr None, c)
          | _ \<Rightarrow> (case load None of Inl e \<Rightarrow> (Inl e, c) | Inr v \<Rightarrow> (Inr v, Some (Missing v))))
     | Some d \<Rightarrow> cached_load load f c)"

fun cached_loads :: "(disk_file option \<Rightarrow> 'c \<Rightarrow> (unit + 'v) \<times> 'c) \<Rightarrow> disk_file option list \<Rightarrow> 'c \<Rightarrow> (unit + 'v) list" where
  "cached_loads cload [] c = []"
| "cached_loads cload (f # fs) c = (case cload f c of (r, c') \<Rightarrow> r # cached_loads cload fs c')"

text \<open>
  What a reader may rely on, whichever cache it goes through: if a modification time and size never stand for two
  contents, given as the function \<open>h\<close>, a load answers as without the cache.
\<close>

locale file_cache =
  fixes cload :: "disk_file option \<Rightarrow> 'c \<Rightarrow> (unit + 'v) \<times> 'c" and direct :: "string option \<Rightarrow> unit + 'v"
    and inv :: "(gotime \<Rightarrow> nat \<Rightarrow> string) \<Rightarrow> 'c \<Rightarrow> bool"
  assumes faithful: "inv h c \<Longrightarrow> (\<And>d. f = Some d \<Longrightarrow> h (df_mtime d) (df_size d) = df_text d) \<Longrightarrow>
      fst (cload f c) = direct (map_option df_text f) \<and> inv h (snd (cload f c))"
begin

lemma loads_direct:
  "inv h c \<Longrightarrow> (\<And>d. Some d \<in> set fs \<Longrightarrow> h (df_mtime d) (df_size d) = df_text d) \<Longrightarrow> cached_loads cload fs c = map (\<lambda>f. direct (map_option df_text f)) fs"
proof (induction fs arbitrary: c)
  case (Cons f fs)
  have "fst (cload f c) = direct (map_option df_text f)" "inv h (snd (cload f c))"
    using faithful[OF Cons.prems(1), of f] Cons.prems(2) by auto
  then show ?case using Cons.IH Cons.prems(2) by (simp add: case_prod_beta)
qed simp

end

definition entry_inv :: "(string option \<Rightarrow> unit + 'v) \<Rightarrow> ('v \<Rightarrow> bool) \<Rightarrow> (gotime \<Rightarrow> nat \<Rightarrow> string) \<Rightarrow> 'v entry option \<Rightarrow> bool" where
  "entry_inv load absent h c = (case c of
      Some (Entry m s v) \<Rightarrow> load (Some (h m s)) = Inr v | Some (Missing v) \<Rightarrow> absent v | None \<Rightarrow> True)"

interpretation machine_cache: file_cache "cached_load (loadMachineConfigFromPath decode)" "loadMachineConfigFromPath decode"
    "entry_inv (loadMachineConfigFromPath decode) (\<lambda>_. True)" for decode
  by unfold_locales (auto simp: cached_load_def entry_inv_def split: option.splits entry.splits sum.splits)

interpretation repo_cache: file_cache "cached_load (LoadRepoConfigV2 decode)" "LoadRepoConfigV2 decode"
    "entry_inv (LoadRepoConfigV2 decode) (\<lambda>_. True)" for decode :: "string \<Rightarrow> unit + RepoConfigV2"
  by unfold_locales (auto simp: cached_load_def entry_inv_def split: option.splits entry.splits sum.splits)

interpretation state_cache: file_cache "cached_loadState (loadStateFromPath decode)" "loadStateFromPath decode"
    "entry_inv (loadStateFromPath decode) (\<lambda>v. v = None)" for decode
  by unfold_locales
    (auto simp: cached_loadState_def cached_load_def entry_inv_def loadStateFromPath_def LoadStateV2_def split: option.splits entry.splits sum.splits)

text \<open>
  The parsed-file caches are invisible over any sequence of reconcile passes, with files changing, vanishing and
  coming back, as long as no two contents of a file share modification time and size: every pass sees what
  parsing the file anew would give, errors included.
\<close>

theorem config_caches_transparent:
  assumes "\<And>d. Some d \<in> set fs \<Longrightarrow> h (df_mtime d) (df_size d) = df_text d"
  shows "cached_loads (cached_load (loadMachineConfigFromPath dm)) fs None = map (\<lambda>f. loadMachineConfigFromPath dm (map_option df_text f)) fs \<and>
    cached_loads (cached_load (LoadRepoConfigV2 dr)) fs None = map (\<lambda>f. LoadRepoConfigV2 dr (map_option df_text f)) fs \<and>
    cached_loads (cached_loadState (loadStateFromPath ds)) fs None = map (\<lambda>f. loadStateFromPath ds (map_option df_text f)) fs"
  using machine_cache.loads_direct[of dm h None fs, OF _ assms] repo_cache.loads_direct[of dr h None fs, OF _ assms]
    state_cache.loads_direct[of ds h None fs, OF _ assms]
  by (simp add: entry_inv_def)

text \<open>The three files of the instance: one version, absent, another version.\<close>

theorem config_caches_transparent_witness:
  "cached_loads (cached_loadState (loadStateFromPath demo_decode))
     [Some \<lparr>df_mtime = 1, df_size = 5, df_text = ''bad''\<rparr>, None, Some \<lparr>df_mtime = 2, df_size = 9, df_text = state_text fresh_state\<rparr>] None =
   [Inl (), Inr None, Inr (Some fresh_state)]"
proof -
  let ?fs = "[Some \<lparr>df_mtime = 1, df_size = 5, df_text = ''bad''\<rparr>, None, Some \<lparr>df_mtime = 2, df_size = 9, df_text = state_text fresh_state\<rparr>]"
  let ?h = "\<lambda>m s. if m = (1::gotime) then ''bad'' else state_text fresh_state"
  have 1: "?h (df_mtime d) (df_size d) = df_text d" if "Some d \<in> set ?fs" for d :: disk_file using that by auto
  have 2: "''bad'' \<noteq> state_text fresh_state" by (simp add: state_text_def)
  from config_caches_transparent[of ?fs ?h, OF 1, where ds = demo_decode] show ?thesis
    using 2 by (auto simp: loadStateFromPath_def LoadStateV2_def demo_decode_def)
qed

section \<open>The desired provider\<close>

text \<open>
  NewDesiredProvider after the machine and state files have been loaded (directly, the caches being transparent).
\<close>

definition desired_provider :: "string option \<Rightarrow> string \<Rightarrow> dirtree \<Rightarrow> unit + MachineConfigV2 \<Rightarrow> unit + StateV2 option \<Rightarrow> unit + Desired" where
  "desired_provider home cwd T machine state =
    (case machine of
       Inl e \<Rightarrow> Inl e
     | Inr m \<Rightarrow>
       let repos = discoverRepos home T (mc_Discovery m) in
       (case state of
          Inl e \<Rightarrow> Inl e
        | Inr st \<Rightarrow>
          (case mergeTrackedOverrideRepos home cwd (dt_load T) (case st of None \<Rightarrow> [] | Some s \<Rightarrow> st_TrackedOverrides s) repos of
             Inl e \<Rightarrow> Inl e
           | Inr repos' \<Rightarrow> Inr (BuildDesired (Some m) repos' st))))"

text \<open>One step of the merge: the repositories it goes on with.\<close>

lemma mergeTracked_Cons:
  assumes "mergeTrackedOverrideRepos home cwd load (raw # rest) repos = Inr repos'"
  obtains x repos1 where "expandTilde home raw = Some x" "mergeTrackedOverrideRepos home cwd load rest repos1 = Inr repos'"
    "repos1 = repos \<or> (\<exists>cfg. load (path_Abs cwd x) = Inr (Some cfg) \<and> repos1 = AList.update (path_Abs cwd x) (Some cfg) repos)"
  using assms by (auto simp: Let_def split: option.splits sum.splits if_splits)

lemma mergeTracked_mem:
  assumes "mergeTrackedOverrideRepos home cwd load xs repos = Inr repos'" "map_of repos' q = Some (Some c)"
  shows "map_of repos q = Some (Some c) \<or> (load q = Inr (Some c) \<and> (\<exists>raw x. raw \<in> set xs \<and> expandTilde home raw = Some x \<and> q = path_Abs cwd x))"
  using assms
proof (induction xs arbitrary: repos)
  case (Cons raw rest)
  obtain x repos1 where x: "expandTilde home raw = Some x" "mergeTrackedOverrideRepos home cwd load rest repos1 = Inr repos'"
    "repos1 = repos \<or> (\<exists>cfg. load (path_Abs cwd x) = Inr (Some cfg) \<and> repos1 = AList.update (path_Abs cwd x) (Some cfg) repos)"
    using mergeTracked_Cons[OF Cons.prems(1)] by metis
  from Cons.IH[OF x(2) Cons.prems(2)] x(1,3) show ?case
    by (auto simp: AList.update_conv' split: if_splits)
qed simp

lemma walkDir_distinct: "distinct (map fst repos) \<Longrightarrow> distinct (map fst (walkDir n T excl dir repos))"
proof (induction n arbitrary: dir repos)
  case (Suc n)
  have "distinct (map fst (foldl (\<lambda>r e. if snd e then walkDir n T excl (path_Join dir (fst e)) r else r) r es))"
    if "distinct (map fst r)" for r es using that by (induction es arbitrary: r) (simp_all add: Suc.IH)
  then show ?case using Suc.prems by (auto simp: distinct_update split: option.splits)
qed (simp add: distinct_update)

lemma discoverRepos_distinct: "distinct (map fst (discoverRepos home T d))"
proof -
  have "distinct (map fst (foldl (\<lambda>r root. case expandTilde home root of None \<Rightarrow> r | Some a \<Rightarrow> walkDir n T excl a r) r xs))"
    if "distinct (map fst r)" for r n excl xs
    using that by (induction xs arbitrary: r) (auto simp: walkDir_distinct split: option.splits)
  then show ?thesis by (simp add: discoverRepos_def)
qed

lemma mergeTracked_distinct:
  "mergeTrackedOverrideRepos home cwd load xs repos = Inr repos' \<Longrightarrow> distinct (map fst repos) \<Longrightarrow> distinct (map fst repos')"
proof (induction xs arbitrary: repos)
  case (Cons raw rest)
  from mergeTracked_Cons[OF Cons.prems(1)] obtain repos1 where
    "mergeTrackedOverrideRepos home cwd load rest repos1 = Inr repos'" "repos1 = repos \<or> (\<exists>k v. repos1 = AList.update k v repos)"
    by metis
  then show ?case using Cons.IH[of repos1] Cons.prems(2) by (auto simp: distinct_update)
qed simp

lemma accepted_not_managed:
  assumes "f \<in> (\<lambda>a. of_FolderID (ac_Offer a)) ` set (subscription_acceptances d ob)"
  shows "f \<notin> fo_SyncthingFolderID ` set (ob_ManagedFolders ob)"
proof -
  have "\<not> local (of_FolderID (ac_Offer a))" if "a \<in> set (rs_Acceptances (Resolve subs offers local))" for a subs offers local
  proof -
    have ok: "index_ok local offers (index_offers (\<lambda>_. []) offers)" by (simp add: index_ok_def index_offers_eq same_view_refl)
    have "a \<in> set (List.map_filter (spec_acceptance offers local) subs)"
      using that resolve_loop_eq[OF ok ok, of subs "[]" "[]"] unfolding Resolve_def by auto
    then obtain s where s: "spec_acceptance offers local s = Some a" by (auto simp: List.map_filter_def)
    then have "ac_Offer a = hd (matching offers local s)" "matching offers local s \<noteq> []"
      by (auto simp: spec_acceptance_def spec_status_def split: if_splits)
    then have "ac_Offer a \<in> set (matching offers local s)" by simp
    then show ?thesis by (simp add: matching_def)
  qed
  then show ?thesis using assms by (fastforce simp: subscription_acceptances_def split: if_splits)
qed

text \<open>The configurations a pass uses: those that discovery or an override reaches and that load.\<close>

definition reached :: "string option \<Rightarrow> string \<Rightarrow> dirtree \<Rightarrow> MachineConfigV2 \<Rightarrow> StateV2 option \<Rightarrow> string \<Rightarrow> bool" where
  "reached home cwd T m st q \<longleftrightarrow>
    (\<exists>root. Some root \<in> set (map (expandTilde home) (dc_ScanRoots (mc_Discovery m))) \<and>
       found T (exclude_set home (dc_Exclude (mc_Discovery m))) (scan_depth (dc_ScanDepth (mc_Discovery m))) root q) \<or>
    (\<exists>raw x. raw \<in> set (case st of None \<Rightarrow> [] | Some s \<Rightarrow> st_TrackedOverrides s) \<and> expandTilde home raw = Some x \<and> q = path_Abs cwd x)"

text \<open>
  A folder whose configuration is not reached is taken out of Syncthing. Whenever no configuration that
  loads and that discovery or a tracked override reaches names a folder Syncthing has, the plan removes it; so it goes for
  a repository whose .dotkeeper.toml does not parse, and for an accepted subscription whose path lies outside the scan
  roots.
\<close>

theorem unreached_folder_is_removed:
  assumes P: "desired_provider home cwd T (Inr m) (Inr st) = Inr d"
    and no: "\<And>q c. dt_load T q = Inr (Some c) \<Longrightarrow> rs_SyncthingFolderID (rp_Sync c) = f \<Longrightarrow> \<not> reached home cwd T m st q"
    and f: "f \<in> fo_SyncthingFolderID ` set (ob_ManagedFolders ob)"
  shows "RemoveSyncthingFolder f \<in> set (Diff wall d ob)"
proof -
  let ?r = "discoverRepos home T (mc_Discovery m)" and ?x = "case st of None \<Rightarrow> [] | Some s \<Rightarrow> st_TrackedOverrides s"
  obtain repos' where r: "mergeTrackedOverrideRepos home cwd (dt_load T) ?x ?r = Inr repos'" "d = BuildDesired (Some m) repos' st"
    using P by (auto simp: desired_provider_def Let_def split: sum.splits)
  have "rs_SyncthingFolderID (rp_Sync c) \<noteq> f" if q: "(q, Some c) \<in> set repos'" for q c
  proof -
    have "map_of repos' q = Some (Some c)"
      using q mergeTracked_distinct[OF r(1) discoverRepos_distinct] by (simp add: map_of_is_SomeI)
    from mergeTracked_mem[OF r(1) this] have "dt_load T q = Inr (Some c) \<and> reached home cwd T m st q"
      unfolding reached_def discoverRepos_lookup by (auto simp: loaded_def split: sum.splits if_splits)
    then show ?thesis using no by blast
  qed
  then have "\<forall>q c. (q, Some c) \<in> set repos' \<longrightarrow> rs_SyncthingFolderID (rp_Sync c) \<noteq> f" by blast
  then have "f \<notin> set (map df_folderID (desired_folders d))"
    by (auto simp: r(2) desired_folders_set BuildDesired_def desired_repo_def Let_def desired_repos_mem split: prod.splits) blast
  then have "RemoveSyncthingFolder f \<in> set (remove_actions d ob)"
    using f accepted_not_managed[of f d ob] by (auto simp: remove_actions_def Let_def)
  then show ?thesis by (simp add: Diff_def)
qed

text \<open>One scan root with one repository, whose configuration does not parse.\<close>

definition demo_tree :: dirtree where
  "demo_tree = \<lparr>dt_entries = (\<lambda>d. if d = ''/g'' then Some [(''r'', True), (''x.txt'', False)] else Some []),
     dt_marker = (\<lambda>d. d = ''/g/r''), dt_load = (\<lambda>d. Inl ())\<rparr>"

definition demo_machine :: MachineConfigV2 where
  "demo_machine = applyMachineV2Defaults
     \<lparr>mc_SchemaVersion = 2, mc_Name = ''m'', mc_Slot = 0, mc_DefaultCommitPolicy = '''', mc_DefaultGitInterval = '''',
      mc_DefaultSlotOffsetMinutes = 0, mc_DefaultShareWith = [], mc_Peers = [],
      mc_Discovery = \<lparr>dc_ScanRoots = [''/g''], dc_Exclude = [], dc_ScanInterval = '''', dc_ScanDepth = 0\<rparr>,
      mc_ReconcileInterval = '''', mc_Subscribe = [], mc_Debug = \<lparr>dbg_PprofAddress = ''''\<rparr>\<rparr>"

theorem unreached_folder_is_removed_witness:
  "\<exists>d. desired_provider None ''/'' demo_tree (Inr demo_machine) (Inr None) = Inr d \<and>
     RemoveSyncthingFolder ''old'' \<in> set (Diff 0 d demo_observed)"
proof -
  obtain d where d: "desired_provider None ''/'' demo_tree (Inr demo_machine) (Inr None) = Inr d"
    by (simp add: desired_provider_def Let_def)
  have "RemoveSyncthingFolder ''old'' \<in> set (Diff 0 d demo_observed)"
    by (rule unreached_folder_is_removed[OF d]) (simp_all add: demo_tree_def demo_observed_def demo_folder_def)
  with d show ?thesis by blast
qed

end
