(* ===== verification/Observe.thy ===== *)
theory Observe
  imports Discovery
begin

text \<open>
  The observed side of internal/reconcile/providers.go (the state of a repository read from git, the markers of a
  git operation in progress, NewObservedProvider) and the pass of internal/reconcile/reconciler.go that puts
  providers, Diff and applier together. git and the clients of the daemon are parameters; the file
  system is that of Files with a modification time for each path.
\<close>

section \<open>Lines of git status\<close>

text \<open>
  bufio.Scanner with ScanLines and a buffer of 1 MiB: lines without their terminator and one carriage return
  before it; scanning ends silently at a line that does not fit.
\<close>

definition dropCR :: "string \<Rightarrow> string" where
  "dropCR s = (if s \<noteq> '''' \<and> last s = CHR 0x0D then butlast s else s)"

definition raw_lines :: "string \<Rightarrow> string list" where
  "raw_lines s = (let ls = str_Split newline s in if last ls = '''' then butlast ls else ls)"

definition scan_lines :: "nat \<Rightarrow> string \<Rightarrow> string list" where
  "scan_lines buf s = map dropCR (takeWhile (\<lambda>l. length l < buf) (raw_lines s))"

definition status_buffer :: nat where "status_buffer = 1024 * 1024"

primrec fieldFromN :: "nat \<Rightarrow> string \<Rightarrow> string" where
  "fieldFromN 0 line = line"
| "fieldFromN (Suc n) line = (case IndexByte line CHR '' '' of None \<Rightarrow> '''' | Some i \<Rightarrow> fieldFromN n (drop (i + 1) line))"

definition porcelainV2Path :: "string \<Rightarrow> string" where
  "porcelainV2Path line =
    (if length line < 2 then ''''
     else if hd line \<in> {CHR ''?'', CHR ''!''} then drop 2 line
     else if hd line \<in> {CHR ''1'', CHR ''u''} then fieldFromN 8 line
     else if hd line = CHR ''2'' then
       (let rest = fieldFromN 9 line in case IndexByte rest (CHR 0x09) of None \<Rightarrow> rest | Some i \<Rightarrow> take i rest)
     else '''')"

section \<open>The state of a repository\<close>

definition oid_prefix :: string where "oid_prefix = ''# branch.oid ''"

text \<open>One line: the head, whether there is a change, and the newest modification time of the changed files.\<close>

definition status_step :: "fsys \<Rightarrow> (string \<Rightarrow> gotime) \<Rightarrow> string \<Rightarrow> string \<times> bool \<times> gotime \<Rightarrow> string \<Rightarrow> string \<times> bool \<times> gotime" where
  "status_step f mtime repo acc line = (case acc of (head, dirty, t) \<Rightarrow>
     if line = '''' then acc
     else if hd line = CHR ''#'' then
       (if head = '''' \<and> HasPrefix line oid_prefix then
          (let h = TrimSpace (drop (length oid_prefix) line) in (if h = ''(initial)'' then '''' else h, dirty, t))
        else acc)
     else
       (let path = porcelainV2Path line; p = path_Join repo path in
        if path = '''' then (head, True, t)
        else case os_Stat f p of
          Inr (FileN _) \<Rightarrow> (head, True, if time_After (mtime p) t then mtime p else t)
        | _ \<Rightarrow> (head, True, t)))"

definition status_args :: "string list" where "status_args = [''status'', ''--porcelain=v2'', ''--branch'']"

definition readGitState :: "'g git \<Rightarrow> fsys \<Rightarrow> (string \<Rightarrow> gotime) \<Rightarrow> string \<Rightarrow> 'g \<Rightarrow> (string \<times> bool \<times> gotime) \<times> 'g" where
  "readGitState git f mtime repo g =
    (case runOutput git repo status_args g of
       (None, g') \<Rightarrow> (('''', False, 0), g')
     | (Some out, g') \<Rightarrow> (foldl (status_step f mtime repo) ('''', False, 0) (scan_lines status_buffer out), g'))"

definition readIgnoreFile :: "fsys \<Rightarrow> string \<Rightarrow> string" where
  "readIgnoreFile f repo = (case os_ReadFile f (path_Join repo ''.stignore'') of Inl _ \<Rightarrow> '''' | Inr s \<Rightarrow> s)"

definition workflow_markers :: "string list" where
  "workflow_markers = [''rebase-merge'', ''rebase-apply'', ''MERGE_HEAD'', ''CHERRY_PICK_HEAD'', ''REVERT_HEAD'', ''BISECT_LOG'']"

definition isDevWorkflowActive :: "'g git \<Rightarrow> string \<Rightarrow> fsys \<Rightarrow> string \<Rightarrow> 'g \<Rightarrow> bool \<times> 'g" where
  "isDevWorkflowActive git cwd f repo g =
    (case git cwd [''-C'', repo, ''rev-parse'', ''--git-dir''] g of ((ok, out, err), g') \<Rightarrow>
       (if \<not> ok then False
        else let d = TrimSpace out; gitDir = (if IsAbs d then d else path_Join repo d)
          in list_ex (\<lambda>m. case os_Stat f (path_Join gitDir m) of Inr _ \<Rightarrow> True | Inl _ \<Rightarrow> False) workflow_markers, g'))"

definition folderMarkerMissing :: "fsys \<Rightarrow> string \<Rightarrow> string \<Rightarrow> bool" where
  "folderMarkerMissing f folderPath markerName =
    (if folderPath = '''' \<or> markerName = '''' then False
     else case os_Stat f (path_Join folderPath markerName) of Inl _ \<Rightarrow> True | Inr n \<Rightarrow> n \<noteq> DirN)"

text \<open>What a pass reads the machine with.\<close>

record 'g oenv =
  oe_git :: "'g git"
  oe_fs :: fsys
  oe_mtime :: "string \<Rightarrow> gotime"
  oe_cwd :: string
  oe_now :: gotime

definition queryRepoGitState :: "'g oenv \<Rightarrow> string \<Rightarrow> StateV2 option \<Rightarrow> 'g \<Rightarrow> RepoObs \<times> 'g" where
  "queryRepoGitState E repo state g =
    (case readGitState (oe_git E) (oe_fs E) (oe_mtime E) repo g of ((head, dirty, t), g1) \<Rightarrow>
     case isDevWorkflowActive (oe_git E) (oe_cwd E) (oe_fs E) repo g1 of (active, g2) \<Rightarrow>
       (\<lparr>ro_Path = repo, ro_HeadCommit = head, ro_IsDirty = dirty,
         ro_LastBackupAt = (case state of None \<Rightarrow> 0 | Some s \<Rightarrow> (case map_of (st_ObservedRepos s) repo of None \<Rightarrow> 0 | Some r \<Rightarrow> or_LastBackupAt r)),
         ro_LastChangeAt = t, ro_IgnoreFileContent = readIgnoreFile (oe_fs E) repo, ro_DevWorkflowActive = active\<rparr>, g2))"

fun queryRepos :: "'g oenv \<Rightarrow> string list \<Rightarrow> StateV2 option \<Rightarrow> 'g \<Rightarrow> RepoObs list \<times> 'g" where
  "queryRepos E [] state g = ([], g)"
| "queryRepos E (p # ps) state g =
    (case queryRepoGitState E p state g of (r, g1) \<Rightarrow> case queryRepos E ps state g1 of (rs, g2) \<Rightarrow> (r # rs, g2))"

section \<open>The observed provider\<close>

text \<open>SyncthingQuerier; None for an error.\<close>

record 'q querier =
  q_GetConfig :: "'q \<Rightarrow> jobj option \<times> 'q"
  q_GetStatus :: "'q \<Rightarrow> string option \<times> 'q"
  q_GetConnections :: "'q \<Rightarrow> (string \<times> bool) list option \<times> 'q"
  q_GetPendingFolders :: "'q \<Rightarrow> PendingFolder list option \<times> 'q"

definition querySyncthing :: "gotime \<Rightarrow> fsys \<Rightarrow> 'q querier \<Rightarrow> 'q \<Rightarrow> (FolderObs list \<times> LivePeer list) option \<times> 'q" where
  "querySyncthing now f Q q =
    (case q_GetConfig Q q of
       (None, q1) \<Rightarrow> (None, q1)
     | (Some cfg, q1) \<Rightarrow>
     (case q_GetStatus Q q1 of
       (None, q2) \<Rightarrow> (None, q2)
     | (Some myID, q2) \<Rightarrow>
     (case q_GetConnections Q q2 of
       (None, q3) \<Rightarrow> (None, q3)
     | (Some conns, q3) \<Rightarrow> (Some (query_folders myID (folderMarkerMissing f) cfg, query_peers now conns cfg), q3))))"

definition offered :: "PendingFolder \<Rightarrow> OfferedFolder" where
  "offered f = \<lparr>off_FolderID = pf_ID f, off_Label = pf_Label f, off_FromDeviceID = pf_ReceivedFrom f\<rparr>"

text \<open>
  The optional inputs, None where nil; the wake flag is state, since Take clears it.
\<close>

record obs_inputs =
  oi_Activity :: "(string \<Rightarrow> gotime option) option"
  oi_Health :: "(string \<Rightarrow> FolderHealth option) option"
  oi_Wake :: bool
  oi_LastRescans :: "(string \<Rightarrow> gotime option) option"

record ('q, 'g) oworld =
  ow_q :: 'q
  ow_hot :: bool
  ow_git :: 'g

definition wake_Take :: "bool \<Rightarrow> bool \<times> bool" where
  "wake_Take hot = (hot, False)"

definition by_path :: "FolderObs list \<Rightarrow> (string \<Rightarrow> 'a option) option \<Rightarrow> string \<Rightarrow> 'a option" where
  "by_path folders querier path =
    (case querier of None \<Rightarrow> None | Some ask \<Rightarrow> if path \<in> fo_Path ` set folders then ask path else None)"

definition observed_base :: "gotime \<Rightarrow> Observed" where
  "observed_base now = \<lparr>ob_ManagedFolders = [], ob_TrackedRepos = [], ob_LivePeers = [], ob_CachedState = None,
     ob_LastActivityByPath = None, ob_WatchHealthByPath = (\<lambda>_. None), ob_SleepWakeSeen = False,
     ob_LastRescanByPath = (\<lambda>_. None), ob_Now = now, ob_OfferedFolders = [], ob_PeerNameByID = (\<lambda>_. None)\<rparr>"

datatype observe_error = QueryingSyncthing | LoadingState

text \<open>The second half, from the folders on: the per-path queries, the wake flag, state.toml, the tracked repositories.\<close>

definition observe_local :: "'g oenv \<Rightarrow> obs_inputs \<Rightarrow> unit + StateV2 option \<Rightarrow> Observed \<Rightarrow> ('q, 'g) oworld \<Rightarrow>
    (Observed \<times> observe_error option) \<times> ('q, 'g) oworld" where
  "observe_local E I state obs w =
    (let fs = ob_ManagedFolders obs;
         obs1 = obs\<lparr>ob_LastActivityByPath := (if oi_Activity I = None then None else Some (by_path fs (oi_Activity I))),
                    ob_WatchHealthByPath := by_path fs (oi_Health I)\<rparr>;
         (seen, hot) = (if oi_Wake I then wake_Take (ow_hot w) else (False, ow_hot w));
         obs2 = obs1\<lparr>ob_SleepWakeSeen := seen, ob_LastRescanByPath := by_path fs (oi_LastRescans I)\<rparr>;
         w1 = w\<lparr>ow_hot := hot\<rparr>
     in case state of
          Inl _ \<Rightarrow> ((obs2, Some LoadingState), w1)
        | Inr st \<Rightarrow>
          (case queryRepos E (case st of None \<Rightarrow> [] | Some s \<Rightarrow> st_TrackedOverrides s) st (ow_git w1) of (rs, g) \<Rightarrow>
             ((obs2\<lparr>ob_CachedState := st, ob_TrackedRepos := rs\<rparr>, None), w1\<lparr>ow_git := g\<rparr>)))"

definition newObservedProvider :: "'g oenv \<Rightarrow> 'q querier option \<Rightarrow> obs_inputs \<Rightarrow> unit + StateV2 option \<Rightarrow> ('q, 'g) oworld \<Rightarrow>
    (Observed \<times> observe_error option) \<times> ('q, 'g) oworld" where
  "newObservedProvider E querier I state w =
    (case querier of
       None \<Rightarrow> observe_local E I state (observed_base (oe_now E)) w
     | Some Q \<Rightarrow>
       (case querySyncthing (oe_now E) (oe_fs E) Q (ow_q w) of
          (None, q) \<Rightarrow> ((observed_base (oe_now E), Some QueryingSyncthing), w\<lparr>ow_q := q\<rparr>)
        | (Some (folders, peers), q1) \<Rightarrow>
          (case q_GetPendingFolders Q q1 of (pf, q2) \<Rightarrow>
             observe_local E I state
               ((observed_base (oe_now E))\<lparr>ob_ManagedFolders := folders, ob_LivePeers := peers,
                  ob_OfferedFolders := (case pf of None \<Rightarrow> [] | Some fs \<Rightarrow> map offered fs)\<rparr>)
               (w\<lparr>ow_q := q2\<rparr>))))"

section \<open>A pass\<close>

text \<open>
  augmentObservedRepos on the desired repositories; \<open>queryRepoGitState\<close> as above, in the world of the pass.
\<close>

fun augment_paths :: "(string \<Rightarrow> StateV2 option \<Rightarrow> 'w \<Rightarrow> RepoObs \<times> 'w) \<Rightarrow> string set \<Rightarrow> StateV2 option \<Rightarrow> string list \<Rightarrow> RepoObs list \<Rightarrow> 'w \<Rightarrow> RepoObs list \<times> 'w" where
  "augment_paths query seen state [] rs w = (rs, w)"
| "augment_paths query seen state (p # ps) rs w =
    (if p \<in> seen then augment_paths query seen state ps rs w
     else case query p state w of (r, w') \<Rightarrow> augment_paths query seen state ps (rs @ [r]) w')"

definition augmentObservedRepos :: "(string \<Rightarrow> StateV2 option \<Rightarrow> 'w \<Rightarrow> RepoObs \<times> 'w) \<Rightarrow> Observed \<Rightarrow> Desired \<Rightarrow> 'w \<Rightarrow> Observed \<times> 'w" where
  "augmentObservedRepos query obs d w =
    (if d_Repos d = [] then (obs, w)
     else case augment_paths query (ro_Path ` set (ob_TrackedRepos obs)) (ob_CachedState obs) (map fst (d_Repos d)) (ob_TrackedRepos obs) w of
       (rs, w') \<Rightarrow> (obs\<lparr>ob_TrackedRepos := rs\<rparr>, w'))"

text \<open>The providers and the applier as functions on the world; an error is of type \<open>'e\<close>.\<close>

record ('e, 'w) Reconciler =
  r_Desired :: "'w \<Rightarrow> ('e + Desired) \<times> 'w"
  r_Observed :: "'w \<Rightarrow> ('e + Observed) \<times> 'w"
  r_query :: "string \<Rightarrow> StateV2 option \<Rightarrow> 'w \<Rightarrow> RepoObs \<times> 'w"
  r_Apply :: "Action \<Rightarrow> 'w \<Rightarrow> 'e option \<times> 'w"

fun apply_plan :: "(Action \<Rightarrow> 'w \<Rightarrow> 'e option \<times> 'w) \<Rightarrow> Plan \<Rightarrow> 'e option \<Rightarrow> 'w \<Rightarrow> 'e option \<times> 'w" where
  "apply_plan apply [] firstErr w = (firstErr, w)"
| "apply_plan apply (a # as) firstErr w =
    (case apply a w of (e, w') \<Rightarrow> apply_plan apply as (if e \<noteq> None \<and> firstErr = None then e else firstErr) w')"

definition Reconcile :: "gotime \<Rightarrow> ('e, 'w) Reconciler \<Rightarrow> 'w \<Rightarrow> (Plan \<times> 'e option) \<times> 'w" where
  "Reconcile wall R w =
    (case r_Desired R w of
       (Inl e, w1) \<Rightarrow> (([], Some e), w1)
     | (Inr d, w1) \<Rightarrow>
     (case r_Observed R w1 of
       (Inl e, w2) \<Rightarrow> (([], Some e), w2)
     | (Inr ob, w2) \<Rightarrow>
     (case augmentObservedRepos (r_query R) ob d w2 of (ob', w3) \<Rightarrow>
       let plan = Diff wall d ob' in
       (case apply_plan (r_Apply R) plan None w3 of (firstErr, w4) \<Rightarrow> ((plan, firstErr), w4)))))"

text \<open>StubApplier: it records every action and fails those it has an error for.\<close>

record 'e StubApplier =
  sa_Applied :: "Action list"
  sa_Errors :: "string \<Rightarrow> 'e option"

definition StubApplier_Apply :: "Action \<Rightarrow> 'e StubApplier \<Rightarrow> 'e option \<times> 'e StubApplier" where
  "StubApplier_Apply a s = (sa_Errors s (Describe a), s\<lparr>sa_Applied := sa_Applied s @ [a]\<rparr>)"

section \<open>Reading git status\<close>

text \<open>
  Porcelain version 2 as git-status(1) gives it: the fields before the path are separated by single spaces,
  seven of them for an ordinary entry after its type, eight for a renamed one, nine for an unmerged one.
\<close>

datatype status_entry = Ordinary "string list" string | Renamed "string list" string string
  | Unmerged "string list" string | Untracked string

definition fields :: "string list \<Rightarrow> string" where
  "fields ms = concat (map (\<lambda>m. m @ '' '') ms)"

fun entry_line :: "status_entry \<Rightarrow> string" where
  "entry_line (Ordinary ms p) = fields (''1'' # ms) @ p"
| "entry_line (Renamed ms p orig) = fields (''2'' # ms) @ p @ [CHR 0x09] @ orig"
| "entry_line (Unmerged ms p) = fields (''u'' # ms) @ p"
| "entry_line (Untracked p) = ''? '' @ p"

definition plain_path :: "string \<Rightarrow> bool" where
  "plain_path p \<longleftrightarrow> p \<noteq> '''' \<and> list_all (\<lambda>c. 32 \<le> (of_char c :: nat)) p"

definition field_ok :: "string \<Rightarrow> bool" where
  "field_ok m \<longleftrightarrow> list_all (\<lambda>c. 32 < (of_char c :: nat)) m"

fun entry_ok :: "status_entry \<Rightarrow> bool" where
  "entry_ok (Ordinary ms p) \<longleftrightarrow> length ms = 7 \<and> list_all field_ok ms \<and> plain_path p"
| "entry_ok (Renamed ms p orig) \<longleftrightarrow> length ms = 8 \<and> list_all field_ok ms \<and> plain_path p \<and> plain_path orig"
| "entry_ok (Unmerged ms p) \<longleftrightarrow> length ms = 9 \<and> list_all field_ok ms \<and> plain_path p"
| "entry_ok (Untracked p) \<longleftrightarrow> plain_path p"

text \<open>The path the parser takes from an entry: of an unmerged one, the last two object names come with it.\<close>

fun entry_path :: "status_entry \<Rightarrow> string" where
  "entry_path (Ordinary ms p) = p"
| "entry_path (Renamed ms p orig) = p"
| "entry_path (Unmerged ms p) = fields (drop 7 ms) @ p"
| "entry_path (Untracked p) = p"

lemma IndexByte_first: "c \<notin> set a \<Longrightarrow> IndexByte (a @ c # b) c = Some (length a)"
  by (induction a) auto

lemma IndexByte_none: "c \<notin> set a \<Longrightarrow> IndexByte a c = None"
  by (induction a) auto

lemma field_no_space: "field_ok m \<Longrightarrow> CHR '' '' \<notin> set m"
  by (auto simp: field_ok_def list_all_iff)

lemma fieldFromN_fields:
  "list_all field_ok ms \<Longrightarrow> n \<le> length ms \<Longrightarrow> fieldFromN n (fields ms @ rest) = fields (drop n ms) @ rest"
proof (induction ms arbitrary: n)
  case (Cons m ms)
  show ?case
  proof (cases n)
    case (Suc k)
    have "IndexByte (m @ CHR '' '' # (fields ms @ rest)) CHR '' '' = Some (length m)"
      using Cons.prems(1) by (intro IndexByte_first field_no_space) simp
    then show ?thesis using Cons Suc by (simp add: fields_def)
  qed simp
qed (simp add: fields_def)

lemma plain_no_tab: "plain_path p \<Longrightarrow> CHR 0x09 \<notin> set p"
  by (auto simp: plain_path_def list_all_iff)

lemma digit_fields: "field_ok ''1''" "field_ok ''2''" "field_ok ''u''"
  by (simp_all add: field_ok_def)

lemma porcelain_entry: "entry_ok e \<Longrightarrow> porcelainV2Path (entry_line e) = entry_path e"
proof (cases e)
  case (Ordinary ms p)
  assume "entry_ok e"
  then show ?thesis using fieldFromN_fields[of "''1'' # ms" 8 p] Ordinary digit_fields by (simp add: porcelainV2Path_def fields_def)
next
  case (Renamed ms p orig)
  assume e: "entry_ok e"
  then have "IndexByte (p @ CHR 0x09 # orig) (CHR 0x09) = Some (length p)"
    using Renamed by (intro IndexByte_first plain_no_tab) simp
  then show ?thesis using fieldFromN_fields[of "''2'' # ms" 9 "p @ CHR 0x09 # orig"] Renamed e digit_fields
    by (simp add: porcelainV2Path_def fields_def)
next
  case (Unmerged ms p)
  assume "entry_ok e"
  then show ?thesis using fieldFromN_fields[of "''u'' # ms" 8 p] Unmerged digit_fields by (simp add: porcelainV2Path_def fields_def)
next
  case (Untracked p)
  assume "entry_ok e"
  then show ?thesis using Untracked by (cases p) (auto simp: porcelainV2Path_def plain_path_def)
qed

lemma raw_lines_concat: "list_all (\<lambda>l. newline \<notin> set l) ls \<Longrightarrow> raw_lines (concat (map (\<lambda>l. l @ nl) ls)) = ls"
proof -
  have "str_Split newline (concat (map (\<lambda>l. l @ nl) ls)) = ls @ ['''']" if "list_all (\<lambda>l. newline \<notin> set l) ls"
    using that
  proof (induction ls)
    case (Cons l ls)
    then show ?case using split_append[of newline l "concat (map (\<lambda>l. l @ nl) ls)"] by (simp add: nl_newline split_none)
  qed simp
  then show "list_all (\<lambda>l. newline \<notin> set l) ls \<Longrightarrow> ?thesis" by (simp add: raw_lines_def)
qed

definition line_ok :: "nat \<Rightarrow> string \<Rightarrow> bool" where
  "line_ok buf l \<longleftrightarrow> length l < buf \<and> list_all (\<lambda>c. 32 \<le> (of_char c :: nat) \<or> c = CHR 0x09) l"

lemma scan_lines_concat:
  assumes "list_all (line_ok buf) ls"
  shows "scan_lines buf (concat (map (\<lambda>l. l @ nl) ls)) = ls"
proof -
  have ls: "raw_lines (concat (map (\<lambda>l. l @ nl) ls)) = ls"
    using assms by (intro raw_lines_concat) (fastforce simp: line_ok_def list_all_iff newline_def)
  have t: "takeWhile (\<lambda>l. length l < buf) ls = ls" using assms by (simp add: line_ok_def list_all_iff)
  have "dropCR l = l" if "l \<in> set ls" for l
  proof -
    have "l \<noteq> '''' \<Longrightarrow> 32 \<le> (of_char (last l) :: nat) \<or> last l = CHR 0x09"
      using assms that last_in_set[of l] unfolding line_ok_def list_all_iff by blast
    then have "\<not> (l \<noteq> '''' \<and> last l = CHR 0x0D)" by auto
    then show ?thesis unfolding dropCR_def by (rule if_not_P)
  qed
  then have "map dropCR ls = ls" by (rule map_idI)
  then show ?thesis by (simp only: scan_lines_def ls t)
qed

lemma fields_chars: "list_all field_ok ms \<Longrightarrow> c \<in> set (fields ms) \<Longrightarrow> 32 \<le> (of_char c :: nat)"
  by (induction ms) (auto simp: fields_def field_ok_def list_all_iff intro: less_imp_le)

lemma entry_chars: "entry_ok e \<Longrightarrow> list_all (\<lambda>c. 32 \<le> (of_char c :: nat) \<or> c = CHR 0x09) (entry_line e)"
  unfolding list_all_iff
proof
  fix c assume e: "entry_ok e" and c: "c \<in> set (entry_line e)"
  have F: "32 \<le> (of_char c :: nat)" if "c \<in> set (fields (k # ms))" "field_ok k" "list_all field_ok ms" for k ms
    using fields_chars[of "k # ms" c] that by simp
  show "32 \<le> (of_char c :: nat) \<or> c = CHR 0x09"
    using e c F digit_fields by (cases e) (auto simp: plain_path_def list_all_iff)
qed

lemma Max_insert_swap: "finite A \<Longrightarrow> Max (insert t (insert a A)) = max a (Max (insert t A))" for t a :: gotime
  using Max_insert[of "insert t A" a] by (simp add: insert_commute)

lemma entry_start: "entry_line e \<noteq> '''' \<and> hd (entry_line e) \<noteq> CHR ''#''"
  by (cases e) (auto simp: fields_def)

lemma entry_path_nonempty: "entry_ok e \<Longrightarrow> entry_path e \<noteq> ''''"
  by (cases e) (auto simp: plain_path_def)

text \<open>The files among the changed paths.\<close>

definition changed_files :: "fsys \<Rightarrow> string \<Rightarrow> status_entry list \<Rightarrow> string set" where
  "changed_files f repo es = {p. \<exists>e\<in>set es. p = path_Join repo (entry_path e) \<and> (\<exists>s. os_Stat f p = Inr (FileN s))}"

lemma changed_files_snoc:
  "changed_files f repo (es @ [e]) = changed_files f repo es \<union>
    (case os_Stat f (path_Join repo (entry_path e)) of Inr (FileN _) \<Rightarrow> {path_Join repo (entry_path e)} | _ \<Rightarrow> {})"
  by (auto simp: changed_files_def split: sum.splits node.splits)

lemma finite_changed [simp]: "finite (changed_files f repo es)"
proof -
  have "changed_files f repo es \<subseteq> (\<lambda>e. path_Join repo (entry_path e)) ` set es" by (auto simp: changed_files_def)
  then show ?thesis by (rule finite_subset) simp
qed

lemma status_entries:
  "list_all entry_ok es \<Longrightarrow> foldl (status_step f mtime repo) (head, dirty, t) (map entry_line es) =
    (head, dirty \<or> es \<noteq> [], Max (insert t (mtime ` changed_files f repo es)))"
proof (induction es rule: rev_induct)
  case (snoc e es)
  have e: "entry_ok e" and es: "list_all entry_ok es" using snoc.prems by simp_all
  let ?p = "path_Join repo (entry_path e)" and ?M = "Max (insert t (mtime ` changed_files f repo es))"
  have step: "status_step f mtime repo (head, d, m) (entry_line e) =
      (head, True, case os_Stat f ?p of Inr (FileN _) \<Rightarrow> max m (mtime ?p) | _ \<Rightarrow> m)" for d m
    using entry_start[of e] entry_path_nonempty[OF e]
    by (auto simp: status_step_def porcelain_entry[OF e] Let_def time_After_def max_def split: sum.splits node.splits)
  have "Max (insert t (mtime ` changed_files f repo (es @ [e]))) = (case os_Stat f ?p of Inr (FileN _) \<Rightarrow> max ?M (mtime ?p) | _ \<Rightarrow> ?M)"
    by (auto simp: changed_files_snoc Max_insert_swap max.commute simp del: Max_insert split: sum.splits node.splits)
  then show ?case using snoc.IH[OF es] step by simp
qed (simp add: changed_files_def)

lemma status_branch:
  assumes "oid \<noteq> ''''" "list_all (\<lambda>c. \<not> is_space c) oid" "oid \<noteq> ''(initial)''"
  shows "status_step f mtime repo ('''', False, 0) (oid_prefix @ oid) = (oid, False, 0)"
proof -
  have d: "dropWhile is_space s = s" if "\<forall>c\<in>set s. \<not> is_space c" for s using that by (cases s) auto
  have "TrimSpace oid = oid" using assms(2) by (simp add: TrimSpace_def list_all_iff d)
  then show ?thesis using assms by (simp add: status_step_def Let_def oid_prefix_def HasPrefix_def)
qed


text \<open>A file in conflict written at 9, an ordinary change at 4: the pass sees 4.\<close>

definition demo_entries :: "status_entry list" where
  "demo_entries = [Unmerged [''UU'', ''N...'', ''100644'', ''100644'', ''100644'', ''100644'', ''h1'', ''h2'', ''h3''] ''a.txt'',
     Ordinary [''.M'', ''N...'', ''100644'', ''100644'', ''100644'', ''h1'', ''h2''] ''b.txt'']"

definition demo_fs :: fsys where
  "demo_fs = \<lparr>nodes = (\<lambda>p. if p = ''/r/a.txt'' \<or> p = ''/r/b.txt'' then Some (FileN '''') else None), broken = (\<lambda>_. False)\<rparr>"


section \<open>A pass goes on after errors\<close>

definition run_all :: "(Action \<Rightarrow> 'w \<Rightarrow> 'e option \<times> 'w) \<Rightarrow> Plan \<Rightarrow> 'w \<Rightarrow> 'w" where
  "run_all apply plan w = foldl (\<lambda>w a. snd (apply a w)) w plan"

text \<open>What applying action \<open>i\<close> of the plan returns, in the world its predecessors left.\<close>

definition result_at :: "(Action \<Rightarrow> 'w \<Rightarrow> 'e option \<times> 'w) \<Rightarrow> Plan \<Rightarrow> 'w \<Rightarrow> nat \<Rightarrow> 'e option" where
  "result_at apply plan w i = fst (apply (plan ! i) (run_all apply (take i plan) w))"

definition first_error :: "'e option list \<Rightarrow> 'e option" where
  "first_error rs = (case find (\<lambda>r. r \<noteq> None) rs of None \<Rightarrow> None | Some r \<Rightarrow> r)"

lemma first_error_simps [simp]:
  "first_error [] = None"
  "first_error (r # rs) = (if r \<noteq> None then r else first_error rs)"
  by (simp_all add: first_error_def)

lemma apply_plan_eq:
  "apply_plan apply plan e w = (if e \<noteq> None then e else first_error (map (result_at apply plan w) [0..<length plan]), run_all apply plan w)"
proof (induction plan arbitrary: e w)
  case (Cons a as)
  obtain r w1 where r: "apply a w = (r, w1)" by fastforce
  have "map (result_at apply (a # as) w) [0..<length (a # as)] = r # map (result_at apply as w1) [0..<length as]"
    by (simp add: upt_conv_Cons map_Suc_upt[symmetric] result_at_def run_all_def r del: upt_Suc)
  then show ?case using Cons.IH[of _ w1] r by (simp add: run_all_def del: upt_Suc)
qed (simp add: run_all_def)

text \<open>Nothing went wrong exactly if every action returned nil where it ran.\<close>

lemma first_error_None: "first_error rs = None \<longleftrightarrow> list_all (\<lambda>r. r = None) rs"
  by (induction rs) auto

lemma StubApplier_records:
  "snd (apply_plan StubApplier_Apply plan e s) = s\<lparr>sa_Applied := sa_Applied s @ plan\<rparr>"
  by (induction plan arbitrary: e s) (auto simp: StubApplier_Apply_def)

text \<open>
  C29: a pass attempts every action of its plan, in order, whatever fails: once both providers have answered, the plan is
  that of Diff on the augmented observation, each action is applied in the world its predecessors left, failed ones
  included, and the error returned is that of the first action that failed, nil if none did.
\<close>

theorem Reconcile_continues_on_error:
  assumes "r_Desired R w = (Inr d, w1)" "r_Observed R w1 = (Inr ob, w2)" "augmentObservedRepos (r_query R) ob d w2 = (ob', w3)"
  shows "Reconcile wall R w =
    ((Diff wall d ob', first_error (map (result_at (r_Apply R) (Diff wall d ob') w3) [0..<length (Diff wall d ob')])),
     run_all (r_Apply R) (Diff wall d ob') w3)"
  using assms by (simp add: Reconcile_def apply_plan_eq Let_def)

text \<open>A plan of which every action of the demonstration is attempted though the first one fails.\<close>

definition demo_reconciler :: "(string, string StubApplier) Reconciler" where
  "demo_reconciler = \<lparr>r_Desired = (\<lambda>w. (Inr demo_desired, w)), r_Observed = (\<lambda>w. (Inr demo_observed, w)),
     r_query = (\<lambda>p st w. (empty_RepoObs p, w)), r_Apply = StubApplier_Apply\<rparr>"

theorem Reconcile_continues_on_error_witness:
  "case Reconcile 0 demo_reconciler \<lparr>sa_Applied = [], sa_Errors = (\<lambda>_. Some ''boom'')\<rparr> of ((plan, e), w) \<Rightarrow>
     e = Some ''boom'' \<and> sa_Applied w = plan \<and> plan \<noteq> []"
proof -
  let ?w = "\<lparr>sa_Applied = [], sa_Errors = (\<lambda>_. Some ''boom'')\<rparr>" and ?plan = "Diff 0 demo_desired demo_observed"
  have a: "augmentObservedRepos (r_query demo_reconciler) demo_observed demo_desired ?w = (demo_observed, ?w)"
    by (simp add: augmentObservedRepos_def demo_reconciler_def demo_observed_def demo_desired_def empty_RepoObs_def)
  have "AddSyncthingDevice ''p1'' ''D1'' \<in> set (peer_actions demo_desired demo_observed)"
    by (simp add: peer_actions_def demo_desired_def demo_observed_def)
  then have ne: "?plan \<noteq> []" by (auto simp: Diff_def)
  have s: "r_Apply demo_reconciler = StubApplier_Apply" by (simp add: demo_reconciler_def)
  have r: "run_all StubApplier_Apply ?plan ?w = ?w\<lparr>sa_Applied := ?plan\<rparr>"
    using StubApplier_records[of ?plan None ?w] by (simp add: apply_plan_eq)
  have "result_at StubApplier_Apply ?plan ?w 0 = Some ''boom''" by (simp add: result_at_def run_all_def StubApplier_Apply_def)
  then have "first_error (map (result_at StubApplier_Apply ?plan ?w) [0..<length ?plan]) = Some ''boom''"
    using ne by (cases "length ?plan") (simp_all add: upt_conv_Cons del: upt_Suc)
  then show ?thesis
    using ne r Reconcile_continues_on_error[of demo_reconciler ?w demo_desired ?w demo_observed ?w demo_observed ?w 0] a
    by (simp add: s) (simp add: demo_reconciler_def)
qed

section \<open>Every desired repository is observed\<close>

lemma queryRepoGitState_path [simp]: "ro_Path (fst (queryRepoGitState E p st g)) = p"
  by (simp add: queryRepoGitState_def split: prod.splits)

lemma augment_paths_eq:
  assumes "\<And>p st w. ro_Path (fst (query p st w)) = p"
  shows "\<exists>new. fst (augment_paths query seen st ps rs w) = rs @ new \<and> map ro_Path new = filter (\<lambda>p. p \<notin> seen) ps"
proof (induction ps arbitrary: rs w)
  case (Cons p ps)
  then show ?case using assms[of p st w] by (auto split: prod.splits) (metis append.assoc append_Cons append_Nil list.simps(9))
qed simp

text \<open>
  The pass sees every repository it is to manage, once, in a fixed order: the observation handed to Diff lists the
  tracked repositories as they were and then each desired one that was not among them, in the order of the desired state;
  nothing else in the observation changes.
\<close>

theorem augment_observes_every_repo:
  "let obs' = fst (augmentObservedRepos (queryRepoGitState E) obs d g) in
     map ro_Path (ob_TrackedRepos obs') = map ro_Path (ob_TrackedRepos obs) @
       filter (\<lambda>p. p \<notin> ro_Path ` set (ob_TrackedRepos obs)) (map fst (d_Repos d)) \<and>
     take (length (ob_TrackedRepos obs)) (ob_TrackedRepos obs') = ob_TrackedRepos obs \<and>
     obs' = obs\<lparr>ob_TrackedRepos := ob_TrackedRepos obs'\<rparr>"
proof (cases "d_Repos d = []")
  case False
  obtain new where "fst (augment_paths (queryRepoGitState E) (ro_Path ` set (ob_TrackedRepos obs)) (ob_CachedState obs)
        (map fst (d_Repos d)) (ob_TrackedRepos obs) g) = ob_TrackedRepos obs @ new"
    "map ro_Path new = filter (\<lambda>p. p \<notin> ro_Path ` set (ob_TrackedRepos obs)) (map fst (d_Repos d))"
    using augment_paths_eq[of "queryRepoGitState E", OF queryRepoGitState_path] by blast
  then show ?thesis using False by (auto simp: augmentObservedRepos_def Let_def split: prod.splits)
qed (simp add: augmentObservedRepos_def)

section \<open>The wake flag\<close>

text \<open>
  A resume from suspend is forgotten if state.toml cannot be read at that moment. The flag is taken before the
  file is loaded, the pass ends with the error, and when the next pass runs with the file in order the
  rescan after the wake is not planned: the observation says no wake was seen.
\<close>

theorem wake_event_lost_on_bad_state:
  assumes "oi_Wake I" "newObservedProvider E querier I (Inl ()) w = ((obs1, e1), w1)" "e1 = Some LoadingState"
    and "newObservedProvider E2 querier2 I (Inr st) w1 = ((obs2, None), w2)"
  shows "ob_SleepWakeSeen obs1 = ow_hot w \<and> \<not> ob_SleepWakeSeen obs2"
proof -
  have L: "observe_local E I (Inl ()) obs v = ((obs1, e1), w1) \<Longrightarrow> ow_hot v = ow_hot w \<Longrightarrow> ob_SleepWakeSeen obs1 = ow_hot w \<and> \<not> ow_hot w1" for obs v
    using assms(1) by (auto simp: observe_local_def Let_def wake_Take_def)
  have 1: "ob_SleepWakeSeen obs1 = ow_hot w \<and> \<not> ow_hot w1"
    using assms(2,3) L unfolding newObservedProvider_def
    by (auto split: option.splits prod.splits)
  have L2: "observe_local E2 I (Inr st) obs v = ((obs2, None), w2) \<Longrightarrow> ow_hot v = ow_hot w1 \<Longrightarrow> ob_SleepWakeSeen obs2 = ow_hot w1" for obs v
    using assms(1) by (auto simp: observe_local_def Let_def wake_Take_def split: prod.splits)
  have "ob_SleepWakeSeen obs2 = ow_hot w1"
    using assms(4) L2 unfolding newObservedProvider_def by (auto split: option.splits prod.splits)
  with 1 show ?thesis by simp
qed

theorem wake_event_lost_on_bad_state_witness:
  "\<exists>E I (w :: (unit, unit) oworld) w1. ow_hot w \<and> snd (newObservedProvider E None I (Inl ()) w) = w1 \<and>
     \<not> ob_SleepWakeSeen (fst (fst (newObservedProvider E None I (Inr None) w1)))"
proof -
  define E :: "unit oenv" where "E = \<lparr>oe_git = (\<lambda>_ _ g. ((False, [], []), g)), oe_fs = demo_fs, oe_mtime = (\<lambda>_. 0), oe_cwd = ''/'', oe_now = 1\<rparr>"
  define I where "I = \<lparr>oi_Activity = None, oi_Health = None, oi_Wake = True, oi_LastRescans = None\<rparr>"
  define w :: "(unit, unit) oworld" where "w = \<lparr>ow_q = (), ow_hot = True, ow_git = ()\<rparr>"
  obtain o1 e1 w1 where 1: "newObservedProvider E None I (Inl ()) w = ((o1, e1), w1)" by (metis prod.collapse)
  obtain o2 e2 w2 where 2: "newObservedProvider E None I (Inr None) w1 = ((o2, e2), w2)" by (metis prod.collapse)
  have e: "e1 = Some LoadingState" "e2 = None" "oi_Wake I" "ow_hot w" using 1 2 by (auto simp: newObservedProvider_def observe_local_def Let_def I_def w_def split: prod.splits)
  from wake_event_lost_on_bad_state[OF e(3) 1 e(1), of E None None o2 w2] 2 e(2) have "\<not> ob_SleepWakeSeen o2" by simp
  then show ?thesis using 1 2 e(4) by (metis fst_conv snd_conv)
qed

end
