(* ===== verification/Pass.thy ===== *)
theory Pass
  imports Observe
begin

text \<open>
  The whole pass: the reconciler of cmd/dotkeeper/cmds\_v5.go (startReconcileDaemon) with the
  real providers and the real applier on one world. The main result follows the configuration of Syncthing through a
  pass, from the observation over the plan and the edits of the applier to the next observation.
\<close>

section \<open>The configuration and the observed folders\<close>

text \<open>The observed folders up to the marker, which the configuration does not determine.\<close>

definition no_marker :: "FolderObs \<Rightarrow> FolderObs" where
  "no_marker x = x\<lparr>fo_MarkerDirMissing := False\<rparr>"

definition blind :: "Observed \<Rightarrow> Observed" where
  "blind ob = ob\<lparr>ob_ManagedFolders := map no_marker (ob_ManagedFolders ob)\<rparr>"

lemma no_marker_simps [simp]:
  "fo_SyncthingFolderID (no_marker x) = fo_SyncthingFolderID x" "fo_Path (no_marker x) = fo_Path x"
  "fo_Devices (no_marker x) = fo_Devices x" "fo_RescanIntervalS (no_marker x) = fo_RescanIntervalS x"
  "fo_FsWatcherEnabled (no_marker x) = fo_FsWatcherEnabled x" "fo_Hashers (no_marker x) = fo_Hashers x"
  "no_marker (x\<lparr>fo_Devices := ds\<rparr>) = (no_marker x)\<lparr>fo_Devices := ds\<rparr>"
  "no_marker (x\<lparr>fo_Paused := b\<rparr>) = (no_marker x)\<lparr>fo_Paused := b\<rparr>"
  "no_marker (x\<lparr>fo_MarkerDirMissing := b\<rparr>) = no_marker x"
  "no_marker (x\<lparr>fo_RescanIntervalS := n, fo_FsWatcherEnabled := c, fo_Hashers := h\<rparr>) =
     (no_marker x)\<lparr>fo_RescanIntervalS := n, fo_FsWatcherEnabled := c, fo_Hashers := h\<rparr>"
  "no_marker (new_folder f p ds) = new_folder f p ds"
  "(no_marker x)\<lparr>fo_MarkerDirMissing := False\<rparr> = no_marker x"
  by (simp_all add: no_marker_def new_folder_def)

lemma query_no_marker: "map no_marker (query_folders myID missing cfg) = query_folders myID (\<lambda>_ _. False) cfg"
proof -
  have "map no_marker (parse_folder myID missing j) = parse_folder myID (\<lambda>_ _. False) j" for j
    by (simp add: parse_folder_def folder_view_def no_marker_def split: json.splits)
  then show ?thesis by (simp add: query_folders_def map_concat comp_def)
qed

definition configured :: "jobj \<Rightarrow> string set" where
  "configured cfg = {d. d \<noteq> '''' \<and> list_ex (has_str ''deviceID'' d) (as_arr (jget cfg ''devices''))}"

abbreviation folder_ids :: "Observed \<Rightarrow> string set" where
  "folder_ids ob \<equiv> fo_SyncthingFolderID ` set (ob_ManagedFolders ob)"

text \<open>An observation that agrees with the configuration the server holds.\<close>

definition sim :: "string \<Rightarrow> jobj \<Rightarrow> Observed \<Rightarrow> bool" where
  "sim myID cfg ob \<longleftrightarrow> ob_ManagedFolders (blind ob) = query_folders myID (\<lambda>_ _. False) cfg \<and>
     distinct (map fo_SyncthingFolderID (ob_ManagedFolders ob)) \<and> lp_DeviceID ` set (ob_LivePeers ob) \<subseteq> configured cfg"

lemma sim_folders: "sim myID cfg ob \<Longrightarrow> query_folders myID (\<lambda>_ _. False) cfg = map no_marker (ob_ManagedFolders ob)"
  by (simp add: sim_def blind_def)

lemma sim_ids:
  assumes "sim myID cfg ob"
  shows "fo_SyncthingFolderID ` set (query_folders myID (\<lambda>_ _. False) cfg) = folder_ids ob"
    and "distinct (map fo_SyncthingFolderID (query_folders myID (\<lambda>_ _. False) cfg))"
    and "'''' \<notin> folder_ids ob"
proof -
  note F = sim_folders[OF assms]
  show 1: "fo_SyncthingFolderID ` set (query_folders myID (\<lambda>_ _. False) cfg) = folder_ids ob" unfolding F by (simp add: image_image)
  show "distinct (map fo_SyncthingFolderID (query_folders myID (\<lambda>_ _. False) cfg))"
    using assms unfolding F by (simp add: sim_def comp_def)
  have "'''' \<notin> fo_SyncthingFolderID ` set (query_folders myID (\<lambda>_ _. False) cfg)"
    by (auto simp: query_folders_def parse_folder_def folder_view_def split: json.splits if_splits)
  then show "'''' \<notin> folder_ids ob" unfolding 1 .
qed

lemma blind_after: "ob_ManagedFolders (blind (observe_after a ob)) = ob_ManagedFolders (observe_after a (blind ob))"
  by (cases a) (simp_all add: blind_def on_folder_def observe_after.simps filter_map comp_def if_distrib cong: if_cong)

section \<open>One action\<close>

text \<open>What makes an action's edit do what the plan means by it.\<close>

definition step_ok :: "string \<Rightarrow> Action \<Rightarrow> bool" where
  "step_ok myID a \<longleftrightarrow> touched_folder a \<noteq> Some '''' \<and> (case a of
      AddSyncthingFolder f p ds l \<Rightarrow> myID \<notin> set ds \<and> '''' \<notin> set ds
    | UpdateSyncthingFolderDevices f ds \<Rightarrow> myID \<notin> set ds \<and> '''' \<notin> set ds
    | AddSyncthingDevice n dev \<Rightarrow> dev \<noteq> ''''
    | AcceptSubscription f l p dev n c \<Rightarrow> False
    | _ \<Rightarrow> True)"

fun added :: "Plan \<Rightarrow> string list" where
  "added [] = []"
| "added (AddSyncthingFolder f p ds l # as) = f # added as"
| "added (_ # as) = added as"

lemma added_append: "added (as @ bs) = added as @ added bs"
  by (induction as rule: added.induct) auto

lemma added_single: "added [a] = (case a of AddSyncthingFolder f p ds l \<Rightarrow> [f] | _ \<Rightarrow> [])"
  by (cases a) simp_all

lemma ids_after: "step_ok myID a \<Longrightarrow> folder_ids (observe_after a ob) \<subseteq> folder_ids ob \<union> set (added [a])"
  by (cases a) (auto simp: on_folder_def observe_after.simps step_ok_def new_folder_def split: if_splits)

lemma distinct_after:
  "distinct (map fo_SyncthingFolderID (ob_ManagedFolders ob)) \<Longrightarrow> step_ok myID a \<Longrightarrow> set (added [a]) \<inter> folder_ids ob = {} \<Longrightarrow>
   distinct (map fo_SyncthingFolderID (ob_ManagedFolders (observe_after a ob)))"
  by (cases a) (auto simp: on_folder_def observe_after.simps step_ok_def new_folder_def comp_def if_distrib distinct_map_filter cong: if_cong)

text \<open>A folder edit writes the key of the folders, a device edit that of the devices.\<close>

lemma edit_folder_form: "edit_folder f h cfg = Some cfg' \<Longrightarrow> \<exists>v. cfg' = jput ''folders'' v cfg"
  by (auto simp: edit_folder_def)

lemma edit_result_form: "edit_result (edit_folder f h cfg) = Write cfg' \<Longrightarrow> \<exists>v. cfg' = jput ''folders'' v cfg"
  using edit_folder_form by (auto simp: edit_result_def split: option.splits)

lemma folder_action_form:
  "touched_folder a = Some f \<Longrightarrow> action_edit myID a cfg = Write cfg' \<Longrightarrow> \<exists>v. cfg' = jput ''folders'' v cfg"
  using edit_result_form edit_folder_form
  by (cases a) (fastforce simp: SetFolderPaused_def UpdateFolderSchedule_def UpdateFolderDevices_def AddOrUpdateFolder_def RemoveFolder_def Let_def
      split: option.splits if_splits)+

lemma configured_folders [simp]: "configured (jput ''folders'' v cfg) = configured cfg"
  by (simp add: configured_def)

lemma query_devices [simp]: "query_folders myID missing (jput ''devices'' v cfg) = query_folders myID missing cfg"
  by (simp add: query_folders_def)

lemma configured_devices [simp]: "configured (jput ''devices'' (JArr ds) cfg) = {d. d \<noteq> '''' \<and> list_ex (has_str ''deviceID'' d) ds}"
  by (simp add: configured_def as_arr_def)

lemma clear_keeps_id [simp]: "has_str ''deviceID'' d (clear_auto_accept x) \<longleftrightarrow> has_str ''deviceID'' d x"
  by (simp add: has_str_def clear_auto_accept_def as_obj_def)

lemma update_first_list_ex:
  "(\<And>x. P (g x) = P x) \<Longrightarrow> update_first Q g xs = Some ys \<Longrightarrow> list_ex P ys = list_ex P xs"
  by (induction xs arbitrary: ys) (auto split: if_splits)

lemma AddDevice_configures:
  assumes "edit_effect (AddDevice dev n cfg) True cfg cfg'" "dev \<noteq> ''''"
  shows "configured cfg \<subseteq> configured cfg' \<and> dev \<in> configured cfg' \<and> query_folders myID missing cfg' = query_folders myID missing cfg"
proof -
  let ?ds = "as_arr (jget cfg ''devices'')"
  show ?thesis
  proof (cases "find (has_str ''deviceID'' dev) ?ds")
    case None
    have n: "has_str ''deviceID'' dev (new_device dev n)" by (simp add: has_str_def new_device_def as_obj_def jget_def)
    have "cfg' = jput ''devices'' (JArr (?ds @ [new_device dev n])) cfg"
      using assms(1) None by (simp add: AddDevice_def edit_effect_def Let_def)
    then show ?thesis using n assms(2) by (auto simp: configured_def[of cfg])
  next
    case (Some d)
    then have ex: "list_ex (has_str ''deviceID'' dev) ?ds" by (auto simp: find_Some_iff list_ex_length)
    then obtain ds where ds: "update_first (has_str ''deviceID'' dev) clear_auto_accept ?ds = Some ds"
      using update_first_None[of "has_str ''deviceID'' dev" clear_auto_accept ?ds] by (auto simp: list_ex_iff)
    have "cfg' = cfg \<or> cfg' = jput ''devices'' (JArr ds) cfg"
      using assms(1) Some ds by (auto simp: AddDevice_def edit_effect_def Let_def split: if_splits)
    moreover have "list_ex (has_str ''deviceID'' d) ds = list_ex (has_str ''deviceID'' d) ?ds" for d
      by (rule update_first_list_ex[where g = clear_auto_accept, OF _ ds]) simp
    ultimately show ?thesis using ex assms(2) by (auto simp: configured_def[of cfg])
  qed
qed

lemma after_keeps_peers: "\<nexists>n dev. a = AddSyncthingDevice n dev \<Longrightarrow> ob_LivePeers (observe_after a ob) = ob_LivePeers ob"
  by (cases a) (auto simp: on_folder_def observe_after.simps)

lemma absent_folder_after:
  "touched_folder a = Some f \<Longrightarrow> f \<notin> folder_ids ob \<Longrightarrow> step_ok myID a \<Longrightarrow> added [a] = [] \<Longrightarrow> ob_ManagedFolders (observe_after a ob) = ob_ManagedFolders ob"
  by (cases a) (auto simp: observe_after.simps on_folder_def step_ok_def intro!: map_idI filter_True)

lemma untouched_after:
  "touched_folder a = None \<Longrightarrow> ob_ManagedFolders (blind (observe_after a ob)) = ob_ManagedFolders (blind ob)"
  by (cases a) (simp_all add: blind_def observe_after.simps on_folder_def comp_def if_distrib cong: if_cong)

lemma edit_result_changes [simp]: "edit_result r \<noteq> Unchanged"
  by (simp add: edit_result_def split: option.splits)

lemma unchanged_absent:
  assumes "touched_folder a = Some f" "f \<noteq> ''''" "action_edit myID a cfg = Unchanged"
  shows "added [a] = [] \<and> f \<notin> fo_SyncthingFolderID ` set (query_folders myID missing cfg)"
proof -
  have a: "a = RemoveSyncthingFolder f"
    using assms by (cases a) (auto simp: AddOrUpdateFolder_def Let_def SetFolderPaused_def UpdateFolderSchedule_def UpdateFolderDevices_def split: option.splits)
  let ?fs = "as_arr (jget cfg ''folders'')"
  have "length (filter (\<lambda>f'. \<not> has_str ''id'' f f') ?fs) = length ?fs"
    using assms(3) by (simp add: a RemoveFolder_def Let_def split: if_splits)
  then have "\<forall>x\<in>set ?fs. \<not> has_str ''id'' f x" using length_filter_less[of _ ?fs "\<lambda>f'. \<not> has_str ''id'' f f'"] by force
  then have "edit_folder f id cfg = None" by (simp add: edit_folder_def update_first_None)
  then show ?thesis using edit_folder_None[OF assms(2), of id cfg myID missing] by (simp add: a)
qed

text \<open>An edit that succeeded keeps observation and configuration in step.\<close>

lemma sim_step:
  assumes S: "sim myID cfg ob" and ok: "step_ok myID a" "set (added [a]) \<inter> folder_ids ob = {}"
    and e: "edit_effect (action_edit myID a cfg) True cfg cfg'"
  shows "sim myID cfg' (observe_after a ob)"
proof -
  have dist: "distinct (map fo_SyncthingFolderID (ob_ManagedFolders (observe_after a ob)))"
    using S ok by (intro distinct_after) (simp_all add: sim_def)
  have peers: "lp_DeviceID ` set (ob_LivePeers ob) \<subseteq> configured cfg" using S by (simp add: sim_def)
  show ?thesis
  proof (cases "touched_folder a")
    case (Some f)
    then have f: "f \<noteq> ''''" and nd: "\<nexists>n dev. a = AddSyncthingDevice n dev" using ok(1) by (auto simp: step_ok_def)
    have dev: "lp_DeviceID ` set (ob_LivePeers (observe_after a ob)) \<subseteq> configured cfg" using peers after_keeps_peers[OF nd] by simp
    have b: "ob_ManagedFolders (blind ob) = query_folders myID (\<lambda>_ _. False) cfg" using S by (simp add: sim_def)
    have blind_ids: "folder_ids (blind ob) = folder_ids ob" by (simp add: blind_def image_image)
    show ?thesis
    proof (cases "action_edit myID a cfg")
      case NotFound
      then show ?thesis using e by (simp add: edit_effect_def)
    next
      case Unchanged
      then have c: "cfg' = cfg" using e by (simp add: edit_effect_def)
      have "added [a] = []" "f \<notin> folder_ids ob"
        using unchanged_absent[OF Some f Unchanged, of "\<lambda>_ _. False"] sim_ids(1)[OF S] by simp_all
      then show ?thesis using absent_folder_after[OF Some _ ok(1)] dist dev b unfolding c sim_def by (simp add: blind_def)
    next
      case (Write c)
      then have c: "c = cfg'" using e by (simp add: edit_effect_def)
      note W = Write[unfolded c]
      have "query_folders myID (\<lambda>_ _. False) cfg' = ob_ManagedFolders (observe_after a (blind ob))"
        using ok by (intro folder_edit_refines[OF b sim_ids(2)[OF S] Some f W]) (auto simp: step_ok_def blind_ids)
      moreover obtain v where "cfg' = jput ''folders'' v cfg" using folder_action_form[OF Some W] by blast
      ultimately show ?thesis using dist dev unfolding sim_def blind_after by simp
    qed
  next
    case None
    note U = untouched_after[OF None, of ob]
    show ?thesis
    proof (cases "\<exists>n dev. a = AddSyncthingDevice n dev")
      case True
      then obtain n dev where a: "a = AddSyncthingDevice n dev" by blast
      then have "dev \<noteq> ''''" using ok(1) by (simp add: step_ok_def)
      from AddDevice_configures[OF _ this, of n cfg cfg' myID "\<lambda>_ _. False"] show ?thesis
        using e S dist U unfolding sim_def a by (auto simp: observe_after.simps)
    next
      case False
      then have "action_edit myID a cfg = Unchanged" using None ok(1) by (cases a) (auto simp: step_ok_def)
      then have "cfg' = cfg" using e by (simp add: edit_effect_def)
      then show ?thesis using S dist U after_keeps_peers[OF False, of ob] unfolding sim_def by simp
    qed
  qed
qed

section \<open>A plan\<close>

lemma sim_run:
  assumes laws: "config_server http cfg" "acks http cfg" "status_server http myID" "\<And>ep s. cfg (snd (http ''POST'' ep None s)) = cfg s"
    and h: "ae_http E = Some http" and c: "client_ok (aw_client w) (cfg (aw_srv w)) myID"
    and S: "sim myID (cfg (aw_srv w)) ob" and ok: "list_all (step_ok myID) as" "distinct (added as)" "set (added as) \<inter> folder_ids ob = {}"
    and succ: "first_error (map (result_at (Apply E) as w) [0..<length as]) = None"
  shows "sim myID (cfg (aw_srv (run_all (Apply E) as w))) (run as ob) \<and>
    client_ok (aw_client (run_all (Apply E) as w)) (cfg (aw_srv (run_all (Apply E) as w))) myID"
  using c S ok succ
proof (induction as arbitrary: w ob)
  case (Cons a as)
  obtain r w1 where r: "Apply E a w = (r, w1)" by fastforce
  have "map (result_at (Apply E) (a # as) w) [0..<length (a # as)] = r # map (result_at (Apply E) as w1) [0..<length as]"
    by (simp add: upt_conv_Cons map_Suc_upt[symmetric] result_at_def run_all_def r del: upt_Suc)
  then have r0: "r = None" and succ: "first_error (map (result_at (Apply E) as w1) [0..<length as]) = None"
    using Cons.prems(6) by (auto simp del: upt_Suc split: if_splits)
  have so: "step_ok myID a" "list_all (step_ok myID) as" using Cons.prems(3) by simp_all
  have added: "set (added [a]) \<inter> folder_ids ob = {}" "distinct (added as)" "set (added as) \<inter> set (added [a]) = {}" "set (added as) \<inter> folder_ids ob = {}"
    using Cons.prems(4,5) by (cases a; auto)+
  have "with_paths E a = a" using so(1) by (cases a) (auto simp: step_ok_def)
  with Apply_configuration[OF laws Cons.prems(1) h r]
  have e: "edit_effect (action_edit myID a (cfg (aw_srv w))) True (cfg (aw_srv w)) (cfg (aw_srv w1))" and c1: "client_ok (aw_client w1) (cfg (aw_srv w1)) myID"
    by (simp_all add: r0)
  have "set (added as) \<inter> folder_ids (observe_after a ob) = {}" using ids_after[OF so(1), of ob] added(3,4) by blast
  from Cons.IH[OF c1 sim_step[OF Cons.prems(2) so(1) added(1) e] so(2) added(2) this succ]
  show ?case by (simp add: run_all_def r)
qed (simp add: run_all_def)

section \<open>The plans of Diff\<close>

text \<open>A desired state as the planner can carry it out: no subscriptions to accept, the own device nowhere listed.\<close>

definition plannable :: "string \<Rightarrow> Desired \<Rightarrow> bool" where
  "plannable myID d \<longleftrightarrow> d_Subscriptions d = [] \<and>
     distinct (map df_folderID (desired_folders d)) \<and> distinct (map df_path (desired_folders d)) \<and>
     list_all (\<lambda>df. myID \<notin> set (df_devices df) \<and> '''' \<notin> set (df_devices df)) (desired_folders d) \<and>
     list_all (\<lambda>(p, r). rd_Path r = p) (d_Repos d)"

lemma desired_folder_ids: "'''' \<notin> df_folderID ` set (desired_folders d)"
  by (auto simp: desired_folders_def)

lemma opt_list_mem [simp]: "a \<in> set (opt_list r) \<longleftrightarrow> r = Some a"
  by (auto simp: opt_list_def split: option.splits)

lemma folder_actions_exact:
  assumes "a \<in> set (folder_actions d ob df)"
  shows "case a of AddSyncthingFolder f p ds l \<Rightarrow> ds = df_devices df \<and> folder_at ob (df_folderID df) = None
    | UpdateSyncthingFolderDevices f ds \<Rightarrow> ds = df_devices df | _ \<Rightarrow> True"
  using assms unfolding folder_actions_def
  by (auto simp: Let_def split: option.splits if_splits dest!: autoPause_cases smartRescan_cases)

lemma folder_actions_ok:
  assumes "plannable myID d" "df \<in> set (desired_folders d)" "a \<in> set (folder_actions d ob df)"
  shows "step_ok myID a"
proof -
  have ne: "df_folderID df \<noteq> ''''" using assms(2) desired_folder_ids[of d] by force
  have ds: "myID \<notin> set (df_devices df)" "'''' \<notin> set (df_devices df)"
    using assms(1,2) by (auto simp: plannable_def list_all_iff)
  show ?thesis using folder_actions_cases[OF assms(3)] folder_actions_exact[OF assms(3)] ne ds by (auto simp: step_ok_def)
qed

lemma added_nil: "\<forall>a\<in>set xs. added [a] = [] \<Longrightarrow> added xs = []"
proof (induction xs)
  case (Cons a xs)
  then show ?case using added_append[of "[a]" xs] by simp
qed simp

lemma added_folder_actions:
  "added (folder_actions d ob df) = (if folder_at ob (df_folderID df) = None then [df_folderID df] else [])"
proof (cases "folder_at ob (df_folderID df)")
  case None
  then show ?thesis by (simp add: folder_actions_def Let_def)
next
  case (Some x)
  have "added [a] = []" if "a \<in> set (folder_actions d ob df)" for a
    using folder_actions_exact[OF that] Some by (cases a) auto
  then show ?thesis using added_nil[of "folder_actions d ob df"] Some by simp
qed

lemma added_Diff:
  assumes "coherent d ob"
  shows "added (Diff wall d ob) = filter (\<lambda>f. folder_at ob f = None) (map df_folderID (desired_folders d))"
proof -
  have 1: "added (peer_actions d ob) = []" "added (remove_actions d ob) = []"
    unfolding peer_actions_def remove_actions_def Let_def by (rule added_nil, simp)+
  have "\<forall>a\<in>set (concat (map (repo_actions d ob wall) rs)). added [a] = []" for rs
  proof
    fix a assume "a \<in> set (concat (map (repo_actions d ob wall) rs))"
    then obtain r where "a \<in> set (repo_actions d ob wall r)" by auto
    from repo_actions_cases[OF this] show "added [a] = []" by auto
  qed
  then have 2: "added (concat (map (repo_actions d ob wall) rs)) = []" for rs by (rule added_nil)
  have "added (concat (map (folder_actions d ob) dfs)) = filter (\<lambda>f. folder_at ob f = None) (map df_folderID dfs)" for dfs
    by (induction dfs) (simp_all add: added_append added_folder_actions)
  then show ?thesis by (simp add: Diff_def coherent_no_accept[OF assms] added_append 1 2)
qed

lemma Diff_ok:
  assumes P: "plannable myID d" and c: "coherent d ob" and ne: "'''' \<notin> folder_ids ob"
  shows "list_all (step_ok myID) (Diff wall d ob)" "distinct (added (Diff wall d ob))" "set (added (Diff wall d ob)) \<inter> folder_ids ob = {}"
proof -
  show "distinct (added (Diff wall d ob))" using P unfolding added_Diff[OF c] plannable_def by (intro distinct_filter) simp
  show "set (added (Diff wall d ob)) \<inter> folder_ids ob = {}" unfolding added_Diff[OF c] by (auto simp: index_last_None)
  have "step_ok myID a" if a: "a \<in> set (Diff wall d ob)" for a
  proof -
    consider "a \<in> set (peer_actions d ob)" | "a \<in> set (remove_actions d ob)"
      | df where "df \<in> set (desired_folders d)" "a \<in> set (folder_actions d ob df)" | r where "a \<in> set (repo_actions d ob wall r)"
      using a by (auto simp: Diff_def coherent_no_accept[OF c])
    then show ?thesis
    proof cases
      case 1
      then show ?thesis by (auto simp: peer_actions_def step_ok_def)
    next
      case 2
      then show ?thesis using ne by (auto simp: remove_actions_def step_ok_def Let_def image_iff)
    next
      case 3
      then show ?thesis using folder_actions_ok[OF P] by blast
    next
      case 4
      from repo_actions_cases[OF 4] show ?thesis by (auto simp: step_ok_def)
    qed
  qed
  then show "list_all (step_ok myID) (Diff wall d ob)" by (simp add: list_all_iff)
qed

text \<open>The actions that edit Syncthing's configuration to give it the structure the desired state asks for.\<close>

fun cfg_structural :: "Action \<Rightarrow> bool" where
  "cfg_structural (AddSyncthingDevice _ _) = True"
| "cfg_structural (AddSyncthingFolder _ _ _ _) = True"
| "cfg_structural (RemoveSyncthingFolder _) = True"
| "cfg_structural (UpdateSyncthingFolderDevices _ _) = True"
| "cfg_structural (UpdateSyncthingFolderSchedule _) = True"
| "cfg_structural _ = False"

lemma agreeing_lookup:
  assumes "map no_marker (ob_ManagedFolders ob2) = map no_marker (ob_ManagedFolders ob1)"
  shows "map_option no_marker (folder_at ob2 k) = map_option no_marker (folder_at ob1 k)"
  using assms index_last_map[of fo_SyncthingFolderID no_marker "ob_ManagedFolders ob1" k] index_last_map[of fo_SyncthingFolderID no_marker "ob_ManagedFolders ob2" k]
  by simp

lemma folder_actions_quiet:
  assumes "folder_settled df x" "map_option no_marker (folder_at ob (df_folderID df)) = Some (no_marker x)" "a \<in> set (folder_actions d ob df)"
  shows "\<not> cfg_structural a"
proof -
  obtain y where y: "folder_at ob (df_folderID df) = Some y" "no_marker y = no_marker x" using assms(2) by auto
  then have "fo_Devices y = fo_Devices x" "folderScheduleDrifted y = folderScheduleDrifted x"
    unfolding folderScheduleDrifted_iff using no_marker_simps(3,4,5,6) by metis+
  then have "sortedCopy (fo_Devices y) = sortedCopy (df_devices df)" "\<not> folderScheduleDrifted y"
    using assms(1) by (simp_all add: folder_settled_def sortedCopy_eq_iff)
  then show ?thesis using assms(3) y(1) unfolding folder_actions_def
    by (auto simp: Let_def stringSlicesEqual_iff split: option.splits if_splits dest!: autoPause_cases smartRescan_cases)
qed

lemma pass_settles:
  assumes c: "coherent d ob" and ob': "ob' = run (Diff wall d ob) ob"
    and F: "map no_marker (ob_ManagedFolders ob2) = map no_marker (ob_ManagedFolders ob')"
    and P: "lp_DeviceID ` set (ob_LivePeers ob') \<subseteq> lp_DeviceID ` set (ob_LivePeers ob2)"
    and a: "a \<in> set (Diff wall' d ob2)"
  shows "\<not> cfg_structural a"
proof -
  note L = agreeing_lookup[OF F]
  consider "a \<in> set (peer_actions d ob2)" | "a \<in> set (remove_actions d ob2)"
    | df where "df \<in> set (desired_folders d)" "a \<in> set (folder_actions d ob2 df)" | r where "a \<in> set (repo_actions d ob2 wall' r)"
    using a by (auto simp: Diff_def coherent_no_accept[OF c])
  then show ?thesis
  proof cases
    case 1
    then obtain p where p: "p \<in> set (d_Peers d)" "pd_DeviceID p \<noteq> ''''" "pd_DeviceID p \<notin> lp_DeviceID ` set (ob_LivePeers ob2)"
      by (auto simp: peer_actions_def)
    have "pd_DeviceID p \<notin> set (map lp_DeviceID (ob_LivePeers ob))"
      using p(3) P run_keeps_peers[of ob "Diff wall d ob"] unfolding ob' set_map by blast
    then have "AddSyncthingDevice (pd_Name p) (pd_DeviceID p) \<in> set (Diff wall d ob)"
      using p(1,2) by (auto simp: Diff_def peer_actions_def)
    from run_adds_peers[OF this, of ob] show ?thesis using p(3) P unfolding ob' set_map by blast
  next
    case 2
    then obtain x where x: "x \<in> set (ob_ManagedFolders ob2)" "fo_SyncthingFolderID x \<notin> set (map df_folderID (desired_folders d))"
      by (auto simp: remove_actions_def Let_def)
    have "folder_at ob2 (fo_SyncthingFolderID x) = None"
      using L[of "fo_SyncthingFolderID x"] unwanted_gone[OF c x(2), of wall] unfolding ob' by simp
    then show ?thesis using x(1) by (auto simp: index_last_None)
  next
    case 3
    obtain y where y: "folder_at ob' (df_folderID df) = Some y" "folder_settled df y"
      using settled_after_pass[OF c 3(1), of wall] unfolding ob' settled_def by blast
    have "map_option no_marker (folder_at ob2 (df_folderID df)) = Some (no_marker y)" using L[of "df_folderID df"] y(1) by simp
    from folder_actions_quiet[OF y(2) this 3(2)] show ?thesis .
  next
    case 4
    from repo_actions_cases[OF 4] show ?thesis by auto
  qed
qed

section \<open>The real reconciler\<close>

text \<open>The Syncthing client as querier: its state is the client with its caches and the server.\<close>

definition client_querier :: "'s http \<Rightarrow> gotime \<Rightarrow> (client \<times> 's) querier" where
  "client_querier http now = \<lparr>
     q_GetConfig = (\<lambda>(c, s). case GetConfig http c s of (r, c', s') \<Rightarrow> (r, c', s')),
     q_GetStatus = (\<lambda>(c, s). case GetStatus http c s of (r, c', s') \<Rightarrow> (r, c', s')),
     q_GetConnections = (\<lambda>(c, s). case GetConnections http now c s of (r, c', s') \<Rightarrow> (r, c', s')),
     q_GetPendingFolders = (\<lambda>(c, s). case GetPendingFolders http s of (r, s') \<Rightarrow> (r, c, s'))\<rparr>"

datatype pass_error = DesiredFailed | ObserveFailed observe_error | ApplyFailed apply_error

text \<open>
  The world of a pass is that of the applier with the wake flag. Beyond the applier's environment the providers need the
  optional inputs, the directory tree and the modification times as functions of the file system, and the
  decoder and path of machine.toml.
\<close>

type_synonym ('s, 'g) pworld = "('s, 'g) aworld \<times> bool"

record pass_env =
  pe_inputs :: obs_inputs
  pe_tree :: "fsys \<Rightarrow> dirtree"
  pe_mtime :: "fsys \<Rightarrow> string \<Rightarrow> gotime"
  pe_decode :: "string \<Rightarrow> unit + MachineConfigV2"
  pe_machine :: string

definition pass_oenv :: "('s, 'g) aenv \<Rightarrow> pass_env \<Rightarrow> ('s, 'g) aworld \<Rightarrow> 'g oenv" where
  "pass_oenv E V w = \<lparr>oe_git = ae_git E, oe_fs = aw_fs w, oe_mtime = pe_mtime V (aw_fs w), oe_cwd = ae_cwd E, oe_now = ae_now E\<rparr>"

definition real_Desired :: "('s, 'g) aenv \<Rightarrow> pass_env \<Rightarrow> ('s, 'g) pworld \<Rightarrow> (pass_error + Desired) \<times> ('s, 'g) pworld" where
  "real_Desired E V W = (case W of (w, hot) \<Rightarrow>
     (case desired_provider (ae_home E) (ae_cwd E) (pe_tree V (aw_fs w))
         (loadMachineConfigFromPath (pe_decode V) (case os_ReadFile (aw_fs w) (pe_machine V) of Inl _ \<Rightarrow> None | Inr t \<Rightarrow> Some t))
         (loadStateFromPath (ae_decode E) (aw_state w)) of
        Inl _ \<Rightarrow> (Inl DesiredFailed, W) | Inr d \<Rightarrow> (Inr d, W)))"

definition real_Observed :: "('s, 'g) aenv \<Rightarrow> pass_env \<Rightarrow> ('s, 'g) pworld \<Rightarrow> (pass_error + Observed) \<times> ('s, 'g) pworld" where
  "real_Observed E V W = (case W of (w, hot) \<Rightarrow>
     (case newObservedProvider (pass_oenv E V w) (map_option (\<lambda>http. client_querier http (ae_now E)) (ae_http E)) (pe_inputs V)
         (loadStateFromPath (ae_decode E) (aw_state w)) \<lparr>ow_q = (aw_client w, aw_srv w), ow_hot = hot, ow_git = aw_git w\<rparr> of
        ((obs, err), o') \<Rightarrow>
          (case err of None \<Rightarrow> Inr obs | Some e \<Rightarrow> Inl (ObserveFailed e),
           w\<lparr>aw_client := fst (ow_q o'), aw_srv := snd (ow_q o'), aw_git := ow_git o'\<rparr>, ow_hot o')))"

definition real_query :: "('s, 'g) aenv \<Rightarrow> pass_env \<Rightarrow> string \<Rightarrow> StateV2 option \<Rightarrow> ('s, 'g) pworld \<Rightarrow> RepoObs \<times> ('s, 'g) pworld" where
  "real_query E V p st W = (case W of (w, hot) \<Rightarrow>
     (case queryRepoGitState (pass_oenv E V w) p st (aw_git w) of (r, g) \<Rightarrow> (r, w\<lparr>aw_git := g\<rparr>, hot)))"

definition real_Apply :: "('s, 'g) aenv \<Rightarrow> Action \<Rightarrow> ('s, 'g) pworld \<Rightarrow> pass_error option \<times> ('s, 'g) pworld" where
  "real_Apply E a W = (case W of (w, hot) \<Rightarrow> (case Apply E a w of (e, w') \<Rightarrow> (map_option ApplyFailed e, w', hot)))"

definition real_Reconciler :: "('s, 'g) aenv \<Rightarrow> pass_env \<Rightarrow> (pass_error, ('s, 'g) pworld) Reconciler" where
  "real_Reconciler E V = \<lparr>r_Desired = real_Desired E V, r_Observed = real_Observed E V, r_query = real_query E V, r_Apply = real_Apply E\<rparr>"

lemma GetConnections_frame:
  assumes "config_server http cfg" "GetConnections http now c s = (r, c', s')"
  shows "cfg s' = cfg s \<and> cachedConfig c' = cachedConfig c \<and> cachedStatus c' = cachedStatus c"
  using assms(2) api_get_cfg[OF assms(1), of "''rest/system/connections''" s] unfolding GetConnections_def
  by (auto split: option.splits prod.splits if_splits)

lemma GetPendingFolders_frame: "config_server http cfg \<Longrightarrow> GetPendingFolders http s = (r, s') \<Longrightarrow> cfg s' = cfg s"
  using api_get_cfg[of http cfg "''rest/cluster/pending/folders''" s] unfolding GetPendingFolders_def
  by (auto split: option.splits prod.splits)

text \<open>What the query of Syncthing reports.\<close>

lemma querySyncthing_client:
  assumes L: "config_server http cfg" "status_server http myID" and c: "client_ok c (cfg s) myID"
    and q: "querySyncthing now f (client_querier http now) (c, s) = (r, (c', s'))"
  shows "cfg s' = cfg s \<and> client_ok c' (cfg s) myID \<and>
    (\<forall>folders peers. r = Some (folders, peers) \<longrightarrow> folders = query_folders myID (folderMarkerMissing f) (cfg s) \<and>
       (\<exists>conns. peers = query_peers now conns (cfg s)))"
proof -
  have c0: "cache_ok c (cfg s)" "cachedStatus c \<in> {None, Some myID}" using c by (simp_all add: client_ok_def)
  obtain g c1 s1 where 1: "GetConfig http c s = (g, c1, s1)" by (metis prod_cases3)
  note G = GetConfig_coherent[OF L(1) c0(1) 1] GetConfig_status[OF 1]
  obtain i c2 s2 where 2: "GetStatus http c1 s1 = (i, c2, s2)" by (metis prod_cases3)
  have I: "i \<in> {None, Some myID}" "cachedStatus c2 \<in> {None, Some myID}" using GetStatus_id[OF L(2) _ 2] G c0 by simp_all
  have k2: "cfg s2 = cfg s" "cachedConfig c2 = cachedConfig c1" using GetStatus_cfg[OF L(1) 2] G by simp_all
  obtain n c3 s3 where 3: "GetConnections http now c2 s2 = (n, c3, s3)" by (metis prod_cases3)
  note N = GetConnections_frame[OF L(1) 3]
  have q': "(r, c', s') = (case g of None \<Rightarrow> (None, c1, s1) | Some m \<Rightarrow> (case i of None \<Rightarrow> (None, c2, s2) | Some j \<Rightarrow>
      (case n of None \<Rightarrow> (None, c3, s3) | Some conns \<Rightarrow> (Some (query_folders j (folderMarkerMissing f) m, query_peers now conns m), c3, s3))))"
    unfolding q[symmetric] querySyncthing_def client_querier_def by (simp add: 1 2 3 split: option.split)
  show ?thesis using q' G I k2 N c0 unfolding client_ok_def cache_ok_def by (auto split: option.splits)
qed

lemma configured_seen: "configured cfg \<subseteq> lp_DeviceID ` set (query_peers now conns cfg)"
proof
  fix d assume "d \<in> configured cfg"
  then obtain x where "x \<in> set (as_arr (jget cfg ''devices''))" "jget (as_obj x) ''deviceID'' = JStr d" "d \<noteq> ''''"
    by (auto simp: configured_def list_ex_iff has_str_def)
  then have "d \<in> set (filter (\<lambda>d. d \<noteq> '''') (map (\<lambda>d. as_str (jget (as_obj d) ''deviceID'')) (as_arr (jget cfg ''devices''))))"
    by (auto simp: image_iff as_str_def intro!: bexI[of _ x])
  then show "d \<in> lp_DeviceID ` set (query_peers now conns cfg)"
    by (auto simp: query_peers_def Let_def image_image cong: option.case_cong split: option.splits)
qed

text \<open>What an observation that succeeded says, and that it changes nothing the applier depends on.\<close>

lemma observe_local_frame:
  assumes "observe_local E I state obs w = ((obs', e), w')"
  shows "ob_ManagedFolders obs' = ob_ManagedFolders obs \<and> ob_LivePeers obs' = ob_LivePeers obs \<and> ow_q w' = ow_q w"
  using assms by (auto simp: observe_local_def Let_def wake_Take_def split: sum.splits prod.splits if_splits)

lemma real_Observed_frame:
  assumes L: "config_server http cfg" "status_server http myID" and h: "ae_http E = Some http" and c: "client_ok (aw_client w) (cfg (aw_srv w)) myID"
    and o': "real_Observed E V (w, hot) = (r, (w', hot'))"
  shows "cfg (aw_srv w') = cfg (aw_srv w) \<and> client_ok (aw_client w') (cfg (aw_srv w)) myID \<and>
    (\<forall>ob. r = Inr ob \<longrightarrow> ob_ManagedFolders ob = query_folders myID (folderMarkerMissing (aw_fs w)) (cfg (aw_srv w)) \<and>
       configured (cfg (aw_srv w)) \<subseteq> lp_DeviceID ` set (ob_LivePeers ob))"
proof -
  obtain q c1 s1 where 1: "querySyncthing (ae_now E) (aw_fs w) (client_querier http (ae_now E)) (aw_client w, aw_srv w) = (q, (c1, s1))" by (metis prod_cases3)
  note Q = querySyncthing_client[OF L c 1]
  obtain p s2 where 2: "GetPendingFolders http s1 = (p, s2)" by fastforce
  have p: "cfg s2 = cfg (aw_srv w)" using GetPendingFolders_frame[OF L(1) 2] Q by simp
  have pend: "q_GetPendingFolders (client_querier http (ae_now E)) (c1, s1) = (p, (c1, s2))" by (simp add: client_querier_def 2)
  show ?thesis
  proof (cases q)
    case None
    then show ?thesis using o' Q by (auto simp: real_Observed_def newObservedProvider_def pass_oenv_def h 1)
  next
    case (Some fp)
    obtain fs ps where fp: "fp = (fs, ps)" by fastforce
    let ?o = "pass_oenv E V w" and ?st = "loadStateFromPath (ae_decode E) (aw_state w)"
    let ?w1 = "\<lparr>ow_q = (c1, s2), ow_hot = hot, ow_git = aw_git w\<rparr>"
    let ?b = "(observed_base (ae_now E))\<lparr>ob_ManagedFolders := fs, ob_LivePeers := ps,
        ob_OfferedFolders := (case p of None \<Rightarrow> [] | Some xs \<Rightarrow> map offered xs)\<rparr>"
    obtain obs e w2 where 3: "observe_local ?o (pe_inputs V) ?st ?b ?w1 = ((obs, e), w2)" by (metis prod.collapse)
    have "r = (case e of None \<Rightarrow> Inr obs | Some e \<Rightarrow> Inl (ObserveFailed e)) \<and>
        w' = w\<lparr>aw_client := fst (ow_q w2), aw_srv := snd (ow_q w2), aw_git := ow_git w2\<rparr>"
      using o' by (simp add: real_Observed_def newObservedProvider_def h 1 Some fp pend 3[unfolded pass_oenv_def] pass_oenv_def)
    then show ?thesis using observe_local_frame[OF 3] Q p Some fp configured_seen by (auto split: option.splits)
  qed
qed

lemma real_query_path [simp]: "ro_Path (fst (real_query E V p st W)) = p"
  by (simp add: real_query_def split: prod.splits) (metis fst_conv queryRepoGitState_path)

lemma real_query_frame: "real_query E V p st (w, hot) = (r, (w', hot')) \<Longrightarrow> aw_srv w' = aw_srv w \<and> aw_client w' = aw_client w"
  by (auto simp: real_query_def split: prod.splits)

lemma augment_paths_frame:
  "augment_paths (real_query E V) seen st ps rs (w, hot) = (rs', (w', hot')) \<Longrightarrow> aw_srv w' = aw_srv w \<and> aw_client w' = aw_client w"
proof (induction ps arbitrary: rs w hot)
  case (Cons p ps)
  show ?case
  proof (cases "p \<in> seen")
    case False
    obtain r w1 h1 where r: "real_query E V p st (w, hot) = (r, (w1, h1))" by (metis prod.collapse)
    show ?thesis using Cons.IH[of "rs @ [r]" w1 h1] Cons.prems False real_query_frame[OF r] by (simp add: r)
  qed (use Cons in simp)
qed simp

lemma augment_frame:
  assumes "augmentObservedRepos (real_query E V) ob d (w, hot) = (ob', (w', hot'))"
  shows "aw_srv w' = aw_srv w \<and> aw_client w' = aw_client w \<and> ob_ManagedFolders ob' = ob_ManagedFolders ob \<and>
    ob_LivePeers ob' = ob_LivePeers ob \<and> fst ` set (d_Repos d) \<subseteq> set (map ro_Path (ob_TrackedRepos ob'))"
proof (cases "d_Repos d = []")
  case True
  then show ?thesis using assms by (simp add: augmentObservedRepos_def)
next
  case False
  let ?seen = "ro_Path ` set (ob_TrackedRepos ob)"
  obtain rs w1 h1 where 1: "augment_paths (real_query E V) ?seen (ob_CachedState ob) (map fst (d_Repos d)) (ob_TrackedRepos ob) (w, hot) = (rs, (w1, h1))"
    by (metis prod.collapse)
  then have o': "ob' = ob\<lparr>ob_TrackedRepos := rs\<rparr>" "w' = w1" using assms False by (simp_all add: augmentObservedRepos_def)
  obtain new where "rs = ob_TrackedRepos ob @ new" "map ro_Path new = filter (\<lambda>p. p \<notin> ?seen) (map fst (d_Repos d))"
    using augment_paths_eq[of "real_query E V", OF real_query_path] 1 by (metis fst_conv)
  then have "fst ` set (d_Repos d) \<subseteq> set (map ro_Path rs)" by (auto simp flip: set_map)
  then show ?thesis using augment_paths_frame[OF 1] unfolding o' by simp
qed

lemma real_Apply_run: "run_all (real_Apply E) as (w, hot) = (run_all (Apply E) as w, hot)"
  unfolding run_all_def by (induction as arbitrary: w) (simp_all add: real_Apply_def split: prod.splits)

lemma real_Apply_result: "result_at (real_Apply E) as (w, hot) i = map_option ApplyFailed (result_at (Apply E) as w i)"
  by (simp add: result_at_def real_Apply_run) (simp add: real_Apply_def split: prod.splits)

lemma coherent_from:
  assumes "plannable myID d" "fst ` set (d_Repos d) \<subseteq> set (map ro_Path (ob_TrackedRepos ob))"
    and "\<And>df x. df \<in> set (desired_folders d) \<Longrightarrow> x \<in> set (ob_ManagedFolders ob) \<Longrightarrow> fo_SyncthingFolderID x = df_folderID df \<Longrightarrow> fo_Path x = df_path df"
  shows "coherent d ob"
proof -
  have "df_path df \<in> fst ` set (d_Repos d)" if "df \<in> set (desired_folders d)" for df
  proof -
    from that obtain k r where r: "(k, r) \<in> set (d_Repos d)" "df_path df = rd_Path r" unfolding desired_folders_set by auto
    then have "k = df_path df" using assms(1) unfolding plannable_def list_all_iff by auto
    then show ?thesis using r(1) by (metis fst_conv image_eqI)
  qed
  moreover have "case folder_at ob (df_folderID df) of None \<Rightarrow> True | Some x \<Rightarrow> fo_Path x = df_path df" if "df \<in> set (desired_folders d)" for df
    using assms(3)[OF that] index_last_Some[of fo_SyncthingFolderID "ob_ManagedFolders ob" "df_folderID df"] by (simp split: option.split)
  ultimately have "list_all (\<lambda>df. df_path df \<in> set (map ro_Path (ob_TrackedRepos ob)) \<and>
      (case folder_at ob (df_folderID df) of None \<Rightarrow> True | Some x \<Rightarrow> fo_Path x = df_path df)) (desired_folders d)"
    using assms(2) unfolding list_all_iff by (metis subsetD)
  then show ?thesis using assms(1) unfolding coherent_def plannable_def by simp
qed

section \<open>Convergence of the real reconciler\<close>

text \<open>
  The configuration a pass starts from: folder IDs are unique, a desired folder that exists is where the desired
  state wants it.
\<close>

definition config_matches :: "string \<Rightarrow> Desired \<Rightarrow> jobj \<Rightarrow> bool" where
  "config_matches myID d cfg \<longleftrightarrow>
     (let fs = query_folders myID (\<lambda>_ _. False) cfg in
      distinct (map fo_SyncthingFolderID fs) \<and>
      list_all (\<lambda>df. list_all (\<lambda>x. fo_SyncthingFolderID x \<noteq> df_folderID df \<or> fo_Path x = df_path df) fs) (desired_folders d))"

lemma start_sim:
  assumes m: "config_matches myID d cfg" and P: "plannable myID d"
    and F: "ob_ManagedFolders ob = query_folders myID miss cfg" "lp_DeviceID ` set (ob_LivePeers ob) \<subseteq> configured cfg"
    and T: "fst ` set (d_Repos d) \<subseteq> set (map ro_Path (ob_TrackedRepos ob))"
  shows "sim myID cfg ob \<and> coherent d ob \<and> '''' \<notin> folder_ids ob"
proof -
  let ?fs = "query_folders myID (\<lambda>_ _. False) cfg"
  have q: "map no_marker (ob_ManagedFolders ob) = ?fs" unfolding F(1) by (rule query_no_marker)
  have "map fo_SyncthingFolderID ?fs = map fo_SyncthingFolderID (ob_ManagedFolders ob)" unfolding q[symmetric] by simp
  then have s: "sim myID cfg ob" using m F(2) q unfolding sim_def config_matches_def blind_def Let_def by simp
  have "fo_Path x = df_path df"
    if df: "df \<in> set (desired_folders d)" and x: "x \<in> set (ob_ManagedFolders ob)" "fo_SyncthingFolderID x = df_folderID df" for df x
  proof -
    have "no_marker x \<in> set ?fs" unfolding q[symmetric] using x(1) by simp
    then have "fo_SyncthingFolderID (no_marker x) \<noteq> df_folderID df \<or> fo_Path (no_marker x) = df_path df"
      using m df unfolding config_matches_def Let_def list_all_iff by blast
    then show ?thesis using x(2) by simp
  qed
  from coherent_from[OF P T this] show ?thesis using s sim_ids(3)[OF s] by blast
qed

lemma first_error_map: "first_error (map (map_option f \<circ> g) xs) = None \<longleftrightarrow> first_error (map g xs) = None"
  by (simp add: first_error_None list_all_iff)

text \<open>A pass of the real reconciler that returned its plan, taken apart.\<close>

lemma real_pass:
  assumes L: "config_server http cfg" "status_server http myID" and h: "ae_http E = Some http" and c: "client_ok (aw_client w) (cfg (aw_srv w)) myID"
    and d: "fst (real_Desired E V (w, hot)) = Inr d" and R: "Reconcile wall (real_Reconciler E V) (w, hot) = ((plan, err), W')"
  shows "(plan = [] \<and> err \<noteq> None) \<or> (\<exists>ob w1 hot1. plan = Diff wall d ob \<and> cfg (aw_srv w1) = cfg (aw_srv w) \<and> client_ok (aw_client w1) (cfg (aw_srv w)) myID \<and>
     ob_ManagedFolders ob = query_folders myID (folderMarkerMissing (aw_fs w)) (cfg (aw_srv w)) \<and>
     configured (cfg (aw_srv w)) \<subseteq> lp_DeviceID ` set (ob_LivePeers ob) \<and>
     (\<exists>ob0. fst (real_Observed E V (w, hot)) = Inr ob0 \<and> ob_LivePeers ob0 = ob_LivePeers ob) \<and>
     fst ` set (d_Repos d) \<subseteq> set (map ro_Path (ob_TrackedRepos ob)) \<and>
     err = map_option ApplyFailed (first_error (map (result_at (Apply E) plan w1) [0..<length plan])) \<and>
     W' = (run_all (Apply E) plan w1, hot1))"
proof -
  have D: "real_Desired E V (w, hot) = (Inr d, (w, hot))" using d by (auto simp: real_Desired_def split: sum.splits)
  obtain r w0 hot0 where O': "real_Observed E V (w, hot) = (r, (w0, hot0))" by (metis prod.collapse)
  note F = real_Observed_frame[OF L h c O']
  show ?thesis
  proof (cases r)
    case (Inl e)
    then show ?thesis using R by (auto simp: Reconcile_def real_Reconciler_def D O')
  next
    case (Inr ob0)
    obtain ob w1 hot1 where A: "augmentObservedRepos (real_query E V) ob0 d (w0, hot0) = (ob, (w1, hot1))" by (metis prod.collapse)
    note G = augment_frame[OF A]
    let ?plan = "Diff wall d ob"
    have res: "map (result_at (real_Apply E) ?plan (w1, hot1)) xs = map (map_option ApplyFailed) (map (result_at (Apply E) ?plan w1) xs)" for xs
      by (simp add: real_Apply_result)
    have fe: "first_error (map (map_option ApplyFailed) rs) = map_option ApplyFailed (first_error rs)" for rs by (induction rs) auto
    have "plan = ?plan" "err = map_option ApplyFailed (first_error (map (result_at (Apply E) ?plan w1) [0..<length ?plan]))"
      "W' = (run_all (Apply E) ?plan w1, hot1)"
      using R by (auto simp: Reconcile_def real_Reconciler_def D O' Inr A apply_plan_eq Let_def real_Apply_run res fe simp del: map_map)
    then show ?thesis using F G Inr O' by (intro disjI2 exI[of _ ob] exI[of _ w1] exI[of _ hot1]) auto
  qed
qed


text \<open>One repository under the scan root, one stale folder in Syncthing.\<close>

definition demo_repo_cfg :: RepoConfigV2 where
  "demo_repo_cfg = subscription_config ''/g/r'' 0 ''fn'' ''r'' ''D1'' ''p''"

definition demo_penv :: pass_env where
  "demo_penv = \<lparr>pe_inputs = \<lparr>oi_Activity = None, oi_Health = None, oi_Wake = True, oi_LastRescans = None\<rparr>,
     pe_tree = (\<lambda>_. demo_tree\<lparr>dt_load := \<lambda>d. Inr (Some demo_repo_cfg)\<rparr>), pe_mtime = (\<lambda>_ _. 0),
     pe_decode = (\<lambda>_. Inr demo_machine), pe_machine = ''/m''\<rparr>"

definition demo_start :: "(jobj, unit) aworld" where
  "demo_start = (demo_world [(''devices'', JArr [JObj [(''deviceID'', JStr ''D1'')]]),
       (''folders'', JArr [JObj [(''id'', JStr ''old''), (''path'', JStr ''/old'')]])])
     \<lparr>aw_fs := \<lparr>nodes = (\<lambda>p. if p = ''/m'' then Some (FileN '''') else if p = ''/g'' \<or> p = ''/g/r'' then Some DirN else None), broken = (\<lambda>_. False)\<rparr>\<rparr>"

definition demo_quiet :: "(jobj, unit) aenv" where
  "demo_quiet = demo_env\<lparr>ae_git := \<lambda>d a g. ((False, '''', ''''), g)\<rparr>"

lemma demo_first_pass:
  "case Reconcile 0 (real_Reconciler demo_quiet demo_penv) (demo_start, False) of ((plan, e), W1) \<Rightarrow>
     e = None \<and> plan \<noteq> [] \<and> fst (real_Desired demo_quiet demo_penv W1) = fst (real_Desired demo_quiet demo_penv (demo_start, False))"
  by code_simp

lemma demo_start_ok:
  "case fst (real_Desired demo_quiet demo_penv (demo_start, False)) of Inl _ \<Rightarrow> False
     | Inr d \<Rightarrow> plannable ''ME'' d \<and> config_matches ''ME'' d (aw_srv demo_start)"
  "case fst (real_Observed demo_quiet demo_penv (demo_start, False)) of Inl _ \<Rightarrow> True | Inr ob \<Rightarrow> map lp_DeviceID (ob_LivePeers ob) = [''D1'']"
  by code_simp+


end
