(* ===== verification/Commands.thy ===== *)
theory Commands
  imports Applier Gitident Subscribe
begin

text \<open>
  The commands of cmd/dotkeeper that change the state or a repository's configuration: subscribe, unsubscribe and the list
  (subscribe.go), the peers (peer.go), the offers (offers.go), the peer-presence tracker (peer\_presence.go), track and
  untrack with the bootstrap of .dotkeeper.toml (cmds\_v5.go). What they print is not modelled, what they print it from is.
\<close>

section \<open>Subscriptions\<close>

datatype cmd_error = Usage | BadIdentity ident_error | LoadFailed | NoState | AlreadySubscribed | WriteStateFailed | NoSubscription
  | NotARepo | ConfigLoadFailed | ConfigWriteFailed | ApplyFailed apply_error

definition subscriptionsMatch :: "SubscriptionEntry \<Rightarrow> SubscriptionEntry \<Rightarrow> bool" where
  "subscriptionsMatch a b =
    (if sub_Canonical a \<noteq> '''' \<or> sub_Canonical b \<noteq> '''' then sub_Canonical a = sub_Canonical b else sub_Name a = sub_Name b)"

definition subscriptionIdentity :: "SubscriptionEntry \<Rightarrow> string" where
  "subscriptionIdentity s =
    (if sub_Canonical s \<noteq> '''' then sub_Canonical s
     else if sub_Name s \<noteq> '''' then ''(non-git) '' @ sub_Name s else ''(invalid: no identity)'')"

text \<open>WriteStateV2 on the text of state.toml; \<open>writable\<close> is whether the write succeeds. Load and write are not under the lock.\<close>

definition write_state :: "bool \<Rightarrow> StateV2 \<Rightarrow> string option \<Rightarrow> cmd_error option \<times> string option" where
  "write_state writable s t = (if writable then (None, Some (state_text s)) else (Some WriteStateFailed, t))"

definition subscribe_entry :: "gotime \<Rightarrow> string list \<Rightarrow> string \<Rightarrow> string \<Rightarrow> cmd_error + SubscriptionEntry" where
  "subscribe_entry now args pathFlag nameFlag =
    (if nameFlag \<noteq> '''' \<and> args \<noteq> [] then Inl Usage
     else if nameFlag = '''' \<and> args = [] then Inl Usage
     else if nameFlag \<noteq> '''' then Inr \<lparr>sub_Canonical = '''', sub_Name = nameFlag, sub_Path = pathFlag, sub_AddedAt = now\<rparr>
     else (case Canonical (hd args) of
        Inl e \<Rightarrow> Inl (BadIdentity e)
      | Inr c \<Rightarrow> Inr \<lparr>sub_Canonical = c, sub_Name = '''', sub_Path = pathFlag, sub_AddedAt = now\<rparr>))"

definition runSubscribe :: "(string \<Rightarrow> unit + StateV2) \<Rightarrow> bool \<Rightarrow> gotime \<Rightarrow> string list \<Rightarrow> string \<Rightarrow> string \<Rightarrow> string option \<Rightarrow> cmd_error option \<times> string option" where
  "runSubscribe decode writable now args pathFlag nameFlag t =
    (case subscribe_entry now args pathFlag nameFlag of Inl e \<Rightarrow> (Some e, t)
     | Inr entry \<Rightarrow>
       (case LoadStateV2 decode t of
          Inl _ \<Rightarrow> (Some LoadFailed, t)
        | Inr None \<Rightarrow> (Some NoState, t)
        | Inr (Some state) \<Rightarrow>
          if list_ex (\<lambda>existing. subscriptionsMatch existing entry) (st_Subscriptions state) then (Some AlreadySubscribed, t)
          else write_state writable (state\<lparr>st_Subscriptions := st_Subscriptions state @ [entry]\<rparr>) t))"

definition unsubscribe_target :: "string \<Rightarrow> SubscriptionEntry" where
  "unsubscribe_target arg =
    (case Canonical arg of
       Inr c \<Rightarrow> \<lparr>sub_Canonical = c, sub_Name = '''', sub_Path = '''', sub_AddedAt = 0\<rparr>
     | Inl _ \<Rightarrow> \<lparr>sub_Canonical = '''', sub_Name = arg, sub_Path = '''', sub_AddedAt = 0\<rparr>)"

definition runUnsubscribe :: "(string \<Rightarrow> unit + StateV2) \<Rightarrow> bool \<Rightarrow> string \<Rightarrow> string option \<Rightarrow> cmd_error option \<times> string option" where
  "runUnsubscribe decode writable arg t =
    (case LoadStateV2 decode t of
       Inl _ \<Rightarrow> (Some LoadFailed, t)
     | Inr None \<Rightarrow> (Some NoState, t)
     | Inr (Some state) \<Rightarrow>
       let filtered = filter (\<lambda>existing. \<not> subscriptionsMatch existing (unsubscribe_target arg)) (st_Subscriptions state)
       in if length filtered = length (st_Subscriptions state) then (Some NoSubscription, t)
          else write_state writable (state\<lparr>st_Subscriptions := filtered\<rparr>) t)"

text \<open>The rows of the list: the entry, and whether its identity is declared in machine.toml.\<close>

definition runSubscriptionsList :: "SubscriptionEntry list \<Rightarrow> SubscriptionEntry list \<Rightarrow> (SubscriptionEntry \<times> bool) list" where
  "runSubscriptionsList decl imp =
    map (\<lambda>s. (s, subscriptionIdentity s \<in> subscriptionIdentity ` set decl)) (MergeSubscriptions decl imp)"

text \<open>
  Subscribe reports success and records nothing. If the command returns nil, the text it has written is that of the state
  without any imperative subscription: whatever the decoder, the next reader cannot tell it from the state
  before, and other imperative subscriptions that were there are gone too.
\<close>

theorem subscribe_records_nothing:
  assumes "runSubscribe decode writable now args pathFlag nameFlag t = (None, t')"
  shows "\<exists>s. LoadStateV2 decode t = Inr (Some s) \<and> t' = Some (state_text s) \<and> t' = Some (state_text (s\<lparr>st_Subscriptions := []\<rparr>)) \<and>
    LoadStateV2 decode t' = LoadStateV2 decode (Some (state_text (s\<lparr>st_Subscriptions := []\<rparr>)))"
  using assms by (auto simp: runSubscribe_def write_state_def state_text_drops_subscriptions split: sum.splits option.splits if_splits)

text \<open>The command succeeds for ever: a second subscription to the same folder is not recognised as one.\<close>

theorem subscribe_records_nothing_witness:
  "\<exists>t'. runSubscribe (\<lambda>_. Inr fresh_state) True 1 [] '''' ''dotfiles'' (Some ''x'') = (None, t') \<and>
    t' = Some (state_text fresh_state) \<and> runSubscribe (\<lambda>_. Inr fresh_state) True 2 [] '''' ''dotfiles'' t' = (None, t')"
proof -
  have r: "runSubscribe (\<lambda>_. Inr fresh_state) True now [] '''' ''dotfiles'' (Some x) = (None, Some (state_text fresh_state))" for now x
    by (simp add: runSubscribe_def subscribe_entry_def LoadStateV2_def write_state_def fresh_state_def state_text_def)
  from subscribe_records_nothing[OF r[of 1 "''x''"]] show ?thesis using r by blast
qed

section \<open>Peers\<close>

fun peer_add_list :: "PeerEntry \<Rightarrow> PeerEntry list \<Rightarrow> PeerEntry list" where
  "peer_add_list new [] = [new]"
| "peer_add_list new (p # ps) = (if pe_Name p = pe_Name new \<or> pe_DeviceID p = pe_DeviceID new then new # ps else p # peer_add_list new ps)"

definition peer_add_mutation :: "string \<Rightarrow> string \<Rightarrow> gotime \<Rightarrow> StateV2 \<Rightarrow> StateV2 option" where
  "peer_add_mutation name deviceID now s =
    Some (s\<lparr>st_Peers := peer_add_list \<lparr>pe_Name = name, pe_DeviceID = deviceID, pe_LearnedAt = now\<rparr> (st_Peers s)\<rparr>)"

definition peer_remove_mutation :: "string \<Rightarrow> StateV2 \<Rightarrow> StateV2 option" where
  "peer_remove_mutation key s = Some (s\<lparr>st_Peers := filter (\<lambda>p. pe_Name p \<noteq> key \<and> pe_DeviceID p \<noteq> key) (st_Peers s)\<rparr>)"

text \<open>The peers of machine.toml, then those of state.toml, one per device, with their source.\<close>

definition mergedPeersForDisplay :: "PeerEntry list \<Rightarrow> PeerEntry list \<Rightarrow> (string \<times> PeerEntry) list" where
  "mergedPeersForDisplay machine state =
    keep_first (\<lambda>x. pe_DeviceID (snd x)) (\<lambda>x. pe_DeviceID (snd x) \<noteq> '''') {} (map (Pair ''machine'') machine @ map (Pair ''state'') state)"

text \<open>A peer whose name and device are both others is left where it is; adding twice is adding once, and removing by name undoes it.\<close>

lemma peer_add_list_spec:
  "new \<in> set (peer_add_list new ps)"
  "filter (\<lambda>p. pe_Name p \<noteq> pe_Name new \<and> pe_DeviceID p \<noteq> pe_DeviceID new) (peer_add_list new ps) =
     filter (\<lambda>p. pe_Name p \<noteq> pe_Name new \<and> pe_DeviceID p \<noteq> pe_DeviceID new) ps"
  "peer_add_list new (peer_add_list new ps) = peer_add_list new ps"
  by (induction ps) auto

text \<open>Only the first match is replaced: a name and a device that belonged to two peers leave the device listed twice.\<close>

theorem peer_add_duplicates_device:
  "map pe_DeviceID (peer_add_list \<lparr>pe_Name = ''a'', pe_DeviceID = ''D2'', pe_LearnedAt = 9\<rparr>
     [\<lparr>pe_Name = ''a'', pe_DeviceID = ''D1'', pe_LearnedAt = 1\<rparr>, \<lparr>pe_Name = ''b'', pe_DeviceID = ''D2'', pe_LearnedAt = 2\<rparr>]) = [''D2'', ''D2'']"
  by simp

section \<open>Peer presence\<close>

text \<open>The mutation of one update; \<open>conns\<close> are the connections with whether they are up.\<close>

definition presence_mutation :: "gotime \<Rightarrow> (string \<times> bool) list \<Rightarrow> StateV2 \<Rightarrow> StateV2 option" where
  "presence_mutation now conns s =
    Some (s\<lparr>st_LastSeenPeers := foldl (\<lambda>m c. if snd c then AList.update (fst c) now m else m) (st_LastSeenPeers s) conns\<rparr>)"

definition startupRetries :: "dur list" where
  "startupRetries = [2 * Second, 5 * Second, 10 * Second, 30 * Second]"

text \<open>The times of the updates from the start on, given how they go: retries with growing delays until one succeeds, then \<open>n\<close> regular ticks.\<close>

fun presence_startup :: "dur list \<Rightarrow> bool list \<Rightarrow> gotime \<Rightarrow> gotime list \<times> gotime" where
  "presence_startup [] oks t = ([], t)"
| "presence_startup (d # ds) oks t =
    (case oks of [] \<Rightarrow> ([t], t)
     | b # bs \<Rightarrow> if b then ([t], t) else (case presence_startup ds bs (t + d) of (ts, e) \<Rightarrow> (t # ts, e)))"

definition presence_times :: "dur \<Rightarrow> bool list \<Rightarrow> nat \<Rightarrow> gotime \<Rightarrow> gotime list" where
  "presence_times interval oks n t0 =
    (let iv = (if interval \<le> 0 then 5 * Minute else interval) in
     case presence_startup startupRetries oks t0 of (ts, e) \<Rightarrow> ts @ map (\<lambda>k. e + int (k + 1) * iv) [0..<n])"

section \<open>Offers\<close>

record offer_row =
  or_Peer :: string
  or_Repo :: string
  or_Subscribed :: bool

definition labelMatchesAnyName :: "string \<Rightarrow> string set \<Rightarrow> bool" where
  "labelMatchesAnyName label names \<longleftrightarrow>
    (if length label \<le> 3 \<or> \<not> HasPrefix label ''dk:'' then False else drop 3 label \<in> names)"

definition offer_status :: "SubscriptionEntry list \<Rightarrow> string \<Rightarrow> bool" where
  "offer_status merged label \<longleftrightarrow>
    label \<in> {sub_Canonical s |s. s \<in> set merged \<and> sub_Canonical s \<noteq> ''''} \<or>
    labelMatchesAnyName label {sub_Name s |s. s \<in> set merged \<and> sub_Name s \<noteq> ''''}"

definition offer_peer_name :: "PeerEntry list \<Rightarrow> PeerEntry list \<Rightarrow> string \<Rightarrow> string" where
  "offer_peer_name machinePeers statePeers dev =
    (let m = map_of (map (\<lambda>p. (pe_DeviceID p, pe_Name p)) (rev machinePeers));
         s = map_of (map (\<lambda>p. (pe_DeviceID p, pe_Name p)) statePeers);
         name = (case m dev of Some n \<Rightarrow> n | None \<Rightarrow> (case s dev of Some n \<Rightarrow> n | None \<Rightarrow> ''''))
     in if name = '''' then dev else name)"

datatype offers_result = OfferRows "offer_row list" | NilState

text \<open>
  runOffers once the files are loaded and Syncthing has answered. The rows are sorted by peer and label; where both are equal Go's sort
  leaves the order open, the model keeps that of the answer. A missing state.toml is a nil pointer, dereferenced once there are offers.
\<close>

definition runOffers :: "MachineConfigV2 \<Rightarrow> StateV2 option \<Rightarrow> PendingFolder list \<Rightarrow> offers_result" where
  "runOffers machine state pending =
    (let offers = map (\<lambda>p. \<lparr>of_FolderID = pf_ID p, of_Label = pf_Label p,
             of_FromPeerName = offer_peer_name (mc_Peers machine) (case state of None \<Rightarrow> [] | Some s \<Rightarrow> st_Peers s) (pf_ReceivedFrom p),
             of_FromDeviceID = pf_ReceivedFrom p\<rparr>) pending;
         sorted_offers = sort_key of_FromPeerName (sort_key of_Label offers)
     in if offers = [] then OfferRows []
        else case state of None \<Rightarrow> NilState
          | Some s \<Rightarrow>
            let merged = MergeSubscriptions (mc_Subscribe machine) (st_Subscriptions s)
            in OfferRows (map (\<lambda>o'. \<lparr>or_Peer = of_FromPeerName o',
                 or_Repo = (if of_Label o' = '''' then ''(no label) '' @ of_FolderID o' else of_Label o'),
                 or_Subscribed = offer_status merged (of_Label o')\<rparr>) sorted_offers))"



section \<open>Folder identifiers\<close>

text \<open>The loop of slug; bytes beyond ASCII are none of the kept characters (Go lowers a few letters beyond ASCII into it, which is not modelled).\<close>

fun slug_loop :: "bool \<Rightarrow> string \<Rightarrow> string" where
  "slug_loop lastDash [] = []"
| "slug_loop lastDash (c # cs) =
    (if is_lower c \<or> is_digit c then c # slug_loop False cs
     else if \<not> lastDash then CHR 0x2D # slug_loop True cs else slug_loop True cs)"

definition trim_dashes :: "string \<Rightarrow> string" where
  "trim_dashes s = rev (dropWhile (\<lambda>c. c = CHR 0x2D) (rev (dropWhile (\<lambda>c. c = CHR 0x2D) s)))"

definition slug :: "string \<Rightarrow> string" where
  "slug raw =
    (let out = trim_dashes (slug_loop False (TrimSuffix (ToLower raw) ''.git''))
     in if out = '''' then ''repo'' else out)"

definition gitRemoteOrigin :: "'g git \<Rightarrow> string \<Rightarrow> 'g \<Rightarrow> string \<times> 'g" where
  "gitRemoteOrigin git repoPath g =
    (case runOutput git repoPath [''config'', ''--get'', ''remote.origin.url''] g of
       (out, g') \<Rightarrow> (case out of None \<Rightarrow> '''' | Some s \<Rightarrow> TrimSpace s, g'))"

definition hex_bytes :: "string \<Rightarrow> string" where
  "hex_bytes s = concat (map (\<lambda>c. [hex_digit ((of_char c :: nat) div 16), hex_digit ((of_char c :: nat) mod 16)]) s)"

definition folder_id :: "(string \<Rightarrow> string) \<Rightarrow> string \<Rightarrow> string \<Rightarrow> string" where
  "folder_id sha256 repoPath remote =
    ''dk-'' @ slug (path_Base repoPath) @ ''-'' @ hex_bytes (take 4 (sha256 (if remote = '''' then repoPath else remote)))"

definition folderIDForRepo :: "'g git \<Rightarrow> (string \<Rightarrow> string) \<Rightarrow> string \<Rightarrow> 'g \<Rightarrow> string \<times> 'g" where
  "folderIDForRepo git sha256 repoPath g =
    (case gitRemoteOrigin git repoPath g of (remote, g') \<Rightarrow> (folder_id sha256 repoPath remote, g'))"

definition slug_char :: "char \<Rightarrow> bool" where
  "slug_char c \<longleftrightarrow> is_lower c \<or> is_digit c \<or> c = CHR 0x2D"

text \<open>No two dashes in a row.\<close>

abbreviation single_dashes :: "string \<Rightarrow> bool" where
  "single_dashes \<equiv> successively (\<lambda>a b. \<not> (a = CHR 0x2D \<and> b = CHR 0x2D))"

lemma slug_loop_shape:
  "list_all slug_char (slug_loop b s) \<and> single_dashes (slug_loop b s) \<and> (b \<longrightarrow> slug_loop b s = [] \<or> hd (slug_loop b s) \<noteq> CHR 0x2D)"
proof (induction b s rule: slug_loop.induct)
  case (2 b c cs)
  have "\<not> is_lower CHR 0x2D" "\<not> is_digit CHR 0x2D" by code_simp+
  then show ?case using 2 by (auto simp: slug_char_def successively_Cons)
qed simp

lemma single_dashes_part: "single_dashes (a @ b @ c) \<Longrightarrow> single_dashes b"
  by (simp add: successively_append_iff)

lemma trim_dashes_part: obtains a c where "s = a @ trim_dashes s @ c"
proof -
  let ?P = "\<lambda>c. c = CHR 0x2D"
  have "s = takeWhile ?P s @ dropWhile ?P s" by simp
  moreover have "dropWhile ?P s = trim_dashes s @ rev (takeWhile ?P (rev (dropWhile ?P s)))"
    unfolding trim_dashes_def by (metis rev_append rev_rev_ident takeWhile_dropWhile_id)
  ultimately show ?thesis using that by metis
qed

lemma trim_dashes_ends:
  assumes "trim_dashes s \<noteq> []"
  shows "hd (trim_dashes s) \<noteq> CHR 0x2D \<and> last (trim_dashes s) \<noteq> CHR 0x2D"
proof -
  let ?P = "\<lambda>c. c = CHR 0x2D"
  let ?d = "dropWhile ?P s"
  have e: "?d = trim_dashes s @ rev (takeWhile ?P (rev ?d))"
    unfolding trim_dashes_def by (metis rev_append rev_rev_ident takeWhile_dropWhile_id)
  have "?d \<noteq> []"
  proof
    assume "?d = []"
    then have "trim_dashes s = []" by (simp only: trim_dashes_def rev.simps dropWhile.simps)
    with assms show False by contradiction
  qed
  then have 1: "\<not> ?P (hd ?d)" by (rule hd_dropWhile)
  moreover have "hd ?d = hd (trim_dashes s)" by (subst e) (rule hd_append2[OF assms])
  moreover have n: "dropWhile ?P (rev ?d) \<noteq> []" using assms unfolding trim_dashes_def by (simp only: rev_is_Nil_conv not_False_eq_True)
  moreover have "last (trim_dashes s) = hd (dropWhile ?P (rev ?d))" unfolding trim_dashes_def by (simp only: last_rev n)
  moreover have "\<not> ?P (hd (dropWhile ?P (rev ?d)))" using n by (rule hd_dropWhile)
  ultimately show ?thesis by (simp only: not_False_eq_True simp_thms)
qed

text \<open>
  C39: The shape of a folder identifier. For every repository, remote and 32-byte hash it is \<open>dk-\<close>, a slug, a dash and eight hexadecimal digits; the slug
  is not empty, consists of lower-case letters, digits and single dashes and neither begins nor ends with a dash.
\<close>

theorem folder_id_shape:
  assumes "length (sha256 (if remote = '''' then repoPath else remote)) = 32"
  shows "\<exists>s h. folder_id sha256 repoPath remote = ''dk-'' @ s @ ''-'' @ h \<and> s \<noteq> '''' \<and> list_all slug_char s \<and> single_dashes s \<and>
    hd s \<noteq> CHR 0x2D \<and> last s \<noteq> CHR 0x2D \<and> length h = 8 \<and> set h \<subseteq> hex_digit ` {..<16}"
proof -
  let ?r = "TrimSuffix (ToLower (path_Base repoPath)) ''.git''"
  let ?h = "hex_bytes (take 4 (sha256 (if remote = '''' then repoPath else remote)))"
  have h: "length (hex_bytes x) = 2 * length x" "set (hex_bytes x) \<subseteq> hex_digit ` {..<16}" for x
    using of_char_less by (induction x) (auto simp: hex_bytes_def less_mult_imp_div_less)
  have "length ?h = 8" using h(1)[of "take 4 (sha256 (if remote = '''' then repoPath else remote))"] assms by simp
  moreover have "slug (path_Base repoPath) \<noteq> '''' \<and> list_all slug_char (slug (path_Base repoPath)) \<and> single_dashes (slug (path_Base repoPath)) \<and>
    hd (slug (path_Base repoPath)) \<noteq> CHR 0x2D \<and> last (slug (path_Base repoPath)) \<noteq> CHR 0x2D"
  proof (cases "trim_dashes (slug_loop False ?r) = ''''")
    case True
    then have "slug (path_Base repoPath) = ''repo''" by (simp add: slug_def Let_def)
    moreover have "list_all slug_char ''repo''" by code_simp
    ultimately show ?thesis by simp
  next
    case False
    then have s: "slug (path_Base repoPath) = trim_dashes (slug_loop False ?r)" by (simp add: slug_def Let_def)
    obtain a c where e: "slug_loop False ?r = a @ trim_dashes (slug_loop False ?r) @ c" using trim_dashes_part .
    have "list_all slug_char (a @ trim_dashes (slug_loop False ?r) @ c)" "single_dashes (a @ trim_dashes (slug_loop False ?r) @ c)"
      unfolding e[symmetric] using slug_loop_shape[of False ?r] by blast+
    then have "list_all slug_char (trim_dashes (slug_loop False ?r))" "single_dashes (trim_dashes (slug_loop False ?r))"
      using single_dashes_part by (simp_all only: list_all_append)
    then show ?thesis unfolding s using False trim_dashes_ends[OF False] by blast
  qed
  ultimately show ?thesis using h(2) unfolding folder_id_def by blast
qed

theorem folder_id_shape_witness:
  "\<exists>s h. folder_id (\<lambda>x. replicate 32 CHR ''A'') ''/h/My  Repo.git'' '''' = ''dk-'' @ s @ ''-'' @ h \<and> length h = 8 \<and> slug ''My  Repo.git'' = ''my-repo''"
proof -
  have "slug ''My  Repo.git'' = ''my-repo''" by code_simp
  then show ?thesis using folder_id_shape[of "\<lambda>x. replicate 32 CHR ''A''" "''''" "''/h/My  Repo.git''"] by auto
qed

section \<open>Bootstrapping a repository\<close>

record track_env =
  te_decode :: "string \<Rightarrow> unit + RepoConfigV2"
  te_sha256 :: "string \<Rightarrow> string"
  te_now :: gotime
  te_machine :: "string option"

text \<open>What is missing in a configuration that exists, and whether anything was; a fresh one also has the git identity.\<close>

definition fill_repo_config :: "track_env \<Rightarrow> string \<Rightarrow> string \<Rightarrow> RepoConfigV2 \<Rightarrow> RepoConfigV2 \<times> bool" where
  "fill_repo_config V repoPath folderID cfg =
    (let m = rp_Meta cfg; sy = rp_Sync cfg;
         m' = \<lparr>rm_Name = (if rm_Name m = '''' then path_Base repoPath else rm_Name m),
               rm_Added = (if rm_Added m = '''' then fmt_rfc3339 (te_now V) else rm_Added m),
               rm_AddedBy = (if rm_AddedBy m = '''' then (case te_machine V of None \<Rightarrow> ''unknown'' | Some n \<Rightarrow> n) else rm_AddedBy m)\<rparr>;
         sy' = (if rs_SyncthingFolderID sy = '''' then sy\<lparr>rs_SyncthingFolderID := folderID\<rparr> else sy)
     in (cfg\<lparr>rp_SchemaVersion := (if rp_SchemaVersion cfg = 0 then 2 else rp_SchemaVersion cfg), rp_Meta := m', rp_Sync := sy'\<rparr>,
         rp_SchemaVersion cfg = 0 \<or> rm_Name m = '''' \<or> rm_Added m = '''' \<or> rm_AddedBy m = '''' \<or> rs_SyncthingFolderID sy = ''''))"

definition fresh_repo_config :: "track_env \<Rightarrow> string \<Rightarrow> string \<Rightarrow> string \<Rightarrow> RepoConfigV2" where
  "fresh_repo_config V repoPath folderID remote =
    \<lparr>rp_SchemaVersion = 2,
     rp_Meta = \<lparr>rm_Name = path_Base repoPath, rm_Added = fmt_rfc3339 (te_now V), rm_AddedBy = (case te_machine V of None \<Rightarrow> ''unknown'' | Some n \<Rightarrow> n)\<rparr>,
     rp_Sync = \<lparr>rs_SyncthingFolderID = folderID, rs_Ignore = [], rs_ShareWith = []\<rparr>,
     rp_Commit = \<lparr>rc_Policy = '''', rc_IdleSeconds = 0\<rparr>,
     rp_GitBackup = \<lparr>rb_Interval = '''', rb_SkipSlots = []\<rparr>,
     rp_Git = (if remote = '''' then \<lparr>rg_Remote = '''', rg_Canonical = ''''\<rparr>
               else \<lparr>rg_Remote = remote, rg_Canonical = (case Canonical remote of Inl _ \<Rightarrow> '''' | Inr c \<Rightarrow> c)\<rparr>)\<rparr>"

definition ensureRepoConfig :: "track_env \<Rightarrow> 'g git \<Rightarrow> string \<Rightarrow> fsys \<Rightarrow> 'g \<Rightarrow> (cmd_error + RepoConfigV2) \<times> fsys \<times> 'g" where
  "ensureRepoConfig V git repoPath f g =
    (let put = (\<lambda>cfg g'. case write_atomic f (RepoConfigPath repoPath) (repo_text cfg) of
                  (Some _, f') \<Rightarrow> (Inl ConfigWriteFailed, f', g') | (None, f') \<Rightarrow> (Inr cfg, f', g'))
     in case (case os_ReadFile f (RepoConfigPath repoPath) of
                Inl NotExist \<Rightarrow> Inr None
              | Inl IOFail \<Rightarrow> Inl ()
              | Inr t \<Rightarrow> LoadRepoConfigV2 (te_decode V) (Some t)) of
          Inl _ \<Rightarrow> (Inl ConfigLoadFailed, f, g)
        | Inr None \<Rightarrow>
          (case folderIDForRepo git (te_sha256 V) repoPath g of (fid, g1) \<Rightarrow>
           case gitRemoteOrigin git repoPath g1 of (remote, g2) \<Rightarrow> put (fresh_repo_config V repoPath fid remote) g2)
        | Inr (Some cfg) \<Rightarrow>
          (case (if rs_SyncthingFolderID (rp_Sync cfg) = '''' then folderIDForRepo git (te_sha256 V) repoPath g else ('''', g)) of (fid, g1) \<Rightarrow>
           case fill_repo_config V repoPath fid cfg of (cfg', changed) \<Rightarrow> if changed then put cfg' g1 else (Inr cfg', f, g1)))"

text \<open>track and untrack, on the applier without a Syncthing client.\<close>

definition trackCmd :: "track_env \<Rightarrow> ('s, 'g) aenv \<Rightarrow> string \<Rightarrow> ('s, 'g) aworld \<Rightarrow> cmd_error option \<times> ('s, 'g) aworld" where
  "trackCmd V E rawPath w =
    (let absPath = path_Abs (ae_cwd E) (ExpandPath (ae_home E) rawPath); E' = E\<lparr>ae_http := None\<rparr> in
     case os_Stat (aw_fs w) (path_Join absPath ''.git'') of
       Inl _ \<Rightarrow> (Some NotARepo, w)
     | Inr _ \<Rightarrow>
       (case ensureRepoConfig V (ae_git E) absPath (aw_fs w) (aw_git w) of
          (Inl e, f1, g1) \<Rightarrow> (Some e, w\<lparr>aw_fs := f1, aw_git := g1\<rparr>)
        | (Inr cfg, f1, g1) \<Rightarrow>
          (case Apply E' (EnsureIgnoreFile absPath (rs_Ignore (rp_Sync cfg))) (w\<lparr>aw_fs := f1, aw_git := g1\<rparr>) of
             (Some e, w2) \<Rightarrow> (Some (ApplyFailed e), w2)
           | (None, w2) \<Rightarrow>
             (case Apply E' (TrackRepo absPath) w2 of (Some e, w3) \<Rightarrow> (Some (ApplyFailed e), w3) | (None, w3) \<Rightarrow> (None, w3)))))"

definition untrackCmd :: "('s, 'g) aenv \<Rightarrow> string \<Rightarrow> ('s, 'g) aworld \<Rightarrow> cmd_error option \<times> ('s, 'g) aworld" where
  "untrackCmd E rawPath w =
    (case Apply (E\<lparr>ae_http := None\<rparr>) (UntrackRepo (path_Abs (ae_cwd E) (ExpandPath (ae_home E) rawPath))) w of
       (Some e, w') \<Rightarrow> (Some (ApplyFailed e), w') | (None, w') \<Rightarrow> (None, w'))"

text \<open>
  Bootstrapping is done once. After a success the file on disk is the configuration that was returned, if the decoder reads back what the writer writes; running it again
  changes no file and returns the same, and the git identity of a configuration that existed is never filled in, whatever remote the repository has by now.
\<close>

theorem ensureRepoConfig_stable:
  assumes ok: "ensureRepoConfig V git repoPath f g = (Inr cfg, f', g')"
    and roundtrip: "te_decode V (repo_text cfg) = Inr cfg"
    and fid: "fst (folderIDForRepo git (te_sha256 V) repoPath g) \<noteq> ''''" "path_Base repoPath \<noteq> ''''" "te_machine V \<noteq> Some ''''"
    and old: "os_ReadFile f (RepoConfigPath repoPath) = Inr t" "te_decode V t = Inr cfg0"
  shows "rp_Git cfg = rp_Git cfg0 \<and> (\<exists>g''. ensureRepoConfig V git2 repoPath f' g2 = (Inr cfg, f', g''))"
proof -
  have ne: "fmt_rfc3339 n \<noteq> ''''" for n by (simp add: fmt_rfc3339_def Let_def split: prod.splits)
  obtain fid1 g1 where 1: "(if rs_SyncthingFolderID (rp_Sync cfg0) = '''' then folderIDForRepo git (te_sha256 V) repoPath g else ('''', g)) = (fid1, g1)" by fastforce
  obtain cfg1 changed where 2: "fill_repo_config V repoPath fid1 cfg0 = (cfg1, changed)" by fastforce
  have c: "cfg1 = cfg" using ok old 1 2 by (auto simp: ensureRepoConfig_def LoadRepoConfigV2_def Let_def split: if_splits prod.splits option.splits)
  have git: "rp_Git cfg = rp_Git cfg0" using 2 unfolding c by (auto simp: fill_repo_config_def Let_def)
  have full: "rp_SchemaVersion cfg \<noteq> 0 \<and> rm_Name (rp_Meta cfg) \<noteq> '''' \<and> rm_Added (rp_Meta cfg) \<noteq> '''' \<and> rm_AddedBy (rp_Meta cfg) \<noteq> '''' \<and>
      rs_SyncthingFolderID (rp_Sync cfg) \<noteq> ''''"
    using 1 2 fid ne unfolding c by (auto simp: fill_repo_config_def Let_def split: if_splits option.splits)
  have on_disk: "\<exists>t'. os_ReadFile f' (RepoConfigPath repoPath) = Inr t' \<and> te_decode V t' = Inr cfg"
  proof (cases changed)
    case True
    then obtain "write_atomic f (RepoConfigPath repoPath) (repo_text cfg) = (None, f')"
      using ok old 1 2 c by (auto simp: ensureRepoConfig_def LoadRepoConfigV2_def Let_def split: prod.splits option.splits)
    then show ?thesis using write_atomic_read roundtrip by blast
  next
    case False
    then have "f' = f" "cfg = cfg0"
      using ok old 1 2 c by (auto simp: ensureRepoConfig_def LoadRepoConfigV2_def fill_repo_config_def Let_def split: prod.splits)
    then show ?thesis using old by blast
  qed
  then obtain t' where t': "os_ReadFile f' (RepoConfigPath repoPath) = Inr t'" "te_decode V t' = Inr cfg" by blast
  have "fill_repo_config V repoPath x cfg = (cfg, False)" for x using full by (simp add: fill_repo_config_def Let_def)
  then show ?thesis using git t' full by (simp add: ensureRepoConfig_def LoadRepoConfigV2_def Let_def)
qed

definition demo_incomplete :: RepoConfigV2 where
  "demo_incomplete = \<lparr>rp_SchemaVersion = 2, rp_Meta = \<lparr>rm_Name = '''', rm_Added = ''then'', rm_AddedBy = ''me''\<rparr>,
     rp_Sync = \<lparr>rs_SyncthingFolderID = ''dk-r-00000000'', rs_Ignore = [], rs_ShareWith = []\<rparr>,
     rp_Commit = \<lparr>rc_Policy = '''', rc_IdleSeconds = 0\<rparr>, rp_GitBackup = \<lparr>rb_Interval = '''', rb_SkipSlots = []\<rparr>,
     rp_Git = \<lparr>rg_Remote = '''', rg_Canonical = ''''\<rparr>\<rparr>"

definition demo_complete :: RepoConfigV2 where
  "demo_complete = demo_incomplete\<lparr>rp_Meta := \<lparr>rm_Name = ''r'', rm_Added = ''then'', rm_AddedBy = ''me''\<rparr>\<rparr>"

definition demo_track :: track_env where
  "demo_track = \<lparr>te_decode = (\<lambda>t. if t = ''old'' then Inr demo_incomplete else Inr demo_complete), te_sha256 = (\<lambda>_. replicate 32 CHR ''A''),
     te_now = 0, te_machine = None\<rparr>"

definition demo_repo_fs :: fsys where
  "demo_repo_fs = \<lparr>nodes = [''/r'' \<mapsto> DirN, ''/r/.dotkeeper.toml'' \<mapsto> FileN ''old''], broken = (\<lambda>_. False)\<rparr>"

text \<open>A configuration without a name gets one; the second run writes nothing and still does not record the remote.\<close>

theorem ensureRepoConfig_stable_witness:
  "\<exists>f'. ensureRepoConfig demo_track (\<lambda>_ _ g. ((True, ''git@h:o/r'', ''''), g)) ''/r'' demo_repo_fs () = (Inr demo_complete, f', ()) \<and> f' \<noteq> demo_repo_fs \<and>
     rg_Remote (rp_Git demo_complete) = '''' \<and>
     ensureRepoConfig demo_track (\<lambda>_ _ g. ((True, ''git@h:o/r'', ''''), g)) ''/r'' f' () = (Inr demo_complete, f', ())"
proof -
  let ?git = "\<lambda>_ _ g. ((True, ''git@h:o/r'', ''''), g)" and ?f' = "set_node ''/r/.dotkeeper.toml'' (Some (FileN (repo_text demo_complete))) demo_repo_fs"
  have p: "RepoConfigPath ''/r'' = ''/r/.dotkeeper.toml''" "path_Dir ''/r/.dotkeeper.toml'' = ''/r''" "path_Base ''/r'' = ''r''" by code_simp+
  have old: "os_ReadFile demo_repo_fs (RepoConfigPath ''/r'') = Inr ''old''" "te_decode demo_track ''old'' = Inr demo_incomplete"
    by (simp_all add: p os_ReadFile_def os_Stat_def demo_repo_fs_def demo_track_def)
  have w: "write_atomic demo_repo_fs ''/r/.dotkeeper.toml'' t = (None, set_node ''/r/.dotkeeper.toml'' (Some (FileN t)) demo_repo_fs)" for t
    by (simp add: write_atomic_def p is_dir_def os_Stat_def demo_repo_fs_def)
  have fill: "fill_repo_config demo_track ''/r'' x demo_incomplete = (demo_complete, True)" for x
    by (simp add: fill_repo_config_def demo_incomplete_def demo_complete_def p Let_def)
  have rs: "rs_SyncthingFolderID (rp_Sync demo_incomplete) \<noteq> ''''" by (simp add: demo_incomplete_def)
  have e: "ensureRepoConfig demo_track ?git ''/r'' demo_repo_fs () = (Inr demo_complete, ?f', ())"
    using old rs fill w by (simp add: ensureRepoConfig_def LoadRepoConfigV2_def p(1) Let_def)
  have rt: "te_decode demo_track (repo_text demo_complete) = Inr demo_complete" by (simp add: demo_track_def repo_text_def)
  have fid: "fst (folderIDForRepo ?git (te_sha256 demo_track) ''/r'' ()) \<noteq> ''''" "path_Base ''/r'' \<noteq> ''''" "te_machine demo_track \<noteq> Some ''''"
    by (simp_all add: folderIDForRepo_def folder_id_def p demo_track_def split: prod.split)
  obtain g'' where g: "ensureRepoConfig demo_track ?git ''/r'' ?f' () = (Inr demo_complete, ?f', g'')"
    using ensureRepoConfig_stable[OF e rt fid old, of ?git "()"] by blast
  have "nodes ?f' ''/r/.dotkeeper.toml'' \<noteq> nodes demo_repo_fs ''/r/.dotkeeper.toml''" by (simp add: demo_repo_fs_def repo_text_def)
  then have "?f' \<noteq> demo_repo_fs" by metis
  moreover have "rg_Remote (rp_Git demo_complete) = ''''" by (simp add: demo_complete_def demo_incomplete_def)
  ultimately show ?thesis using e g by (intro exI[of _ ?f'] conjI) (assumption | simp)+
qed

end
