(* ===== verification/Ssh_Transports.thy ===== *)
theory Ssh_Transports
  imports Commands
begin

text \<open>
  The transports that run commands over ssh: internal/transport/gitssh.go, mutagen.go, the Tailscale resolver
  (tailscale.go) and \<open>dotkeeper bare-init\<close> of cmd/dotkeeper/main.go. The CommandRunner is a parameter, a function
  of the directory, the program, its arguments and the world, giving success, combined output and the new world;
  \<open>remote_laws\<close> is what git documents of its remotes. Contexts do not expire: a command that is killed at its timeout is
  one that fails.
\<close>

section \<open>What transports exchange\<close>

record tfolder =
  tf_ID :: string
  tf_Path :: string

record tpeer =
  tp_Name :: string
  tp_DeviceID :: string
  tp_Hostname :: string
  tp_User :: string

datatype ChangeKind = ChangeKindUnknown | ChangeKindText | ChangeKindBinary

fun change_kind_String :: "ChangeKind \<Rightarrow> string" where
  "change_kind_String ChangeKindText = ''text''"
| "change_kind_String ChangeKindBinary = ''binary''"
| "change_kind_String ChangeKindUnknown = ''unknown''"

record change =
  ch_Folder :: tfolder
  ch_CommitHash :: string
  ch_SizeHint :: int
  ch_Kind :: ChangeKind

datatype terr = ErrUnreachable | ErrPeerUnknown | ErrResolverUnavailable | CommandFailed string

type_synonym 'w runner = "string \<Rightarrow> string \<Rightarrow> string list \<Rightarrow> 'w \<Rightarrow> (bool \<times> string) \<times> 'w"

record 'w resolver =
  rs_Name :: string
  rs_Available :: "'w \<Rightarrow> bool \<times> 'w"
  rs_Resolve :: "tpeer \<Rightarrow> 'w \<Rightarrow> (terr + string) \<times> 'w"

text \<open>\<open>now\<close> is time.Now; \<open>lookPath\<close> whether mutagen is on the path; the base is a test seam, empty in production.\<close>

record 'w ssh_transport =
  sh_resolver :: "'w resolver"
  sh_runner :: "'w runner"
  sh_now :: "'w \<Rightarrow> gotime"
  sh_lookPath :: "'w \<Rightarrow> bool"
  sh_remotePathBase :: string

definition err_of :: "bool \<times> string \<Rightarrow> terr option" where
  "err_of r = (if fst r then None else Some (CommandFailed (TrimSpace (snd r))))"

section \<open>GitSSHTransport\<close>

definition GitSSH_Name :: "'w ssh_transport \<Rightarrow> string" where
  "GitSSH_Name T = ''git-ssh+'' @ rs_Name (sh_resolver T)"

definition GitSSH_Available :: "'w ssh_transport \<Rightarrow> 'w \<Rightarrow> bool \<times> 'w" where
  "GitSSH_Available T = rs_Available (sh_resolver T)"

text \<open>strings.Map maps each rune; in valid UTF-8 a byte from 0x80 to 0xBF is never the first of one.\<close>

definition remote_char :: "char \<Rightarrow> bool" where
  "remote_char c \<longleftrightarrow> is_lower c \<or> is_upper c \<or> is_digit c \<or> c = CHR ''-'' \<or> c = CHR ''_''"

definition sanitise :: "string \<Rightarrow> string" where
  "sanitise s = concat (map (\<lambda>c. if remote_char c then [c] else if in_range 128 191 c then [] else ''-'') s)"

definition remoteName :: "string \<Rightarrow> tpeer \<Rightarrow> string" where
  "remoteName resolver peer = ''dk+'' @ resolver @ ''+'' @ sanitise (tp_Name peer)"

definition remoteURL :: "string \<Rightarrow> tpeer \<Rightarrow> tfolder \<Rightarrow> string" where
  "remoteURL addr peer folder =
    (let host = (if count_list addr (CHR '':'') \<ge> 2 \<and> \<not> HasPrefix addr ''['' then ''['' @ addr @ '']'' else addr);
         host = (if tp_User peer \<noteq> '''' then tp_User peer @ [CHR 0x40] @ host else host)
     in ''ssh://'' @ host @ tf_Path folder)"

definition GitSSH_EnsurePeerReachability :: "'w ssh_transport \<Rightarrow> tfolder \<Rightarrow> tpeer \<Rightarrow> 'w \<Rightarrow> terr option \<times> 'w" where
  "GitSSH_EnsurePeerReachability T folder peer w =
    (case rs_Resolve (sh_resolver T) peer w of
       (Inl e, w1) \<Rightarrow> (Some e, w1)
     | (Inr addr, w1) \<Rightarrow>
         let name = remoteName (rs_Name (sh_resolver T)) peer; url = remoteURL addr peer folder in
         case sh_runner T (tf_Path folder) ''git'' [''remote'', ''set-url'', name, url] w1 of
           ((ok, out), w2) \<Rightarrow>
             if ok then (None, w2)
             else if \<not> str_Contains (ToLower out) ''no such remote'' then (err_of (ok, out), w2)
             else case sh_runner T (tf_Path folder) ''git'' [''remote'', ''add'', name, url] w2 of (r, w3) \<Rightarrow> (err_of r, w3))"

definition GitSSH_RemovePeerReachability :: "'w ssh_transport \<Rightarrow> tfolder \<Rightarrow> tpeer \<Rightarrow> 'w \<Rightarrow> terr option \<times> 'w" where
  "GitSSH_RemovePeerReachability T folder peer w =
    (case sh_runner T (tf_Path folder) ''git'' [''remote'', ''remove'', remoteName (rs_Name (sh_resolver T)) peer] w of
       ((ok, out), w') \<Rightarrow> (if ok \<or> str_Contains (ToLower out) ''no such remote'' then None else err_of (ok, out), w'))"

definition ssh_options :: "string list" where
  "ssh_options = [''-o'', ''BatchMode=yes'', ''-o'', ''ConnectTimeout=3'', ''-o'', ''StrictHostKeyChecking=accept-new'']"

definition sshTarget :: "string \<Rightarrow> tpeer \<Rightarrow> string" where
  "sshTarget addr peer = (if tp_User peer \<noteq> '''' then tp_User peer @ [CHR 0x40] @ addr else addr)"

definition ssh_probe :: "'w ssh_transport \<Rightarrow> string list \<Rightarrow> tpeer \<Rightarrow> 'w \<Rightarrow> (terr + dur) \<times> 'w" where
  "ssh_probe T remote peer w =
    (case rs_Resolve (sh_resolver T) peer w of
       (Inl e, w1) \<Rightarrow> (Inl ErrUnreachable, w1)
     | (Inr addr, w1) \<Rightarrow>
         (case sh_runner T '''' ''ssh'' (ssh_options @ [sshTarget addr peer] @ remote) w1 of
            ((ok, out), w2) \<Rightarrow> (if ok then Inr (time_Sub (sh_now T w2) (sh_now T w1)) else Inl ErrUnreachable, w2)))"

definition GitSSH_Probe :: "'w ssh_transport \<Rightarrow> tpeer \<Rightarrow> 'w \<Rightarrow> (terr + dur) \<times> 'w" where
  "GitSSH_Probe T peer w =
    (case GitSSH_Available T w of (a, w0) \<Rightarrow> if \<not> a then (Inl ErrUnreachable, w0) else ssh_probe T [''true''] peer w0)"

definition localBranchName :: "'w ssh_transport \<Rightarrow> string \<Rightarrow> 'w \<Rightarrow> string \<times> 'w" where
  "localBranchName T dir w =
    (case sh_runner T dir ''git'' [''symbolic-ref'', ''--short'', ''HEAD''] w of
       ((ok, out), w') \<Rightarrow> (if \<not> ok \<or> TrimSpace out = '''' then ''main'' else TrimSpace out, w'))"

definition GitSSH_PropagateChange :: "'w ssh_transport \<Rightarrow> change \<Rightarrow> tpeer \<Rightarrow> 'w \<Rightarrow> terr option \<times> 'w" where
  "GitSSH_PropagateChange T c peer w =
    (let src = (if ch_CommitHash c \<noteq> '''' then ch_CommitHash c else ''HEAD'') in
     case localBranchName T (tf_Path (ch_Folder c)) w of (branch, w1) \<Rightarrow>
       (case sh_runner T (tf_Path (ch_Folder c)) ''git''
               [''push'', remoteName (rs_Name (sh_resolver T)) peer, src @ '':refs/heads/'' @ branch] w1 of
          (r, w2) \<Rightarrow> (err_of r, w2)))"

section \<open>MutagenTransport\<close>

definition Mutagen_Name :: "'w ssh_transport \<Rightarrow> string" where
  "Mutagen_Name T = ''mutagen+'' @ rs_Name (sh_resolver T)"

definition Mutagen_Available :: "'w ssh_transport \<Rightarrow> 'w \<Rightarrow> bool \<times> 'w" where
  "Mutagen_Available T w = (if \<not> sh_lookPath T w then (False, w) else rs_Available (sh_resolver T) w)"

text \<open>\<open>sha256\<close> gives the bytes of the digest.\<close>

definition sessionName :: "(string \<Rightarrow> string) \<Rightarrow> tfolder \<Rightarrow> tpeer \<Rightarrow> string" where
  "sessionName sha256 folder peer = ''dk'' @ hex_bytes (take 8 (sha256 (tf_ID folder @ [CHR 0x00] @ tp_Name peer)))"

definition remoteFolderPath :: "'w ssh_transport \<Rightarrow> tfolder \<Rightarrow> string" where
  "remoteFolderPath T folder = (if sh_remotePathBase T \<noteq> '''' then sh_remotePathBase T @ ''/'' @ tf_ID folder else tf_Path folder)"

definition Mutagen_EnsurePeerReachability :: "(string \<Rightarrow> string) \<Rightarrow> 'w ssh_transport \<Rightarrow> tfolder \<Rightarrow> tpeer \<Rightarrow> 'w \<Rightarrow> terr option \<times> 'w" where
  "Mutagen_EnsurePeerReachability sha256 T folder peer w =
    (case Mutagen_Available T w of (a, w0) \<Rightarrow>
       if \<not> a then (Some ErrUnreachable, w0)
       else case rs_Resolve (sh_resolver T) peer w0 of
              (Inl e, w1) \<Rightarrow> (Some e, w1)
            | (Inr addr, w1) \<Rightarrow>
                (case sh_runner T '''' ''mutagen'' [''sync'', ''create'', ''--name'', sessionName sha256 folder peer, ''--mode'', ''one-way-safe'',
                         tf_Path folder, sshTarget addr peer @ '':'' @ remoteFolderPath T folder] w1 of
                   ((ok, out), w2) \<Rightarrow> (if ok \<or> str_Contains (ToLower out) ''already exists'' then None else err_of (ok, out), w2)))"

definition Mutagen_RemovePeerReachability :: "(string \<Rightarrow> string) \<Rightarrow> 'w ssh_transport \<Rightarrow> tfolder \<Rightarrow> tpeer \<Rightarrow> 'w \<Rightarrow> terr option \<times> 'w" where
  "Mutagen_RemovePeerReachability sha256 T folder peer w =
    (case Mutagen_Available T w of (a, w0) \<Rightarrow>
       if \<not> a then (Some ErrUnreachable, w0)
       else case sh_runner T '''' ''mutagen'' [''sync'', ''terminate'', sessionName sha256 folder peer] w0 of
         ((ok, out), w1) \<Rightarrow>
           (if ok \<or> str_Contains (ToLower out) ''no such session'' \<or> str_Contains (ToLower out) ''unable to locate'' then None
            else err_of (ok, out), w1))"

text \<open>Both ways a probe fails over ssh are ErrUnreachable; they differ in the message only.\<close>

definition Mutagen_Probe :: "'w ssh_transport \<Rightarrow> tpeer \<Rightarrow> 'w \<Rightarrow> (terr + dur) \<times> 'w" where
  "Mutagen_Probe T peer w =
    (case Mutagen_Available T w of (a, w0) \<Rightarrow> if \<not> a then (Inl ErrUnreachable, w0) else ssh_probe T [''mutagen'', ''version''] peer w0)"

definition Mutagen_PropagateChange :: "(string \<Rightarrow> string) \<Rightarrow> 'w ssh_transport \<Rightarrow> change \<Rightarrow> tpeer \<Rightarrow> 'w \<Rightarrow> terr option \<times> 'w" where
  "Mutagen_PropagateChange sha256 T c peer w =
    (case Mutagen_Available T w of (a, w0) \<Rightarrow>
       if \<not> a then (Some ErrUnreachable, w0)
       else case sh_runner T '''' ''mutagen'' [''sync'', ''flush'', sessionName sha256 (ch_Folder c) peer] w0 of (r, w1) \<Rightarrow> (err_of r, w1))"

section \<open>The Tailscale resolver\<close>

record ts_host =
  ts_HostName :: string
  ts_IPs :: "string list"

text \<open>What \<open>tailscale status --json\<close> gives; the peers are in the order the range over their map takes.\<close>

datatype ts_status = StatusFailed | StatusGarbled | Status ts_host "ts_host list"

record TailscaleResolver =
  tr_cached :: "string \<Rightarrow> string option"
  tr_cachedAt :: gotime
  tr_cachedErr :: "terr option"
  tr_unavailable :: bool

definition cacheTTL :: dur where "cacheTTL = 30 * Second"

definition NewTailscaleResolver :: TailscaleResolver where
  "NewTailscaleResolver = \<lparr>tr_cached = (\<lambda>_. None), tr_cachedAt = 0, tr_cachedErr = None, tr_unavailable = False\<rparr>"

definition Tailscale_Available :: "bool \<Rightarrow> TailscaleResolver \<Rightarrow> bool \<times> TailscaleResolver" where
  "Tailscale_Available onPath r =
    (if tr_unavailable r then (False, r) else if \<not> onPath then (False, r\<lparr>tr_unavailable := True\<rparr>) else (True, r))"

definition index_host :: "(string \<Rightarrow> string option) \<Rightarrow> ts_host \<Rightarrow> string \<Rightarrow> string option" where
  "index_host cached h = (if ts_HostName h = '''' \<or> ts_IPs h = [] then cached else cached(ToLower (ts_HostName h) \<mapsto> hd (ts_IPs h)))"

definition refresh :: "gotime \<Rightarrow> ts_status \<Rightarrow> TailscaleResolver \<Rightarrow> terr option \<times> TailscaleResolver" where
  "refresh done st r =
    (case st of
       Status self peers \<Rightarrow>
         (None, r\<lparr>tr_cached := foldl index_host (index_host (\<lambda>_. None) self) peers, tr_cachedAt := done, tr_cachedErr := None\<rparr>)
     | _ \<Rightarrow> (Some ErrResolverUnavailable, r\<lparr>tr_cached := (\<lambda>_. None), tr_cachedAt := done, tr_cachedErr := Some ErrResolverUnavailable\<rparr>))"

definition refreshIfStale :: "gotime \<Rightarrow> gotime \<Rightarrow> ts_status \<Rightarrow> TailscaleResolver \<Rightarrow> terr option \<times> TailscaleResolver" where
  "refreshIfStale now done st r = (if \<not> time_Sub now (tr_cachedAt r) > cacheTTL then (None, r) else refresh done st r)"

definition cache_lookup :: "(string \<Rightarrow> string option) \<Rightarrow> tpeer \<Rightarrow> terr + string" where
  "cache_lookup cached peer =
    (case List.find (\<lambda>c. c \<noteq> '''' \<and> cached (ToLower c) \<noteq> None) [tp_Hostname peer, tp_Name peer] of
       None \<Rightarrow> Inl ErrPeerUnknown | Some c \<Rightarrow> Inr (the (cached (ToLower c))))"

text \<open>\<open>st\<close> is what the command gives when this call runs it, \<open>done\<close> the time it is done.\<close>

definition Tailscale_Resolve :: "gotime \<Rightarrow> gotime \<Rightarrow> ts_status \<Rightarrow> tpeer \<Rightarrow> TailscaleResolver \<Rightarrow> (terr + string) \<times> TailscaleResolver" where
  "Tailscale_Resolve now done st peer r =
    (case refreshIfStale now done st r of
       (Some e, r') \<Rightarrow> (Inl e, r')
     | (None, r') \<Rightarrow> (case tr_cachedErr r' of Some e \<Rightarrow> Inl e | None \<Rightarrow> cache_lookup (tr_cached r') peer, r'))"

section \<open>Resolving\<close>

text \<open>What a status says of a peer: the address of the last usable host with the name of the peer, in any case.\<close>

definition host_ip :: "ts_host list \<Rightarrow> string \<Rightarrow> string option" where
  "host_ip hosts name =
    (let hs = filter (\<lambda>h. ts_HostName h \<noteq> '''' \<and> ts_IPs h \<noteq> [] \<and> ToLower (ts_HostName h) = ToLower name) hosts
     in if hs = [] then None else Some (hd (ts_IPs (last hs))))"

definition status_answer :: "ts_status \<Rightarrow> tpeer \<Rightarrow> terr + string" where
  "status_answer st peer =
    (case st of
       Status self peers \<Rightarrow>
         (case List.find (\<lambda>c. c \<noteq> '''' \<and> host_ip (self # peers) c \<noteq> None) [tp_Hostname peer, tp_Name peer] of
            None \<Rightarrow> Inl ErrPeerUnknown | Some c \<Rightarrow> Inr (the (host_ip (self # peers) c)))
     | _ \<Rightarrow> Inl ErrResolverUnavailable)"

lemma index_hosts: "foldl index_host cached hosts (ToLower name) = (case host_ip hosts name of None \<Rightarrow> cached (ToLower name) | Some ip \<Rightarrow> Some ip)"
proof (induction hosts rule: rev_induct)
  case (snoc h hosts)
  show ?case using snoc.IH by (auto simp: index_host_def host_ip_def Let_def)
qed (simp add: host_ip_def)

definition from_status :: "TailscaleResolver \<Rightarrow> ts_status \<Rightarrow> gotime \<Rightarrow> bool" where
  "from_status r st d \<longleftrightarrow> tr_cachedAt r = d \<and>
     (\<forall>peer. (case tr_cachedErr r of Some e \<Rightarrow> Inl e | None \<Rightarrow> cache_lookup (tr_cached r) peer) = status_answer st peer)"

lemma refresh_from_status: "from_status (snd (refresh d st r)) st d \<and> fst (refresh d st r) = tr_cachedErr (snd (refresh d st r))"
proof (cases st)
  case (Status self peers)
  have "foldl index_host (index_host (\<lambda>_. None) self) peers (ToLower c) = host_ip (self # peers) c" for c
    using index_hosts[of "\<lambda>_. None" "self # peers" c] by (simp split: option.splits)
  then show ?thesis by (simp add: Status refresh_def from_status_def status_answer_def cache_lookup_def)
qed (simp_all add: refresh_def from_status_def status_answer_def)

lemma Resolve_step:
  assumes "Tailscale_Resolve now d st peer r = (ans, r')"
  shows "(if time_Sub now (tr_cachedAt r) > cacheTTL then ans = status_answer st peer \<and> from_status r' st d
          else r' = r \<and> (\<forall>s e. from_status r s e \<longrightarrow> ans = status_answer s peer))"
proof (cases "time_Sub now (tr_cachedAt r) > cacheTTL")
  case True
  obtain e r1 where 1: "refresh d st r = (e, r1)" by fastforce
  have "from_status r1 st d" "e = tr_cachedErr r1" using refresh_from_status[of d st r] by (simp_all add: 1)
  moreover have "r' = r1 \<and> ans = (case tr_cachedErr r1 of Some e \<Rightarrow> Inl e | None \<Rightarrow> cache_lookup (tr_cached r1) peer)"
    using assms True calculation(2) by (auto simp: Tailscale_Resolve_def refreshIfStale_def 1 split: option.splits)
  ultimately show ?thesis using True by (simp add: from_status_def)
next
  case False
  then show ?thesis using assms by (auto simp: Tailscale_Resolve_def refreshIfStale_def from_status_def)
qed

text \<open>A sequence of calls: the time, the status the command would give, the time it would be done, the peer.\<close>

fun ts_run :: "TailscaleResolver \<Rightarrow> (gotime \<times> gotime \<times> ts_status \<times> tpeer) list \<Rightarrow> (terr + string) list" where
  "ts_run r [] = []"
| "ts_run r ((now, d, st, peer) # cs) = (case Tailscale_Resolve now d st peer r of (ans, r') \<Rightarrow> ans # ts_run r' cs)"

definition answered_by :: "(gotime \<times> gotime \<times> ts_status \<times> tpeer) list \<Rightarrow> nat \<Rightarrow> terr + string \<Rightarrow> nat \<Rightarrow> bool" where
  "answered_by cs i ans j \<longleftrightarrow>
    (case (cs ! i, cs ! j) of ((now, _, _, peer), (_, d, st, _)) \<Rightarrow> ans = status_answer st peer \<and> (j = i \<or> now - d \<le> cacheTTL))"

lemma fresh_iff: "time_Sub now t > cacheTTL \<longleftrightarrow> now - t > cacheTTL"
  using time_Sub_le_iff[of cacheTTL now t] by (auto simp: cacheTTL_def Second_def minDur_def maxDur_def)

lemma ts_run_answers:
  assumes "i < length cs" "list_all (\<lambda>c. cacheTTL < fst c) cs" "r = NewTailscaleResolver \<or> from_status r s e"
  shows "(\<exists>j\<le>i. answered_by cs i (ts_run r cs ! i) j) \<or>
    from_status r s e \<and> (case cs ! i of (now, _, _, peer) \<Rightarrow> ts_run r cs ! i = status_answer s peer \<and> now - e \<le> cacheTTL)"
  using assms
proof (induction cs arbitrary: i r s e)
  case (Cons c cs)
  obtain now d st peer where c: "c = (now, d, st, peer)" by (metis prod.collapse)
  obtain ans r' where 1: "Tailscale_Resolve now d st peer r = (ans, r')" by fastforce
  note S = Resolve_step[OF 1, unfolded fresh_iff]
  have start: "tr_cachedAt NewTailscaleResolver = 0" by (simp add: NewTailscaleResolver_def)
  show ?case
  proof (cases i)
    case 0
    have a: "ts_run r (c # cs) ! 0 = ans" by (simp add: c 1)
    show ?thesis
    proof (cases "now - tr_cachedAt r > cacheTTL")
      case True
      then have "answered_by (c # cs) 0 ans 0" using S by (simp add: answered_by_def c)
      then show ?thesis using a 0 by auto
    next
      case False
      then have "r \<noteq> NewTailscaleResolver" using Cons.prems(2) c start by auto
      then have f: "from_status r s e" using Cons.prems(3) by blast
      then have "ans = status_answer s peer" "now - e \<le> cacheTTL" using S False by (auto simp: from_status_def)
      then show ?thesis using a 0 f by (simp add: c)
    qed
  next
    case (Suc k)
    have shift: "answered_by (c # cs) (Suc k) a (Suc j) = answered_by cs k a j" for a j by (simp add: answered_by_def split: prod.split)
    show ?thesis
    proof (cases "now - tr_cachedAt r > cacheTTL")
      case True
      then have r': "from_status r' st d" using S by simp
      have t: "ts_run r (c # cs) ! i = ts_run r' cs ! k" by (simp add: c 1 Suc)
      have "(\<exists>j\<le>k. answered_by cs k (ts_run r' cs ! k) j) \<or>
        (case cs ! k of (now, _, _, peer) \<Rightarrow> ts_run r' cs ! k = status_answer st peer \<and> now - d \<le> cacheTTL)"
        using Cons.IH[of k r' st d] Cons.prems(1,2) Suc r' by auto
      then show ?thesis
      proof
        assume "\<exists>j\<le>k. answered_by cs k (ts_run r' cs ! k) j"
        then obtain j where "j \<le> k" "answered_by cs k (ts_run r' cs ! k) j" by blast
        then show ?thesis unfolding Suc t[unfolded Suc] by (intro disjI1 exI[of _ "Suc j"]) (simp add: shift)
      next
        assume a: "case cs ! k of (now, _, _, peer) \<Rightarrow> ts_run r' cs ! k = status_answer st peer \<and> now - d \<le> cacheTTL"
        have "answered_by (c # cs) i (ts_run r (c # cs) ! i) 0" unfolding t using a by (simp add: answered_by_def Suc c split: prod.splits)
        then show ?thesis by auto
      qed
    next
      case False
      then have r: "r' = r" "r \<noteq> NewTailscaleResolver" using S Cons.prems(2) c start by auto
      then have f: "from_status r s e" using Cons.prems(3) by blast
      have t: "ts_run r (c # cs) ! i = ts_run r cs ! k" by (simp add: c 1 r(1) Suc)
      have "(\<exists>j\<le>k. answered_by cs k (ts_run r cs ! k) j) \<or>
        from_status r s e \<and> (case cs ! k of (now, _, _, peer) \<Rightarrow> ts_run r cs ! k = status_answer s peer \<and> now - e \<le> cacheTTL)"
        using Cons.IH[of k r s e] Cons.prems(1,2) Suc f by auto
      then show ?thesis
      proof
        assume "\<exists>j\<le>k. answered_by cs k (ts_run r cs ! k) j"
        then obtain j where "j \<le> k" "answered_by cs k (ts_run r cs ! k) j" by blast
        then show ?thesis unfolding Suc t[unfolded Suc] by (intro disjI1 exI[of _ "Suc j"]) (simp add: shift)
      qed (simp add: Suc t[unfolded Suc])
    qed
  qed
qed simp

text \<open>
  C35: The cached status is never older than its time to live. In any sequence of calls on a new resolver each answer, an address or
  an error, is what a status of the tailnet says of the peer that was asked for: the one this very call fetched, or one an earlier
  call had fetched at most 30 seconds before.
\<close>

theorem Resolve_at_most_ttl_old:
  assumes "i < length cs" "list_all (\<lambda>c. cacheTTL < fst c) cs"
  shows "\<exists>j\<le>i. answered_by cs i (ts_run NewTailscaleResolver cs ! i) j"
proof -
  let ?e = "tr_cachedAt NewTailscaleResolver"
  have "\<not> from_status NewTailscaleResolver StatusFailed ?e"
    by (simp add: from_status_def NewTailscaleResolver_def status_answer_def cache_lookup_def split: option.split)
  then show ?thesis using ts_run_answers[OF assms, of NewTailscaleResolver StatusFailed ?e] by blast
qed

text \<open>The second of two calls 10 seconds apart still sees the address the first one was given, although it has changed.\<close>

definition demo_calls :: "(gotime \<times> gotime \<times> ts_status \<times> tpeer) list" where
  "demo_calls =
    (let self = \<lparr>ts_HostName = ''desk'', ts_IPs = [''100.64.0.1'']\<rparr>; peer = \<lparr>tp_Name = ''Lap'', tp_DeviceID = '''', tp_Hostname = ''Lap'', tp_User = ''''\<rparr>
     in [(100000000000, 100000000000, Status self [\<lparr>ts_HostName = ''lap'', ts_IPs = [''100.64.0.2'']\<rparr>], peer),
         (110000000000, 110000000000, Status self [\<lparr>ts_HostName = ''lap'', ts_IPs = [''100.64.0.3'']\<rparr>], peer)])"

theorem Resolve_at_most_ttl_old_witness:
  "ts_run NewTailscaleResolver demo_calls ! 1 = Inr ''100.64.0.2'' \<and> (\<exists>j\<le>1. answered_by demo_calls 1 (ts_run NewTailscaleResolver demo_calls ! 1) j)"
proof -
  have "1 < length demo_calls" "list_all (\<lambda>c. cacheTTL < fst c) demo_calls" by code_simp+
  moreover have "ts_run NewTailscaleResolver demo_calls ! 1 = Inr ''100.64.0.2''" by code_simp
  ultimately show ?thesis using Resolve_at_most_ttl_old[of 1 demo_calls] by blast
qed

section \<open>The git remotes of a folder\<close>

text \<open>
  What git documents of the commands run here, \<open>remotes w dir\<close> being the remotes of the repository at \<open>dir\<close>: a command that
  fails changes none of them, the message \<open>No such remote\<close> is given only for one that is missing, and a push to a name with
  a plus sign that is no remote does not succeed.
\<close>

definition remote_laws :: "'w runner \<Rightarrow> ('w \<Rightarrow> string \<Rightarrow> string \<Rightarrow> string option) \<Rightarrow> bool" where
  "remote_laws exec remotes \<longleftrightarrow>
    (\<forall>dir n u w ok out w'. exec dir ''git'' [''remote'', ''set-url'', n, u] w = ((ok, out), w') \<longrightarrow>
       remotes w' = (if ok then (remotes w)(dir := (remotes w dir)(n \<mapsto> u)) else remotes w) \<and>
       (\<not> ok \<and> str_Contains (ToLower out) ''no such remote'' \<longrightarrow> remotes w dir n = None)) \<and>
    (\<forall>dir n u w ok out w'. exec dir ''git'' [''remote'', ''add'', n, u] w = ((ok, out), w') \<longrightarrow>
       remotes w' = (if ok then (remotes w)(dir := (remotes w dir)(n \<mapsto> u)) else remotes w)) \<and>
    (\<forall>dir n w ok out w'. exec dir ''git'' [''remote'', ''remove'', n] w = ((ok, out), w') \<longrightarrow>
       remotes w' = (if ok then (remotes w)(dir := (remotes w dir)(n := None)) else remotes w) \<and>
       (\<not> ok \<and> str_Contains (ToLower out) ''no such remote'' \<longrightarrow> remotes w dir n = None)) \<and>
    (\<forall>dir w ok out w'. exec dir ''git'' [''symbolic-ref'', ''--short'', ''HEAD''] w = ((ok, out), w') \<longrightarrow> remotes w' = remotes w) \<and>
    (\<forall>dir n ref w ok out w'. exec dir ''git'' [''push'', n, ref] w = ((ok, out), w') \<longrightarrow>
       remotes w' = remotes w \<and> (ok \<and> CHR ''+'' \<in> set n \<longrightarrow> remotes w dir n \<noteq> None))"

lemma remote_lawsD:
  assumes "remote_laws exec remotes"
  shows "exec dir ''git'' [''remote'', ''set-url'', n, u] w = ((ok, out), w') \<Longrightarrow>
      remotes w' = (if ok then (remotes w)(dir := (remotes w dir)(n \<mapsto> u)) else remotes w)"
    and "exec dir ''git'' [''remote'', ''add'', n, u] w = ((ok, out), w') \<Longrightarrow>
      remotes w' = (if ok then (remotes w)(dir := (remotes w dir)(n \<mapsto> u)) else remotes w)"
    and "exec dir ''git'' [''remote'', ''remove'', n] w = ((ok, out), w') \<Longrightarrow>
      remotes w' = (if ok then (remotes w)(dir := (remotes w dir)(n := None)) else remotes w) \<and>
      (\<not> ok \<and> str_Contains (ToLower out) ''no such remote'' \<longrightarrow> remotes w dir n = None)"
    and "exec dir ''git'' [''symbolic-ref'', ''--short'', ''HEAD''] w = ((ok, out), w') \<Longrightarrow> remotes w' = remotes w"
    and "exec dir ''git'' [''push'', n, ref] w = ((ok, out), w') \<Longrightarrow>
      remotes w' = remotes w \<and> (ok \<and> CHR ''+'' \<in> set n \<longrightarrow> remotes w dir n \<noteq> None)"
proof -
  note L = assms[unfolded remote_laws_def]
  note L1 = L[THEN conjunct1] and L2 = L[THEN conjunct2]
  note L3 = L2[THEN conjunct2] note L4 = L3[THEN conjunct2]
  show "exec dir ''git'' [''remote'', ''set-url'', n, u] w = ((ok, out), w') \<Longrightarrow>
      remotes w' = (if ok then (remotes w)(dir := (remotes w dir)(n \<mapsto> u)) else remotes w)"
    by (drule L1[rule_format]) (rule conjunct1)
  show "exec dir ''git'' [''remote'', ''add'', n, u] w = ((ok, out), w') \<Longrightarrow>
      remotes w' = (if ok then (remotes w)(dir := (remotes w dir)(n \<mapsto> u)) else remotes w)"
    by (rule L2[THEN conjunct1, rule_format])
  show "exec dir ''git'' [''remote'', ''remove'', n] w = ((ok, out), w') \<Longrightarrow>
      remotes w' = (if ok then (remotes w)(dir := (remotes w dir)(n := None)) else remotes w) \<and>
      (\<not> ok \<and> str_Contains (ToLower out) ''no such remote'' \<longrightarrow> remotes w dir n = None)"
    by (drule L3[THEN conjunct1, rule_format]) blast
  show "exec dir ''git'' [''symbolic-ref'', ''--short'', ''HEAD''] w = ((ok, out), w') \<Longrightarrow> remotes w' = remotes w"
    by (rule L4[THEN conjunct1, rule_format])
  show "exec dir ''git'' [''push'', n, ref] w = ((ok, out), w') \<Longrightarrow>
      remotes w' = remotes w \<and> (ok \<and> CHR ''+'' \<in> set n \<longrightarrow> remotes w dir n \<noteq> None)"
    by (drule L4[THEN conjunct2, rule_format]) blast
qed

definition quiet_resolver :: "'w ssh_transport \<Rightarrow> ('w \<Rightarrow> 'r) \<Rightarrow> bool" where
  "quiet_resolver T view \<longleftrightarrow> (\<forall>peer w. view (snd (rs_Resolve (sh_resolver T) peer w)) = view w)"

text \<open>The remote a peer has in a folder, set to a URL or removed.\<close>

definition set_remote :: "'w ssh_transport \<Rightarrow> tfolder \<Rightarrow> tpeer \<Rightarrow> string option \<Rightarrow> (string \<Rightarrow> string \<Rightarrow> string option) \<Rightarrow> string \<Rightarrow> string \<Rightarrow> string option" where
  "set_remote T folder peer url rs =
    rs(tf_Path folder := (rs (tf_Path folder))(remoteName (rs_Name (sh_resolver T)) peer := url))"

text \<open>The other way round: what a call may have done to the remotes, by its result.\<close>

definition remotes_after :: "('w \<Rightarrow> string \<Rightarrow> string \<Rightarrow> string option) \<Rightarrow> (string \<Rightarrow> string \<Rightarrow> string option) \<Rightarrow> 'w \<Rightarrow> terr option \<times> 'w \<Rightarrow> bool" where
  "remotes_after remotes goal w r \<longleftrightarrow> remotes (snd r) = (if fst r = None then goal else remotes w)"

lemma GitSSH_Ensure_remotes:
  assumes "remote_laws (sh_runner T) remotes" "quiet_resolver T remotes"
  shows "case fst (rs_Resolve (sh_resolver T) peer w) of
      Inl e \<Rightarrow> fst (GitSSH_EnsurePeerReachability T folder peer w) = Some e \<and> remotes (snd (GitSSH_EnsurePeerReachability T folder peer w)) = remotes w
    | Inr addr \<Rightarrow> remotes_after remotes (set_remote T folder peer (Some (remoteURL addr peer folder)) (remotes w)) w (GitSSH_EnsurePeerReachability T folder peer w)"
proof -
  obtain a w1 where r: "rs_Resolve (sh_resolver T) peer w = (a, w1)" by fastforce
  have w1: "remotes w1 = remotes w" using assms(2) by (metis quiet_resolver_def r snd_conv)
  note L = remote_lawsD[OF assms(1)]
  show ?thesis
  proof (cases a)
    case (Inr addr)
    let ?n = "remoteName (rs_Name (sh_resolver T)) peer" and ?u = "remoteURL addr peer folder"
    obtain ok out w2 where s: "sh_runner T (tf_Path folder) ''git'' [''remote'', ''set-url'', ?n, ?u] w1 = ((ok, out), w2)" by (metis prod.collapse)
    obtain ok' out' w3 where d: "sh_runner T (tf_Path folder) ''git'' [''remote'', ''add'', ?n, ?u] w2 = ((ok', out'), w3)" by (metis prod.collapse)
    show ?thesis using L(1)[OF s] L(2)[OF d] w1
      by (simp add: r Inr s d GitSSH_EnsurePeerReachability_def Let_def remotes_after_def set_remote_def err_of_def)
  qed (simp add: r w1 GitSSH_EnsurePeerReachability_def)
qed

lemma GitSSH_Remove_remotes:
  assumes "remote_laws (sh_runner T) remotes"
  shows "remotes_after remotes (set_remote T folder peer None (remotes w)) w (GitSSH_RemovePeerReachability T folder peer w)"
proof -
  obtain ok out w' where r: "sh_runner T (tf_Path folder) ''git'' [''remote'', ''remove'', remoteName (rs_Name (sh_resolver T)) peer] w = ((ok, out), w')"
    by (metis prod.collapse)
  show ?thesis using remote_lawsD(3)[OF assms r]
    by (auto simp: r GitSSH_RemovePeerReachability_def remotes_after_def set_remote_def err_of_def fun_eq_iff)
qed

lemma plus_remoteName [simp]: "CHR ''+'' \<in> set (remoteName n peer)"
  by (simp add: remoteName_def)

lemma GitSSH_Propagate_remotes:
  assumes "remote_laws (sh_runner T) remotes"
  shows "remotes (snd (GitSSH_PropagateChange T c peer w)) = remotes w \<and>
    (fst (GitSSH_PropagateChange T c peer w) = None \<longrightarrow> remotes w (tf_Path (ch_Folder c)) (remoteName (rs_Name (sh_resolver T)) peer) \<noteq> None)"
proof -
  let ?d = "tf_Path (ch_Folder c)" and ?n = "remoteName (rs_Name (sh_resolver T)) peer"
  obtain ok out w1 where b: "sh_runner T ?d ''git'' [''symbolic-ref'', ''--short'', ''HEAD''] w = ((ok, out), w1)" by (metis prod.collapse)
  let ?branch = "if \<not> ok \<or> TrimSpace out = '''' then ''main'' else TrimSpace out"
  let ?ref = "(if ch_CommitHash c \<noteq> '''' then ch_CommitHash c else ''HEAD'') @ '':refs/heads/'' @ ?branch"
  obtain ok' out' w2 where p: "sh_runner T ?d ''git'' [''push'', ?n, ?ref] w1 = ((ok', out'), w2)" by (metis prod.collapse)
  have "GitSSH_PropagateChange T c peer w = (err_of (ok', out'), w2)"
    using p by (simp add: GitSSH_PropagateChange_def localBranchName_def b Let_def)
  then show ?thesis using remote_lawsD(4)[OF assms b] remote_lawsD(5)[OF assms p] by (auto simp: err_of_def)
qed

text \<open>
  The three operations of the git transport on the remotes of the repositories. Ensuring a peer sets the peer's remote in that
  folder to the URL of the address that was resolved, whether or not it was there, and changes no other remote; removing it removes
  that one; a failing call changes none. A push changes none either, and can only succeed where the peer's remote is set.
\<close>

theorem GitSSH_remotes_contract:
  assumes "remote_laws (sh_runner T) remotes" "quiet_resolver T remotes"
  shows "(case fst (rs_Resolve (sh_resolver T) peer w) of
      Inl e \<Rightarrow> fst (GitSSH_EnsurePeerReachability T folder peer w) = Some e \<and> remotes (snd (GitSSH_EnsurePeerReachability T folder peer w)) = remotes w
    | Inr addr \<Rightarrow> remotes_after remotes (set_remote T folder peer (Some (remoteURL addr peer folder)) (remotes w)) w (GitSSH_EnsurePeerReachability T folder peer w)) \<and>
    remotes_after remotes (set_remote T folder peer None (remotes w)) w (GitSSH_RemovePeerReachability T folder peer w) \<and>
    remotes (snd (GitSSH_PropagateChange T c peer w)) = remotes w \<and>
    (fst (GitSSH_PropagateChange T c peer w) = None \<longrightarrow> remotes w (tf_Path (ch_Folder c)) (remoteName (rs_Name (sh_resolver T)) peer) \<noteq> None)"
  using GitSSH_Ensure_remotes[OF assms] GitSSH_Remove_remotes[OF assms(1)] GitSSH_Propagate_remotes[OF assms(1)] by blast

text \<open>A world that is nothing but remotes, and a git that does what it documents of them.\<close>

definition demo_runner :: "(string \<Rightarrow> string \<Rightarrow> string option) runner" where
  "demo_runner dir prog args w =
    (case args of
       [a, b, n, u] \<Rightarrow> if a = ''remote'' \<and> b = ''set-url'' then
           (if w dir n = None then ((False, ''error: No such remote''), w) else ((True, ''''), w(dir := (w dir)(n \<mapsto> u))))
         else if a = ''remote'' \<and> b = ''add'' then
           (if w dir n \<noteq> None then ((False, ''error: remote already exists''), w) else ((True, ''''), w(dir := (w dir)(n \<mapsto> u))))
         else ((False, ''''), w)
     | [a, b, n] \<Rightarrow> if a = ''remote'' \<and> b = ''remove'' then
           (if w dir n = None then ((False, ''error: No such remote''), w) else ((True, ''''), w(dir := (w dir)(n := None))))
         else if a = ''symbolic-ref'' then ((True, ''dev''), w)
         else ((a = ''push'' \<and> w dir b \<noteq> None, ''''), w)
     | _ \<Rightarrow> ((False, ''''), w))"

lemma demo_runner_laws: "remote_laws demo_runner (\<lambda>w. w)"
  by (auto simp: remote_laws_def demo_runner_def fun_eq_iff)

definition demo_ssh :: "(string \<Rightarrow> string \<Rightarrow> string option) ssh_transport" where
  "demo_ssh = \<lparr>sh_resolver = \<lparr>rs_Name = ''tailscale'', rs_Available = (\<lambda>w. (True, w)), rs_Resolve = (\<lambda>p w. (Inr ''fd7a::1'', w))\<rparr>,
    sh_runner = demo_runner, sh_now = (\<lambda>_. 0), sh_lookPath = (\<lambda>_. True), sh_remotePathBase = ''''\<rparr>"

definition demo_peer :: "string \<Rightarrow> tpeer" where
  "demo_peer name = \<lparr>tp_Name = name, tp_DeviceID = '''', tp_Hostname = name, tp_User = ''''\<rparr>"

definition demo_tfolder :: tfolder where "demo_tfolder = \<lparr>tf_ID = ''r'', tf_Path = ''/r''\<rparr>"

text \<open>On a folder without remotes the first call adds the remote, with the IPv6 address in brackets.\<close>

theorem GitSSH_remotes_contract_witness:
  "remotes_after (\<lambda>w. w) (set_remote demo_ssh demo_tfolder (demo_peer ''lap'') (Some ''ssh://[fd7a::1]/r'') (\<lambda>_ _. None)) (\<lambda>_ _. None)
      (GitSSH_EnsurePeerReachability demo_ssh demo_tfolder (demo_peer ''lap'') (\<lambda>_ _. None)) \<and>
   fst (GitSSH_EnsurePeerReachability demo_ssh demo_tfolder (demo_peer ''lap'') (\<lambda>_ _. None)) = None \<and>
   fst (GitSSH_PropagateChange demo_ssh \<lparr>ch_Folder = demo_tfolder, ch_CommitHash = '''', ch_SizeHint = 0, ch_Kind = ChangeKindUnknown\<rparr> (demo_peer ''lap'') (\<lambda>_ _. None)) \<noteq> None"
proof -
  have l: "remote_laws (sh_runner demo_ssh) (\<lambda>w. w)" "quiet_resolver demo_ssh (\<lambda>w. w)"
    using demo_runner_laws by (simp_all add: demo_ssh_def quiet_resolver_def)
  have a: "fst (rs_Resolve (sh_resolver demo_ssh) (demo_peer ''lap'') (\<lambda>_ _. None)) = Inr ''fd7a::1''" by (simp add: demo_ssh_def)
  have u: "remoteURL ''fd7a::1'' (demo_peer ''lap'') demo_tfolder = ''ssh://[fd7a::1]/r''" by code_simp
  have e: "fst (GitSSH_EnsurePeerReachability demo_ssh demo_tfolder (demo_peer ''lap'') (\<lambda>_ _. None)) = None" by code_simp
  show ?thesis
    using GitSSH_remotes_contract[OF l, where peer = "demo_peer ''lap''" and w = "\<lambda>_ _. None" and folder = demo_tfolder and
      c = "\<lparr>ch_Folder = demo_tfolder, ch_CommitHash = '''', ch_SizeHint = 0, ch_Kind = ChangeKindUnknown\<rparr>"] a u e by simp
qed

text \<open>Two peers whose names differ in punctuation only have one remote: ensuring the second one redirects the pushes to the first.\<close>

theorem peers_share_a_remote:
  "remoteName ''tailscale'' (demo_peer ''my.lap'') = remoteName ''tailscale'' (demo_peer ''my lap'') \<and>
   (let rs = snd (GitSSH_EnsurePeerReachability demo_ssh demo_tfolder ((demo_peer ''my lap'')\<lparr>tp_User := ''eve''\<rparr>)
        (snd (GitSSH_EnsurePeerReachability demo_ssh demo_tfolder ((demo_peer ''my.lap'')\<lparr>tp_User := ''bob''\<rparr>) (\<lambda>_ _. None))))
    in rs ''/r'' (remoteName ''tailscale'' (demo_peer ''my.lap'')) = Some (''ssh://eve'' @ [CHR 0x40] @ ''[fd7a::1]/r''))"
  by code_simp

section \<open>bare-init\<close>

definition single_quote :: char where "single_quote = CHR 0x27"

text \<open>strings.ReplaceAll of the one character by quote, backslash, quote, quote.\<close>

definition shellQuote :: "string \<Rightarrow> string" where
  "shellQuote s = [single_quote] @
    concat (map (\<lambda>c. if c = single_quote then [single_quote, CHR 0x5C, single_quote, single_quote] else [c]) s) @ [single_quote]"

definition resolveBareInitAddress :: "'w resolver list \<Rightarrow> PeerEntry \<Rightarrow> string \<Rightarrow> 'w \<Rightarrow> (string \<times> string) \<times> 'w" where
  "resolveBareInitAddress resolvers p override w =
    (if override \<noteq> '''' then ((override, ''override''), w)
     else foldr (\<lambda>r rest w. case rs_Available r w of (a, w1) \<Rightarrow>
              if \<not> a then rest w1
              else case rs_Resolve r \<lparr>tp_Name = pe_Name p, tp_DeviceID = pe_DeviceID p, tp_Hostname = pe_Name p, tp_User = ''''\<rparr> w1 of
                     (Inr addr, w2) \<Rightarrow> ((addr, rs_Name r), w2)
                   | (Inl _, w2) \<Rightarrow> rest w2)
            resolvers (\<lambda>w. ((pe_Name p, ''name-as-hostname''), w)) w)"

datatype bare_init_error = LoadMachineFailed | PeerNotFound | NoPeers | NoFolders | HostNeedsOnePeer | SomeFailed

definition bare_init_args :: "string \<Rightarrow> string list" where
  "bare_init_args folder = [''git'', ''-C'', shellQuote folder, ''config'', ''receive.denyCurrentBranch'', ''updateInstead'']"

text \<open>\<open>ssh\<close> is bareInitSSHRunner: the target and the arguments; the result says whether any command failed.\<close>

fun bare_init_folders :: "(string \<Rightarrow> string list \<Rightarrow> 'w \<Rightarrow> bool \<times> 'w) \<Rightarrow> string \<Rightarrow> string list \<Rightarrow> 'w \<Rightarrow> bool \<times> 'w" where
  "bare_init_folders ssh addr [] w = (False, w)"
| "bare_init_folders ssh addr (folder # folders) w =
    (case ssh addr (bare_init_args folder) w of (ok, w1) \<Rightarrow>
       (case bare_init_folders ssh addr folders w1 of (failed, w2) \<Rightarrow> (\<not> ok \<or> failed, w2)))"

fun bare_init_peers :: "'w resolver list \<Rightarrow> (string \<Rightarrow> string list \<Rightarrow> 'w \<Rightarrow> bool \<times> 'w) \<Rightarrow> string \<Rightarrow> string list \<Rightarrow> PeerEntry list \<Rightarrow> 'w \<Rightarrow> bool \<times> 'w" where
  "bare_init_peers resolvers ssh override folders [] w = (False, w)"
| "bare_init_peers resolvers ssh override folders (p # ps) w =
    (case resolveBareInitAddress resolvers p override w of ((addr, source), w1) \<Rightarrow>
     case bare_init_folders ssh addr folders w1 of (f1, w2) \<Rightarrow>
     case bare_init_peers resolvers ssh override folders ps w2 of (f2, w3) \<Rightarrow> (f1 \<or> f2, w3))"

definition bareInitCmd :: "'w resolver list \<Rightarrow> (string \<Rightarrow> string list \<Rightarrow> 'w \<Rightarrow> bool \<times> 'w) \<Rightarrow> MachineConfigV2 option \<Rightarrow> string list \<Rightarrow> string \<Rightarrow> string \<Rightarrow> 'w \<Rightarrow> bare_init_error option \<times> 'w" where
  "bareInitCmd resolvers ssh machine folders peerName override w =
    (case machine of None \<Rightarrow> (Some LoadMachineFailed, w)
     | Some mc \<Rightarrow>
         let peers = (if peerName \<noteq> '''' then filter (\<lambda>p. pe_Name p = peerName) (mc_Peers mc) else mc_Peers mc) in
         if peerName \<noteq> '''' \<and> peers = [] then (Some PeerNotFound, w)
         else if peers = [] then (Some NoPeers, w)
         else if folders = [] then (Some NoFolders, w)
         else if override \<noteq> '''' \<and> length peers > 1 then (Some HostNeedsOnePeer, w)
         else case bare_init_peers resolvers ssh override folders peers w of (failed, w') \<Rightarrow> (if failed then Some SomeFailed else None, w'))"

text \<open>
  How a POSIX shell splits a command line into words, as far as blanks, single quotes and backslashes go (None for an open quote or
  a character with another special meaning). The arguments of ssh are joined with blanks and read by the shell of the other side.
\<close>

definition sh_special :: "char \<Rightarrow> bool" where
  "sh_special c \<longleftrightarrow> c \<in> set ''|&;<>()$*?[#~=%!{}'' \<or> c \<in> {CHR 0x60, CHR 0x22, CHR 0x0A}"

fun sh_words :: "bool \<Rightarrow> string option \<Rightarrow> string \<Rightarrow> string list option" where
  "sh_words True cur [] = None"
| "sh_words True cur (c # s) =
    (let w = (case cur of None \<Rightarrow> [] | Some w \<Rightarrow> w)
     in if c = CHR 0x27 then sh_words False (Some w) s else sh_words True (Some (w @ [c])) s)"
| "sh_words False cur [] = Some (case cur of None \<Rightarrow> [] | Some w \<Rightarrow> [w])"
| "sh_words False cur (c # s) =
    (let w = (case cur of None \<Rightarrow> [] | Some w \<Rightarrow> w) in
     if c = CHR 0x27 then sh_words True (Some w) s
     else if c = CHR 0x5C then (case s of [] \<Rightarrow> None | d # t \<Rightarrow> if d = newline then None else sh_words False (Some (w @ [d])) t)
     else if c = CHR '' '' \<or> c = CHR 0x09 then (case cur of None \<Rightarrow> sh_words False None s | Some w \<Rightarrow> map_option (\<lambda>ws. w # ws) (sh_words False None s))
     else if sh_special c then None
     else sh_words False (Some (w @ [c])) s)"

lemma sh_words_quoted:
  "sh_words True (Some w) (concat (map (\<lambda>c. if c = single_quote then [single_quote, CHR 0x5C, single_quote, single_quote] else [c]) s) @ single_quote # rest) =
   sh_words False (Some (w @ s)) rest"
  by (induction s arbitrary: w) (simp_all add: single_quote_def newline_def)

lemma sh_words_shellQuote: "sh_words False None (shellQuote s @ rest) = sh_words False (Some s) rest"
  using sh_words_quoted[of "[]" s rest] by (simp add: shellQuote_def single_quote_def)

text \<open>
  C40: The shell of the peer reads back exactly the words meant. Whatever characters the path of a folder has (blanks, quotes, dollar
  signs, newlines), the command line that reaches it is split into git, -C, that path and the setting, with nothing added or expanded.
\<close>

theorem bare_init_roundtrip:
  "sh_words False None (str_Join (bare_init_args folder) '' '') =
   Some [''git'', ''-C'', folder, ''config'', ''receive.denyCurrentBranch'', ''updateInstead'']"
proof -
  have "str_Join (bare_init_args folder) '' '' = ''git -C '' @ shellQuote folder @ '' config receive.denyCurrentBranch updateInstead''"
    by (simp add: bare_init_args_def)
  moreover have "sh_words False None (''git -C '' @ s) = map_option (\<lambda>ws. ''git'' # ''-C'' # ws) (sh_words False None s)" for s
    by (simp add: sh_special_def option.map_comp comp_def)
  moreover have "sh_words False (Some folder) '' config receive.denyCurrentBranch updateInstead'' =
      Some [folder, ''config'', ''receive.denyCurrentBranch'', ''updateInstead'']"
    by (simp add: sh_special_def)
  ultimately show ?thesis by (simp add: sh_words_shellQuote)
qed

end
