(* ===== verification/Transport.thy ===== *)
theory Transport
  imports Complex_Main Prelude
begin

text \<open>
  internal/transport/costmodel.go and manager.go: the cost model, a decayed linear regression blended with a
  prior, and the manager that routes a change to the transport with the lowest prediction. float64 is modelled by
  the reals, so rounding, infinities and NaN are not; a duration is an integer number of nanoseconds.
\<close>

section \<open>The cost model\<close>

record CostModel =
  cm_priorSetupMS :: real
  cm_priorMSPerByte :: real
  cm_priorWeight :: real
  cm_halfLifeSec :: real
  cm_N :: real
  cm_SumX :: real
  cm_SumY :: real
  cm_SumXX :: real
  cm_SumXY :: real
  cm_lastUpdate :: gotime
  cm_setup :: real
  cm_perByte :: real

definition NewCostModel :: "real \<Rightarrow> real \<Rightarrow> real \<Rightarrow> real \<Rightarrow> gotime \<Rightarrow> CostModel" where
  "NewCostModel setup perByte weight halfLife now =
    \<lparr>cm_priorSetupMS = setup, cm_priorMSPerByte = perByte, cm_priorWeight = weight, cm_halfLifeSec = halfLife,
     cm_N = 0, cm_SumX = 0, cm_SumY = 0, cm_SumXX = 0, cm_SumXY = 0, cm_lastUpdate = now, cm_setup = setup, cm_perByte = perByte\<rparr>"

text \<open>Conversion to time.Duration truncates, and what is converted is not negative.\<close>

definition Predict :: "CostModel \<Rightarrow> int \<Rightarrow> dur" where
  "Predict m sizeBytes =
    (let setup = (if cm_setup m < 0 then cm_priorSetupMS m else cm_setup m);
         perByte = (if cm_perByte m < 0 then cm_priorMSPerByte m else cm_perByte m);
         ms0 = setup + real_of_int sizeBytes * perByte;
         ms = (if ms0 < 0 then 0 else ms0)
     in \<lfloor>ms * real_of_int Millisecond\<rfloor>)"

definition to_prior :: "CostModel \<Rightarrow> CostModel" where
  "to_prior m = m\<lparr>cm_setup := cm_priorSetupMS m, cm_perByte := cm_priorMSPerByte m\<rparr>"

definition refit :: "CostModel \<Rightarrow> CostModel" where
  "refit m =
    (if cm_N m < 2 then to_prior m
     else let n = cm_N m; denom = n * cm_SumXX m - cm_SumX m * cm_SumX m in
       if denom \<le> 0 then to_prior m
       else let realSlope = (n * cm_SumXY m - cm_SumX m * cm_SumY m) / denom;
                realIntercept = (cm_SumY m - realSlope * cm_SumX m) / n;
                total = n + cm_priorWeight m
            in m\<lparr>cm_setup := (n * realIntercept + cm_priorWeight m * cm_priorSetupMS m) / total,
                 cm_perByte := (n * realSlope + cm_priorWeight m * cm_priorMSPerByte m) / total\<rparr>)"

definition decay_sums :: "real \<Rightarrow> CostModel \<Rightarrow> CostModel" where
  "decay_sums r m = m\<lparr>cm_N := cm_N m * r, cm_SumX := cm_SumX m * r, cm_SumY := cm_SumY m * r,
     cm_SumXX := cm_SumXX m * r, cm_SumXY := cm_SumXY m * r\<rparr>"

definition add_sample :: "real \<Rightarrow> real \<Rightarrow> CostModel \<Rightarrow> CostModel" where
  "add_sample x y m = m\<lparr>cm_N := cm_N m + 1, cm_SumX := cm_SumX m + x, cm_SumY := cm_SumY m + y,
     cm_SumXX := cm_SumXX m + x * x, cm_SumXY := cm_SumXY m + x * y\<rparr>"

definition decay :: "gotime \<Rightarrow> CostModel \<Rightarrow> CostModel" where
  "decay now m =
    (if IsZero (cm_lastUpdate m) then m
     else let dt = real_of_int (time_Sub now (cm_lastUpdate m)) / real_of_int Second in
       if dt > 0 \<and> cm_halfLifeSec m > 0 then decay_sums (exp (- dt * ln 2 / cm_halfLifeSec m)) m else m)"

text \<open>\<open>now\<close> is what time.Now returns in the call.\<close>

definition Record :: "gotime \<Rightarrow> int \<Rightarrow> dur \<Rightarrow> CostModel \<Rightarrow> CostModel" where
  "Record now sizeBytes elapsed m =
    (if sizeBytes < 0 \<or> elapsed < 0 then m
     else refit (add_sample (real_of_int sizeBytes) (real_of_int elapsed / 1000000) ((decay now m)\<lparr>cm_lastUpdate := now\<rparr>)))"

section \<open>The regression\<close>

text \<open>The sums are those of some weighted samples, in particular their variance is not negative.\<close>

definition sums_ok :: "CostModel \<Rightarrow> bool" where
  "sums_ok m \<longleftrightarrow> 0 \<le> cm_N m \<and> 0 \<le> cm_SumXX m \<and> cm_SumX m * cm_SumX m \<le> cm_N m * cm_SumXX m"

lemma refit_sums [simp]:
  "cm_N (refit m) = cm_N m" "cm_SumX (refit m) = cm_SumX m" "cm_SumY (refit m) = cm_SumY m"
  "cm_SumXX (refit m) = cm_SumXX m" "cm_SumXY (refit m) = cm_SumXY m" "cm_lastUpdate (refit m) = cm_lastUpdate m"
  "cm_priorSetupMS (refit m) = cm_priorSetupMS m" "cm_priorMSPerByte (refit m) = cm_priorMSPerByte m" "cm_priorWeight (refit m) = cm_priorWeight m"
  by (simp_all add: refit_def to_prior_def Let_def)

lemma decay_prior [simp]:
  "cm_priorSetupMS (decay now m) = cm_priorSetupMS m" "cm_priorMSPerByte (decay now m) = cm_priorMSPerByte m"
  "cm_priorWeight (decay now m) = cm_priorWeight m"
  by (simp_all add: decay_def decay_sums_def Let_def)

lemma decay_cases: obtains r where "0 \<le> r" "decay now m = decay_sums r m"
proof -
  have 1: "decay_sums 1 m = m" by (simp add: decay_sums_def)
  show ?thesis
  proof (cases "decay now m = m")
    case True
    then show ?thesis using that[of 1] 1 by simp
  next
    case False
    then obtain r where "decay now m = decay_sums (exp r) m" unfolding decay_def Let_def by (auto split: if_splits)
    then show ?thesis using that[of "exp r"] by simp
  qed
qed

lemma sums_ok_decay: "sums_ok m \<Longrightarrow> 0 \<le> r \<Longrightarrow> sums_ok (decay_sums r m)"
proof -
  assume m: "sums_ok m" and r: "0 \<le> r"
  have "(cm_SumX m * r) * (cm_SumX m * r) = (r * r) * (cm_SumX m * cm_SumX m)" by simp
  also have "\<dots> \<le> (r * r) * (cm_N m * cm_SumXX m)" using m r by (intro mult_left_mono) (simp_all add: sums_ok_def)
  finally show ?thesis using m r by (simp add: sums_ok_def decay_sums_def algebra_simps)
qed

text \<open>Adding a sample: n*x^2 - 2*x*SumX + SumXX is not negative where the discriminant is not positive.\<close>

lemma sums_ok_add: "sums_ok m \<Longrightarrow> sums_ok (add_sample x y m)"
proof -
  assume m: "sums_ok m"
  let ?n = "cm_N m" and ?s = "cm_SumX m" and ?q = "cm_SumXX m"
  have "0 \<le> ?n * x\<^sup>2 - 2 * x * ?s + ?q"
  proof (cases "?n = 0")
    case True
    then have "?s * ?s \<le> 0" using m by (simp add: sums_ok_def)
    then have "?s = 0" by (auto simp: mult_le_0_iff)
    then show ?thesis using True m by (simp add: sums_ok_def)
  next
    case False
    then have n: "0 < ?n" using m by (simp add: sums_ok_def)
    have "?n * (?n * x\<^sup>2 - 2 * x * ?s + ?q) = (?n * x - ?s)\<^sup>2 + (?n * ?q - ?s * ?s)" by (simp add: algebra_simps power2_eq_square)
    also have "\<dots> \<ge> 0" using m by (simp add: sums_ok_def)
    finally show ?thesis using n by (simp add: zero_le_mult_iff)
  qed
  then show ?thesis using m by (simp add: sums_ok_def add_sample_def algebra_simps power2_eq_square)
qed

text \<open>All samples on one line.\<close>

definition on_line :: "real \<Rightarrow> real \<Rightarrow> CostModel \<Rightarrow> bool" where
  "on_line a b m \<longleftrightarrow> cm_SumY m = a * cm_N m + b * cm_SumX m \<and> cm_SumXY m = a * cm_SumX m + b * cm_SumXX m"

lemma on_line_decay: "on_line a b m \<Longrightarrow> on_line a b (decay_sums r m)"
  by (simp add: on_line_def decay_sums_def algebra_simps)

lemma on_line_add: "on_line a b m \<Longrightarrow> y = a + b * x \<Longrightarrow> on_line a b (add_sample x y m)"
  by (simp add: on_line_def add_sample_def algebra_simps)

definition between :: "real \<Rightarrow> real \<Rightarrow> real \<Rightarrow> bool" where
  "between p t v \<longleftrightarrow> min p t \<le> v \<and> v \<le> max p t"

lemma blend_between:
  assumes "0 < n" "0 \<le> w"
  shows "between p t ((n * t + w * p) / (n + w))"
proof -
  have 0: "0 < n + w" using assms by simp
  have "min p t * (n + w) = n * min p t + w * min p t" by (simp add: algebra_simps)
  also have "\<dots> \<le> n * t + w * p" using assms by (intro add_mono mult_left_mono) auto
  finally have 1: "min p t * (n + w) \<le> n * t + w * p" .
  have "n * t + w * p \<le> n * max p t + w * max p t" using assms by (intro add_mono mult_left_mono) auto
  also have "\<dots> = max p t * (n + w)" by (simp add: algebra_simps)
  finally show ?thesis using 0 1 by (simp add: between_def pos_le_divide_eq pos_divide_le_eq)
qed


text \<open>On a line the regression finds it exactly.\<close>

lemma refit_on_line:
  assumes "on_line a b m" "0 \<le> cm_priorWeight m"
  shows "between (cm_priorSetupMS m) a (cm_setup (refit m)) \<and> between (cm_priorMSPerByte m) b (cm_perByte (refit m))"
proof -
  have prior: "between p t p" for p t by (simp add: between_def)
  show ?thesis
  proof (cases "cm_N m < 2 \<or> cm_N m * cm_SumXX m - cm_SumX m * cm_SumX m \<le> 0")
    case True
    then show ?thesis using prior by (auto simp: refit_def to_prior_def Let_def)
  next
    case False
    let ?n = "cm_N m" and ?d = "cm_N m * cm_SumXX m - cm_SumX m * cm_SumX m"
    have d: "?d > 0" "?n > 0" using False by auto
    have "?n * cm_SumXY m - cm_SumX m * cm_SumY m = b * ?d" using assms(1) by (simp add: on_line_def algebra_simps)
    then have slope: "(?n * cm_SumXY m - cm_SumX m * cm_SumY m) / ?d = b" using d by simp
    have "cm_SumY m - b * cm_SumX m = ?n * a" using assms(1) by (simp add: on_line_def)
    then show ?thesis using False slope blend_between[OF d(2) assms(2)] by (simp add: refit_def Let_def)
  qed
qed

definition run_records :: "CostModel \<Rightarrow> (gotime \<times> int \<times> dur) list \<Rightarrow> CostModel" where
  "run_records m obs = foldl (\<lambda>m (now, sizeBytes, elapsed). Record now sizeBytes elapsed m) m obs"

text \<open>What holds of a model between two calls; the line is that of the samples recorded so far.\<close>

definition learned :: "real \<Rightarrow> real \<Rightarrow> real \<Rightarrow> real \<Rightarrow> CostModel \<Rightarrow> bool" where
  "learned p q a b m \<longleftrightarrow> sums_ok m \<and> on_line a b m \<and> 0 \<le> cm_priorWeight m \<and> cm_priorSetupMS m = p \<and> cm_priorMSPerByte m = q \<and>
     between p a (cm_setup m) \<and> between q b (cm_perByte m)"

lemma learned_Record:
  assumes m: "learned p q a b m" and s: "\<not> (sizeBytes < 0 \<or> elapsed < 0) \<longrightarrow> real_of_int elapsed / 1000000 = a + b * real_of_int sizeBytes"
  shows "learned p q a b (Record now sizeBytes elapsed m)"
proof (cases "sizeBytes < 0 \<or> elapsed < 0")
  case True
  then show ?thesis using m by (auto simp: Record_def)
next
  case False
  then have y: "real_of_int elapsed / 1000000 = a + b * real_of_int sizeBytes" using s by blast
  obtain r where r: "0 \<le> r" "decay now m = decay_sums r m" using decay_cases by blast
  let ?m1 = "add_sample (real_of_int sizeBytes) (real_of_int elapsed / 1000000) ((decay now m)\<lparr>cm_lastUpdate := now\<rparr>)"
  have upd: "sums_ok (x\<lparr>cm_lastUpdate := t\<rparr>) = sums_ok x" "on_line a b (x\<lparr>cm_lastUpdate := t\<rparr>) = on_line a b x" for x t
    by (simp_all add: sums_ok_def on_line_def)
  have k: "sums_ok ?m1" "on_line a b ?m1"
    using m r sums_ok_decay on_line_decay by (auto intro!: sums_ok_add on_line_add[OF _ y] simp: upd learned_def)
  have prior: "cm_priorWeight ?m1 = cm_priorWeight m" "cm_priorSetupMS ?m1 = cm_priorSetupMS m" "cm_priorMSPerByte ?m1 = cm_priorMSPerByte m"
    by (simp_all add: add_sample_def)
  have "Record now sizeBytes elapsed m = refit ?m1" using False by (simp add: Record_def)
  then show ?thesis using refit_on_line[OF k(2)] k prior m
    by (simp add: learned_def sums_ok_def on_line_def)
qed

lemma learned_New: "0 \<le> w \<Longrightarrow> learned p q a b (NewCostModel p q w h t)"
  by (simp add: learned_def sums_ok_def on_line_def NewCostModel_def between_def)

lemma learned_run:
  assumes "learned p q a b m"
    and "\<And>now s e. (now, s, e) \<in> set obs \<Longrightarrow> \<not> (s < 0 \<or> e < 0) \<longrightarrow> real_of_int e / 1000000 = a + b * real_of_int s"
  shows "learned p q a b (run_records m obs)"
  using assms
proof (induction obs arbitrary: m)
  case (Cons x obs)
  obtain now s e where x: "x = (now, s, e)" by (metis prod_cases3)
  have "learned p q a b (Record now s e m)" using learned_Record[OF Cons.prems(1)] Cons.prems(2)[of now s e] by (simp add: x)
  moreover have "\<not> (s < 0 \<or> e < 0) \<longrightarrow> real_of_int e / 1000000 = a + b * real_of_int s" if "(now, s, e) \<in> set obs" for now s e
    by (rule Cons.prems(2)[of now]) (simp add: that)
  ultimately have "learned p q a b (run_records (Record now s e m) obs)" by (rule Cons.IH)
  then show ?case by (simp add: run_records_def x)
qed (simp add: run_records_def)

lemma Predict_mono:
  assumes "0 \<le> cm_setup m" "0 \<le> cm_perByte m" "0 \<le> sizeBytes"
  shows "Predict m sizeBytes = \<lfloor>(cm_setup m + real_of_int sizeBytes * cm_perByte m) * 1000000\<rfloor>"
proof -
  have "0 \<le> cm_setup m + real_of_int sizeBytes * cm_perByte m" using assms by simp
  then have "\<not> cm_setup m + real_of_int sizeBytes * cm_perByte m < 0" "\<not> cm_setup m < 0" "\<not> cm_perByte m < 0" using assms(1,2) unfolding not_less .
  then show ?thesis unfolding Predict_def Let_def by (simp only: if_False Millisecond_def) simp
qed



section \<open>The manager\<close>

record CostPrior =
  cp_SetupMS :: real
  cp_MSPerByte :: real
  cp_Weight :: real
  cp_HalfLifeSec :: real

definition DefaultPriorFor :: "string \<Rightarrow> CostPrior" where
  "DefaultPriorFor name =
    (if name = ''syncthing'' then \<lparr>cp_SetupMS = 1500, cp_MSPerByte = 2 / 100000, cp_Weight = 4, cp_HalfLifeSec = 86400\<rparr>
     else if HasPrefix name ''mutagen+'' then \<lparr>cp_SetupMS = 100, cp_MSPerByte = 5 / 100000, cp_Weight = 4, cp_HalfLifeSec = 86400\<rparr>
     else if HasPrefix name ''git-ssh+'' then \<lparr>cp_SetupMS = 200, cp_MSPerByte = 2 / 10000, cp_Weight = 4, cp_HalfLifeSec = 86400\<rparr>
     else \<lparr>cp_SetupMS = 500, cp_MSPerByte = 1 / 1000, cp_Weight = 4, cp_HalfLifeSec = 86400\<rparr>)"

record RouteEntry =
  re_Reachable :: bool
  re_ProbeLatency :: dur

text \<open>A transport is its name; a model has the key transport, peer, repository (empty for the aggregate).\<close>

record Manager =
  mg_transports :: "string list"
  mg_routes :: "string \<Rightarrow> (string \<Rightarrow> RouteEntry option) option"
  mg_models :: "string \<times> string \<times> string \<Rightarrow> CostModel option"
  mg_priors :: "string \<Rightarrow> CostPrior option"

definition NewManager :: "string list \<Rightarrow> Manager" where
  "NewManager transports = \<lparr>mg_transports = transports, mg_routes = (\<lambda>_. None), mg_models = (\<lambda>_. None),
     mg_priors = (\<lambda>n. if n \<in> set transports then Some (DefaultPriorFor n) else None)\<rparr>"

text \<open>\<open>available\<close> and \<open>probe\<close> are the transports' answers; None for an error.\<close>

definition Discover :: "(string \<Rightarrow> bool) \<Rightarrow> (string \<Rightarrow> dur option) \<Rightarrow> string \<Rightarrow> Manager \<Rightarrow> Manager" where
  "Discover available probe peer m =
    m\<lparr>mg_routes := (mg_routes m)(peer \<mapsto> (\<lambda>n. if n \<in> set (mg_transports m) then
        Some (if \<not> available n then \<lparr>re_Reachable = False, re_ProbeLatency = 0\<rparr>
              else case probe n of None \<Rightarrow> \<lparr>re_Reachable = False, re_ProbeLatency = 0\<rparr> | Some d \<Rightarrow> \<lparr>re_Reachable = True, re_ProbeLatency = d\<rparr>)
      else None))\<rparr>"

definition InvalidatePeer :: "string \<Rightarrow> Manager \<Rightarrow> Manager" where
  "InvalidatePeer peer m = m\<lparr>mg_routes := (mg_routes m)(peer := None)\<rparr>"

definition modelFor :: "gotime \<Rightarrow> string \<Rightarrow> string \<Rightarrow> string \<Rightarrow> Manager \<Rightarrow> CostModel \<times> Manager" where
  "modelFor now transport peer repo m =
    (case mg_models m (transport, peer, repo) of
       Some model \<Rightarrow> (model, m)
     | None \<Rightarrow>
       let prior0 = (case mg_priors m transport of None \<Rightarrow> \<lparr>cp_SetupMS = 0, cp_MSPerByte = 0, cp_Weight = 0, cp_HalfLifeSec = 0\<rparr> | Some p \<Rightarrow> p);
           prior = (if cp_Weight prior0 = 0 then DefaultPriorFor transport else prior0);
           model = NewCostModel (cp_SetupMS prior) (cp_MSPerByte prior) (cp_Weight prior) (cp_HalfLifeSec prior) now
       in (model, m\<lparr>mg_models := (mg_models m)((transport, peer, repo) \<mapsto> model)\<rparr>))"

definition reachable :: "Manager \<Rightarrow> string \<Rightarrow> string \<Rightarrow> bool" where
  "reachable m peer t = (case mg_routes m peer of None \<Rightarrow> False | Some r \<Rightarrow> (case r t of None \<Rightarrow> False | Some e \<Rightarrow> re_Reachable e))"

text \<open>The candidates with their predictions; models that are missing are made on the way.\<close>

fun candidates :: "gotime \<Rightarrow> int \<Rightarrow> string \<Rightarrow> string \<Rightarrow> string list \<Rightarrow> Manager \<Rightarrow> (string \<times> dur) list \<times> Manager" where
  "candidates now sizeHint repo peer [] m = ([], m)"
| "candidates now sizeHint repo peer (t # ts) m =
    (if \<not> reachable m peer t then candidates now sizeHint repo peer ts m
     else case modelFor now t peer repo m of (model, m1) \<Rightarrow>
       (case candidates now sizeHint repo peer ts m1 of (cs, m2) \<Rightarrow> ((t, Predict model sizeHint) # cs, m2)))"

definition pick :: "string \<times> dur \<Rightarrow> (string \<times> dur) list \<Rightarrow> string \<times> dur" where
  "pick c0 cs = foldl (\<lambda>best c. if snd c + Millisecond < snd best then c else best) c0 cs"

definition Route :: "gotime \<Rightarrow> int \<Rightarrow> string \<Rightarrow> string \<Rightarrow> Manager \<Rightarrow> string option \<times> Manager" where
  "Route now sizeHint repo peer m =
    (if mg_routes m peer = None then (None, m)
     else case candidates now sizeHint repo peer (mg_transports m) m of
       ([], m') \<Rightarrow> (None, m')
     | (c # cs, m') \<Rightarrow> (Some (fst (pick c cs)), m'))"

definition record_model :: "gotime \<Rightarrow> string \<Rightarrow> string \<Rightarrow> string \<Rightarrow> int \<Rightarrow> dur \<Rightarrow> Manager \<Rightarrow> Manager" where
  "record_model now transport peer repo sizeBytes elapsed m =
    (case modelFor now transport peer repo m of (model, m') \<Rightarrow>
       m'\<lparr>mg_models := (mg_models m')((transport, peer, repo) \<mapsto> Record now sizeBytes elapsed model)\<rparr>)"

definition RecordTransfer :: "gotime \<Rightarrow> string \<Rightarrow> string \<Rightarrow> string \<Rightarrow> int \<Rightarrow> dur \<Rightarrow> Manager \<Rightarrow> Manager" where
  "RecordTransfer now transport peer repo sizeBytes elapsed m =
    (let m1 = record_model now transport peer repo sizeBytes elapsed m
     in if repo \<noteq> '''' then record_model now transport peer '''' sizeBytes elapsed m1 else m1)"

definition RoutesFor :: "string \<Rightarrow> Manager \<Rightarrow> (string \<Rightarrow> RouteEntry option) option" where
  "RoutesFor peer m = mg_routes m peer"

definition ModelParametersFor :: "gotime \<Rightarrow> string \<Rightarrow> string \<Rightarrow> string \<Rightarrow> Manager \<Rightarrow> (real \<times> real \<times> real) \<times> Manager" where
  "ModelParametersFor now transport peer repo m =
    (case modelFor now transport peer repo m of (model, m') \<Rightarrow> ((cm_setup model, cm_perByte model, cm_N model), m'))"

section \<open>Routing\<close>

text \<open>What the manager predicts for a transport, whether or not the model exists yet.\<close>

definition prediction :: "gotime \<Rightarrow> int \<Rightarrow> string \<Rightarrow> string \<Rightarrow> Manager \<Rightarrow> string \<Rightarrow> dur" where
  "prediction now sizeHint repo peer m t = Predict (fst (modelFor now t peer repo m)) sizeHint"

lemma modelFor_frame:
  assumes "modelFor now t peer repo m = (model, m')"
  shows "mg_routes m' = mg_routes m" "fst (modelFor now t' peer repo m') = fst (modelFor now t' peer repo m)"
proof -
  have m': "m' = m \<or> mg_models m (t, peer, repo) = None \<and> m' = m\<lparr>mg_models := (mg_models m)((t, peer, repo) \<mapsto> model)\<rparr>"
    using assms by (auto simp: modelFor_def Let_def split: option.splits)
  then show "mg_routes m' = mg_routes m" by auto
  have "model = fst (modelFor now t peer repo m)" using assms by simp
  then show "fst (modelFor now t' peer repo m') = fst (modelFor now t' peer repo m)"
    using m' by (elim disjE conjE) (simp_all add: modelFor_def Let_def split: option.split)
qed

lemma candidates_eq:
  "fst (candidates now sizeHint repo peer ts m) = map (\<lambda>t. (t, prediction now sizeHint repo peer m t)) (filter (reachable m peer) ts)"
proof (induction ts arbitrary: m)
  case (Cons t ts)
  obtain model m1 where 1: "modelFor now t peer repo m = (model, m1)" by fastforce
  note F = modelFor_frame[OF 1]
  have "reachable m1 peer = reachable m peer" "prediction now sizeHint repo peer m1 = prediction now sizeHint repo peer m"
    using F by (auto simp: reachable_def prediction_def)
  then show ?case using Cons.IH[of m1] Cons.IH[of m] 1 by (auto simp: prediction_def split: prod.split)
qed simp

lemma pick_mem: "pick c cs \<in> set (c # cs)"
  unfolding pick_def by (induction cs arbitrary: c) auto

lemma pick_le: "snd (pick c cs) \<le> snd c"
proof (induction cs arbitrary: c)
  case (Cons x cs)
  have m: "Millisecond > 0" by (simp add: Millisecond_def)
  show ?case using Cons[of c] Cons[of x] m by (auto simp: pick_def)
qed (simp add: pick_def)

lemma pick_near: "x \<in> set (c # cs) \<Longrightarrow> snd (pick c cs) \<le> snd x + Millisecond"
proof (induction cs arbitrary: c)
  case (Cons y cs)
  have m: "Millisecond > 0" by (simp add: Millisecond_def)
  let ?c = "if snd y + Millisecond < snd c then y else c"
  have p: "pick c (y # cs) = pick ?c cs" by (simp add: pick_def)
  have "snd ?c \<le> snd x + Millisecond \<or> x \<in> set cs" using Cons.prems m by auto
  then show ?case unfolding p using Cons.IH[of ?c] pick_le[of ?c cs] by auto
qed (simp add: pick_def Millisecond_def)

text \<open>
  C32: Routing is within a millisecond of the best. Route fails exactly if no transport is reachable by what the last
  discovery found (or there was none); otherwise it returns a reachable transport, and no
  reachable transport has a prediction more than one millisecond below that of the one it returns.
\<close>

theorem Route_near_optimal:
  "case fst (Route now sizeHint repo peer m) of
     None \<Rightarrow> \<not> list_ex (reachable m peer) (mg_transports m)
   | Some t \<Rightarrow> t \<in> set (mg_transports m) \<and> reachable m peer t \<and>
       list_all (\<lambda>t'. prediction now sizeHint repo peer m t \<le> prediction now sizeHint repo peer m t' + Millisecond)
         (filter (reachable m peer) (mg_transports m))"
proof -
  let ?P = "prediction now sizeHint repo peer m" and ?ts = "filter (reachable m peer) (mg_transports m)"
  obtain cs m' where c: "candidates now sizeHint repo peer (mg_transports m) m = (cs, m')" by fastforce
  have cs: "cs = map (\<lambda>t. (t, ?P t)) ?ts" using candidates_eq[of now sizeHint repo peer "mg_transports m" m] by (simp add: c)
  show ?thesis
  proof (cases "mg_routes m peer = None \<or> ?ts = []")
    case True
    then have "fst (Route now sizeHint repo peer m) = None" using c cs by (auto simp: Route_def)
    moreover have "\<not> list_ex (reachable m peer) (mg_transports m)" using True by (auto simp: reachable_def list_ex_iff filter_empty_conv)
    ultimately show ?thesis by simp
  next
    case False
    then obtain t0 ts where ts: "?ts = t0 # ts" by (cases ?ts) auto
    let ?b = "pick (t0, ?P t0) (map (\<lambda>t. (t, ?P t)) ts)"
    have r: "fst (Route now sizeHint repo peer m) = Some (fst ?b)" using False c cs ts by (simp add: Route_def)
    have "?b \<in> (\<lambda>t. (t, ?P t)) ` set ?ts" unfolding ts using pick_mem[of "(t0, ?P t0)" "map (\<lambda>t. (t, ?P t)) ts"] by auto
    then have b: "fst ?b \<in> set ?ts" "snd ?b = ?P (fst ?b)" by auto
    have "?P (fst ?b) \<le> ?P t' + Millisecond" if "t' \<in> set ?ts" for t'
      using pick_near[of "(t', ?P t')" "(t0, ?P t0)" "map (\<lambda>t. (t, ?P t)) ts"] that b(2) unfolding ts by force
    then show ?thesis unfolding r option.case list_all_iff using b(1) by auto
  qed
qed

end
