(* ===== verification/Managed.thy ===== *)
theory Managed
  imports Discovery
begin

text \<open>
  internal/discovery/discovery.go: the managed folders as the conflict watcher, the activity tracker, the health tracker, the
  propagator and the conflict commands see them, a second walk over the scan roots beside that of the reconciler.
\<close>

section \<open>The walk\<close>

definition has_marker_entry :: "(string \<times> bool) list \<Rightarrow> bool" where
  "has_marker_entry es \<longleftrightarrow> list_ex (\<lambda>e. \<not> snd e \<and> fst e = RepoConfigFileName) es"

text \<open>WalkScanRoot with the levels that are left, \<open>maxDepth - depth\<close>; the paths fn is called with, in order.\<close>

primrec WalkScanRoot :: "nat \<Rightarrow> dirtree \<Rightarrow> string \<Rightarrow> string list" where
  "WalkScanRoot 0 T root =
     (case dt_entries T root of None \<Rightarrow> [] | Some es \<Rightarrow> if has_marker_entry es then [root] else [])"
| "WalkScanRoot (Suc n) T root =
     (case dt_entries T root of None \<Rightarrow> []
      | Some es \<Rightarrow> if has_marker_entry es then [root]
          else concat (map (\<lambda>e. if \<not> snd e \<or> HasPrefix (fst e) ''.'' then [] else WalkScanRoot n T (path_Join root (fst e))) es))"

text \<open>\<open>exists\<close> and \<open>isdir\<close> are what os.Stat says; a nil or unreadable state or machine configuration contributes nothing.\<close>

record managed_env =
  me_home :: "string option"
  me_cwd :: string
  me_config :: string
  me_exists :: "string \<Rightarrow> bool"
  me_isdir :: "string \<Rightarrow> bool"

definition scan_candidates :: "managed_env \<Rightarrow> dirtree \<Rightarrow> DiscoveryConfig \<Rightarrow> string list" where
  "scan_candidates M T d =
    concat (map (\<lambda>root. let expanded = ExpandPath (me_home M) root in
        if \<not> me_isdir M expanded then []
        else WalkScanRoot (if dc_ScanDepth d \<le> 0 then 3 else nat (dc_ScanDepth d)) T expanded) (dc_ScanRoots d))"

definition ManagedFolderPaths :: "managed_env \<Rightarrow> dirtree \<Rightarrow> StateV2 option \<Rightarrow> DiscoveryConfig option \<Rightarrow> string list" where
  "ManagedFolderPaths M T state machine =
    keep_first (\<lambda>p. p) (me_exists M) {}
      (map (\<lambda>p. path_Abs (me_cwd M) (ExpandPath (me_home M) p))
        (filter (\<lambda>p. p \<noteq> '''')
          ([me_config M] @ (case state of None \<Rightarrow> [] | Some s \<Rightarrow> st_TrackedOverrides s) @
           (case machine of None \<Rightarrow> [] | Some d \<Rightarrow> scan_candidates M T d))))"

section \<open>Against the reconciler's walk\<close>

definition hide_dots :: "dirtree \<Rightarrow> dirtree" where
  "hide_dots T = T\<lparr>dt_entries := (\<lambda>d. map_option (filter (\<lambda>e. \<not> HasPrefix (fst e) ''.'')) (dt_entries T d))\<rparr>"

text \<open>The two tests for the configuration file agree: it can be statted exactly if the listing has it as an entry that is no directory.\<close>

definition markers_listed :: "dirtree \<Rightarrow> bool" where
  "markers_listed T \<longleftrightarrow> (\<forall>d. dt_marker T d \<longleftrightarrow> (case dt_entries T d of None \<Rightarrow> False | Some es \<Rightarrow> has_marker_entry es))"

lemma hide_dots_simps [simp]: "dt_marker (hide_dots T) = dt_marker T" "dt_load (hide_dots T) = dt_load T"
  "dt_entries (hide_dots T) d = map_option (filter (\<lambda>e. \<not> HasPrefix (fst e) ''.'')) (dt_entries T d)"
  by (simp_all add: hide_dots_def)

lemma WalkScanRoot_found:
  assumes "markers_listed T"
  shows "set (WalkScanRoot n T root) = {p. found (hide_dots T) {} n root p}"
proof (induction n arbitrary: root)
  case 0
  show ?case using assms by (auto simp: markers_listed_def split: option.splits)
next
  case (Suc n)
  show ?case
  proof (cases "dt_entries T root")
    case None
    then have "\<not> dt_marker T root" using assms by (simp add: markers_listed_def)
    then show ?thesis using None by (auto simp: found_Suc)
  next
    case (Some es)
    show ?thesis
    proof (cases "has_marker_entry es")
      case True
      then have "dt_marker T root" using assms Some by (simp add: markers_listed_def)
      then show ?thesis using True Some by (auto simp: found_marked)
    next
      case False
      then have m: "\<not> dt_marker T root" using assms Some by (simp add: markers_listed_def)
      have "set (WalkScanRoot (Suc n) T root) =
          (\<Union>e\<in>set es. if \<not> snd e \<or> HasPrefix (fst e) ''.'' then {} else {p. found (hide_dots T) {} n (path_Join root (fst e)) p})"
        using Some False Suc.IH by (auto split: if_splits)
      also have "\<dots> = {p. found (hide_dots T) {} (Suc n) root p}"
        unfolding found_Suc using m Some by (auto split: if_splits)
      finally show ?thesis .
    qed
  qed
qed

text \<open>
  What the daemon's other parts take for managed. ManagedFolderPaths lists without duplicates exactly the existing folders among the
  configuration directory, the tracked overrides and what the reconciler's own walk would find under the existing scan roots if it saw no
  hidden directory and had no exclusion list.
\<close>

theorem ManagedFolderPaths_exact:
  assumes "markers_listed T"
  shows "distinct (ManagedFolderPaths M T (Some s) (Some d)) \<and>
    set (ManagedFolderPaths M T (Some s) (Some d)) =
      {q. me_exists M q \<and> q \<in> (\<lambda>p. path_Abs (me_cwd M) (ExpandPath (me_home M) p)) `
        ({me_config M} \<union> set (st_TrackedOverrides s) \<union>
         (\<Union>root \<in> {r \<in> ExpandPath (me_home M) ` set (dc_ScanRoots d). me_isdir M r}.
           {p. found (hide_dots T) {} (scan_depth (dc_ScanDepth d)) root p}) - {''''})}"
proof -
  let ?abs = "\<lambda>p. path_Abs (me_cwd M) (ExpandPath (me_home M) p)"
  let ?cands = "[me_config M] @ st_TrackedOverrides s @ scan_candidates M T d"
  have c: "set (scan_candidates M T d) = (\<Union>root \<in> {r \<in> ExpandPath (me_home M) ` set (dc_ScanRoots d). me_isdir M r}.
      {p. found (hide_dots T) {} (scan_depth (dc_ScanDepth d)) root p})"
    using WalkScanRoot_found[OF assms] by (auto simp: scan_candidates_def Let_def scan_depth_def)
  have m: "ManagedFolderPaths M T (Some s) (Some d) = keep_first (\<lambda>p. p) (me_exists M) {} (map ?abs (filter (\<lambda>p. p \<noteq> '''') ?cands))"
    by (simp add: ManagedFolderPaths_def)
  have "set (keep_first (\<lambda>p. p) (me_exists M) {} xs) = {x \<in> set xs. me_exists M x}" for xs
    using keep_first_keys[of "\<lambda>p. p" "me_exists M" "{}" xs] by simp
  moreover have "set (map ?abs (filter (\<lambda>p. p \<noteq> '''') ?cands)) = ?abs ` (({me_config M} \<union> set (st_TrackedOverrides s) \<union> set (scan_candidates M T d)) - {''''})"
    by auto
  ultimately show ?thesis unfolding m c[symmetric] using distinct_keep_first[of "\<lambda>p. p" "me_exists M" "{}"] by auto
qed

text \<open>A scan root with a plain repository and one in a hidden directory.\<close>

definition demo_managed_tree :: dirtree where
  "demo_managed_tree =
    \<lparr>dt_entries = (\<lambda>d. if d = ''/r'' then Some [(''a'', True), (''.b'', True)]
        else if d = ''/r/a'' \<or> d = ''/r/.b'' then Some [(RepoConfigFileName, False)] else None),
     dt_marker = (\<lambda>d. d = ''/r/a'' \<or> d = ''/r/.b''), dt_load = (\<lambda>_. Inl ())\<rparr>"

definition demo_managed_env :: managed_env where
  "demo_managed_env = \<lparr>me_home = None, me_cwd = ''/'', me_config = ''/c'', me_exists = (\<lambda>_. True), me_isdir = (\<lambda>_. True)\<rparr>"

definition demo_discovery :: DiscoveryConfig where
  "demo_discovery = \<lparr>dc_ScanRoots = [''/r''], dc_Exclude = [''/r/a''], dc_ScanInterval = '''', dc_ScanDepth = 0\<rparr>"

theorem ManagedFolderPaths_exact_witness:
  "distinct (ManagedFolderPaths demo_managed_env demo_managed_tree (Some fresh_state) (Some demo_discovery))"
proof (rule ManagedFolderPaths_exact[THEN conjunct1])
  show "markers_listed demo_managed_tree"
    unfolding markers_listed_def demo_managed_tree_def by (auto simp: has_marker_entry_def RepoConfigFileName_def)
qed

text \<open>
  The two walks disagree both ways: an excluded repository, which the reconciler does not manage, is watched and auto-resolved; one
  in a hidden directory is managed but neither watched nor propagated.
\<close>

theorem walks_disagree:
  "ManagedFolderPaths demo_managed_env demo_managed_tree None (Some demo_discovery) = [''/c'', ''/r/a''] \<and>
   map fst (discoverRepos None demo_managed_tree demo_discovery) = [''/r/.b'']"
proof
  show "ManagedFolderPaths demo_managed_env demo_managed_tree None (Some demo_discovery) = [''/c'', ''/r/a'']" by code_simp
  show "map fst (discoverRepos None demo_managed_tree demo_discovery) = [''/r/.b'']" by code_simp
qed

end
