(* ===== verification/Propagate.thy ===== *)
theory Propagate
  imports Ssh_Transports Transport Managed "HOL-Library.Word"
begin

text \<open>
  Carrying a commit to the peers, and measuring how long that takes: the propagator of cmd/dotkeeper/main.go
  (PropagateNewCommit with its size estimate and its sources) and internal/benchmarker/benchmarker.go, both over the manager
  of Transport and transports that are parameters, as the code has them behind an interface.
\<close>

section \<open>The size of a commit\<close>

text \<open>An int64 wraps around.\<close>

definition int64 :: "int \<Rightarrow> int" where
  "int64 x = sint (word_of_int x :: 64 word)"

fun str_Index :: "string \<Rightarrow> string \<Rightarrow> nat option" where
  "str_Index [] p = (if p = [] then Some 0 else None)"
| "str_Index (c # s) p = (if HasPrefix (c # s) p then Some 0 else map_option Suc (str_Index s p))"

definition digit_value :: "char \<Rightarrow> int" where
  "digit_value c = int (of_char c) - 48"

text \<open>Walking backward over blanks, then over digits, is taking them from the front of the reversed string.\<close>

definition numberBefore :: "string \<Rightarrow> string \<Rightarrow> int" where
  "numberBefore s marker =
    (case str_Index s marker of
       None \<Rightarrow> 0
     | Some idx \<Rightarrow>
         if idx = 0 then 0
         else let back = dropWhile (\<lambda>c. c = CHR '' '' \<or> c = CHR 0x09) (rev (take idx s))
              in foldl (\<lambda>n c. int64 (n * 10 + digit_value c)) 0 (rev (takeWhile is_digit back)))"

definition estimateLastCommitSize :: "'w git \<Rightarrow> string \<Rightarrow> 'w \<Rightarrow> int \<times> 'w" where
  "estimateLastCommitSize git dir w =
    (case runOutput git dir [''diff'', ''--shortstat'', ''HEAD~1'', ''HEAD''] w of (out, w') \<Rightarrow>
       (case out of None \<Rightarrow> 0
        | Some s \<Rightarrow> int64 ((numberBefore s ''insertion'' + numberBefore s ''deletion'') * 50), w'))"

section \<open>The propagator\<close>

text \<open>A transport as the propagator and the benchmarker use it.\<close>

record 'w transport =
  tt_sync :: bool
  tt_Propagate :: "change \<Rightarrow> tpeer \<Rightarrow> 'w \<Rightarrow> terr option \<times> 'w"

text \<open>The three transports of the daemon; the probe of Syncthing asks its own API, None for no client.\<close>

definition syncthing_transport :: "'w transport" where
  "syncthing_transport = \<lparr>tt_sync = False, tt_Propagate = (\<lambda>c p w. (None, w))\<rparr>"

definition git_ssh_transport :: "'w ssh_transport \<Rightarrow> 'w transport" where
  "git_ssh_transport T = \<lparr>tt_sync = True, tt_Propagate = GitSSH_PropagateChange T\<rparr>"

definition mutagen_transport :: "(string \<Rightarrow> string) \<Rightarrow> 'w ssh_transport \<Rightarrow> 'w transport" where
  "mutagen_transport sha256 T = \<lparr>tt_sync = True, tt_Propagate = Mutagen_PropagateChange sha256 T\<rparr>"

definition Syncthing_Probe :: "('w \<Rightarrow> bool \<times> 'w) option \<Rightarrow> ('w \<Rightarrow> gotime) \<Rightarrow> 'w \<Rightarrow> dur option \<times> 'w" where
  "Syncthing_Probe ping now w =
    (case ping of None \<Rightarrow> (None, w)
     | Some p \<Rightarrow> (case p w of (ok, w') \<Rightarrow> (if ok then Some (time_Sub (now w') (now w)) else None, w')))"

text \<open>\<open>livePeersSource\<close>: None for a machine.toml that is missing or cannot be loaded.\<close>

definition livePeersSource :: "MachineConfigV2 option \<Rightarrow> tpeer list" where
  "livePeersSource machine =
    (case machine of None \<Rightarrow> []
     | Some mc \<Rightarrow> map (\<lambda>p. \<lparr>tp_Name = pe_Name p, tp_DeviceID = pe_DeviceID p, tp_Hostname = pe_Name p, tp_User = ''''\<rparr>) (mc_Peers mc))"

definition live_folder :: "string \<Rightarrow> tfolder" where
  "live_folder p = \<lparr>tf_ID = path_Base p, tf_Path = p\<rparr>"

definition livePropagatorFoldersSource :: "string list \<Rightarrow> string \<Rightarrow> tfolder option" where
  "livePropagatorFoldersSource roots p = (if p \<in> set roots then Some (live_folder p) else None)"

definition liveBenchmarkerFoldersSource :: "string list \<Rightarrow> tfolder list" where
  "liveBenchmarkerFoldersSource roots = map live_folder roots"

text \<open>\<open>now\<close> is time.Now; \<open>transport\<close> the transport of a name; \<open>peers\<close> and \<open>folders\<close> are the sources, None for a nil callback.\<close>

record 'w propagator =
  dp_mgr :: bool
  dp_peers :: "('w \<Rightarrow> tpeer list) option"
  dp_folders :: "('w \<Rightarrow> string \<Rightarrow> tfolder option) option"
  dp_git :: "'w git"
  dp_now :: "'w \<Rightarrow> gotime"
  dp_transport :: "string \<Rightarrow> 'w transport"

text \<open>What is logged for a peer.\<close>

datatype prop_event = NoRoute string | PushFailed string string terr | Pushed string string dur | Queued string string

definition propagate_to :: "'w propagator \<Rightarrow> change \<Rightarrow> tpeer \<Rightarrow> Manager \<times> 'w \<Rightarrow> prop_event \<times> Manager \<times> 'w" where
  "propagate_to P c peer s =
    (case s of (m, w) \<Rightarrow>
     case Route (dp_now P w) (ch_SizeHint c) (tf_ID (ch_Folder c)) (tp_Name peer) m of
       (None, m1) \<Rightarrow> (NoRoute (tp_Name peer), m1, w)
     | (Some t, m1) \<Rightarrow>
         (case tt_Propagate (dp_transport P t) c peer w of
            (Some e, w1) \<Rightarrow> (PushFailed (tp_Name peer) t e, m1, w1)
          | (None, w1) \<Rightarrow>
              let elapsed = time_Sub (dp_now P w1) (dp_now P w) in
              if tt_sync (dp_transport P t)
              then (Pushed (tp_Name peer) t elapsed,
                    RecordTransfer (dp_now P w1) t (tp_Name peer) (tf_ID (ch_Folder c)) (ch_SizeHint c) elapsed m1, w1)
              else (Queued (tp_Name peer) t, m1, w1)))"

fun propagate_each :: "'w propagator \<Rightarrow> change \<Rightarrow> tpeer list \<Rightarrow> Manager \<times> 'w \<Rightarrow> prop_event list \<times> Manager \<times> 'w" where
  "propagate_each P c [] s = ([], s)"
| "propagate_each P c (p # ps) s =
    (case propagate_to P c p s of (e, s1) \<Rightarrow> case propagate_each P c ps s1 of (es, s2) \<Rightarrow> (e # es, s2))"

definition PropagateNewCommit :: "'w propagator \<Rightarrow> string \<Rightarrow> Manager \<times> 'w \<Rightarrow> prop_event list \<times> Manager \<times> 'w" where
  "PropagateNewCommit P folderPath s =
    (case s of (m, w) \<Rightarrow>
     if \<not> dp_mgr P then ([], s)
     else let peers = (case dp_peers P of None \<Rightarrow> [] | Some src \<Rightarrow> src w) in
       if peers = [] then ([], s)
       else case (case dp_folders P of None \<Rightarrow> None | Some src \<Rightarrow> src w folderPath) of
         None \<Rightarrow> ([], s)
       | Some folder \<Rightarrow>
           (case estimateLastCommitSize (dp_git P) folderPath w of (sizeBytes, w1) \<Rightarrow>
              propagate_each P \<lparr>ch_Folder = folder, ch_CommitHash = '''', ch_SizeHint = sizeBytes, ch_Kind = ChangeKindUnknown\<rparr> peers (m, w1)))"

text \<open>The transports of this machine, in the order of their list, and the discovery of the peers of machine.toml at the start of the daemon.\<close>

definition buildTransportList :: "bool \<Rightarrow> bool \<Rightarrow> bool \<Rightarrow> string list" where
  "buildTransportList tailscale mutagen apiKey =
    (if tailscale then [''git-ssh+tailscale''] @ (if mutagen then [''mutagen+tailscale''] else []) else []) @
    (if apiKey then [''syncthing''] else [])"

definition startTransports :: "(string \<Rightarrow> bool) \<Rightarrow> (string \<Rightarrow> tpeer \<Rightarrow> dur option) \<Rightarrow> string list \<Rightarrow> MachineConfigV2 option \<Rightarrow> Manager" where
  "startTransports available probe transports machine =
    foldl (\<lambda>m peer. Discover available (\<lambda>t. probe t peer) (tp_Name peer) m) (NewManager transports) (livePeersSource machine)"

text \<open>A daemon's commits, one after the other; the propagator stands for what its sources and transports are at that time.\<close>

fun commit_run :: "Manager \<Rightarrow> ('w propagator \<times> string \<times> 'w) list \<Rightarrow> prop_event list" where
  "commit_run m [] = []"
| "commit_run m ((P, dir, w) # cs) = (case PropagateNewCommit P dir (m, w) of (es, m', _) \<Rightarrow> es @ commit_run m' cs)"

section \<open>The benchmarker\<close>

definition ProbeSubdir :: string where "ProbeSubdir = ''.dkbench''"
definition ProbeSizeBytes :: nat where "ProbeSizeBytes = 64 * 1024"
definition DefaultCadence :: dur where "DefaultCadence = 24 * Hour"
definition QuietWindow :: dur where "QuietWindow = 30 * Minute"
definition ConvergedSampleCount :: real where "ConvergedSampleCount = 20"
definition TickInterval :: dur where "TickInterval = 15 * Minute"

record bench_options =
  bo_Cadence :: dur
  bo_QuietWindow :: dur
  bo_ConvergedSampleCount :: real
  bo_TickInterval :: dur

text \<open>
  The environment: the sources, the transports, time.Now, and what the standard library needs: whether random bytes can be read
  and which, how much of a file can be written (None for all of it), whether a directory can be removed because it is empty.
\<close>

record 'w bench_env =
  be_folders :: "fsys \<times> 'w \<Rightarrow> tfolder list"
  be_peers :: "fsys \<times> 'w \<Rightarrow> tpeer list"
  be_transport :: "string \<Rightarrow> (fsys \<times> 'w) transport"
  be_now :: "fsys \<times> 'w \<Rightarrow> gotime"
  be_random :: "nat \<Rightarrow> string option"
  be_room :: "string \<Rightarrow> nat option"
  be_removable :: "fsys \<Rightarrow> string \<Rightarrow> bool"

type_synonym bucketKey = "string \<times> string \<times> string"

record benchmarker =
  bm_cadence :: dur
  bm_quietWindow :: dur
  bm_convergedN :: real
  bm_tick :: dur
  bm_last :: "bucketKey \<Rightarrow> gotime option"

definition benchmarker_New :: "bench_options \<Rightarrow> benchmarker" where
  "benchmarker_New opts =
    \<lparr>bm_cadence = (if bo_Cadence opts \<le> 0 then DefaultCadence else bo_Cadence opts),
     bm_quietWindow = (if bo_QuietWindow opts \<le> 0 then QuietWindow else bo_QuietWindow opts),
     bm_convergedN = (if bo_ConvergedSampleCount opts \<le> 0 then ConvergedSampleCount else bo_ConvergedSampleCount opts),
     bm_tick = (if bo_TickInterval opts \<le> 0 then TickInterval else bo_TickInterval opts),
     bm_last = (\<lambda>_. None)\<rparr>"

text \<open>Asking for the parameters makes the model if it is missing.\<close>

definition shouldBenchmark :: "bucketKey \<Rightarrow> gotime \<Rightarrow> gotime \<Rightarrow> benchmarker \<Rightarrow> Manager \<Rightarrow> bool \<times> Manager" where
  "shouldBenchmark key now clock b m =
    (case key of (t, peer, folder) \<Rightarrow>
       if (case bm_last b key of None \<Rightarrow> False | Some prev \<Rightarrow> time_Sub now prev < bm_cadence b) then (False, m)
       else case ModelParametersFor clock t peer folder m of ((_, _, n), m') \<Rightarrow> (n < bm_convergedN b, m'))"

definition os_WriteFile :: "(string \<Rightarrow> nat option) \<Rightarrow> fsys \<Rightarrow> string \<Rightarrow> string \<Rightarrow> ioerr option \<times> fsys" where
  "os_WriteFile room f p data =
    (if broken f p \<or> nodes f p = Some DirN \<or> \<not> is_dir f (path_Dir p) then (Some IOFail, f)
     else case room p of None \<Rightarrow> (None, set_node p (Some (FileN data)) f)
          | Some k \<Rightarrow> (Some IOFail, set_node p (Some (FileN (take k data))) f))"

text \<open>os.Remove with its error dropped: a file, or a directory that is empty.\<close>

definition try_Remove :: "(fsys \<Rightarrow> string \<Rightarrow> bool) \<Rightarrow> string \<Rightarrow> fsys \<Rightarrow> fsys" where
  "try_Remove removable p f = (if broken f p \<or> \<not> removable f p then f else set_node p None f)"

datatype bench_error = MkdirProbe | RandomFailed | WriteProbe | PropagateFailed terr

definition probeDir :: "tfolder \<Rightarrow> string" where
  "probeDir folder = path_Join (tf_Path folder) ProbeSubdir"

definition probeFile :: "tfolder \<Rightarrow> gotime \<Rightarrow> string" where
  "probeFile folder now = path_Join (probeDir folder) (''probe-'' @ nat_digits (nat now))"

definition probe_change :: "tfolder \<Rightarrow> nat \<Rightarrow> change" where
  "probe_change folder n = \<lparr>ch_Folder = folder, ch_CommitHash = '''', ch_SizeHint = int n, ch_Kind = ChangeKindBinary\<rparr>"

definition benchmarkOne :: "'w bench_env \<Rightarrow> string \<Rightarrow> tpeer \<Rightarrow> tfolder \<Rightarrow> gotime \<Rightarrow> benchmarker \<times> Manager \<times> fsys \<times> 'w \<Rightarrow>
    bench_error option \<times> benchmarker \<times> Manager \<times> fsys \<times> 'w" where
  "benchmarkOne E t peer folder now s =
    (case s of (b, m, f, g) \<Rightarrow>
     case os_MkdirAll f (probeDir folder) of
       (Some _, f1) \<Rightarrow> (Some MkdirProbe, b, m, f1, g)
     | (None, f1) \<Rightarrow>
     (case be_random E ProbeSizeBytes of
       None \<Rightarrow> (Some RandomFailed, b, m, f1, g)
     | Some payload \<Rightarrow>
     (case os_WriteFile (be_room E) f1 (probeFile folder now) payload of
       (Some _, f2) \<Rightarrow> (Some WriteProbe, b, m, f2, g)
     | (None, f2) \<Rightarrow>
         let clean = (\<lambda>f. try_Remove (be_removable E) (probeDir folder) (try_Remove (be_removable E) (probeFile folder now) f));
             start = be_now E (f2, g) in
         case tt_Propagate (be_transport E t) (probe_change folder (length payload)) peer (f2, g) of
           (Some e, (f3, g3)) \<Rightarrow> (Some (PropagateFailed e), b, m, clean f3, g3)
         | (None, (f3, g3)) \<Rightarrow>
             let done = be_now E (f3, g3) in
             (None, b\<lparr>bm_last := (bm_last b)((t, tp_Name peer, tf_ID folder) \<mapsto> now)\<rparr>,
              RecordTransfer done t (tp_Name peer) (tf_ID folder) (int (length payload)) (time_Sub done start) m, clean f3, g3))))"

text \<open>One tuple of a pass; the result is the tuple and whether it succeeded, for one that was benchmarked.\<close>

definition bench_tuple :: "'w bench_env \<Rightarrow> gotime \<Rightarrow> string \<Rightarrow> tpeer \<Rightarrow> tfolder \<Rightarrow> benchmarker \<times> Manager \<times> fsys \<times> 'w \<Rightarrow>
    (bucketKey \<times> bench_error option) list \<times> benchmarker \<times> Manager \<times> fsys \<times> 'w" where
  "bench_tuple E now t peer folder s =
    (case s of (b, m, f, g) \<Rightarrow>
     case shouldBenchmark (t, tp_Name peer, tf_ID folder) now (be_now E (f, g)) b m of
       (False, m1) \<Rightarrow> ([], b, m1, f, g)
     | (True, m1) \<Rightarrow> (case benchmarkOne E t peer folder now (b, m1, f, g) of (r, s') \<Rightarrow> ([((t, tp_Name peer, tf_ID folder), r)], s')))"

fun bench_all :: "'w bench_env \<Rightarrow> gotime \<Rightarrow> (string \<times> tpeer \<times> tfolder) list \<Rightarrow> benchmarker \<times> Manager \<times> fsys \<times> 'w \<Rightarrow>
    (bucketKey \<times> bench_error option) list \<times> benchmarker \<times> Manager \<times> fsys \<times> 'w" where
  "bench_all E now [] s = ([], s)"
| "bench_all E now ((t, peer, folder) # xs) s =
    (case bench_tuple E now t peer folder s of (l1, s1) \<Rightarrow> case bench_all E now xs s1 of (l2, s2) \<Rightarrow> (l1 @ l2, s2))"

text \<open>The tuples of a pass: nothing in it changes the routes, so they are those at its start.\<close>

definition bench_tuples :: "(string \<Rightarrow> bool) \<Rightarrow> Manager \<Rightarrow> tpeer list \<Rightarrow> tfolder list \<Rightarrow> (string \<times> tpeer \<times> tfolder) list" where
  "bench_tuples sync m peers folders =
    concat (map (\<lambda>peer. case RoutesFor (tp_Name peer) m of None \<Rightarrow> []
      | Some routes \<Rightarrow> concat (map (\<lambda>t.
          if \<not> sync t \<or> (case routes t of None \<Rightarrow> True | Some e \<Rightarrow> \<not> re_Reachable e) then []
          else map (\<lambda>folder. (t, peer, folder)) folders) (mg_transports m))) peers)"

definition runOnce :: "'w bench_env \<Rightarrow> benchmarker \<times> Manager \<times> fsys \<times> 'w \<Rightarrow>
    (bucketKey \<times> bench_error option) list \<times> benchmarker \<times> Manager \<times> fsys \<times> 'w" where
  "runOnce E s =
    (case s of (b, m, w) \<Rightarrow>
       bench_all E (be_now E w) (bench_tuples (\<lambda>t. tt_sync (be_transport E t)) m (be_peers E w) (be_folders E w)) s)"

text \<open>BenchmarkNow: every reachable synchronous transport, whatever was measured before; None in place of a transport for a peer without routes.\<close>

datatype probe_outcome = RoutesEmpty string | ProbeUnreachable string string | Probed string string "bench_error option"

fun bench_now :: "'w bench_env \<Rightarrow> gotime \<Rightarrow> tfolder \<Rightarrow> (tpeer \<times> string option) list \<Rightarrow> benchmarker \<times> Manager \<times> fsys \<times> 'w \<Rightarrow>
    probe_outcome list \<times> benchmarker \<times> Manager \<times> fsys \<times> 'w" where
  "bench_now E now folder [] s = ([], s)"
| "bench_now E now folder ((peer, None) # xs) s =
    (case bench_now E now folder xs s of (out, s') \<Rightarrow> (RoutesEmpty (tp_Name peer) # out, s'))"
| "bench_now E now folder ((peer, Some t) # xs) s =
    (if \<not> reachable (fst (snd s)) (tp_Name peer) t
     then case bench_now E now folder xs s of (out, s') \<Rightarrow> (ProbeUnreachable t (tp_Name peer) # out, s')
     else case benchmarkOne E t peer folder now s of (r, s1) \<Rightarrow>
          case bench_now E now folder xs s1 of (out, s') \<Rightarrow> (Probed t (tp_Name peer) r # out, s'))"

definition BenchmarkNow :: "'w bench_env \<Rightarrow> tfolder \<Rightarrow> benchmarker \<times> Manager \<times> fsys \<times> 'w \<Rightarrow>
    probe_outcome list \<times> benchmarker \<times> Manager \<times> fsys \<times> 'w" where
  "BenchmarkNow E folder s =
    (case s of (b, m, w) \<Rightarrow>
       bench_now E (be_now E w) folder
         (concat (map (\<lambda>peer. if RoutesFor (tp_Name peer) m = None then [(peer, None)]
            else map (\<lambda>t. (peer, Some t)) (filter (\<lambda>t. tt_sync (be_transport E t)) (mg_transports m))) (be_peers E w))) s)"

lemma int64_id: "- (2 ^ 63) \<le> x \<Longrightarrow> x < 2 ^ 63 \<Longrightarrow> int64 x = x"
  unfolding int64_def by (simp add: sint_sbintrunc' signed_take_bit_int_eq_self)

text \<open>
  The command bench-now, a process with a manager of its own: it benchmarks every folder, or the one given, and its rows are what it prints.
\<close>

definition filter_folder :: "string option \<Rightarrow> tfolder list \<Rightarrow> tfolder list" where
  "filter_folder flag folders = (case flag of None \<Rightarrow> folders | Some dir \<Rightarrow> filter (\<lambda>f. tf_Path f = dir) folders)"

fun bench_folders :: "'w bench_env \<Rightarrow> tfolder list \<Rightarrow> benchmarker \<times> Manager \<times> fsys \<times> 'w \<Rightarrow> probe_outcome list \<times> benchmarker \<times> Manager \<times> fsys \<times> 'w" where
  "bench_folders E [] s = ([], s)"
| "bench_folders E (folder # fs) s =
    (case BenchmarkNow E folder s of (out, s1) \<Rightarrow> case bench_folders E fs s1 of (outs, s2) \<Rightarrow> (out @ outs, s2))"

definition runBenchNow :: "'w bench_env \<Rightarrow> (string \<Rightarrow> bool) \<Rightarrow> (string \<Rightarrow> tpeer \<Rightarrow> dur option) \<Rightarrow> string list \<Rightarrow> MachineConfigV2 option \<Rightarrow> string option \<Rightarrow>
    fsys \<times> 'w \<Rightarrow> (probe_outcome list \<times> benchmarker \<times> Manager \<times> fsys \<times> 'w) option" where
  "runBenchNow E available probe transports machine flag w =
    (let folders = filter_folder flag (be_folders E w);
         m = foldl (\<lambda>m peer. Discover available (\<lambda>t. probe t peer) (tp_Name peer) m)
               (startTransports available probe transports machine) (livePeersSource machine);
         b = benchmarker_New \<lparr>bo_Cadence = 0, bo_QuietWindow = 0, bo_ConvergedSampleCount = 0, bo_TickInterval = 0\<rparr>
     in if folders = [] then None else Some (bench_folders E folders (b, m, w)))"

section \<open>What the manager's operations leave as it is\<close>

text \<open>The same transports and routes, and for the transport and peer the same predictions.\<close>

definition same_routing :: "Manager \<Rightarrow> Manager \<Rightarrow> bool" where
  "same_routing m m' \<longleftrightarrow> mg_routes m' = mg_routes m \<and> mg_transports m' = mg_transports m \<and> mg_priors m' = mg_priors m"

definition same_cost :: "string \<Rightarrow> string \<Rightarrow> Manager \<Rightarrow> Manager \<Rightarrow> bool" where
  "same_cost t peer m m' \<longleftrightarrow> (\<forall>n repo. prediction 0 n repo peer m' t = prediction 0 n repo peer m t)"

lemma same_routing_refl [simp]: "same_routing m m" by (simp add: same_routing_def)
lemma same_routing_trans: "same_routing m m' \<Longrightarrow> same_routing m' m'' \<Longrightarrow> same_routing m m''" by (simp add: same_routing_def)
lemma same_cost_refl [simp]: "same_cost t p m m" by (simp add: same_cost_def)
lemma same_cost_trans: "same_cost t p m m' \<Longrightarrow> same_cost t p m' m'' \<Longrightarrow> same_cost t p m m''" by (simp add: same_cost_def)

text \<open>The model made for a key that has none, at time 0.\<close>

definition fresh_model :: "Manager \<Rightarrow> string \<Rightarrow> CostModel" where
  "fresh_model m t =
    (let prior0 = (case mg_priors m t of None \<Rightarrow> \<lparr>cp_SetupMS = 0, cp_MSPerByte = 0, cp_Weight = 0, cp_HalfLifeSec = 0\<rparr> | Some p \<Rightarrow> p);
         prior = (if cp_Weight prior0 = 0 then DefaultPriorFor t else prior0)
     in NewCostModel (cp_SetupMS prior) (cp_MSPerByte prior) (cp_Weight prior) (cp_HalfLifeSec prior) 0)"

lemma modelFor_eq:
  "modelFor now t peer repo m =
    (case mg_models m (t, peer, repo) of Some model \<Rightarrow> (model, m)
     | None \<Rightarrow> let model = (fresh_model m t)\<lparr>cm_lastUpdate := now\<rparr> in (model, m\<lparr>mg_models := (mg_models m)((t, peer, repo) \<mapsto> model)\<rparr>))"
  by (simp add: modelFor_def fresh_model_def NewCostModel_def Let_def split: option.split)

lemma fresh_model_upd [simp]: "fresh_model (m\<lparr>mg_models := x\<rparr>) t = fresh_model m t"
  by (simp add: fresh_model_def)

lemma Predict_lastUpdate [simp]: "Predict (model\<lparr>cm_lastUpdate := now\<rparr>) n = Predict model n"
  by (simp add: Predict_def)

lemma prediction_eq: "prediction now n repo peer m t =
    Predict (case mg_models m (t, peer, repo) of Some model \<Rightarrow> model | None \<Rightarrow> fresh_model m t) n"
  by (simp add: prediction_def modelFor_eq Let_def split: option.split)

lemma prediction_now: "prediction now n repo peer m t = prediction 0 n repo peer m t"
  by (simp add: prediction_eq)

text \<open>\<open>keeps\<close>: equal routing, and equal predictions for all transports and peers of a set.\<close>

definition keeps :: "(string \<times> string) set \<Rightarrow> Manager \<Rightarrow> Manager \<Rightarrow> bool" where
  "keeps S m m' \<longleftrightarrow> same_routing m m' \<and> (\<forall>(t, p)\<in>S. same_cost t p m m')"

lemma keeps_refl [simp]: "keeps S m m" by (auto simp: keeps_def)

lemma keeps_trans: "keeps S m m' \<Longrightarrow> keeps S m' m'' \<Longrightarrow> keeps S m m''"
  unfolding keeps_def using same_routing_trans same_cost_trans by fast

lemma keeps_modelFor: "modelFor now t peer repo m = (model, m') \<Longrightarrow> keeps UNIV m m'"
  by (auto simp: keeps_def same_routing_def same_cost_def prediction_eq modelFor_eq Let_def split: option.splits if_splits)

lemma keeps_candidates: "candidates now n repo peer ts m = (cs, m') \<Longrightarrow> keeps UNIV m m'"
proof (induction ts arbitrary: m cs m')
  case (Cons t ts)
  obtain model m1 where 1: "modelFor now t peer repo m = (model, m1)" by fastforce
  obtain ds m2 where 2: "candidates now n repo peer ts m1 = (ds, m2)" by fastforce
  show ?case
  proof (cases "reachable m peer t")
    case True
    then have "m' = m2" using Cons.prems by (simp add: 1 2)
    then show ?thesis using keeps_trans[OF keeps_modelFor[OF 1] Cons.IH[OF 2]] by simp
  next
    case False
    then show ?thesis using Cons.prems by (simp add: Cons.IH)
  qed
qed simp

lemma keeps_Route: "Route now n repo peer m = (r, m') \<Longrightarrow> keeps UNIV m m'"
  by (auto simp: Route_def intro: keeps_candidates split: if_splits prod.splits list.splits)

lemma keeps_record_model:
  "keeps {(t', p). (t', p) \<noteq> (t, peer)} m (record_model now t peer repo n e m)"
proof -
  obtain model m1 where 1: "modelFor now t peer repo m = (model, m1)" by fastforce
  have "keeps {(t', p). (t', p) \<noteq> (t, peer)} m1 (record_model now t peer repo n e m)"
    by (auto simp: record_model_def 1 keeps_def same_routing_def same_cost_def prediction_eq split: option.split)
  moreover have "keeps {(t', p). (t', p) \<noteq> (t, peer)} m m1" using keeps_modelFor[OF 1] by (auto simp: keeps_def)
  ultimately show ?thesis by (rule keeps_trans[rotated])
qed

lemma keeps_RecordTransfer: "keeps {(t', p). (t', p) \<noteq> (t, peer)} m (RecordTransfer now t peer repo n e m)"
  unfolding RecordTransfer_def Let_def using keeps_record_model keeps_trans[OF keeps_record_model keeps_record_model] by presburger

lemma Route_fst:
  "fst (Route now n repo peer m) =
    (if mg_routes m peer = None then None
     else case map (\<lambda>t. (t, prediction now n repo peer m t)) (filter (reachable m peer) (mg_transports m)) of
       [] \<Rightarrow> None | c # cs \<Rightarrow> Some (fst (pick c cs)))"
proof -
  obtain cs m' where c: "candidates now n repo peer (mg_transports m) m = (cs, m')" by fastforce
  have "cs = map (\<lambda>t. (t, prediction now n repo peer m t)) (filter (reachable m peer) (mg_transports m))"
    using candidates_eq[of now n repo peer "mg_transports m" m] by (simp add: c)
  then show ?thesis by (simp add: Route_def c split: list.split)
qed

lemma Route_keeps:
  assumes "keeps (UNIV \<times> {peer}) m m'"
  shows "fst (Route now' n repo peer m') = fst (Route now n repo peer m)"
proof -
  have "prediction now' n repo peer m' t = prediction now n repo peer m t" for t
    using assms prediction_now[of now'] prediction_now[of now] by (auto simp: keeps_def same_cost_def)
  moreover have "reachable m' peer = reachable m peer" "mg_routes m' = mg_routes m" "mg_transports m' = mg_transports m"
    using assms by (auto simp: keeps_def same_routing_def reachable_def)
  ultimately show ?thesis by (simp only: Route_fst)
qed

text \<open>
  The aggregate of a peer over all repositories is learned and never asked: where the models without a repository are replaced by any others, routing
  a change of a repository gives the same transport. A repository without a transfer of its own is predicted by the prior.
\<close>

theorem aggregate_is_never_consulted:
  assumes "repo \<noteq> ''''"
  shows "fst (Route now n repo peer (m\<lparr>mg_models := \<lambda>(t, p, r). if r = '''' then other t p else mg_models m (t, p, r)\<rparr>)) = fst (Route now n repo peer m)"
proof -
  let ?m' = "m\<lparr>mg_models := \<lambda>(t, p, r). if r = '''' then other t p else mg_models m (t, p, r)\<rparr>"
  have p: "prediction now n repo peer ?m' t = prediction now n repo peer m t" for now n t using assms by (simp add: prediction_eq split: option.split)
  have "reachable ?m' peer = reachable m peer" by (simp add: reachable_def fun_eq_iff)
  then show ?thesis by (simp only: Route_fst p) simp
qed

section \<open>Propagation\<close>

fun chosen :: "prop_event \<Rightarrow> string option" where
  "chosen (NoRoute _) = None"
| "chosen (PushFailed _ t _) = Some t"
| "chosen (Pushed _ t _) = Some t"
| "chosen (Queued _ t) = Some t"

fun addressee :: "prop_event \<Rightarrow> string" where
  "addressee (NoRoute p) = p"
| "addressee (PushFailed p _ _) = p"
| "addressee (Pushed p _ _) = p"
| "addressee (Queued p _) = p"

lemma propagate_to_step:
  assumes "propagate_to P c peer (m, w) = (e, m', w')"
  shows "addressee e = tp_Name peer"
    and "chosen e = fst (Route (dp_now P w) (ch_SizeHint c) (tf_ID (ch_Folder c)) (tp_Name peer) m)"
    and "keeps {(t, p). p \<noteq> tp_Name peer \<or> \<not> tt_sync (dp_transport P t)} m m'"
proof -
  let ?S = "{(t, p). p \<noteq> tp_Name peer \<or> \<not> tt_sync (dp_transport P t)}"
  obtain r m1 where r: "Route (dp_now P w) (ch_SizeHint c) (tf_ID (ch_Folder c)) (tp_Name peer) m = (r, m1)" by fastforce
  have k: "keeps ?S m m1" using keeps_Route[OF r] by (auto simp: keeps_def)
  have "addressee e = tp_Name peer \<and> chosen e = r \<and> keeps ?S m m'"
  proof (cases r)
    case None
    then show ?thesis using assms k by (auto simp: propagate_to_def r)
  next
    case (Some t)
    obtain res w1 where p: "tt_Propagate (dp_transport P t) c peer w = (res, w1)" by fastforce
    have "keeps ?S m (RecordTransfer now t (tp_Name peer) repo n el m1)" if "tt_sync (dp_transport P t)" for now repo n el
    proof -
      have "keeps ?S m1 (RecordTransfer now t (tp_Name peer) repo n el m1)"
        using keeps_RecordTransfer[of t "tp_Name peer" m1 now repo n el] that by (auto simp: keeps_def)
      then show ?thesis using k keeps_trans by blast
    qed
    then show ?thesis using assms k
      by (auto simp: propagate_to_def r Some p Let_def split: option.splits if_splits)
  qed
  then show "addressee e = tp_Name peer" "keeps ?S m m'"
    "chosen e = fst (Route (dp_now P w) (ch_SizeHint c) (tf_ID (ch_Folder c)) (tp_Name peer) m)" by (simp_all add: r)
qed

lemma propagate_each_choices:
  assumes "propagate_each P c peers (m, w) = (es, m', w')" "distinct (map tp_Name peers)"
  shows "map (\<lambda>e. (addressee e, chosen e)) es =
    map (\<lambda>p. (tp_Name p, fst (Route now (ch_SizeHint c) (tf_ID (ch_Folder c)) (tp_Name p) m))) peers"
  using assms
proof (induction peers arbitrary: m w es)
  case (Cons p ps)
  obtain e m1 w1 where 1: "propagate_to P c p (m, w) = (e, m1, w1)" by (metis prod.collapse)
  obtain es1 where 2: "propagate_each P c ps (m1, w1) = (es1, m', w')" "es = e # es1"
    using Cons.prems(1) by (auto simp: 1 split: prod.splits)
  have "fst (Route now (ch_SizeHint c) (tf_ID (ch_Folder c)) (tp_Name q) m1) = fst (Route now (ch_SizeHint c) (tf_ID (ch_Folder c)) (tp_Name q) m)"
    if "q \<in> set ps" for q
  proof (rule Route_keeps)
    have "tp_Name q \<in> tp_Name ` set ps" using that by (rule imageI)
    then have "tp_Name q \<noteq> tp_Name p" using Cons.prems(2) by auto
    then show "keeps (UNIV \<times> {tp_Name q}) m m1" using propagate_to_step(3)[OF 1] by (auto simp: keeps_def)
  qed
  moreover have "chosen e = fst (Route now (ch_SizeHint c) (tf_ID (ch_Folder c)) (tp_Name p) m)"
    unfolding propagate_to_step(2)[OF 1] by (rule Route_keeps) simp
  ultimately show ?case using Cons.IH[OF 2(1)] Cons.prems(2) propagate_to_step(1)[OF 1] by (simp add: 2(2))
qed simp

lemma propagate_each_keeps:
  assumes "propagate_each P c peers (m, w) = (es, m', w')"
  shows "keeps {(t, p). \<not> tt_sync (dp_transport P t)} m m'"
  using assms
proof (induction peers arbitrary: m w es)
  case (Cons p ps)
  obtain e m1 w1 where 1: "propagate_to P c p (m, w) = (e, m1, w1)" by (metis prod.collapse)
  have "keeps {(t, p). \<not> tt_sync (dp_transport P t)} m m1" using propagate_to_step(3)[OF 1] by (auto simp: keeps_def)
  moreover obtain es1 where "propagate_each P c ps (m1, w1) = (es1, m', w')"
    using Cons.prems(1) by (auto simp: 1 split: prod.splits)
  ultimately show ?case using Cons.IH keeps_trans by blast
qed simp


text \<open>A laptop reachable by both transports and a server reachable by none.\<close>

definition demo_mgr :: Manager where
  "demo_mgr = Discover (\<lambda>_. True) (\<lambda>t. Some 1) ''lap'' (NewManager [''syncthing'', ''git-ssh+tailscale''])"

definition demo_propagator :: "(string \<Rightarrow> string \<Rightarrow> string option) propagator" where
  "demo_propagator =
    \<lparr>dp_mgr = True, dp_peers = Some (\<lambda>_. [demo_peer ''lap'', demo_peer ''server'']), dp_folders = Some (\<lambda>_. livePropagatorFoldersSource [''/r'']),
     dp_git = (\<lambda>dir args w. ((True, '' 1 file changed, 2 insertions(+), 1 deletion(-)'', ''''), w)), dp_now = (\<lambda>_. 0),
     dp_transport = (\<lambda>t. if t = ''syncthing'' then syncthing_transport else git_ssh_transport demo_ssh)\<rparr>"

lemma demo_estimate: "fst (estimateLastCommitSize (dp_git demo_propagator) ''/r'' w) = 150"
proof -
  have n: "numberBefore '' 1 file changed, 2 insertions(+), 1 deletion(-)'' ''insertion'' = 2"
    "numberBefore '' 1 file changed, 2 insertions(+), 1 deletion(-)'' ''deletion'' = 1"
    by code_simp+
  have "int64 150 = 150" by (rule int64_id) simp_all
  then show ?thesis by (simp add: estimateLastCommitSize_def runOutput_def demo_propagator_def n)
qed

lemma demo_route: "fst (Route 0 150 ''r'' ''lap'' demo_mgr) = Some ''git-ssh+tailscale''"
  by (simp add: Route_fst demo_mgr_def Discover_def NewManager_def reachable_def prediction_eq fresh_model_def DefaultPriorFor_def
      HasPrefix_def NewCostModel_def Predict_def pick_def Let_def Millisecond_def)

lemma demo_folder: "livePropagatorFoldersSource [''/r''] ''/r'' = Some demo_tfolder"
  by (simp add: livePropagatorFoldersSource_def live_folder_def demo_tfolder_def) code_simp


text \<open>
  The time a transport that works in the background takes to accept a change is never learned from: whatever happens in a call, the
  routes stay and every prediction for every transport that does not propagate synchronously stays what it was.
\<close>

theorem background_transports_never_learn:
  "case PropagateNewCommit P dir (m, w) of (es, m', w') \<Rightarrow> keeps {(t, p). \<not> tt_sync (dp_transport P t)} m m'"
proof -
  obtain es m' w' where r: "PropagateNewCommit P dir (m, w) = (es, m', w')" by (metis prod.collapse)
  have "m' = m \<or> (\<exists>c ps w1. propagate_each P c ps (m, w1) = (es, m', w'))"
    using r by (auto simp: PropagateNewCommit_def Let_def split: if_splits option.splits prod.splits)
  then show ?thesis using propagate_each_keeps by (auto simp: r)
qed

text \<open>Nothing but the transport's own EnsurePeerReachability adds a remote, and the propagator never calls it.\<close>

definition spares_remotes :: "'w propagator \<Rightarrow> string \<Rightarrow> ('w \<Rightarrow> 'r) \<Rightarrow> bool" where
  "spares_remotes P name remotes \<longleftrightarrow>
    (\<forall>t c p w. t \<noteq> name \<longrightarrow> remotes (snd (tt_Propagate (dp_transport P t) c p w)) = remotes w) \<and>
    (\<forall>dir args w. remotes (snd (dp_git P dir args w)) = remotes w)"

lemma propagate_each_fails:
  assumes "remote_laws (sh_runner T) remotes" "spares_remotes P (GitSSH_Name T) remotes"
    and "dp_transport P (GitSSH_Name T) = git_ssh_transport T"
    and "\<And>p. remotes w (tf_Path (ch_Folder c)) (remoteName (rs_Name (sh_resolver T)) p) = None"
    and "propagate_each P c peers (m, w) = (es, m', w')"
  shows "remotes w' = remotes w \<and> list_all (\<lambda>e. case e of Pushed _ t _ \<Rightarrow> t \<noteq> GitSSH_Name T | _ \<Rightarrow> True) es \<and> keeps ({GitSSH_Name T} \<times> UNIV) m m'"
  using assms(4,5)
proof (induction peers arbitrary: m w es)
  case (Cons p ps)
  obtain e m1 w1 where 1: "propagate_to P c p (m, w) = (e, m1, w1)" by (metis prod.collapse)
  obtain es1 where 2: "propagate_each P c ps (m1, w1) = (es1, m', w')" "es = e # es1"
    using Cons.prems(2) by (auto simp: 1 split: prod.splits)
  obtain r m0 where r: "Route (dp_now P w) (ch_SizeHint c) (tf_ID (ch_Folder c)) (tp_Name p) m = (r, m0)" by fastforce
  have k: "keeps ({GitSSH_Name T} \<times> UNIV) m m0" using keeps_Route[OF r] by (auto simp: keeps_def)
  have "remotes w1 = remotes w \<and> (case e of Pushed _ t _ \<Rightarrow> t \<noteq> GitSSH_Name T | _ \<Rightarrow> True) \<and> keeps ({GitSSH_Name T} \<times> UNIV) m m1"
  proof (cases r)
    case None
    then show ?thesis using 1 k by (auto simp: propagate_to_def r)
  next
    case (Some t)
    obtain res w2 where q: "tt_Propagate (dp_transport P t) c p w = (res, w2)" by fastforce
    show ?thesis
    proof (cases "t = GitSSH_Name T")
      case True
      then have g: "GitSSH_PropagateChange T c p w = (res, w2)" using q assms(3) by (simp add: git_ssh_transport_def)
      then have "res \<noteq> None" "remotes w2 = remotes w"
        using GitSSH_Propagate_remotes[OF assms(1), of c p w] Cons.prems(1)[of p] by auto
      then show ?thesis using 1 k by (auto simp: propagate_to_def r Some q)
    next
      case False
      have "remotes w2 = remotes w" using assms(2) False q unfolding spares_remotes_def by (metis snd_conv)
      moreover have "keeps ({GitSSH_Name T} \<times> UNIV) m (RecordTransfer now t (tp_Name p) repo n el m0)" for now repo n el
        using keeps_trans[OF k, of "RecordTransfer now t (tp_Name p) repo n el m0"] keeps_RecordTransfer[of t "tp_Name p" m0 now repo n el] False
        by (auto simp: keeps_def)
      ultimately show ?thesis using 1 k False by (auto simp: propagate_to_def r Some q Let_def split: option.splits if_splits)
    qed
  qed
  then show ?case using Cons.IH[OF _ 2(1)] Cons.prems(1) keeps_trans by (auto simp: 2(2))
qed simp

text \<open>
  Nothing the daemon does makes a push over ssh possible. The propagator pushes to the peer's remote but never adds it: in a repository
  that has none of those remotes, no call reports a push over git-ssh, none is recorded in its cost model (so routing
  prefers it as before), and there are still no such remotes afterwards.
\<close>

theorem commits_never_reach_git_ssh:
  assumes "remote_laws (sh_runner T) remotes" "spares_remotes P (GitSSH_Name T) remotes"
    and "dp_transport P (GitSSH_Name T) = git_ssh_transport T"
    and "dp_folders P = Some (\<lambda>_. livePropagatorFoldersSource roots)"
    and "\<And>p. remotes w dir (remoteName (rs_Name (sh_resolver T)) p) = None"
  shows "case PropagateNewCommit P dir (m, w) of (es, m', w') \<Rightarrow>
    remotes w' = remotes w \<and> list_all (\<lambda>e. case e of Pushed _ t _ \<Rightarrow> t \<noteq> GitSSH_Name T | _ \<Rightarrow> True) es \<and> keeps ({GitSSH_Name T} \<times> UNIV) m m'"
proof -
  obtain sz w1 where e: "estimateLastCommitSize (dp_git P) dir w = (sz, w1)" by fastforce
  have w1: "remotes w1 = remotes w"
    using assms(2) e unfolding spares_remotes_def estimateLastCommitSize_def runOutput_def
    by (auto split: prod.splits if_splits) (metis snd_conv)+
  let ?c = "\<lparr>ch_Folder = live_folder dir, ch_CommitHash = '''', ch_SizeHint = sz, ch_Kind = ChangeKindUnknown\<rparr>"
  have f: "tf_Path (ch_Folder ?c) = dir" by (simp add: live_folder_def)
  obtain es m' w' where r: "PropagateNewCommit P dir (m, w) = (es, m', w')" by (metis prod.collapse)
  have "es = [] \<and> m' = m \<and> w' = w \<or> (\<exists>ps. propagate_each P ?c ps (m, w1) = (es, m', w'))"
    using r by (auto simp: PropagateNewCommit_def Let_def e assms(4) livePropagatorFoldersSource_def split: if_splits option.splits)
  then show ?thesis
  proof
    assume "\<exists>ps. propagate_each P ?c ps (m, w1) = (es, m', w')"
    then obtain ps where p: "propagate_each P ?c ps (m, w1) = (es, m', w')" by blast
    have "remotes w1 (tf_Path (ch_Folder ?c)) (remoteName (rs_Name (sh_resolver T)) p) = None" for p using assms(5) w1 f by simp
    from propagate_each_fails[OF assms(1-3) this p] show ?thesis using w1 by (simp add: r)
  qed (simp add: r)
qed

text \<open>The propagator of above: the laptop's commit is routed over git-ssh and the push fails.\<close>

theorem commits_never_reach_git_ssh_witness:
  "case PropagateNewCommit demo_propagator ''/r'' (demo_mgr, \<lambda>_ _. None) of (es, m', w') \<Rightarrow>
    w' = (\<lambda>_ _. None) \<and> list_all (\<lambda>e. case e of Pushed _ t _ \<Rightarrow> t \<noteq> ''git-ssh+tailscale'' | _ \<Rightarrow> True) es \<and>
    keeps ({''git-ssh+tailscale''} \<times> UNIV) demo_mgr m'"
proof -
  have n: "GitSSH_Name demo_ssh = ''git-ssh+tailscale''" by code_simp
  have "remote_laws (sh_runner demo_ssh) (\<lambda>w. w)" "dp_folders demo_propagator = Some (\<lambda>_. livePropagatorFoldersSource [''/r''])"
    "spares_remotes demo_propagator (GitSSH_Name demo_ssh) (\<lambda>w. w)"
    "dp_transport demo_propagator (GitSSH_Name demo_ssh) = git_ssh_transport demo_ssh"
    using demo_runner_laws GitSSH_Propagate_remotes[of demo_ssh "\<lambda>w. w"]
    by (auto simp: demo_propagator_def spares_remotes_def n syncthing_transport_def git_ssh_transport_def) (simp_all add: demo_ssh_def)
  then show ?thesis
    using commits_never_reach_git_ssh[where T = demo_ssh and remotes = "\<lambda>w. w" and P = demo_propagator and roots = "[''/r'']" and
      w = "\<lambda>_ _. None" and dir = "''/r''" and m = demo_mgr] by (simp add: n)
qed

lemma startTransports_routes:
  "name \<notin> tp_Name ` set (livePeersSource machine) \<Longrightarrow> mg_routes (startTransports available probe transports machine) name = None"
proof -
  have "name \<notin> tp_Name ` set ps \<Longrightarrow> mg_routes m name = None \<Longrightarrow>
    mg_routes (foldl (\<lambda>m peer. Discover available (\<lambda>t. probe t peer) (tp_Name peer) m) m ps) name = None" for ps m
    by (induction ps arbitrary: m) (auto simp: Discover_def)
  then show "name \<notin> tp_Name ` set (livePeersSource machine) \<Longrightarrow> mg_routes (startTransports available probe transports machine) name = None"
    by (simp add: startTransports_def NewManager_def)
qed

lemma propagate_to_routes: "propagate_to P c p (m, w) = (e, m', w') \<Longrightarrow> mg_routes m' = mg_routes m"
  by (drule propagate_to_step(3)) (simp add: keeps_def same_routing_def)

lemma propagate_each_no_route:
  "propagate_each P c peers (m, w) = (es, m', w') \<Longrightarrow> mg_routes m name = None \<Longrightarrow>
    mg_routes m' = mg_routes m \<and> list_all (\<lambda>e. e = NoRoute name \<or> addressee e \<noteq> name) es"
proof (induction peers arbitrary: m w es)
  case (Cons p ps)
  obtain e m1 w1 where 1: "propagate_to P c p (m, w) = (e, m1, w1)" by (metis prod.collapse)
  obtain es1 where 2: "propagate_each P c ps (m1, w1) = (es1, m', w')" "es = e # es1"
    using Cons.prems(1) by (auto simp: 1 split: prod.splits)
  have "e = NoRoute name \<or> addressee e \<noteq> name"
    using propagate_to_step(1)[OF 1] 1 Cons.prems(2) by (auto simp: propagate_to_def Route_def split: prod.splits)
  then show ?case using Cons.IH[OF 2(1)] Cons.prems(2) propagate_to_routes[OF 1] by (simp add: 2(2))
qed simp

text \<open>
  A peer that is added while the daemon runs is never served. Discovery runs once, at the start, and a commit finds no
  route to a peer whose name machine.toml did not have then, however many commits follow and whatever the file says by then.
\<close>

theorem late_peer_is_never_served:
  assumes "name \<notin> tp_Name ` set (livePeersSource machine)"
  shows "list_all (\<lambda>e. e = NoRoute name \<or> addressee e \<noteq> name) (commit_run (startTransports available probe transports machine) cs)"
proof -
  have "list_all (\<lambda>e. e = NoRoute name \<or> addressee e \<noteq> name) (commit_run m cs)" if "mg_routes m name = None" for m
    using that
  proof (induction cs arbitrary: m)
    case (Cons x cs)
    obtain P dir w where x: "x = (P, dir, w)" by (metis prod.collapse)
    obtain es m' w' where r: "PropagateNewCommit P dir (m, w) = (es, m', w')" by (metis prod.collapse)
    have "es = [] \<and> m' = m \<or> (\<exists>c ps w1. propagate_each P c ps (m, w1) = (es, m', w'))"
      using r by (auto simp: PropagateNewCommit_def Let_def split: if_splits option.splits prod.splits)
    then have "mg_routes m' = mg_routes m \<and> list_all (\<lambda>e. e = NoRoute name \<or> addressee e \<noteq> name) es"
      using propagate_each_no_route[OF _ Cons.prems] by (elim disjE exE) simp_all
    then show ?case using Cons.IH[of m'] Cons.prems by (simp add: x r)
  qed simp
  then show ?thesis using startTransports_routes[OF assms] by blast
qed

theorem late_peer_is_never_served_witness:
  "list_all (\<lambda>e. e = NoRoute ''server'' \<or> addressee e \<noteq> ''server'')
    (commit_run (startTransports (\<lambda>_. True) (\<lambda>_ _. Some 1) (buildTransportList True False True) None) [(demo_propagator, ''/r'', \<lambda>_ _. None)])"
  by (rule late_peer_is_never_served) (simp add: livePeersSource_def)

section \<open>Benchmarks keep their distance\<close>

definition successes :: "gotime \<Rightarrow> (bucketKey \<times> bench_error option) list \<Rightarrow> (bucketKey \<times> gotime) list" where
  "successes now l = map (\<lambda>x. (fst x, now)) (filter (\<lambda>x. snd x = None) l)"

text \<open>
  Passes at any times; between two of them the environment, the manager and the world may become anything.
\<close>

fun bench_run :: "benchmarker \<Rightarrow> ('w bench_env \<times> Manager \<times> fsys \<times> 'w) list \<Rightarrow> (bucketKey \<times> gotime) list" where
  "bench_run b [] = []"
| "bench_run b ((E, m, w) # ticks) =
    (case runOnce E (b, m, w) of (l, b', _) \<Rightarrow> successes (be_now E w) l @ bench_run b' ticks)"

definition apart :: "dur \<Rightarrow> bucketKey \<times> gotime \<Rightarrow> bucketKey \<times> gotime \<Rightarrow> bool" where
  "apart d x y \<longleftrightarrow> fst x = fst y \<longrightarrow> d \<le> snd y - snd x"

text \<open>What the map of the last benchmarks says of those done so far.\<close>

definition remembers :: "benchmarker \<Rightarrow> (bucketKey \<times> gotime) list \<Rightarrow> bool" where
  "remembers b L \<longleftrightarrow> sorted_wrt (apart (bm_cadence b)) L \<and> (\<forall>(k, t)\<in>set L. \<exists>t'. bm_last b k = Some t' \<and> t \<le> t')"

lemma successes_simps [simp]: "successes now [] = []" "successes now (l @ l') = successes now l @ successes now l'"
  by (simp_all add: successes_def)

lemma benchmarkOne_last:
  assumes "benchmarkOne E t peer folder now (b, m, w) = (r, b', s')"
  shows "bm_cadence b' = bm_cadence b \<and>
    bm_last b' = (if r = None then (bm_last b)((t, tp_Name peer, tf_ID folder) \<mapsto> now) else bm_last b)"
proof -
  obtain f g where w: "w = (f, g)" by fastforce
  show ?thesis
    using assms unfolding benchmarkOne_def w Let_def
    by (auto split: prod.splits option.splits)
qed

lemma remembers_tuple:
  assumes "bench_tuple E now t peer folder (b, s) = (l, b', s')" "remembers b L" "0 < bm_cadence b" "bm_cadence b \<le> maxDur"
  shows "remembers b' (L @ successes now l) \<and> bm_cadence b' = bm_cadence b"
proof -
  obtain m f g where s: "s = (m, f, g)" by (metis prod.collapse)
  let ?k = "(t, tp_Name peer, tf_ID folder)"
  obtain yes m1 where 1: "shouldBenchmark ?k now (be_now E (f, g)) b m = (yes, m1)" by fastforce
  obtain r b1 s1 where 2: "benchmarkOne E t peer folder now (b, m1, f, g) = (r, b1, s1)" by (metis prod.collapse)
  show ?thesis
  proof (cases "yes \<and> r = None")
    case True
    then have l: "l = [(?k, None)]" "b' = b1" using assms(1) by (auto simp: bench_tuple_def s 1 2)
    have old: "bm_cadence b \<le> now - t'" if "bm_last b ?k = Some t'" for t'
    proof -
      have "\<not> time_Sub now t' < bm_cadence b" using True 1 that by (auto simp: shouldBenchmark_def split: if_splits)
      moreover have "minDur < bm_cadence b" using assms(3) by (simp add: minDur_def)
      ultimately show ?thesis using time_Sub_ge_iff[of "bm_cadence b" now t'] assms(4) by simp
    qed
    have new: "bm_cadence b \<le> now - t0" if k0: "(?k, t0) \<in> set L" for t0
    proof -
      obtain t' where "bm_last b ?k = Some t'" "t0 \<le> t'" using assms(2) k0 by (auto simp: remembers_def)
      then show ?thesis using old[of t'] by simp
    qed
    have b1: "bm_cadence b1 = bm_cadence b" "bm_last b1 = (bm_last b)(?k \<mapsto> now)" using benchmarkOne_last[OF 2] True by auto
    have sorted: "sorted_wrt (apart (bm_cadence b)) (L @ [(?k, now)])"
      using assms(2) new by (auto simp: remembers_def sorted_wrt_append apart_def)
    have "\<exists>t'. bm_last b1 k = Some t' \<and> t0 \<le> t'" if "(k, t0) \<in> set (L @ [(?k, now)])" for k t0
    proof (cases "k = ?k")
      case True
      then show ?thesis using that new assms(3) by (fastforce simp: b1(2))
    next
      case False
      then show ?thesis using that assms(2) by (auto simp: b1(2) remembers_def)
    qed
    then show ?thesis using sorted by (auto simp: remembers_def l successes_def b1(1))
  next
    case False
    then have "b' = b \<and> l = [] \<or> b' = b1 \<and> l = [(?k, r)] \<and> r \<noteq> None" using assms(1) by (auto simp: bench_tuple_def s 1 2 split: bool.splits)
    then show ?thesis using benchmarkOne_last[OF 2] assms(2) by (auto simp: successes_def remembers_def)
  qed
qed

lemma remembers_all:
  assumes "bench_all E now xs (b, s) = (l, b', s')" "remembers b L" "0 < bm_cadence b" "bm_cadence b \<le> maxDur"
  shows "remembers b' (L @ successes now l) \<and> bm_cadence b' = bm_cadence b"
  using assms
proof (induction xs arbitrary: b s l L)
  case (Cons x xs)
  obtain t peer folder where x: "x = (t, peer, folder)" by (metis prod.collapse)
  obtain l1 b1 s1 where 1: "bench_tuple E now t peer folder (b, s) = (l1, b1, s1)" by (metis prod.collapse)
  obtain l2 where 2: "bench_all E now xs (b1, s1) = (l2, b', s')" "l = l1 @ l2"
    using Cons.prems(1) by (auto simp: x 1 split: prod.splits)
  note R = remembers_tuple[OF 1 Cons.prems(2-4)]
  then show ?case using Cons.IH[OF 2(1), of "L @ successes now l1"] Cons.prems(3,4) by (simp add: 2(2))
qed simp

lemma remembers_run:
  assumes "remembers b L" "0 < bm_cadence b" "bm_cadence b \<le> maxDur"
  shows "sorted_wrt (apart (bm_cadence b)) (L @ bench_run b ticks)"
  using assms
proof (induction ticks arbitrary: b L)
  case Nil
  then show ?case by (simp add: remembers_def)
next
  case (Cons x ticks)
  obtain E m w where x: "x = (E, m, w)" by (metis prod.collapse)
  obtain l b' s' where r: "runOnce E (b, m, w) = (l, b', s')" by (metis prod.collapse)
  have "remembers b' (L @ successes (be_now E w) l) \<and> bm_cadence b' = bm_cadence b"
    using remembers_all[OF _ Cons.prems] r by (simp add: runOnce_def)
  then show ?case using Cons.IH[of b' "L @ successes (be_now E w) l"] Cons.prems(2,3) by (simp add: x r)
qed

text \<open>
  C33: A tuple of transport, peer and folder is never measured twice within the cadence. Whatever passes are made at whatever times, with
  any manager, file system and transports at each, and with any options, two successful benchmarks of one tuple are at least the
  cadence apart, also within one pass and where two folders or peers share a name.
\<close>

theorem benchmarks_keep_cadence:
  assumes "bo_Cadence opts \<le> maxDur"
  shows "sorted_wrt (apart (bm_cadence (benchmarker_New opts))) (bench_run (benchmarker_New opts) ticks)"
proof -
  let ?b = "benchmarker_New opts"
  have "DefaultCadence \<le> maxDur" "0 < DefaultCadence" by code_simp+
  then have "0 < bm_cadence ?b" "bm_cadence ?b \<le> maxDur" using assms by (auto simp: benchmarker_New_def)
  moreover have "remembers ?b []" by (simp add: remembers_def)
  ultimately show ?thesis using remembers_run[of ?b "[]" ticks] by simp
qed

text \<open>Three passes over a folder and a peer with a transport that always succeeds, the second one an hour after the first.\<close>

definition demo_bench :: "gotime \<Rightarrow> unit bench_env" where
  "demo_bench now =
    \<lparr>be_folders = (\<lambda>_. [demo_tfolder]), be_peers = (\<lambda>_. [demo_peer ''lap'']), be_transport = (\<lambda>_. \<lparr>tt_sync = True, tt_Propagate = (\<lambda>c p w. (None, w))\<rparr>),
     be_now = (\<lambda>_. now), be_random = (\<lambda>_. Some ''random''), be_room = (\<lambda>_. None), be_removable = (\<lambda>_ _. True)\<rparr>"

definition demo_folder_fs :: fsys where
  "demo_folder_fs = \<lparr>nodes = (\<lambda>p. if p = ''/'' \<or> p = ''/r'' then Some DirN else None), broken = (\<lambda>_. False)\<rparr>"

definition demo_options :: bench_options where
  "demo_options = \<lparr>bo_Cadence = 0, bo_QuietWindow = 0, bo_ConvergedSampleCount = 0, bo_TickInterval = 0\<rparr>"

theorem benchmarks_keep_cadence_witness:
  "sorted_wrt (apart (24 * Hour)) (bench_run (benchmarker_New demo_options)
    (map (\<lambda>h. (demo_bench (h * Hour), demo_mgr, demo_folder_fs, ())) [1000, 1001, 1025]))"
proof -
  have "bo_Cadence demo_options \<le> maxDur" "bm_cadence (benchmarker_New demo_options) = 24 * Hour"
    by (simp_all add: demo_options_def maxDur_def benchmarker_New_def DefaultCadence_def)
  then show ?thesis
    using benchmarks_keep_cadence[of demo_options "map (\<lambda>h. (demo_bench (h * Hour), demo_mgr, demo_folder_fs, ())) [1000, 1001, 1025]"] by simp
qed

section \<open>A benchmark leaves nothing behind\<close>

lemma ancestors_last: "p \<noteq> '''' \<Longrightarrow> ancestors p = butlast (ancestors p) @ [p]"
  by (cases "length p") (simp_all add: ancestors_def)

lemma mkdir_chain_existing: "list_all (is_dir f) ps \<Longrightarrow> mkdir_chain (ps @ qs) f = mkdir_chain qs f"
  by (induction ps) (simp_all add: is_dir_def)

lemma MkdirAll_one:
  assumes "p \<noteq> ''''" "list_all (is_dir f) (butlast (ancestors p))" "nodes f p = None" "\<not> broken f p"
  shows "os_MkdirAll f p = (None, set_node p (Some DirN) f)"
proof -
  have "os_Stat f p = Inl NotExist" using assms(3,4) by (simp add: os_Stat_def)
  then show ?thesis using mkdir_chain_existing[OF assms(2), of "[p]"] ancestors_last[OF assms(1)] by (simp add: os_MkdirAll_def)
qed

text \<open>What the operating system promises: a file can be removed, and a directory with no entry.\<close>

definition removal_works :: "'w bench_env \<Rightarrow> bool" where
  "removal_works E \<longleftrightarrow> (\<forall>f p. \<not> (\<exists>q. q \<noteq> p \<and> path_Dir q = p \<and> nodes f q \<noteq> None) \<or> (\<exists>s. nodes f p = Some (FileN s)) \<longrightarrow> be_removable E f p)"

text \<open>A folder all of whose parents exist and in which no benchmark is going on.\<close>

definition no_probe :: "fsys \<Rightarrow> tfolder \<Rightarrow> gotime \<Rightarrow> bool" where
  "no_probe f folder now \<longleftrightarrow> list_all (is_dir f) (butlast (ancestors (probeDir folder))) \<and> probeDir folder \<noteq> '''' \<and>
    nodes f (probeDir folder) = None \<and> (\<forall>q. path_Dir q = probeDir folder \<longrightarrow> nodes f q = None) \<and> nodes f (probeFile folder now) = None \<and>
    \<not> broken f (probeDir folder) \<and> \<not> broken f (probeFile folder now) \<and> probeFile folder now \<noteq> probeDir folder"

text \<open>
  C34: A benchmark leaves no trace in the folder. In a folder where none is going on, and with a transport that leaves the
  files as they are, the file system afterwards is the one before, whether the push succeeded or failed; only if the probe
  file could not be made or filled can something be left.
\<close>

theorem benchmark_leaves_no_trace:
  assumes "no_probe f folder now" "removal_works E"
    and "\<And>c p f g. fst (snd (tt_Propagate (be_transport E t) c p (f, g))) = f"
  shows "case benchmarkOne E t peer folder now (b, m, f, g) of (r, _, _, f', _) \<Rightarrow> r = Some WriteProbe \<or> r = Some RandomFailed \<or> f' = f"
proof -
  let ?d = "probeDir folder" and ?p = "probeFile folder now"
  let ?f1 = "set_node ?d (Some DirN) f"
  have n: "nodes f ?d = None" "nodes f ?p = None" "\<not> broken f ?d" "\<not> broken f ?p" "?p \<noteq> ?d" "\<And>q. path_Dir q = ?d \<Longrightarrow> nodes f q = None"
    using assms(1) by (auto simp: no_probe_def)
  have mk: "os_MkdirAll f ?d = (None, ?f1)" using assms(1) by (intro MkdirAll_one) (simp_all add: no_probe_def)
  show ?thesis
  proof (cases "be_random E ProbeSizeBytes")
    case (Some payload)
    obtain e f2 where wr: "os_WriteFile (be_room E) ?f1 ?p payload = (e, f2)" by fastforce
    show ?thesis
    proof (cases e)
      case None
      let ?f2 = "set_node ?p (Some (FileN payload)) ?f1"
      have f2: "f2 = ?f2" using wr None by (auto simp: os_WriteFile_def split: if_splits option.splits)
      have r1: "be_removable E ?f2 ?p" using assms(2) by (simp add: removal_works_def)
      have f3: "try_Remove (be_removable E) ?p ?f2 = ?f1"
        using n(2,4,5) r1 by (auto simp: try_Remove_def set_node_def fun_eq_iff)
      have "\<not> (\<exists>q. q \<noteq> ?d \<and> path_Dir q = ?d \<and> nodes ?f1 q \<noteq> None)" using n(6) by auto
      then have "be_removable E ?f1 ?d" using assms(2) unfolding removal_works_def by blast
      then have f4: "try_Remove (be_removable E) ?d ?f1 = f"
        using n(1,3) by (simp add: try_Remove_def set_node_same)
      have tr: "fst (snd (tt_Propagate (be_transport E t) (probe_change folder (length payload)) peer (?f2, g))) = ?f2" by (rule assms(3))
      show ?thesis using tr f3 f4 by (auto simp: benchmarkOne_def mk Some wr None f2 Let_def split: prod.splits option.splits)
    next
      case (Some e')
      then show ?thesis using \<open>be_random E ProbeSizeBytes = Some payload\<close> by (simp add: benchmarkOne_def mk wr)
    qed
  qed (simp add: benchmarkOne_def mk)
qed

theorem benchmark_leaves_no_trace_witness:
  "case benchmarkOne (demo_bench 5) ''git-ssh+tailscale'' (demo_peer ''lap'') demo_tfolder 5 (benchmarker_New demo_options, demo_mgr, demo_folder_fs, ()) of
    (r, _, _, f', _) \<Rightarrow> r = Some WriteProbe \<or> r = Some RandomFailed \<or> f' = demo_folder_fs"
proof -
  have p: "probeDir demo_tfolder = ''/r/.dkbench''" "probeFile demo_tfolder 5 = ''/r/.dkbench/probe-5''"
    "butlast (ancestors ''/r/.dkbench'') = [''/r'']" "path_Dir ''/'' = ''/''" "path_Dir ''/r'' = ''/''"
    by code_simp+
  have n: "nodes demo_folder_fs q = None" if "path_Dir q = ''/r/.dkbench''" for q using that p(4,5) by (auto simp: demo_folder_fs_def)
  have "no_probe demo_folder_fs demo_tfolder 5" unfolding no_probe_def p using n by (simp add: demo_folder_fs_def is_dir_def os_Stat_def)
  moreover have "removal_works (demo_bench 5)" by (simp add: removal_works_def demo_bench_def)
  moreover have "fst (snd (tt_Propagate (be_transport (demo_bench 5) t) c p (f, g))) = f" for t c p f g by (simp add: demo_bench_def)
  ultimately show ?thesis by (rule benchmark_leaves_no_trace)
qed

text \<open>
  What a benchmark measures is not the probe. The probe file is ignored by git and never committed, and the push sends HEAD: the commands
  a benchmark runs over git-ssh and Mutagen do not depend on it, and yet its 64 KB are recorded as sent.
\<close>

theorem benchmark_sends_no_payload:
  "GitSSH_PropagateChange T (probe_change folder n) peer w = GitSSH_PropagateChange T (probe_change folder 0) peer w \<and>
   Mutagen_PropagateChange sha256 T (probe_change folder n) peer w = Mutagen_PropagateChange sha256 T (probe_change folder 0) peer w \<and>
   ch_SizeHint (probe_change folder ProbeSizeBytes) = 65536"
  by (simp add: GitSSH_PropagateChange_def Mutagen_PropagateChange_def probe_change_def ProbeSizeBytes_def split: prod.split)

section \<open>Reading the size of a commit\<close>

text \<open>What \<open>git diff --shortstat\<close> prints for a number of files, insertions and deletions.\<close>

definition counted :: "nat \<Rightarrow> string \<Rightarrow> string \<Rightarrow> string" where
  "counted n thing rest = nat_digits n @ '' '' @ thing @ (if n = 1 then '''' else ''s'') @ rest"

definition shortstat :: "nat \<Rightarrow> nat \<Rightarrow> nat \<Rightarrow> string" where
  "shortstat files ins dels = '' '' @ counted files ''file'' '' changed'' @
    (if ins > 0 \<or> dels = 0 then '', '' @ counted ins ''insertion'' ''(+)'' else '''') @
    (if dels > 0 \<or> ins = 0 then '', '' @ counted dels ''deletion'' ''(-)'' else '''') @ nl"

lemma digits_of: "n < 10 \<Longrightarrow> is_digit (char_of (48 + n)) \<and> digit_value (char_of (48 + n)) = int n"
  by (simp add: is_digit_def in_range_def digit_value_def)

lemma nat_digits_digits: "list_all is_digit (nat_digits n)"
proof (induction n rule: nat_digits.induct)
  case (1 n)
  show ?case using 1 digits_of[of "n mod 10"] digits_of[of n] by (subst nat_digits.simps) auto
qed

lemma nat_digits_value: "int n < 2 ^ 63 \<Longrightarrow> foldl (\<lambda>v c. int64 (v * 10 + digit_value c)) 0 (nat_digits n) = int n"
proof (induction n rule: nat_digits.induct)
  case (1 n)
  show ?case
  proof (cases "n < 10")
    case True
    then show ?thesis using digits_of[of n] by (subst nat_digits.simps) (simp add: int64_id)
  next
    case False
    have "foldl (\<lambda>v c. int64 (v * 10 + digit_value c)) 0 (nat_digits (n div 10)) = int (n div 10)" using 1 False by (simp add: zdiv_int)
    moreover have "int (n div 10) * 10 + int (n mod 10) = int n" by (simp add: zdiv_int zmod_int)
    ultimately show ?thesis using digits_of[of "n mod 10"] False 1(2) by (subst nat_digits.simps) (simp add: int64_id)
  qed
qed

lemma str_Index_digits:
  assumes "p \<noteq> ''''" "\<not> is_digit (hd p)"
  shows "str_Index (nat_digits n @ s) p = map_option ((+) (length (nat_digits n))) (str_Index s p)"
proof -
  have "list_all is_digit ds \<Longrightarrow> str_Index (ds @ s) p = map_option ((+) (length ds)) (str_Index s p)" for ds
  proof (induction ds)
    case Nil
    then show ?case by (cases "str_Index s p") simp_all
  next
    case (Cons d ds)
    have "\<not> HasPrefix (d # ds @ s) p" using Cons.prems assms by (cases p) (auto simp: HasPrefix_def)
    then show ?case using Cons by (cases "str_Index s p") simp_all
  qed
  then show ?thesis using nat_digits_digits by blast
qed

lemma numberBefore_digits:
  assumes "str_Index s marker = Some (length (a @ nat_digits n @ '' ''))" "s = a @ nat_digits n @ '' '' @ b"
    and "a = '''' \<or> \<not> is_digit (last a)" "int n < 2 ^ 63"
  shows "numberBefore s marker = int n"
proof -
  let ?d = "nat_digits n"
  have d: "list_all is_digit (rev ?d)" using nat_digits_digits by simp
  have t: "take (length (a @ ?d @ '' '')) s = a @ ?d @ '' ''" unfolding assms(2) by simp
  have "dropWhile (\<lambda>c. c = CHR '' '' \<or> c = CHR 0x09) (rev (a @ ?d @ '' '')) = rev ?d @ rev a"
  proof -
    have "?d \<noteq> ''''" by (subst nat_digits.simps) simp
    then obtain x xs where x: "rev ?d = x # xs" by (cases "rev ?d") auto
    then have "is_digit x" using d by simp
    then have "x \<noteq> CHR '' ''" "x \<noteq> CHR 0x09" by (auto simp: is_digit_def in_range_def)
    then show ?thesis by (simp add: x)
  qed
  moreover have "takeWhile is_digit (rev ?d @ rev a) = rev ?d"
  proof -
    have "takeWhile is_digit (rev a) = []" using assms(3) by (cases a rule: rev_cases) auto
    moreover have "\<forall>x\<in>set (rev ?d). is_digit x" using d by (simp only: list_all_iff)
    ultimately show ?thesis by (subst takeWhile_append2) auto
  qed
  moreover have "length (a @ ?d @ '' '') \<noteq> 0" by simp
  ultimately show ?thesis using nat_digits_value[OF assms(4)] by (simp add: numberBefore_def assms(1) t Let_def del: length_append)
qed

lemma str_Index_Cons: "str_Index (c # s) (d # p) = (if c = d \<and> HasPrefix s p then Some 0 else map_option Suc (str_Index s (d # p)))"
  by (simp add: HasPrefix_def)

lemma shortstat_insertion:
  assumes "int ins < 2 ^ 63"
  shows "numberBefore (shortstat files ins dels) ''insertion'' = int ins"
proof (cases "ins > 0 \<or> dels = 0")
  case True
  let ?a = "'' '' @ counted files ''file'' '' changed'' @ '', ''"
  let ?b = "''insertion'' @ (if ins = 1 then '''' else ''s'') @ ''(+)'' @
    (if dels > 0 \<or> ins = 0 then '', '' @ counted dels ''deletion'' ''(-)'' else '''') @ nl"
  have s: "shortstat files ins dels = ?a @ nat_digits ins @ '' '' @ ?b" using True by (simp add: shortstat_def counted_def)
  have "str_Index (shortstat files ins dels) ''insertion'' = Some (length (?a @ nat_digits ins @ '' ''))"
    unfolding s by (simp add: counted_def str_Index_Cons str_Index_digits is_digit_def in_range_def HasPrefix_def del: str_Index.simps(2))
  then show ?thesis using assms by (intro numberBefore_digits[OF _ s]) (simp_all add: is_digit_def in_range_def counted_def)
next
  case False
  then have "str_Index (shortstat files ins dels) ''insertion'' = None"
    by (simp add: shortstat_def counted_def nl_def str_Index_Cons str_Index_digits is_digit_def in_range_def HasPrefix_def del: str_Index.simps(2))
  then show ?thesis using False by (simp add: numberBefore_def)
qed

lemma shortstat_deletion:
  assumes "int dels < 2 ^ 63"
  shows "numberBefore (shortstat files ins dels) ''deletion'' = int dels"
proof (cases "dels > 0 \<or> ins = 0")
  case True
  let ?a = "'' '' @ counted files ''file'' '' changed'' @
    (if ins > 0 \<or> dels = 0 then '', '' @ counted ins ''insertion'' ''(+)'' else '''') @ '', ''"
  let ?b = "''deletion'' @ (if dels = 1 then '''' else ''s'') @ ''(-)'' @ nl"
  have s: "shortstat files ins dels = ?a @ nat_digits dels @ '' '' @ ?b" using True by (simp add: shortstat_def counted_def)
  have "str_Index (shortstat files ins dels) ''deletion'' = Some (length (?a @ nat_digits dels @ '' ''))"
    unfolding s by (simp add: counted_def str_Index_Cons str_Index_digits is_digit_def in_range_def HasPrefix_def del: str_Index.simps(2))
  then show ?thesis using assms by (intro numberBefore_digits[OF _ s]) (simp_all add: is_digit_def in_range_def counted_def)
next
  case False
  then have "str_Index (shortstat files ins dels) ''deletion'' = None"
    by (simp add: shortstat_def counted_def nl_def str_Index_Cons str_Index_digits is_digit_def in_range_def HasPrefix_def del: str_Index.simps(2))
  then show ?thesis using False by (simp add: numberBefore_def)
qed

text \<open>
  The size of a commit is read off git's summary exactly. Whatever the numbers of files, insertions and deletions, singular or plural,
  with either count left out, the estimate is 50 bytes for each line inserted or deleted, as long as that fits in 64 bits; without a
  previous commit it is 0.
\<close>

theorem commit_size_roundtrip:
  assumes "int (ins + dels) * 50 < 2 ^ 63"
    and "git dir [''diff'', ''--shortstat'', ''HEAD~1'', ''HEAD''] w = ((ok, if ok then shortstat files ins dels else out, err), w')"
  shows "estimateLastCommitSize git dir w = (if ok then 50 * int (ins + dels) else 0, w')"
proof -
  have "int ins < 2 ^ 63" "int dels < 2 ^ 63" using assms(1) by simp_all
  then have "int64 ((numberBefore (shortstat files ins dels) ''insertion'' + numberBefore (shortstat files ins dels) ''deletion'') * 50) = 50 * int (ins + dels)"
    using assms(1) by (simp add: shortstat_insertion shortstat_deletion int64_id)
  then show ?thesis by (simp add: estimateLastCommitSize_def runOutput_def assms(2))
qed

theorem commit_size_roundtrip_witness:
  "estimateLastCommitSize (\<lambda>dir args w. ((True, shortstat 2 1 12, ''''), w)) ''/r'' () = (650, ())"
  using commit_size_roundtrip[of 1 12 "\<lambda>dir args w. ((True, shortstat 2 1 12, ''''), w)" "''/r''" "()" True 2 "''''" "''''" "()"] by simp

end
