(* ===== verification/Conflict_Names.thy ===== *)
theory Conflict_Names
  imports Files
begin

text \<open>
  internal/conflict/parser.go: Syncthing's names of conflict copies. The regular expression is written out as a matcher
  (its leading group is non-greedy, so the first position at which the rest matches wins), time.ParseInLocation for
  the one layout the code uses as a check of the civil fields. Names are byte strings.
\<close>

section \<open>Civil time\<close>

record civil =
  c_year :: nat
  c_month :: nat
  c_day :: nat
  c_hour :: nat
  c_min :: nat
  c_sec :: nat

definition leap_year :: "nat \<Rightarrow> bool" where
  "leap_year y \<longleftrightarrow> y mod 4 = 0 \<and> (y mod 100 \<noteq> 0 \<or> y mod 400 = 0)"

definition days_in :: "nat \<Rightarrow> nat \<Rightarrow> nat" where
  "days_in m y = (if m = 2 then (if leap_year y then 29 else 28) else if m \<in> {4, 6, 9, 11} then 30 else 31)"

definition civil_ok :: "civil \<Rightarrow> bool" where
  "civil_ok t \<longleftrightarrow> 1 \<le> c_month t \<and> c_month t \<le> 12 \<and> 1 \<le> c_day t \<and> c_day t \<le> days_in (c_month t) (c_year t) \<and>
     c_hour t < 24 \<and> c_min t < 60 \<and> c_sec t < 60"

definition dec_val :: "string \<Rightarrow> nat" where
  "dec_val s = foldl (\<lambda>n c. n * 10 + (of_char c - 48)) 0 s"

text \<open>time.ParseInLocation with the layout 20060102-150405, given the eight and the six digits.\<close>

definition parse_civil :: "string \<Rightarrow> string \<Rightarrow> civil option" where
  "parse_civil date time =
    (let t = \<lparr>c_year = dec_val (take 4 date), c_month = dec_val (take 2 (drop 4 date)), c_day = dec_val (drop 6 date),
              c_hour = dec_val (take 2 time), c_min = dec_val (take 2 (drop 2 time)), c_sec = dec_val (drop 4 time)\<rparr>
     in if civil_ok t then Some t else None)"

section \<open>The name pattern\<close>

record Conflict =
  cf_Path :: string
  cf_OriginalName :: string
  cf_Timestamp :: civil
  cf_DeviceIDShort :: string
  cf_Extension :: string

definition conflict_mark :: string where
  "conflict_mark = ''.sync-conflict-''"

definition is_base32 :: "char \<Rightarrow> bool" where
  "is_base32 c \<longleftrightarrow> is_upper c \<or> in_range 50 55 c"

text \<open>All of the pattern but its first group, at the front of a string.\<close>

definition match_tail :: "string \<Rightarrow> (string \<times> string \<times> string \<times> string) option" where
  "match_tail s =
    (let r = drop (length conflict_mark) s; date = take 8 r; time = take 6 (drop 9 r); dev = take 7 (drop 16 r); ext = drop 23 r
     in if HasPrefix s conflict_mark \<and>
           length date = 8 \<and> list_all is_digit date \<and> take 1 (drop 8 r) = ''-'' \<and>
           length time = 6 \<and> list_all is_digit time \<and> take 1 (drop 15 r) = ''-'' \<and>
           length dev = 7 \<and> list_all is_base32 dev \<and>
           (ext = '''' \<or> HasPrefix ext ''.'' \<and> slash \<notin> set ext)
        then Some (date, time, dev, ext) else None)"

fun conflictRE :: "string \<Rightarrow> (string \<times> string \<times> string \<times> string \<times> string) option" where
  "conflictRE s =
    (case match_tail s of
       Some m \<Rightarrow> Some ('''', m)
     | None \<Rightarrow>
       (case s of
          [] \<Rightarrow> None
        | c # cs \<Rightarrow> if c = newline then None else map_option (\<lambda>(stem, m). (c # stem, m)) (conflictRE cs)))"

declare conflictRE.simps [simp del]

datatype parse_error = ErrNotConflict | BadTimestamp

definition Parse :: "string \<Rightarrow> parse_error + Conflict" where
  "Parse filename =
    (case conflictRE (path_Base filename) of
       None \<Rightarrow> Inl ErrNotConflict
     | Some (stem, date, time, devID, ext) \<Rightarrow>
       (case parse_civil date time of
          None \<Rightarrow> Inl BadTimestamp
        | Some ts \<Rightarrow> Inr \<lparr>cf_Path = '''', cf_OriginalName = stem @ ext, cf_Timestamp = ts, cf_DeviceIDShort = devID, cf_Extension = ext\<rparr>))"

definition IsConflictName :: "string \<Rightarrow> bool" where
  "IsConflictName filename \<longleftrightarrow> conflictRE (path_Base filename) \<noteq> None"

section \<open>Syncthing's names\<close>

text \<open>filepath.Ext, and the name Syncthing gives to the losing version of \<open>name\<close>.\<close>

definition path_Ext :: "string \<Rightarrow> string" where
  "path_Ext name =
    (let tl = rev (takeWhile (\<lambda>c. c \<noteq> CHR 0x2E \<and> c \<noteq> slash) (rev name)); hd = take (length name - length tl) name
     in if HasSuffix hd ''.'' then CHR 0x2E # tl else '''')"

definition pad :: "nat \<Rightarrow> nat \<Rightarrow> string" where
  "pad w n = (let d = nat_digits n in replicate (w - length d) (CHR 0x30) @ d)"

definition conflict_stamp :: "civil \<Rightarrow> string \<Rightarrow> string" where
  "conflict_stamp t dev = conflict_mark @ (pad 4 (c_year t) @ pad 2 (c_month t) @ pad 2 (c_day t)) @ ''-'' @
     (pad 2 (c_hour t) @ pad 2 (c_min t) @ pad 2 (c_sec t)) @ ''-'' @ dev"

definition conflict_name :: "string \<Rightarrow> civil \<Rightarrow> string \<Rightarrow> string" where
  "conflict_name name t dev =
    (let ext = path_Ext name in take (length name - length ext) name @ conflict_stamp t dev @ ext)"

section \<open>The pattern, declaratively\<close>

definition stamp_ok :: "string \<Rightarrow> string \<Rightarrow> string \<Rightarrow> bool" where
  "stamp_ok date time dev \<longleftrightarrow> length date = 8 \<and> list_all is_digit date \<and> length time = 6 \<and> list_all is_digit time \<and>
     length dev = 7 \<and> list_all is_base32 dev"

definition ext_ok :: "string \<Rightarrow> bool" where
  "ext_ok ext \<longleftrightarrow> ext = '''' \<or> HasPrefix ext ''.'' \<and> slash \<notin> set ext"

definition stamped :: "string \<Rightarrow> string \<Rightarrow> string \<Rightarrow> string" where
  "stamped date time dev = conflict_mark @ date @ ''-'' @ time @ ''-'' @ dev"

lemma match_tail_stamped:
  assumes "stamp_ok date time dev" "ext_ok ext"
  shows "match_tail (stamped date time dev @ ext) = Some (date, time, dev, ext)"
  using assms by (simp add: match_tail_def stamped_def stamp_ok_def ext_ok_def Let_def HasPrefix_append)

lemma match_tail_SomeD:
  assumes "match_tail s = Some (date, time, dev, ext)"
  shows "s = stamped date time dev @ ext \<and> stamp_ok date time dev \<and> ext_ok ext"
proof -
  let ?r = "drop (length conflict_mark) s"
  have a: "HasPrefix s conflict_mark" "take 1 (drop 8 ?r) = ''-''" "take 1 (drop 15 ?r) = ''-''"
    and d: "date = take 8 ?r" "time = take 6 (drop 9 ?r)" "dev = take 7 (drop 16 ?r)" "ext = drop 23 ?r"
    and ok: "stamp_ok date time dev" "ext_ok ext"
    using assms by (auto simp: match_tail_def Let_def stamp_ok_def ext_ok_def split: if_splits)
  have "s = conflict_mark @ ?r" using a(1) by (auto simp: HasPrefix_iff)
  moreover have "drop 8 ?r = ''-'' @ drop 9 ?r" using a(2) append_take_drop_id[of 1 "drop 8 ?r"] by simp
  moreover have "drop 15 ?r = ''-'' @ drop 16 ?r" using a(3) append_take_drop_id[of 1 "drop 15 ?r"] by simp
  moreover have "?r = take 8 ?r @ drop 8 ?r" by (rule append_take_drop_id[symmetric])
  moreover have "drop 9 ?r = take 6 (drop 9 ?r) @ drop 15 ?r" "drop 16 ?r = take 7 (drop 16 ?r) @ drop 23 ?r"
    using append_take_drop_id[of 6 "drop 9 ?r"] append_take_drop_id[of 7 "drop 16 ?r"] by simp_all
  ultimately show ?thesis using ok d unfolding stamped_def by (metis append.assoc)
qed

lemma conflictRE_here: "match_tail s = Some m \<Longrightarrow> conflictRE s = Some ('''', m)"
  by (simp add: conflictRE.simps)

lemma conflictRE_later: "match_tail (c # s) = None \<Longrightarrow>
    conflictRE (c # s) = (if c = newline then None else map_option (\<lambda>(stem, m). (c # stem, m)) (conflictRE s))"
  by (subst conflictRE.simps) simp

text \<open>The stem is what precedes the first position at which the rest of the pattern matches.\<close>

lemma conflictRE_append:
  assumes "match_tail s = Some m" "newline \<notin> set stem"
    and "\<And>u v. stem = u @ v \<Longrightarrow> v \<noteq> [] \<Longrightarrow> match_tail (v @ s) = None"
  shows "conflictRE (stem @ s) = Some (stem, m)"
  using assms(2,3)
proof (induction stem)
  case (Cons c stem)
  have "match_tail (c # stem @ s) = None" using Cons.prems(2)[of "[]" "c # stem"] by simp
  moreover have "conflictRE (stem @ s) = Some (stem, m)"
    using Cons.prems(1) Cons.prems(2)[of "c # u" v for u v] by (intro Cons.IH) simp_all
  ultimately show ?case using Cons.prems(1) by (auto simp: conflictRE_later)
qed (simp add: conflictRE_here assms(1))

lemma conflictRE_None: "conflictRE (u @ v) = None \<Longrightarrow> newline \<notin> set u \<Longrightarrow> match_tail v = None"
proof (induction u)
  case Nil
  then show ?case by (cases "match_tail v") (simp_all add: conflictRE_here)
next
  case (Cons c u)
  have "match_tail (c # u @ v) = None" using Cons.prems by (cases "match_tail (c # u @ v)") (simp_all add: conflictRE_here)
  then show ?case using Cons by (simp add: conflictRE_later split: if_splits)
qed

lemma conflictRE_SomeD:
  assumes "conflictRE s = Some (stem, date, time, dev, ext)"
  shows "s = stem @ stamped date time dev @ ext \<and> stamp_ok date time dev \<and> ext_ok ext"
  using assms
proof (induction s arbitrary: stem)
  case Nil
  then show ?case by (subst (asm) conflictRE.simps) (auto split: option.splits dest: match_tail_SomeD)
next
  case (Cons c s)
  show ?case
  proof (cases "match_tail (c # s)")
    case None
    then show ?thesis using Cons by (auto simp: conflictRE_later split: if_splits)
  next
    case (Some m)
    then show ?thesis using Cons.prems match_tail_SomeD[of "c # s" date time dev ext] by (simp add: conflictRE_here)
  qed
qed

text \<open>A stamp has one dot, its first character; so no match can overlap another.\<close>

lemma stamp_dots:
  assumes "stamp_ok date time dev"
  obtains b where "stamped date time dev = CHR 0x2E # b" "length b = 37" "CHR 0x2E \<notin> set b"
proof
  have "\<not> is_digit CHR 0x2E" "\<not> is_base32 CHR 0x2E" by code_simp+
  then have "CHR 0x2E \<notin> set date" "CHR 0x2E \<notin> set time" "CHR 0x2E \<notin> set dev" using assms by (auto simp: stamp_ok_def list_all_iff)
  then show "CHR 0x2E \<notin> set (''sync-conflict-'' @ date @ ''-'' @ time @ ''-'' @ dev)" by simp
  show "length (''sync-conflict-'' @ date @ ''-'' @ time @ ''-'' @ dev) = 37" using assms by (simp add: stamp_ok_def)
qed (simp add: stamped_def conflict_mark_def)

lemma match_before_stamp:
  assumes ok: "stamp_ok date time dev" "ext_ok ext" and m: "match_tail (v @ stamped date time dev @ ext) \<noteq> None" and v: "v \<noteq> []"
  shows "match_tail (v @ ext) \<noteq> None"
proof -
  obtain d t i e where "match_tail (v @ stamped date time dev @ ext) = Some (d, t, i, e)" using m by (metis not_None_eq prod_cases4)
  note M = match_tail_SomeD[OF this]
  obtain b where b: "stamped date time dev = CHR 0x2E # b" using stamp_dots[OF ok(1)] .
  obtain b' where b': "stamped d t i = CHR 0x2E # b'" "length b' = 37" "CHR 0x2E \<notin> set b'" using stamp_dots M by blast
  have "38 \<le> length v"
  proof (rule ccontr)
    assume "\<not> 38 \<le> length v"
    then have "length v < length (stamped d t i)" using b' by simp
    then have "(stamped d t i @ e) ! length v = stamped d t i ! length v" by (simp add: nth_append)
    moreover have "(stamped d t i @ e) ! length v = CHR 0x2E" using M b by (metis append_Cons nth_append_length)
    ultimately have "CHR 0x2E = b' ! (length v - 1)" "length v - 1 < length b'" using b' v \<open>\<not> 38 \<le> length v\<close> by (simp_all add: nth_Cons')
    then show False using b'(3) by simp
  qed
  moreover have "length (stamped d t i) = 38" using b' by simp
  ultimately have "take 38 (v @ stamped date time dev @ ext) = take 38 v" "take 38 (stamped d t i @ e) = stamped d t i" by simp_all
  then have "v = stamped d t i @ drop 38 v" using M by (metis append_take_drop_id)
  then obtain v' where v': "v = stamped d t i @ v'" "e = v' @ stamped date time dev @ ext" using M by (metis append.assoc same_append_eq)
  have "ext_ok (v' @ ext)" using M ok(2) v'(2) by (cases v') (auto simp: ext_ok_def HasPrefix_iff)
  then show ?thesis using match_tail_stamped[of d t i "v' @ ext"] M v'(1) by simp
qed

section \<open>Decimal fields\<close>

lemma foldl_dec: "foldl (\<lambda>n c. n * 10 + (of_char c - 48)) k s = k * 10 ^ length s + dec_val s"
proof (induction s arbitrary: k)
  case (Cons c s)
  show ?case using Cons[of "k * 10 + (of_char c - 48)"] Cons[of "of_char c - 48"] by (simp add: dec_val_def algebra_simps)
qed (simp add: dec_val_def)

lemma dec_val_append: "dec_val (a @ b) = dec_val a * 10 ^ length b + dec_val b"
  using foldl_dec[of "dec_val a" b] by (simp add: dec_val_def)

lemma digit_char: "n < 10 \<Longrightarrow> is_digit (char_of (48 + n :: nat)) \<and> (of_char (char_of (48 + n) :: char) :: nat) = 48 + n"
  by (simp add: is_digit_def in_range_def)

lemma nat_digits_dec: "dec_val (nat_digits n) = n \<and> list_all is_digit (nat_digits n) \<and> nat_digits n \<noteq> [] \<and> (0 < w \<longrightarrow> n < 10 ^ w \<longrightarrow> length (nat_digits n) \<le> w)"
proof (induction n arbitrary: w rule: nat_digits.induct)
  case (1 n)
  show ?case
  proof (cases "n < 10")
    case True
    then have "nat_digits n = [char_of (48 + n)]" by (subst nat_digits.simps) simp
    then show ?thesis using digit_char[OF True] by (simp add: dec_val_def)
  next
    case False
    then have d: "nat_digits n = nat_digits (n div 10) @ [char_of (48 + n mod 10)]" by (subst nat_digits.simps) simp
    note IH = 1[OF False]
    have "length (nat_digits (n div 10)) \<le> w - 1" if "0 < w" "n < 10 ^ w"
    proof -
      have "w \<noteq> 1" using that False by auto
      then have "0 < w - 1" "n div 10 < 10 ^ (w - 1)" using that by (auto simp: power_eq_if[of 10 w] less_mult_imp_div_less mult.commute)
      then show ?thesis using IH by blast
    qed
    then have "0 < w \<longrightarrow> n < 10 ^ w \<longrightarrow> length (nat_digits n) \<le> w" unfolding d by fastforce
    moreover have "dec_val (nat_digits n) = n" using IH digit_char[of "n mod 10"] unfolding d by (simp add: dec_val_append) (simp add: dec_val_def)
    ultimately show ?thesis using IH digit_char[of "n mod 10"] unfolding d by simp
  qed
qed

lemma pad_dec:
  assumes "n < 10 ^ w" "0 < w"
  shows "length (pad w n) = w \<and> list_all is_digit (pad w n) \<and> dec_val (pad w n) = n"
proof -
  note N = nat_digits_dec[of n w]
  have z: "dec_val (replicate k CHR 0x30) = 0" for k by (induction k) (simp_all add: dec_val_def)
  have "is_digit CHR 0x30" by code_simp
  then show ?thesis using N assms z by (auto simp: pad_def Let_def dec_val_append list_all_iff)
qed

section \<open>Round trip\<close>

lemma path_Ext_split:
  assumes "slash \<notin> set name"
  obtains stem where "name = stem @ path_Ext name" "take (length name - length (path_Ext name)) name = stem" "ext_ok (path_Ext name)"
proof -
  let ?tl = "rev (takeWhile (\<lambda>c. c \<noteq> CHR 0x2E \<and> c \<noteq> slash) (rev name))"
  let ?hd = "take (length name - length ?tl) name"
  have tl: "length ?tl \<le> length name" using length_takeWhile_le[of _ "rev name"] by simp
  have "rev name = takeWhile (\<lambda>c. c \<noteq> CHR 0x2E \<and> c \<noteq> slash) (rev name) @ dropWhile (\<lambda>c. c \<noteq> CHR 0x2E \<and> c \<noteq> slash) (rev name)" by simp
  then have "name = rev (dropWhile (\<lambda>c. c \<noteq> CHR 0x2E \<and> c \<noteq> slash) (rev name)) @ ?tl" by (metis rev_append rev_rev_ident)
  then obtain h where h: "name = h @ ?tl" by blast
  then have hd: "?hd = h" by (metis append_eq_conv_conj length_append add_diff_cancel_right')
  show ?thesis
  proof (cases "HasSuffix h ''.''")
    case True
    then obtain g where g: "h = g @ ''.''" by (auto simp: HasSuffix_iff)
    have e: "path_Ext name = CHR 0x2E # ?tl" using True hd by (simp add: path_Ext_def Let_def)
    have n: "name = g @ path_Ext name" unfolding e using h g by (metis append.assoc append_Cons append_Nil)
    have "slash \<notin> set (path_Ext name)" using assms n by (metis Un_iff set_append)
    then have "ext_ok (path_Ext name)" by (simp add: ext_ok_def e HasPrefix_iff)
    moreover have "take (length name - length (path_Ext name)) name = g" using n by (metis append_eq_conv_conj length_append add_diff_cancel_right')
    ultimately show ?thesis using n that by blast
  next
    case False
    then have "path_Ext name = ''''" using hd by (simp add: path_Ext_def Let_def)
    then show ?thesis using that[of name] by (simp add: ext_ok_def)
  qed
qed

lemma parse_civil_pad:
  assumes "civil_ok t" "c_year t < 10000"
  shows "parse_civil (pad 4 (c_year t) @ pad 2 (c_month t) @ pad 2 (c_day t)) (pad 2 (c_hour t) @ pad 2 (c_min t) @ pad 2 (c_sec t)) = Some t"
proof -
  have m: "c_month t < 10 ^ 2" "c_day t < 10 ^ 2" "c_hour t < 10 ^ 2" "c_min t < 10 ^ 2" "c_sec t < 10 ^ 2"
    using assms(1) by (auto simp: civil_ok_def days_in_def split: if_splits)
  have y: "c_year t < 10 ^ 4" using assms(2) by simp
  note P = pad_dec[OF y] pad_dec[OF m(1)] pad_dec[OF m(2)] pad_dec[OF m(3)] pad_dec[OF m(4)] pad_dec[OF m(5)]
  then show ?thesis using assms(1) by (cases t) (simp add: parse_civil_def Let_def)
qed

lemma conflict_stamp_stamped:
  assumes "civil_ok t" "c_year t < 10000" "length dev = 7" "list_all is_base32 dev"
  obtains date time where "conflict_stamp t dev = stamped date time dev" "stamp_ok date time dev" "parse_civil date time = Some t"
proof
  have m: "c_month t < 10 ^ 2" "c_day t < 10 ^ 2" "c_hour t < 10 ^ 2" "c_min t < 10 ^ 2" "c_sec t < 10 ^ 2"
    using assms(1) by (auto simp: civil_ok_def days_in_def split: if_splits)
  have y: "c_year t < 10 ^ 4" using assms(2) by simp
  note P = pad_dec[OF y] pad_dec[OF m(1)] pad_dec[OF m(2)] pad_dec[OF m(3)] pad_dec[OF m(4)] pad_dec[OF m(5)]
  show "stamp_ok (pad 4 (c_year t) @ pad 2 (c_month t) @ pad 2 (c_day t)) (pad 2 (c_hour t) @ pad 2 (c_min t) @ pad 2 (c_sec t)) dev"
    using P assms(3,4) by (simp add: stamp_ok_def)
qed (simp_all add: conflict_stamp_def stamped_def parse_civil_pad[OF assms(1,2)])

lemma stamped_no_slash: "stamp_ok date time dev \<Longrightarrow> slash \<notin> set (stamped date time dev)"
proof -
  assume "stamp_ok date time dev"
  moreover have "\<not> is_digit slash" "\<not> is_base32 slash" by code_simp+
  ultimately have "slash \<notin> set date" "slash \<notin> set time" "slash \<notin> set dev" by (auto simp: stamp_ok_def list_all_iff)
  then show ?thesis by (simp add: stamped_def conflict_mark_def slash_def)
qed

text \<open>
  C26: Reading a name Syncthing has made gives back what it was made of. For every file name that is not itself of
  the pattern, the conflict copy of it in any directory is recognised, and Parse returns the name of the file it was forked from, the
  time, the device and the extension.
\<close>

theorem Parse_conflict_name:
  assumes "civil_ok t" "c_year t < 10000" "length dev = 7" "list_all is_base32 dev"
    and "slash \<notin> set name" "newline \<notin> set name" "conflictRE name = None"
  shows "Parse (path_Join dir (conflict_name name t dev)) =
    Inr \<lparr>cf_Path = '''', cf_OriginalName = name, cf_Timestamp = t, cf_DeviceIDShort = dev, cf_Extension = path_Ext name\<rparr>"
proof -
  obtain date time where D: "conflict_stamp t dev = stamped date time dev" "stamp_ok date time dev" "parse_civil date time = Some t"
    using conflict_stamp_stamped[OF assms(1-4)] .
  obtain stem where S: "name = stem @ path_Ext name" "take (length name - length (path_Ext name)) name = stem" "ext_ok (path_Ext name)"
    using path_Ext_split[OF assms(5)] .
  have cn: "conflict_name name t dev = stem @ stamped date time dev @ path_Ext name" by (simp add: conflict_name_def Let_def D S(2))
  have sets: "set name = set stem \<union> set (path_Ext name)" using S(1) by (metis set_append)
  have "slash \<notin> set (conflict_name name t dev)" unfolding cn using assms(5) sets stamped_no_slash[OF D(2)] by simp
  moreover have "2 < length (conflict_name name t dev)" by (simp add: cn stamped_def conflict_mark_def)
  ultimately have pc: "plain_component (conflict_name name t dev)" by (auto simp: plain_component_def)
  have nl: "newline \<notin> set stem" using assms(6) sets by simp
  have "conflictRE (conflict_name name t dev) = Some (stem, date, time, dev, path_Ext name)"
    unfolding cn
  proof (rule conflictRE_append[OF match_tail_stamped[OF D(2) S(3)] nl])
    fix u v assume uv: "stem = u @ v" "v \<noteq> []"
    have "newline \<notin> set u" using nl uv by simp
    moreover have "conflictRE (u @ v @ path_Ext name) = None" using assms(7) S(1) uv(1) by (metis append.assoc)
    ultimately have "match_tail (v @ path_Ext name) = None" using conflictRE_None by blast
    then show "match_tail (v @ stamped date time dev @ path_Ext name) = None" using match_before_stamp[OF D(2) S(3) _ uv(2)] by blast
  qed
  then show ?thesis using D(3) S(1) by (simp add: Parse_def path_Base_Join[OF pc])
qed

theorem Parse_conflict_name_witness:
  "Parse (path_Join ''/home/a'' (conflict_name ''config.toml'' \<lparr>c_year = 2026, c_month = 2, c_day = 28, c_hour = 23, c_min = 5, c_sec = 9\<rparr> ''ABCDEF2'')) =
    Inr \<lparr>cf_Path = '''', cf_OriginalName = ''config.toml'', cf_Timestamp = \<lparr>c_year = 2026, c_month = 2, c_day = 28, c_hour = 23, c_min = 5, c_sec = 9\<rparr>,
      cf_DeviceIDShort = ''ABCDEF2'', cf_Extension = path_Ext ''config.toml''\<rparr>"
  by (rule Parse_conflict_name) code_simp+

text \<open>What a parsed name says of the original: it is another name, 38 bytes shorter.\<close>

lemma Parse_original: "Parse f = Inr c \<Longrightarrow> length (path_Base f) = length (cf_OriginalName c) + 38 \<and> cf_Path c = ''''"
  using conflictRE_SomeD[of "path_Base f"]
  by (auto simp: Parse_def stamped_def stamp_ok_def conflict_mark_def split: option.splits)

end
