(* ===== verification/Conflict.thy ===== *)
theory Conflict
  imports Conflict_Names Git_Commands
begin

text \<open>
  The rest of internal/conflict and the commands of cmd/dotkeeper/main.go that use it: scanner.go, the watched
  directories of watcher.go, the resolvers (resolver.go, resolver\_merge.go, resolver\_manual.go) and the chains that call them
  (handleConflictEvent, resolve-all, keep, accept). The world is the file system with whatever git keeps; git, its merge
  program, the hash and what the system refuses to write or remove are parameters.
\<close>

section \<open>Walking a tree\<close>

text \<open>What filepath.WalkDir meets: a regular file, another entry (a symbolic link, a socket), a directory with its entries in order, or None where it cannot be read.\<close>

datatype wnode = WReg | WOther | WDir "(string \<times> wnode) list option"

definition skipDirs :: "string list" where
  "skipDirs = [''.git'', ''.stfolder'', ''.dkfolder'']"

fun scan_node :: "bool \<Rightarrow> string \<Rightarrow> string \<Rightarrow> wnode \<Rightarrow> Conflict list"
  and scan_entries :: "string \<Rightarrow> (string \<times> wnode) list \<Rightarrow> Conflict list" where
  "scan_node root path name WReg = (case Parse name of Inl _ \<Rightarrow> [] | Inr c \<Rightarrow> [c\<lparr>cf_Path := path\<rparr>])"
| "scan_node root path name WOther = []"
| "scan_node root path name (WDir None) = []"
| "scan_node root path name (WDir (Some es)) = (if name \<in> set skipDirs \<and> \<not> root then [] else scan_entries path es)"
| "scan_entries path [] = []"
| "scan_entries path (e # es) = scan_node False (path_Join path (fst e)) (fst e) (snd e) @ scan_entries path es"

text \<open>\<open>stat\<close> is os.Stat of the root, which follows a link, \<open>tree\<close> what WalkDir finds there, None for an error of Lstat.\<close>

definition Scan :: "ioerr option \<Rightarrow> wnode option \<Rightarrow> string \<Rightarrow> ioerr + Conflict list" where
  "Scan stat tree absRoot =
    (case stat of Some e \<Rightarrow> Inl e
     | None \<Rightarrow> Inr (case tree of None \<Rightarrow> [] | Some t \<Rightarrow> scan_node True absRoot (path_Base absRoot) t))"

text \<open>The directories addTree registers, of the conflict watcher and of the activity tracker alike; \<open>add\<close> says where fsnotify accepts.\<close>

fun watch_node :: "bool \<Rightarrow> string \<Rightarrow> string \<Rightarrow> wnode \<Rightarrow> string list"
  and watch_entries :: "string \<Rightarrow> (string \<times> wnode) list \<Rightarrow> string list" where
  "watch_node root path name WReg = []"
| "watch_node root path name WOther = []"
| "watch_node root path name (WDir None) = (if name \<in> set skipDirs \<and> \<not> root then [] else [path])"
| "watch_node root path name (WDir (Some es)) = (if name \<in> set skipDirs \<and> \<not> root then [] else path # watch_entries path es)"
| "watch_entries path [] = []"
| "watch_entries path (e # es) = watch_node False (path_Join path (fst e)) (fst e) (snd e) @ watch_entries path es"

definition addTree :: "wnode option \<Rightarrow> string \<Rightarrow> string list" where
  "addTree tree path = (case tree of None \<Rightarrow> [] | Some t \<Rightarrow> watch_node True path (path_Base path) t)"

section \<open>Resolvers\<close>

datatype resolve_action = ActionDeduped | ActionMerged | ActionKeep

datatype resolve_error = StatLocal | StatConflict | HashLocal | HashConflict | RemoveConflict | ClassifyLocal | ClassifyConflict
  | NoRelPath | OutsideRepo | ShowFailed | ReadLocal | ReadConflict | MkdirTempFailed | TempFileFailed | MergeFailed
  | WriteFailed | GitAddFailed | GitCommitFailed

text \<open>git show and git merge-file: standard output with exit status 0, another exit status, or not run at all.\<close>

datatype run_result = Exit int string | NotRun

record 'g cenv =
  ce_git :: "(fsys \<times> 'g) git"
  ce_show :: "string \<Rightarrow> string \<Rightarrow> fsys \<times> 'g \<Rightarrow> run_result"
  ce_merge :: "string \<Rightarrow> string \<Rightarrow> string \<Rightarrow> run_result"
  ce_sha256 :: "string \<Rightarrow> string"
  ce_removable :: "string \<Rightarrow> bool"
  ce_writable :: "string \<Rightarrow> bool"
  ce_mkdirTemp :: bool
  ce_tempFile :: "string \<Rightarrow> bool"

definition localFilePath :: "Conflict \<Rightarrow> string" where
  "localFilePath c = path_Join (path_Dir (cf_Path c)) (cf_OriginalName c)"

definition hashFile :: "'g cenv \<Rightarrow> fsys \<Rightarrow> string \<Rightarrow> ioerr + string" where
  "hashFile E f p = (case os_ReadFile f p of Inl e \<Rightarrow> Inl e | Inr s \<Rightarrow> Inr (ce_sha256 E s))"

definition os_Remove :: "'g cenv \<Rightarrow> fsys \<Rightarrow> string \<Rightarrow> ioerr option \<times> fsys" where
  "os_Remove E f p =
    (case os_Stat f p of Inl e \<Rightarrow> (Some e, f)
     | Inr _ \<Rightarrow> if ce_removable E p then (None, set_node p None f) else (Some IOFail, f))"

definition writeAtomic :: "'g cenv \<Rightarrow> fsys \<Rightarrow> string \<Rightarrow> string \<Rightarrow> ioerr option \<times> fsys" where
  "writeAtomic E f p data = (if ce_writable E p then write_atomic f p data else (Some IOFail, f))"

definition ResolveIdentical :: "'g cenv \<Rightarrow> Conflict \<Rightarrow> fsys \<Rightarrow> (resolve_action \<times> resolve_error option) \<times> fsys" where
  "ResolveIdentical E c f =
    (let loc = localFilePath c in
     case os_Stat f loc of Inl _ \<Rightarrow> ((ActionKeep, Some StatLocal), f)
     | Inr _ \<Rightarrow> (case os_Stat f (cf_Path c) of Inl _ \<Rightarrow> ((ActionKeep, Some StatConflict), f)
     | Inr _ \<Rightarrow> (case hashFile E f loc of Inl _ \<Rightarrow> ((ActionKeep, Some HashLocal), f)
     | Inr hLocal \<Rightarrow> (case hashFile E f (cf_Path c) of Inl _ \<Rightarrow> ((ActionKeep, Some HashConflict), f)
     | Inr hConflict \<Rightarrow>
       if hLocal \<noteq> hConflict then ((ActionKeep, None), f)
       else (case os_Remove E f (cf_Path c) of
               (Some _, f') \<Rightarrow> ((ActionKeep, Some RemoveConflict), f')
             | (None, f') \<Rightarrow> ((ActionDeduped, None), f'))))))"

definition textDetectionWindow :: nat where "textDetectionWindow = 8 * 1024"

definition isTextFile :: "fsys \<Rightarrow> string \<Rightarrow> ioerr + bool" where
  "isTextFile f p = (case os_ReadFile f p of Inl e \<Rightarrow> Inl e | Inr s \<Rightarrow> Inr (CHR 0x00 \<notin> set (take textDetectionWindow s)))"

text \<open>filepath.Rel on Unix: the components after the common ones, with a \<open>..\<close> for each component of the base that is left.\<close>

definition path_parts :: "string \<Rightarrow> string list" where
  "path_parts p = (if p = ''.'' then [] else filter (\<lambda>c. c \<noteq> []) (str_Split slash p))"

fun strip_common :: "string list \<Rightarrow> string list \<Rightarrow> string list \<times> string list" where
  "strip_common (a # as) (b # bs) = (if a = b then strip_common as bs else (a # as, b # bs))"
| "strip_common as bs = (as, bs)"

definition path_Rel :: "string \<Rightarrow> string \<Rightarrow> string option" where
  "path_Rel basepath targpath =
    (let base = path_Clean basepath; targ = path_Clean targpath in
     if targ = base then Some ''.''
     else if IsAbs base \<noteq> IsAbs targ then None
     else case strip_common (path_parts base) (if targ = ''.'' then [''.''] else path_parts targ) of
       (bs, ts) \<Rightarrow> if bs \<noteq> [] \<and> ts \<noteq> [] \<and> hd bs = ''..'' then None
                   else Some (str_Join (map (\<lambda>_. ''..'') bs @ ts) ''/''))"

definition outside_repo :: "string \<Rightarrow> bool" where
  "outside_repo relPath \<longleftrightarrow> relPath = ''..'' \<or> HasPrefix relPath ''../''"

text \<open>gitShowHEAD: the contents, no such file (any exit status of git counts as this), or another error.\<close>

definition gitShowHEAD :: "'g cenv \<Rightarrow> string \<Rightarrow> string \<Rightarrow> fsys \<times> 'g \<Rightarrow> unit option + string" where
  "gitShowHEAD E repoRoot relPath w =
    (case ce_show E repoRoot relPath w of
       Exit code out \<Rightarrow> if code = 0 then Inr out else Inl None
     | NotRun \<Rightarrow> Inl (Some ()))"

text \<open>git add and the commit of the one path, with its message.\<close>

definition commit_only :: "'g cenv \<Rightarrow> string \<Rightarrow> string \<Rightarrow> string \<Rightarrow> fsys \<times> 'g \<Rightarrow> resolve_error option \<times> fsys \<times> 'g" where
  "commit_only E repoRoot relPathGit msg w =
    (case ce_git E repoRoot [''add'', ''--'', relPathGit] w of ((ok, _, _), w1) \<Rightarrow>
       if \<not> ok then (Some GitAddFailed, w1)
       else case ce_git E repoRoot [''commit'', ''--only'', ''-m'', msg, ''--'', relPathGit] w1 of ((ok, _, _), w2) \<Rightarrow>
         if \<not> ok then (Some GitCommitFailed, w2) else (None, w2))"

definition applyCleanMerge :: "'g cenv \<Rightarrow> Conflict \<Rightarrow> string \<Rightarrow> string \<Rightarrow> string \<Rightarrow> string \<Rightarrow> fsys \<times> 'g \<Rightarrow>
    (resolve_action \<times> resolve_error option) \<times> fsys \<times> 'g" where
  "applyCleanMerge E c loc relPathGit repoRoot merged w =
    (case os_Stat (fst w) loc of Inl _ \<Rightarrow> ((ActionKeep, Some StatLocal), w)
     | Inr _ \<Rightarrow>
       (case writeAtomic E (fst w) loc merged of
          (Some _, f1) \<Rightarrow> ((ActionKeep, Some WriteFailed), (f1, snd w))
        | (None, f1) \<Rightarrow>
          (case os_Remove E f1 (cf_Path c) of
             (Some _, f2) \<Rightarrow> ((ActionKeep, Some RemoveConflict), (f2, snd w))
           | (None, f2) \<Rightarrow>
             (case commit_only E repoRoot relPathGit (''auto: resolve sync conflict in '' @ relPathGit) (f2, snd w) of
                (Some e, w3) \<Rightarrow> ((ActionKeep, Some e), w3)
              | (None, w3) \<Rightarrow> ((ActionMerged, None), w3)))))"

text \<open>From the path check on, and the merge itself once the three inputs are read.\<close>

definition merge_inputs :: "'g cenv \<Rightarrow> Conflict \<Rightarrow> string \<Rightarrow> string \<Rightarrow> string \<Rightarrow> string \<Rightarrow> string \<Rightarrow> string \<Rightarrow> fsys \<times> 'g \<Rightarrow>
    (resolve_action \<times> resolve_error option) \<times> fsys \<times> 'g" where
  "merge_inputs E c loc relPathGit repoRoot localData ancestor conflictData w =
    (if localData = ancestor then ((ActionKeep, None), w)
     else if \<not> ce_mkdirTemp E then ((ActionKeep, Some MkdirTempFailed), w)
     else if \<not> (ce_tempFile E ''ours'' \<and> ce_tempFile E ''base'' \<and> ce_tempFile E ''theirs'') then ((ActionKeep, Some TempFileFailed), w)
     else (case ce_merge E localData ancestor conflictData of
       Exit code out \<Rightarrow>
         if code = 0 then applyCleanMerge E c loc relPathGit repoRoot out w
         else if 0 < code \<and> code < 128 then ((ActionKeep, None), w)
         else ((ActionKeep, Some MergeFailed), w)
     | NotRun \<Rightarrow> ((ActionKeep, Some MergeFailed), w)))"

definition merge_at :: "'g cenv \<Rightarrow> Conflict \<Rightarrow> string \<Rightarrow> string \<Rightarrow> fsys \<times> 'g \<Rightarrow> (resolve_action \<times> resolve_error option) \<times> fsys \<times> 'g" where
  "merge_at E c loc repoRoot w =
    (case path_Rel repoRoot loc of None \<Rightarrow> ((ActionKeep, Some NoRelPath), w)
     | Some relPath \<Rightarrow>
       if outside_repo relPath then ((ActionKeep, Some OutsideRepo), w)
       else (case gitShowHEAD E repoRoot relPath w of
         Inl None \<Rightarrow> ((ActionKeep, None), w)
       | Inl (Some _) \<Rightarrow> ((ActionKeep, Some ShowFailed), w)
       | Inr ancestor \<Rightarrow>
         (case os_ReadFile (fst w) loc of Inl _ \<Rightarrow> ((ActionKeep, Some ReadLocal), w)
          | Inr localData \<Rightarrow>
            (case os_ReadFile (fst w) (cf_Path c) of Inl _ \<Rightarrow> ((ActionKeep, Some ReadConflict), w)
             | Inr conflictData \<Rightarrow> merge_inputs E c loc relPath repoRoot localData ancestor conflictData w))))"

definition ResolveTextMerge :: "'g cenv \<Rightarrow> Conflict \<Rightarrow> string \<Rightarrow> fsys \<times> 'g \<Rightarrow> (resolve_action \<times> resolve_error option) \<times> fsys \<times> 'g" where
  "ResolveTextMerge E c repoRoot w =
    (let loc = localFilePath c in
     case isTextFile (fst w) loc of Inl _ \<Rightarrow> ((ActionKeep, Some ClassifyLocal), w)
     | Inr localText \<Rightarrow> if \<not> localText then ((ActionKeep, None), w)
     else (case isTextFile (fst w) (cf_Path c) of Inl _ \<Rightarrow> ((ActionKeep, Some ClassifyConflict), w)
     | Inr conflictText \<Rightarrow> if \<not> conflictText then ((ActionKeep, None), w) else merge_at E c loc repoRoot w))"

section \<open>Manual resolution\<close>

definition Keep :: "'g cenv \<Rightarrow> Conflict \<Rightarrow> fsys \<Rightarrow> resolve_error option \<times> fsys" where
  "Keep E c f =
    (case os_Remove E f (cf_Path c) of
       (None, f') \<Rightarrow> (None, f')
     | (Some NotExist, f') \<Rightarrow> (None, f')
     | (Some IOFail, f') \<Rightarrow> (Some RemoveConflict, f'))"

definition accept_write :: "'g cenv \<Rightarrow> Conflict \<Rightarrow> string \<Rightarrow> string \<Rightarrow> string \<Rightarrow> string \<Rightarrow> fsys \<times> 'g \<Rightarrow> resolve_error option \<times> fsys \<times> 'g" where
  "accept_write E c loc relPathGit repoRoot variantData w =
    (case writeAtomic E (fst w) loc variantData of
       (Some _, f1) \<Rightarrow> (Some WriteFailed, (f1, snd w))
     | (None, f1) \<Rightarrow>
       (case os_Remove E f1 (cf_Path c) of
          (Some _, f2) \<Rightarrow> (Some RemoveConflict, (f2, snd w))
        | (None, f2) \<Rightarrow>
          commit_only E repoRoot relPathGit
            (''auto: accept sync conflict for '' @ relPathGit @ '' (from '' @ cf_DeviceIDShort c @ '')'') (f2, snd w)))"

definition Accept :: "'g cenv \<Rightarrow> Conflict \<Rightarrow> string \<Rightarrow> fsys \<times> 'g \<Rightarrow> resolve_error option \<times> fsys \<times> 'g" where
  "Accept E c repoRoot w =
    (let loc = localFilePath c in
     case os_Stat (fst w) (cf_Path c) of
       Inl NotExist \<Rightarrow> (None, w)
     | Inl IOFail \<Rightarrow> (Some StatConflict, w)
     | Inr _ \<Rightarrow>
       (case path_Rel repoRoot loc of None \<Rightarrow> (Some NoRelPath, w)
        | Some relPath \<Rightarrow>
          if outside_repo relPath then (Some OutsideRepo, w)
          else (case os_ReadFile (fst w) (cf_Path c) of Inl _ \<Rightarrow> (Some ReadConflict, w)
            | Inr variantData \<Rightarrow>
              (case os_Stat (fst w) loc of
                 Inl IOFail \<Rightarrow> (Some StatLocal, w)
               | _ \<Rightarrow> accept_write E c loc relPath repoRoot variantData w))))"

text \<open>\<open>dir\<close> is os.ReadDir of the parent directory: the names with whether they are regular files.\<close>

definition FindVariants :: "(string \<Rightarrow> ioerr + (string \<times> bool) list) \<Rightarrow> string \<Rightarrow> ioerr + Conflict list" where
  "FindVariants readDir canonical =
    (case readDir (path_Dir canonical) of Inl e \<Rightarrow> Inl e
     | Inr entries \<Rightarrow> Inr (List.map_filter (\<lambda>(name, regular).
         if \<not> regular then None
         else (case Parse name of Inl _ \<Rightarrow> None
           | Inr c \<Rightarrow> if cf_OriginalName c \<noteq> path_Base canonical then None
                      else Some (c\<lparr>cf_Path := path_Join (path_Dir canonical) name\<rparr>))) entries))"

section \<open>The commands\<close>

definition containingFolder :: "string \<Rightarrow> string list \<Rightarrow> string" where
  "containingFolder path roots =
    (let best = foldl (\<lambda>best r. if (HasPrefix path (r @ ''/'') \<or> path = r) \<and> length r > length best then r else best) '''' roots
     in if best = '''' then path_Dir path else best)"

text \<open>What is printed of one conflict: the outcome, and for a conflict that stays the reason.\<close>

datatype outcome = Deduped | Merged | KeptDisabled | KeptMergeError | KeptManual

definition handleConflictEvent :: "'g cenv \<Rightarrow> Conflict \<Rightarrow> string list \<Rightarrow> bool \<Rightarrow> fsys \<times> 'g \<Rightarrow> outcome \<times> fsys \<times> 'g" where
  "handleConflictEvent E c roots autoResolve w =
    (if \<not> autoResolve then (KeptDisabled, w)
     else case ResolveIdentical E c (fst w) of ((action, err), f1) \<Rightarrow>
       if err = None \<and> action = ActionDeduped then (Deduped, (f1, snd w))
       else case ResolveTextMerge E c (containingFolder (cf_Path c) roots) (f1, snd w) of ((action', err'), w2) \<Rightarrow>
         (if err' \<noteq> None then KeptMergeError else if action' = ActionMerged then Merged else KeptManual, w2))"

fun resolve_each :: "'g cenv \<Rightarrow> string list \<Rightarrow> Conflict list \<Rightarrow> nat \<times> nat \<times> nat \<Rightarrow> fsys \<times> 'g \<Rightarrow> (nat \<times> nat \<times> nat) \<times> fsys \<times> 'g" where
  "resolve_each E roots [] n w = (n, w)"
| "resolve_each E roots (c # cs) (deduped, merged, kept) w =
    (case ResolveIdentical E c (fst w) of ((action, _), f1) \<Rightarrow>
       if action = ActionDeduped then resolve_each E roots cs (deduped + 1, merged, kept) (f1, snd w)
       else case ResolveTextMerge E c (containingFolder (cf_Path c) roots) (f1, snd w) of ((action', _), w2) \<Rightarrow>
         if action' = ActionMerged then resolve_each E roots cs (deduped, merged + 1, kept) w2
         else resolve_each E roots cs (deduped, merged, kept + 1) w2)"

text \<open>\<open>scan\<close> is Scan on the state of the files; roots that cannot be scanned are skipped.\<close>

definition scan_all :: "(fsys \<Rightarrow> string \<Rightarrow> ioerr + Conflict list) \<Rightarrow> fsys \<Rightarrow> string list \<Rightarrow> Conflict list" where
  "scan_all scan f roots = concat (map (\<lambda>r. case scan f r of Inl _ \<Rightarrow> [] | Inr cs \<Rightarrow> cs) roots)"

definition conflictResolveAll :: "'g cenv \<Rightarrow> (fsys \<Rightarrow> string \<Rightarrow> ioerr + Conflict list) \<Rightarrow> string list \<Rightarrow> fsys \<times> 'g \<Rightarrow> (nat \<times> nat \<times> nat) \<times> fsys \<times> 'g" where
  "conflictResolveAll E scan roots w = resolve_each E roots (scan_all scan (fst w) roots) (0, 0, 0) w"

datatype target_error = NoConflict | ParseFailed | StatFailed | ScanFailed | SeveralVariants "Conflict list"

definition resolveTarget :: "string option \<Rightarrow> string \<Rightarrow> (string \<Rightarrow> ioerr + (string \<times> bool) list) \<Rightarrow> fsys \<Rightarrow> string \<Rightarrow> target_error + Conflict list \<times> string" where
  "resolveTarget home cwd readDir f rawPath =
    (let absPath = path_Abs cwd (ExpandPath home rawPath) in
     if IsConflictName absPath then
       (case Parse (path_Base absPath) of Inl _ \<Rightarrow> Inl ParseFailed
        | Inr parsed \<Rightarrow>
          (case os_Stat f absPath of
             Inl NotExist \<Rightarrow> Inl NoConflict
           | Inl IOFail \<Rightarrow> Inl StatFailed
           | Inr _ \<Rightarrow> Inr ([parsed\<lparr>cf_Path := absPath\<rparr>], path_Join (path_Dir absPath) (cf_OriginalName parsed))))
     else
       (case FindVariants readDir absPath of
          Inl NotExist \<Rightarrow> Inl NoConflict
        | Inl IOFail \<Rightarrow> Inl ScanFailed
        | Inr variants \<Rightarrow>
          if variants = [] then Inl NoConflict
          else if length variants > 1 then Inl (SeveralVariants variants)
          else Inr (variants, absPath)))"

fun keep_each :: "'g cenv \<Rightarrow> Conflict list \<Rightarrow> fsys \<Rightarrow> resolve_error option \<times> fsys" where
  "keep_each E [] f = (None, f)"
| "keep_each E (v # vs) f = (case Keep E v f of (Some e, f') \<Rightarrow> (Some e, f') | (None, f') \<Rightarrow> keep_each E vs f')"

definition runKeepOne :: "'g cenv \<Rightarrow> string option \<Rightarrow> string \<Rightarrow> (string \<Rightarrow> ioerr + (string \<times> bool) list) \<Rightarrow> string \<Rightarrow> fsys \<Rightarrow> (target_error + resolve_error option) \<times> fsys" where
  "runKeepOne E home cwd readDir rawPath f =
    (case resolveTarget home cwd readDir f rawPath of Inl e \<Rightarrow> (Inl e, f)
     | Inr (variants, _) \<Rightarrow> (case keep_each E variants f of (e, f') \<Rightarrow> (Inr e, f')))"

fun keep_count :: "'g cenv \<Rightarrow> Conflict list \<Rightarrow> nat \<Rightarrow> fsys \<Rightarrow> nat \<times> fsys" where
  "keep_count E [] kept f = (kept, f)"
| "keep_count E (c # cs) kept f = (case Keep E c f of (Some _, f') \<Rightarrow> keep_count E cs kept f' | (None, f') \<Rightarrow> keep_count E cs (kept + 1) f')"

fun runKeepAll :: "'g cenv \<Rightarrow> (fsys \<Rightarrow> string \<Rightarrow> ioerr + Conflict list) \<Rightarrow> string list \<Rightarrow> nat \<Rightarrow> fsys \<Rightarrow> nat \<times> fsys" where
  "runKeepAll E scan [] kept f = (kept, f)"
| "runKeepAll E scan (root # roots) kept f =
    (case scan f root of Inl _ \<Rightarrow> runKeepAll E scan roots kept f
     | Inr found \<Rightarrow> (case keep_count E found kept f of (kept', f') \<Rightarrow> runKeepAll E scan roots kept' f'))"

fun accept_each :: "'g cenv \<Rightarrow> string \<Rightarrow> Conflict list \<Rightarrow> fsys \<times> 'g \<Rightarrow> resolve_error option \<times> fsys \<times> 'g" where
  "accept_each E repoRoot [] w = (None, w)"
| "accept_each E repoRoot (v # vs) w = (case Accept E v repoRoot w of (Some e, w') \<Rightarrow> (Some e, w') | (None, w') \<Rightarrow> accept_each E repoRoot vs w')"

definition runAcceptOne :: "'g cenv \<Rightarrow> string option \<Rightarrow> string \<Rightarrow> (string \<Rightarrow> ioerr + (string \<times> bool) list) \<Rightarrow> string list \<Rightarrow> string \<Rightarrow> fsys \<times> 'g \<Rightarrow>
    (target_error + resolve_error option) \<times> fsys \<times> 'g" where
  "runAcceptOne E home cwd readDir roots rawPath w =
    (case resolveTarget home cwd readDir (fst w) rawPath of Inl e \<Rightarrow> (Inl e, w)
     | Inr (variants, canonical) \<Rightarrow> (case accept_each E (containingFolder canonical roots) variants w of (e, w') \<Rightarrow> (Inr e, w')))"

text \<open>
  The map of runAcceptAll from canonical paths to their variants; \<open>order\<close> is the order in which its keys are ranged over,
  which Go leaves open.
\<close>

definition variant_groups :: "Conflict list \<Rightarrow> string \<Rightarrow> Conflict list" where
  "variant_groups cs canonical = filter (\<lambda>c. localFilePath c = canonical) cs"

fun accept_groups :: "'g cenv \<Rightarrow> string list \<Rightarrow> (string \<Rightarrow> Conflict list) \<Rightarrow> string list \<Rightarrow> nat \<Rightarrow> fsys \<times> 'g \<Rightarrow> nat \<times> fsys \<times> 'g" where
  "accept_groups E roots groups [] accepted w = (accepted, w)"
| "accept_groups E roots groups (k # ks) accepted w =
    (case groups k of
       [v] \<Rightarrow> (case Accept E v (containingFolder k roots) w of
                (Some _, w') \<Rightarrow> accept_groups E roots groups ks accepted w'
              | (None, w') \<Rightarrow> accept_groups E roots groups ks (accepted + 1) w')
     | _ \<Rightarrow> accept_groups E roots groups ks accepted w)"

definition runAcceptAll :: "'g cenv \<Rightarrow> (fsys \<Rightarrow> string \<Rightarrow> ioerr + Conflict list) \<Rightarrow> (string list \<Rightarrow> string list) \<Rightarrow> string list \<Rightarrow> fsys \<times> 'g \<Rightarrow> nat \<times> fsys \<times> 'g" where
  "runAcceptAll E scan order roots w =
    (let cs = scan_all scan (fst w) roots
     in accept_groups E roots (variant_groups cs) (order (remdups (map localFilePath cs))) 0 w)"

section \<open>What a resolution may do to the files\<close>

definition git_spares_files :: "'g cenv \<Rightarrow> bool" where
  "git_spares_files E \<longleftrightarrow> (\<forall>dir args w. fst (snd (ce_git E dir args w)) = fst w)"

lemma os_ReadFile_Inr: "os_ReadFile f p = Inr s \<longleftrightarrow> \<not> broken f p \<and> nodes f p = Some (FileN s)"
  by (auto simp: os_ReadFile_def os_Stat_def split: option.splits node.splits)

lemma os_Remove_cases:
  "os_Remove E f p = (None, f') \<Longrightarrow> f' = set_node p None f"
  "os_Remove E f p = (Some e, f') \<Longrightarrow> f' = f"
  by (auto simp: os_Remove_def split: sum.splits if_splits)

lemma writeAtomic_cases:
  "writeAtomic E f p data = (None, f') \<Longrightarrow> f' = set_node p (Some (FileN data)) f"
  "writeAtomic E f p data = (Some e, f') \<Longrightarrow> f' = f"
  by (auto simp: writeAtomic_def write_atomic_def split: if_splits)

lemma commit_only_files: "git_spares_files E \<Longrightarrow> commit_only E r p m w = (e, w') \<Longrightarrow> fst w' = fst w"
proof -
  assume g: "git_spares_files E" and c: "commit_only E r p m w = (e, w')"
  obtain o1 w1 where 1: "ce_git E r [''add'', ''--'', p] w = (o1, w1)" by (metis prod.collapse)
  obtain o2 w2 where 2: "ce_git E r [''commit'', ''--only'', ''-m'', m, ''--'', p] w1 = (o2, w2)" by (metis prod.collapse)
  have "fst w1 = fst w" "fst w2 = fst w1" using g 1 2 unfolding git_spares_files_def by (metis snd_conv)+
  then show "fst w' = fst w" using c 1 2 unfolding commit_only_def by (auto split: prod.splits if_splits)
qed

lemma ResolveIdentical_cases:
  assumes "ResolveIdentical E c f = ((a, e), f')"
  shows "a = ActionDeduped \<and> e = None \<and> f' = set_node (cf_Path c) None f \<and>
      (\<exists>s t. os_ReadFile f (localFilePath c) = Inr s \<and> os_ReadFile f (cf_Path c) = Inr t \<and> ce_sha256 E s = ce_sha256 E t) \<or>
    a = ActionKeep \<and> f' = f"
  using assms os_Remove_cases[of E f "cf_Path c"]
  by (auto simp: ResolveIdentical_def Let_def hashFile_def split: sum.splits prod.splits option.splits if_splits)

text \<open>A clean merge of the three versions, none of them HEAD's in place of the local one.\<close>

definition merged_to :: "'g cenv \<Rightarrow> Conflict \<Rightarrow> string \<Rightarrow> fsys \<times> 'g \<Rightarrow> string \<Rightarrow> bool" where
  "merged_to E c repoRoot w M \<longleftrightarrow> (\<exists>rel base L C. path_Rel repoRoot (localFilePath c) = Some rel \<and> \<not> outside_repo rel \<and>
     gitShowHEAD E repoRoot rel w = Inr base \<and> nodes (fst w) (localFilePath c) = Some (FileN L) \<and> nodes (fst w) (cf_Path c) = Some (FileN C) \<and>
     L \<noteq> base \<and> ce_merge E L base C = Exit 0 M)"

lemma applyCleanMerge_cases:
  assumes "git_spares_files E" "applyCleanMerge E c loc rel root M w = ((a, e), w')"
  shows "a = ActionMerged \<and> e = None \<and> fst w' = set_node (cf_Path c) None (set_node loc (Some (FileN M)) (fst w)) \<or>
    a = ActionKeep \<and> e \<noteq> None \<and> (fst w' = fst w \<or> fst w' = set_node loc (Some (FileN M)) (fst w) \<or>
      fst w' = set_node (cf_Path c) None (set_node loc (Some (FileN M)) (fst w)))"
proof -
  obtain n where "os_Stat (fst w) loc = Inr n \<or> a = ActionKeep \<and> e \<noteq> None \<and> w' = w"
    using assms(2) by (auto simp: applyCleanMerge_def split: sum.splits)
  moreover obtain e1 f1 where 1: "writeAtomic E (fst w) loc M = (e1, f1)" by fastforce
  moreover obtain e2 f2 where 2: "os_Remove E f1 (cf_Path c) = (e2, f2)" by fastforce
  moreover obtain e3 w3 where 3: "commit_only E root rel (''auto: resolve sync conflict in '' @ rel) (f2, snd w) = (e3, w3)" by (metis prod.collapse)
  moreover have "fst w3 = f2" using commit_only_files[OF assms(1) 3] by simp
  moreover note os_Remove_cases[of E f1 "cf_Path c"] writeAtomic_cases[of E "fst w" loc M]
  ultimately show ?thesis using assms(2) unfolding applyCleanMerge_def by (cases e1; cases e2; cases e3) auto
qed

lemma ResolveTextMerge_cases:
  assumes "git_spares_files E" "ResolveTextMerge E c root w = ((a, e), w')"
  shows "a = ActionKeep \<and> w' = w \<or>
    (\<exists>M. merged_to E c root w M \<and>
      (a = ActionMerged \<and> e = None \<and> fst w' = set_node (cf_Path c) None (set_node (localFilePath c) (Some (FileN M)) (fst w)) \<or>
       a = ActionKeep \<and> e \<noteq> None \<and> (fst w' = fst w \<or> fst w' = set_node (localFilePath c) (Some (FileN M)) (fst w) \<or>
         fst w' = set_node (cf_Path c) None (set_node (localFilePath c) (Some (FileN M)) (fst w)))))"
proof (cases "a = ActionKeep \<and> w' = w")
  case False
  let ?loc = "localFilePath c"
  have m: "merge_at E c ?loc root w = ((a, e), w')"
    using assms(2) False unfolding ResolveTextMerge_def Let_def by (auto split: sum.splits if_splits)
  then obtain rel base L C where R: "path_Rel root ?loc = Some rel" "\<not> outside_repo rel" "gitShowHEAD E root rel w = Inr base"
    "os_ReadFile (fst w) ?loc = Inr L" "os_ReadFile (fst w) (cf_Path c) = Inr C" "merge_inputs E c ?loc rel root L base C w = ((a, e), w')"
    using False unfolding merge_at_def by (auto split: sum.splits option.splits if_splits)
  then obtain M where M: "L \<noteq> base" "ce_merge E L base C = Exit 0 M" "applyCleanMerge E c ?loc rel root M w = ((a, e), w')"
    using False unfolding merge_inputs_def by (auto split: run_result.splits if_splits)
  have "merged_to E c root w M" using R M unfolding merged_to_def os_ReadFile_Inr by blast
  then show ?thesis using applyCleanMerge_cases[OF assms(1) M(3)] by blast
qed simp

text \<open>What each outcome says of the files.\<close>

fun outcome_ok :: "'g cenv \<Rightarrow> Conflict \<Rightarrow> string \<Rightarrow> fsys \<times> 'g \<Rightarrow> outcome \<Rightarrow> fsys \<Rightarrow> bool" where
  "outcome_ok E c root w Deduped f' \<longleftrightarrow> f' = set_node (cf_Path c) None (fst w) \<and>
     (\<exists>s. nodes (fst w) (cf_Path c) = Some (FileN s) \<and> nodes f' (localFilePath c) = Some (FileN s))"
| "outcome_ok E c root w Merged f' \<longleftrightarrow>
     (\<exists>M. merged_to E c root w M \<and> f' = set_node (cf_Path c) None (set_node (localFilePath c) (Some (FileN M)) (fst w)))"
| "outcome_ok E c root w KeptMergeError f' \<longleftrightarrow> f' = fst w \<or>
     (\<exists>M. merged_to E c root w M \<and> f' \<in> {set_node (localFilePath c) (Some (FileN M)) (fst w),
        set_node (cf_Path c) None (set_node (localFilePath c) (Some (FileN M)) (fst w))})"
| "outcome_ok E c root w _ f' \<longleftrightarrow> f' = fst w"

text \<open>A conflict as the scanner, the watcher and FindVariants make it.\<close>

definition found_conflict :: "Conflict \<Rightarrow> bool" where
  "found_conflict c \<longleftrightarrow> (\<exists>dir name c0. plain_component name \<and> Parse name = Inr c0 \<and> c = c0\<lparr>cf_Path := path_Join dir name\<rparr>) \<and>
     plain_component (cf_OriginalName c)"

lemma path_Base_plain: "plain_component a \<Longrightarrow> path_Base a = a"
proof -
  assume a: "plain_component a"
  then have "rev (dropWhile (\<lambda>c. c = slash) (rev a)) = a" by (cases a rule: rev_cases) (auto simp: plain_component_def)
  then show ?thesis using a by (simp add: path_Base_def plain_component_def split_none)
qed

lemma found_conflict_neq: "found_conflict c \<Longrightarrow> localFilePath c \<noteq> cf_Path c"
proof
  assume c: "found_conflict c" and eq: "localFilePath c = cf_Path c"
  then obtain dir name c0 where n: "plain_component name" "Parse name = Inr c0" "c = c0\<lparr>cf_Path := path_Join dir name\<rparr>"
    "plain_component (cf_OriginalName c)" by (auto simp: found_conflict_def)
  have b: "path_Base name = name" using path_Base_plain[OF n(1)] .
  have "cf_OriginalName c = name" using path_Base_Join[OF n(4), of "path_Dir (cf_Path c)"] path_Base_Join[OF n(1), of dir] eq n(3)
    by (simp add: localFilePath_def)
  then show False using Parse_original[OF n(2)] n(3) b by simp
qed

section \<open>Automatic resolution\<close>


definition demo_cenv :: "unit cenv" where
  "demo_cenv = \<lparr>ce_git = (\<lambda>_ _ w. ((True, [], []), w)), ce_show = (\<lambda>_ _ _. Exit 0 ''base''),
     ce_merge = (\<lambda>ours _ theirs. Exit 0 (ours @ theirs)), ce_sha256 = (\<lambda>s. s), ce_removable = (\<lambda>_. True), ce_writable = (\<lambda>_. True),
     ce_mkdirTemp = True, ce_tempFile = (\<lambda>_. True)\<rparr>"

definition demo_copy :: string where "demo_copy = ''f.sync-conflict-20260228-010203-ABCDEF2''"

definition demo_time :: civil where
  "demo_time = \<lparr>c_year = 2026, c_month = 2, c_day = 28, c_hour = 1, c_min = 2, c_sec = 3\<rparr>"

definition demo_conflict :: Conflict where
  "demo_conflict = \<lparr>cf_Path = ''/s/'' @ demo_copy, cf_OriginalName = ''f'', cf_Timestamp = demo_time, cf_DeviceIDShort = ''ABCDEF2'', cf_Extension = ''''\<rparr>"

definition demo_pair :: fsys where
  "demo_pair = set_node (''/s/'' @ demo_copy) (Some (FileN '' theirs'')) demo_fs"

lemma demo_found: "found_conflict demo_conflict"
proof -
  let ?c0 = "demo_conflict\<lparr>cf_Path := ''''\<rparr>"
  have 1: "Parse demo_copy = Inr ?c0" "plain_component demo_copy" "plain_component (cf_OriginalName demo_conflict)" by code_simp+
  have "path_Join ''/s'' demo_copy = cf_Path demo_conflict" by code_simp
  then have "demo_conflict = ?c0\<lparr>cf_Path := path_Join ''/s'' demo_copy\<rparr>" by simp
  then show ?thesis unfolding found_conflict_def using 1 by blast
qed

lemma demo_spares: "git_spares_files demo_cenv"
  by (simp add: git_spares_files_def demo_cenv_def)


section \<open>Accepting\<close>

lemma accept_write_cases:
  assumes "git_spares_files E" "accept_write E c loc rel root C w = (e, w')"
  shows "e = None \<and> fst w' = set_node (cf_Path c) None (set_node loc (Some (FileN C)) (fst w)) \<or>
    e \<noteq> None \<and> fst w' \<in> {fst w, set_node loc (Some (FileN C)) (fst w), set_node (cf_Path c) None (set_node loc (Some (FileN C)) (fst w))}"
proof -
  obtain e1 f1 where 1: "writeAtomic E (fst w) loc C = (e1, f1)" by fastforce
  obtain e2 f2 where 2: "os_Remove E f1 (cf_Path c) = (e2, f2)" by fastforce
  obtain e3 w3 where 3: "commit_only E root rel (''auto: accept sync conflict for '' @ rel @ '' (from '' @ cf_DeviceIDShort c @ '')'') (f2, snd w) = (e3, w3)"
    by (metis prod.collapse)
  have "fst w3 = f2" using commit_only_files[OF assms(1) 3] by simp
  then show ?thesis using 1 2 3 os_Remove_cases[of E f1 "cf_Path c"] writeAtomic_cases[of E "fst w" loc C] assms(2)
    unfolding accept_write_def by (cases e1; cases e2; cases e3) auto
qed

text \<open>What Accept may leave: all as it was, the local file with the variant's bytes, or this with the variant gone.\<close>

lemma Accept_cases:
  assumes "git_spares_files E" "Accept E c root w = (e, w')"
  shows "w' = w \<and> (e = None \<longrightarrow> os_Stat (fst w) (cf_Path c) = Inl NotExist) \<or>
    (\<exists>C. nodes (fst w) (cf_Path c) = Some (FileN C) \<and> \<not> broken (fst w) (cf_Path c) \<and>
      (e = None \<and> fst w' = set_node (cf_Path c) None (set_node (localFilePath c) (Some (FileN C)) (fst w)) \<or>
       e \<noteq> None \<and> fst w' \<in> {fst w, set_node (localFilePath c) (Some (FileN C)) (fst w),
          set_node (cf_Path c) None (set_node (localFilePath c) (Some (FileN C)) (fst w))}))"
proof (cases "w' = w \<and> (e = None \<longrightarrow> os_Stat (fst w) (cf_Path c) = Inl NotExist)")
  case False
  then obtain rel C where R: "os_ReadFile (fst w) (cf_Path c) = Inr C" "accept_write E c (localFilePath c) rel root C w = (e, w')"
    using assms(2) unfolding Accept_def Let_def by (auto split: sum.splits ioerr.splits option.splits if_splits)
  then show ?thesis using accept_write_cases[OF assms(1) R(2)] by (auto simp: os_ReadFile_Inr)
qed simp

text \<open>
  C27: Accepting a conflict is all or nothing and can be repeated. If Accept returns nil and the variant was there, the local file holds the
  variant's bytes and the variant is gone; accepting again, in any repository, is then a success that changes nothing. If it returns an error, the local file holds
  its old bytes or the variant's, and the variant is gone only in the latter case.
\<close>

theorem Accept_all_or_nothing:
  assumes "git_spares_files E" "found_conflict c" "nodes (fst w) (cf_Path c) \<noteq> None"
    and "Accept E c root w = (e, w')"
  shows "if e = None
    then nodes (fst w') (localFilePath c) = nodes (fst w) (cf_Path c) \<and> nodes (fst w') (cf_Path c) = None \<and> Accept E c root2 w' = (None, w')
    else nodes (fst w') (localFilePath c) = nodes (fst w) (cf_Path c) \<or> fst w' = fst w"
proof -
  have n: "cf_Path c \<noteq> localFilePath c" using found_conflict_neq[OF assms(2)] by simp
  have s: "os_Stat (fst w) (cf_Path c) \<noteq> Inl NotExist" using assms(3) by (auto simp: os_Stat_def split: option.splits)
  have again: "Accept E c root2 w' = (None, w')" if "nodes (fst w') (cf_Path c) = None" "\<not> broken (fst w') (cf_Path c)"
    using that by (simp add: Accept_def Let_def os_Stat_def)
  show ?thesis using Accept_cases[OF assms(1,4)] n s again by (auto split: if_splits)
qed

theorem Accept_all_or_nothing_witness:
  "\<exists>w'. Accept demo_cenv demo_conflict ''/s'' (demo_pair, ()) = (None, w') \<and> Accept demo_cenv demo_conflict ''/other'' w' = (None, w')"
proof -
  obtain w' where h: "Accept demo_cenv demo_conflict ''/s'' (demo_pair, ()) = (None, w')"
  proof -
    have "fst (Accept demo_cenv demo_conflict ''/s'' (demo_pair, ())) = None" by code_simp
    then show ?thesis using that by (metis prod.collapse)
  qed
  have "nodes (fst (demo_pair, ())) (cf_Path demo_conflict) \<noteq> None" by (simp add: demo_pair_def demo_conflict_def)
  from Accept_all_or_nothing[OF demo_spares demo_found this h, of "''/other''"] show ?thesis using h by auto
qed

section \<open>Accepting everything\<close>

text \<open>
  Accept --all never chooses between variants. A file it changes, in whatever order the map is ranged over, is the local file or
  the copy of a conflict that is the only one found for that file; everything else is untouched.
\<close>

theorem accept_all_only_single_variants:
  assumes "git_spares_files E" "runAcceptAll E scan order roots w = (n, w')"
  shows "{q. nodes (fst w') q \<noteq> nodes (fst w) q} \<subseteq>
    (\<Union>c \<in> {c. variant_groups (scan_all scan (fst w) roots) (localFilePath c) = [c]}. {cf_Path c, localFilePath c})"
proof -
  let ?g = "variant_groups (scan_all scan (fst w) roots)"
  let ?S = "\<Union>c \<in> {c. ?g (localFilePath c) = [c]}. {cf_Path c, localFilePath c}"
  have each: "q \<in> ?S \<or> nodes (fst v') q = nodes (fst v) q" if "accept_groups E roots ?g ks k v = (m, v')" for ks k v m v' q
    using that
  proof (induction ks arbitrary: k v)
    case (Cons key ks)
    show ?case
    proof (cases "\<exists>c. ?g key = [c]")
      case True
      then obtain c where c: "?g key = [c]" by blast
      then have loc: "localFilePath c = key" by (auto simp: variant_groups_def filter_eq_Cons_iff)
      obtain e v1 where a: "Accept E c (containingFolder key roots) v = (e, v1)" by (metis prod.collapse)
      have "nodes (fst v1) q = nodes (fst v) q" if "q \<noteq> cf_Path c" "q \<noteq> localFilePath c"
        using Accept_cases[OF assms(1) a] by (elim disjE conjE exE) (auto simp: that)
      then have "nodes (fst v1) q = nodes (fst v) q \<or> q \<in> {cf_Path c, localFilePath c}" by blast
      moreover have "q \<in> ?S \<or> nodes (fst v') q = nodes (fst v1) q" using Cons c a by (cases e) auto
      ultimately show ?thesis using c loc by fastforce
    next
      case False
      then show ?thesis using Cons by (auto split: list.splits)
    qed
  qed simp
  have "accept_groups E roots ?g (order (remdups (map localFilePath (scan_all scan (fst w) roots)))) 0 w = (n, w')"
    using assms(2) by (simp add: runAcceptAll_def Let_def)
  note E = each[OF this]
  show ?thesis
  proof
    fix q assume "q \<in> {q. nodes (fst w') q \<noteq> nodes (fst w) q}"
    then have "nodes (fst w') q \<noteq> nodes (fst w) q" by (rule CollectD)
    with E[of q] show "q \<in> ?S" by (elim disjE) (assumption | contradiction)+
  qed
qed

text \<open>
  A managed folder inside another one is scanned twice, and then its conflicts count as several variants: --all skips
  them, although accepting the file by name works.
\<close>

theorem nested_roots_hide_conflicts:
  "let scan = (\<lambda>_ _. Inr [demo_conflict]); w = (demo_pair, ()) in
     fst (runAcceptAll demo_cenv scan id [''/s''] w) = 1 \<and> fst (runAcceptAll demo_cenv scan id [''/'', ''/s''] w) = 0"
  by code_simp

theorem accept_all_only_single_variants_witness:
  "\<exists>w'. runAcceptAll demo_cenv (\<lambda>_ _. Inr [demo_conflict]) id [''/s''] (demo_pair, ()) = (1, w') \<and> nodes (fst w') ''/s'' = nodes demo_pair ''/s''"
proof -
  let ?scan = "\<lambda>_ _. Inr [demo_conflict]"
  have "fst (runAcceptAll demo_cenv ?scan id [''/s''] (demo_pair, ())) = 1" by code_simp
  then obtain w' where h: "runAcceptAll demo_cenv ?scan id [''/s''] (demo_pair, ()) = (1, w')" by (metis prod.collapse)
  have l: "localFilePath demo_conflict = ''/s/f''" "cf_Path demo_conflict = ''/s/'' @ demo_copy" by code_simp+
  have "c = demo_conflict" if "variant_groups (scan_all ?scan f [''/s'']) (localFilePath c) = [c]" for c and f :: fsys
    using that by (simp add: variant_groups_def scan_all_def split: if_splits)
  moreover have "''/s'' \<notin> {cf_Path demo_conflict, localFilePath demo_conflict}" unfolding l by simp
  ultimately have "''/s'' \<notin> (\<Union>c \<in> {c. variant_groups (scan_all ?scan (fst (demo_pair, ())) [''/s'']) (localFilePath c) = [c]}. {cf_Path c, localFilePath c})"
    by blast
  then show ?thesis using h accept_all_only_single_variants[OF demo_spares h] by fastforce
qed

end
