(* ===== verification/Watch_Health.thy ===== *)
theory Watch_Health
  imports Observe Conflict
begin

text \<open>
  internal/watchhealth and what the daemon (cmd/dotkeeper/main.go, cmds\_v5.go) hangs around it: the classification of file
  systems on Linux, the health tracker and its adapter for the reconciler, the log of rescans, the detector of suspends
  and the wake flag.
\<close>

section \<open>File system types (Linux)\<close>

datatype FilesystemKind = FilesystemUnknown | FilesystemReliable | FilesystemUnreliable

fun kind_String :: "FilesystemKind \<Rightarrow> string" where
  "kind_String FilesystemReliable = ''reliable''"
| "kind_String FilesystemUnreliable = ''unreliable''"
| "kind_String FilesystemUnknown = ''unknown''"

definition linuxReliableMagic :: "(int \<times> string) list" where
  "linuxReliableMagic =
    [(0xef53, ''ext4''), (0x9123683e, ''btrfs''), (0x58465342, ''xfs''), (0x2fc12fc1, ''zfs''), (0x01021994, ''tmpfs''),
     (0xf2f52010, ''f2fs''), (0x9fa0, ''proc''), (0x73717368, ''squashfs''), (0x794c7630, ''overlayfs'')]"

definition linuxUnreliableMagic :: "(int \<times> string) list" where
  "linuxUnreliableMagic =
    [(0x6969, ''nfs''), (0xff534d42, ''cifs''), (0x517b, ''smbfs''), (0x01021997, ''v9fs''), (0x65735546, ''fuse''),
     (0x65735543, ''fuseblk''), (0x73757245, ''virtiofs''), (0x52654973, ''reiserfs'')]"

definition hex_char :: "nat \<Rightarrow> char" where
  "hex_char n = ''0123456789abcdef'' ! n"

text \<open>The shift of a negative int64 is arithmetic, as div is.\<close>

definition formatMagic :: "int \<Rightarrow> string" where
  "formatMagic magic = ''0x'' @ map (\<lambda>i. hex_char (nat ((magic div 16 ^ i) mod 16))) (rev [0..<8])"

text \<open>\<open>statfs\<close> is the f\_type of statfs(2), None for an error.\<close>

definition detectFilesystem :: "(string \<Rightarrow> int option) \<Rightarrow> string \<Rightarrow> FilesystemKind \<times> string" where
  "detectFilesystem statfs path =
    (case statfs path of None \<Rightarrow> (FilesystemUnknown, '''')
     | Some magic \<Rightarrow>
       (case map_of linuxReliableMagic magic of Some name \<Rightarrow> (FilesystemReliable, name)
        | None \<Rightarrow>
          (case map_of linuxUnreliableMagic magic of Some name \<Rightarrow> (FilesystemUnreliable, name)
           | None \<Rightarrow> (FilesystemUnknown, formatMagic magic))))"

section \<open>The tracker\<close>

record WatchStatus =
  ws_Path :: string
  ws_FilesystemType :: string
  ws_Kind :: FilesystemKind
  ws_OverflowSeen :: bool
  ws_WatchLimitHit :: bool
  ws_LastReliableEventAt :: gotime

type_synonym health = "string \<Rightarrow> WatchStatus option"

definition wh_New :: health where "wh_New = (\<lambda>_. None)"

definition Register :: "(string \<Rightarrow> int option) \<Rightarrow> string \<Rightarrow> health \<Rightarrow> WatchStatus \<times> health" where
  "Register statfs path t =
    (let (kind, fsName) = detectFilesystem statfs path;
         s = (case t path of Some s \<Rightarrow> s
              | None \<Rightarrow> \<lparr>ws_Path = path, ws_FilesystemType = '''', ws_Kind = FilesystemUnknown,
                          ws_OverflowSeen = False, ws_WatchLimitHit = False, ws_LastReliableEventAt = 0\<rparr>);
         s' = s\<lparr>ws_FilesystemType := fsName, ws_Kind := kind\<rparr>
     in (s', t(path \<mapsto> s')))"

definition Unregister :: "string \<Rightarrow> health \<Rightarrow> health" where
  "Unregister path t = t(path := None)"

text \<open>The marks on a folder that is not registered are dropped.\<close>

definition on_status :: "string \<Rightarrow> (WatchStatus \<Rightarrow> WatchStatus) \<Rightarrow> health \<Rightarrow> health" where
  "on_status path f t = (case t path of None \<Rightarrow> t | Some s \<Rightarrow> t(path \<mapsto> f s))"

definition MarkOverflow :: "string \<Rightarrow> health \<Rightarrow> health" where
  "MarkOverflow path = on_status path (\<lambda>s. s\<lparr>ws_OverflowSeen := True\<rparr>)"

definition MarkWatchLimitHit :: "string \<Rightarrow> health \<Rightarrow> health" where
  "MarkWatchLimitHit path = on_status path (\<lambda>s. s\<lparr>ws_WatchLimitHit := True\<rparr>)"

definition MarkEventDelivered :: "string \<Rightarrow> gotime \<Rightarrow> health \<Rightarrow> health" where
  "MarkEventDelivered path at = on_status path (\<lambda>s. s\<lparr>ws_LastReliableEventAt := at\<rparr>)"

definition wh_Reset :: "string \<Rightarrow> health \<Rightarrow> health" where
  "wh_Reset path = on_status path (\<lambda>s. s\<lparr>ws_OverflowSeen := False, ws_WatchLimitHit := False\<rparr>)"

definition wh_Status :: "string \<Rightarrow> health \<Rightarrow> WatchStatus option" where
  "wh_Status path t = t path"

text \<open>The adapter of the daemon.\<close>

definition StatusForReconcile :: "health \<Rightarrow> string \<Rightarrow> FolderHealth option" where
  "StatusForReconcile t root =
    (case wh_Status root t of None \<Rightarrow> None
     | Some st \<Rightarrow> Some \<lparr>fh_FilesystemReliable = (ws_Kind st = FilesystemReliable), fh_OverflowSeen = ws_OverflowSeen st,
                         fh_WatchLimitHit = ws_WatchLimitHit st, fh_LastReliableEventAt = ws_LastReliableEventAt st\<rparr>)"

definition startWatchHealth :: "(string \<Rightarrow> int option) \<Rightarrow> string list \<Rightarrow> health" where
  "startWatchHealth statfs roots = foldl (\<lambda>t root. snd (Register statfs root t)) wh_New roots"

section \<open>The log of rescans\<close>

type_synonym rescanLog = "string \<Rightarrow> gotime option"

definition newRescanLog :: rescanLog where "newRescanLog = (\<lambda>_. None)"

definition rescan_seed :: "string list \<Rightarrow> gotime \<Rightarrow> rescanLog \<Rightarrow> rescanLog" where
  "rescan_seed paths at r = foldl (\<lambda>r p. if r p = None then r(p \<mapsto> at) else r) r paths"

definition RecordRescan :: "string \<Rightarrow> gotime \<Rightarrow> rescanLog \<Rightarrow> rescanLog" where
  "RecordRescan path at r = r(path \<mapsto> at)"

definition LastRescan :: "rescanLog \<Rightarrow> string \<Rightarrow> gotime option" where
  "LastRescan r path = r path"

section \<open>Suspend detection\<close>

text \<open>
  An instant is what time.Now gives: a wall clock reading and, where the value has one, a reading of the monotonic clock, which
  Sub uses when both operands have it.
\<close>

record instant =
  i_wall :: gotime
  i_mono :: "int option"

definition instant_Sub :: "instant \<Rightarrow> instant \<Rightarrow> dur" where
  "instant_Sub t u =
    (case (i_mono t, i_mono u) of (Some a, Some b) \<Rightarrow> time_Sub a b | _ \<Rightarrow> time_Sub (i_wall t) (i_wall u))"

record SleepEvent =
  se_DetectedAt :: instant
  se_Gap :: dur

text \<open>One tick; the channel has room for four events, more are dropped.\<close>

definition sleep_tick :: "dur \<Rightarrow> instant \<Rightarrow> instant option \<times> SleepEvent list \<Rightarrow> instant option \<times> SleepEvent list" where
  "sleep_tick threshold now s =
    (case fst s of
       None \<Rightarrow> (Some now, snd s)
     | Some last' \<Rightarrow>
       let gap = instant_Sub now last'
       in if gap < threshold then (Some now, snd s)
          else (Some now, if length (snd s) < 4 then snd s @ [\<lparr>se_DetectedAt = now, se_Gap = gap\<rparr>] else snd s))"

definition runSleepDetector :: "dur \<Rightarrow> instant list \<Rightarrow> instant option \<times> SleepEvent list" where
  "runSleepDetector threshold ticks = fold (sleep_tick threshold) ticks (None, [])"

definition StartSleepDetector :: "dur \<Rightarrow> instant list \<Rightarrow> instant option \<times> SleepEvent list" where
  "StartSleepDetector interval ticks =
    (let interval' = (if interval \<le> 0 then 30 * Second else interval) in runSleepDetector (2 * interval') ticks)"

text \<open>The goroutine of startWakeDetector takes an event from the channel and sets the flag that wake\_Take clears.\<close>

definition drain_wake :: "SleepEvent list \<times> bool \<Rightarrow> SleepEvent list \<times> bool" where
  "drain_wake s = (case fst s of [] \<Rightarrow> s | e # es \<Rightarrow> (es, True))"

section \<open>The daemon's use of tracker and log\<close>

text \<open>
  What the daemon does with them while it runs: an activity hint is forwarded (forwardActivityToHealth), a rescan has been applied
  (Reset and RecordRescan of the applier). Nothing else writes them; MarkOverflow and MarkWatchLimitHit have no caller.
\<close>

datatype daemon_op = Delivered string gotime | Rescanned string gotime

fun daemon_step :: "daemon_op \<Rightarrow> health \<times> rescanLog \<Rightarrow> health \<times> rescanLog" where
  "daemon_step (Delivered root at) (h, r) = (MarkEventDelivered root at h, r)"
| "daemon_step (Rescanned path at) (h, r) = (wh_Reset path h, RecordRescan path at r)"

definition daemon_start :: "(string \<Rightarrow> int option) \<Rightarrow> string list \<Rightarrow> gotime \<Rightarrow> health \<times> rescanLog" where
  "daemon_start statfs roots at = (startWatchHealth statfs roots, rescan_seed roots at newRescanLog)"

definition daemon_run :: "(string \<Rightarrow> int option) \<Rightarrow> string list \<Rightarrow> gotime \<Rightarrow> daemon_op list \<Rightarrow> health \<times> rescanLog" where
  "daemon_run statfs roots at ops = fold daemon_step ops (daemon_start statfs roots at)"

text \<open>When a path was last rescanned: by an operation, or at the start by the seed.\<close>

fun rescan_time :: "string \<Rightarrow> daemon_op \<Rightarrow> gotime option \<Rightarrow> gotime option" where
  "rescan_time p (Delivered root at) t = t"
| "rescan_time p (Rescanned path at) t = (if path = p then Some at else t)"

definition last_rescan :: "string list \<Rightarrow> gotime \<Rightarrow> daemon_op list \<Rightarrow> string \<Rightarrow> gotime option" where
  "last_rescan roots at ops p = fold (rescan_time p) ops (if p \<in> set roots then Some at else None)"

lemma startWatchHealth_eq:
  "(\<exists>at. startWatchHealth statfs roots p = Some \<lparr>ws_Path = p, ws_FilesystemType = snd (detectFilesystem statfs p),
      ws_Kind = fst (detectFilesystem statfs p), ws_OverflowSeen = False, ws_WatchLimitHit = False, ws_LastReliableEventAt = at\<rparr>) \<longleftrightarrow> p \<in> set roots"
  "p \<notin> set roots \<Longrightarrow> startWatchHealth statfs roots p = None"
proof -
  let ?s = "\<lambda>p. \<lparr>ws_Path = p, ws_FilesystemType = snd (detectFilesystem statfs p), ws_Kind = fst (detectFilesystem statfs p),
      ws_OverflowSeen = False, ws_WatchLimitHit = False, ws_LastReliableEventAt = 0\<rparr>"
  have step: "snd (Register statfs root t) = t(root \<mapsto> ?s root)" if "t root = None \<or> t root = Some (?s root)" for root t
    using that by (auto simp: Register_def Let_def split: prod.splits)
  have "foldl (\<lambda>t root. snd (Register statfs root t)) t roots = (\<lambda>p. if p \<in> set roots then Some (?s p) else t p)"
    if "\<And>p. t p = None \<or> t p = Some (?s p)" for t
    using that
  proof (induction roots arbitrary: t)
    case (Cons root roots)
    have "foldl (\<lambda>t root. snd (Register statfs root t)) (t(root \<mapsto> ?s root)) roots =
        (\<lambda>p. if p \<in> set roots then Some (?s p) else (t(root \<mapsto> ?s root)) p)"
      using Cons.prems by (intro Cons.IH) auto
    then show ?case using step[where t = t and root = root] Cons.prems[of root] by auto
  qed simp
  then have "startWatchHealth statfs roots = (\<lambda>p. if p \<in> set roots then Some (?s p) else None)"
    by (simp add: startWatchHealth_def wh_New_def)
  then show "(\<exists>at. startWatchHealth statfs roots p = Some \<lparr>ws_Path = p, ws_FilesystemType = snd (detectFilesystem statfs p),
      ws_Kind = fst (detectFilesystem statfs p), ws_OverflowSeen = False, ws_WatchLimitHit = False, ws_LastReliableEventAt = at\<rparr>) \<longleftrightarrow> p \<in> set roots"
    "p \<notin> set roots \<Longrightarrow> startWatchHealth statfs roots p = None" by auto
qed

lemma rescan_seed_eq: "rescan_seed roots at r p = (if r p = None \<and> p \<in> set roots then Some at else r p)"
proof (induction roots arbitrary: r)
  case (Cons q roots)
  have "rescan_seed (q # roots) at r = rescan_seed roots at (if r q = None then r(q \<mapsto> at) else r)" by (simp add: rescan_seed_def)
  then show ?case using Cons.IH by auto
qed (simp add: rescan_seed_def)

text \<open>The flags are never raised and the classification stays, whatever the daemon does.\<close>

definition quiet_health :: "(string \<Rightarrow> int option) \<Rightarrow> string list \<Rightarrow> string \<Rightarrow> health \<Rightarrow> bool" where
  "quiet_health statfs roots p h \<longleftrightarrow>
    (case h p of None \<Rightarrow> p \<notin> set roots
     | Some s \<Rightarrow> p \<in> set roots \<and> ws_Kind s = fst (detectFilesystem statfs p) \<and> \<not> ws_OverflowSeen s \<and> \<not> ws_WatchLimitHit s)"

lemma daemon_run_inv:
  "quiet_health statfs roots p (fst (daemon_run statfs roots at ops)) \<and> snd (daemon_run statfs roots at ops) p = last_rescan roots at ops p"
proof (induction ops rule: rev_induct)
  case Nil
  have "quiet_health statfs roots p (startWatchHealth statfs roots)"
    using startWatchHealth_eq[where statfs = statfs and roots = roots and p = p] by (cases "p \<in> set roots") (auto simp: quiet_health_def split: option.split)
  then show ?case by (simp add: daemon_run_def daemon_start_def last_rescan_def rescan_seed_eq newRescanLog_def)
next
  case (snoc op ops)
  obtain h r where hr: "daemon_run statfs roots at ops = (h, r)" by fastforce
  then show ?case using snoc
    by (cases op) (auto simp: daemon_run_def last_rescan_def quiet_health_def MarkEventDelivered_def wh_Reset_def on_status_def RecordRescan_def
        split: option.splits if_splits)
qed



section \<open>Suspends\<close>

text \<open>
  The detector goes by the monotonic clock. If the ticks carry monotonic readings, as those of a ticker do, and successive ones are less than the
  threshold apart, no event is ever sent, however far the wall clock jumps: a suspend during which the
  monotonic clock stands still, as it does on Linux, is not noticed.
\<close>

theorem sleep_detector_sees_no_suspend:
  assumes "successively (\<lambda>t u. \<exists>a b. i_mono t = Some a \<and> i_mono u = Some b \<and> b - a < threshold) ticks" "minDur < threshold" "threshold \<le> maxDur"
  shows "snd (runSleepDetector threshold ticks) = []"
proof -
  have "snd (runSleepDetector threshold ticks) = [] \<and> fst (runSleepDetector threshold ticks) = (if ticks = [] then None else Some (last ticks))"
    using assms(1)
  proof (induction ticks rule: rev_induct)
    case (snoc u ticks)
    let ?P = "\<lambda>t u. \<exists>a b. i_mono t = Some a \<and> i_mono u = Some b \<and> b - a < threshold"
    have s: "successively ?P ticks" "ticks = [] \<or> ?P (last ticks) u" using snoc.prems by (auto simp: successively_append_iff)
    have run: "runSleepDetector threshold (ticks @ [u]) = sleep_tick threshold u (runSleepDetector threshold ticks)" by (simp add: runSleepDetector_def)
    have "instant_Sub u t < threshold" if "?P t u" for t
      using that assms(2,3) by (auto simp: instant_Sub_def time_Sub_def)
    then show ?case using snoc.IH[OF s(1)] s(2) unfolding run by (auto simp: sleep_tick_def Let_def)
  qed (simp add: runSleepDetector_def)
  then show ?thesis by simp
qed

text \<open>Eight hours of suspend between two ticks.\<close>

theorem sleep_detector_sees_no_suspend_witness:
  "snd (StartSleepDetector (30 * Second) [\<lparr>i_wall = 1, i_mono = Some 0\<rparr>, \<lparr>i_wall = 1 + 8 * Hour, i_mono = Some (30 * Second)\<rparr>]) = [] \<and>
   snd (StartSleepDetector (30 * Second) [\<lparr>i_wall = 1, i_mono = None\<rparr>, \<lparr>i_wall = 1 + 8 * Hour, i_mono = None\<rparr>]) \<noteq> []"
proof
  have "snd (runSleepDetector (60 * Second) [\<lparr>i_wall = 1, i_mono = Some 0\<rparr>, \<lparr>i_wall = 1 + 8 * Hour, i_mono = Some (30 * Second)\<rparr>]) = []"
    by (rule sleep_detector_sees_no_suspend) (simp_all add: dur_defs minDur_def maxDur_def)
  then show "snd (StartSleepDetector (30 * Second) [\<lparr>i_wall = 1, i_mono = Some 0\<rparr>, \<lparr>i_wall = 1 + 8 * Hour, i_mono = Some (30 * Second)\<rparr>]) = []"
    by (simp add: StartSleepDetector_def Second_def)
  show "snd (StartSleepDetector (30 * Second) [\<lparr>i_wall = 1, i_mono = None\<rparr>, \<lparr>i_wall = 1 + 8 * Hour, i_mono = None\<rparr>]) \<noteq> []"
    by (simp add: StartSleepDetector_def runSleepDetector_def sleep_tick_def instant_Sub_def time_Sub_def minDur_def maxDur_def dur_defs Let_def)
qed

end
