(* ===== verification/Activity.thy ===== *)
theory Activity
  imports Watch_Health
begin

text \<open>
  The moving parts of the daemon that decide when a pass runs and what it takes for activity: the activity tracker
  (internal/activity/tracker.go), the channel of its hints with its two readers (main.go, cmds\_v5.go), and the reconcile loop
  of startReconcileLoop with its debounced file events, as a step relation.
\<close>

section \<open>The activity tracker\<close>

text \<open>An event of fsnotify: its path and the operations it reports that the code asks for.\<close>

record fsevent =
  ev_Name :: string
  ev_Create :: bool
  ev_Write :: bool
  ev_Remove :: bool

record ActTracker =
  at_rootForPath :: "string \<Rightarrow> string option"
  at_lastSeen :: "string \<Rightarrow> gotime option"
  at_hints :: "string list"
  at_closed :: bool

definition hintsBuffer :: nat where "hintsBuffer = 16"

text \<open>\<open>add\<close> says where fsnotify's Add succeeds; the flag is whether addTree returns an error.\<close>

definition act_addTree :: "(string \<Rightarrow> bool) \<Rightarrow> wnode option \<Rightarrow> string \<Rightarrow> string \<Rightarrow> ActTracker \<Rightarrow> bool \<times> ActTracker" where
  "act_addTree add tree path root t =
    (\<not> list_all add (addTree tree path),
     t\<lparr>at_rootForPath := foldl (\<lambda>m d. m(d \<mapsto> root)) (at_rootForPath t) (filter add (addTree tree path))\<rparr>)"

fun act_add_roots :: "(string \<Rightarrow> bool) \<Rightarrow> (string \<Rightarrow> wnode option) \<Rightarrow> gotime \<Rightarrow> string list \<Rightarrow> ActTracker \<Rightarrow> nat \<times> ActTracker" where
  "act_add_roots add tree now [] t = (0, t)"
| "act_add_roots add tree now (r # roots) t =
    (case act_addTree add (tree r) r r t of (err, t1) \<Rightarrow>
     case act_add_roots add tree now roots (t1\<lparr>at_lastSeen := (at_lastSeen t1)(r \<mapsto> now)\<rparr>) of (n, t2) \<Rightarrow>
       ((if err then 1 else 0) + n, t2))"

definition act_New :: "string \<Rightarrow> (string \<Rightarrow> bool) \<Rightarrow> (string \<Rightarrow> wnode option) \<Rightarrow> gotime \<Rightarrow> string list \<Rightarrow> ActTracker option" where
  "act_New cwd add tree now roots =
    (if roots = [] then None
     else case act_add_roots add tree now (map (path_Abs cwd) roots)
          \<lparr>at_rootForPath = (\<lambda>_. None), at_lastSeen = (\<lambda>_. None), at_hints = [], at_closed = False\<rparr> of
       (watchErrs, t) \<Rightarrow> if watchErrs = length roots then None else Some t)"

definition LastActivity :: "string \<Rightarrow> ActTracker \<Rightarrow> string \<Rightarrow> gotime option" where
  "LastActivity cwd t root = at_lastSeen t (path_Abs cwd root)"

definition rootOf :: "ActTracker \<Rightarrow> string \<Rightarrow> string" where
  "rootOf t dir = (case at_rootForPath t dir of None \<Rightarrow> '''' | Some r \<Rightarrow> r)"

definition pathHasSkipDir :: "string \<Rightarrow> bool" where
  "pathHasSkipDir path \<longleftrightarrow> list_ex (\<lambda>part. part \<in> set skipDirs) (str_Split slash path)"

text \<open>The two halves of handleEvent. \<open>isdir\<close> is what Lstat says of the new entry.\<close>

definition act_watch_new :: "(string \<Rightarrow> bool) \<Rightarrow> (string \<Rightarrow> wnode option) \<Rightarrow> (string \<Rightarrow> bool) \<Rightarrow> fsevent \<Rightarrow> ActTracker \<Rightarrow> ActTracker" where
  "act_watch_new add tree isdir ev t =
    (if ev_Create ev \<and> isdir (ev_Name ev) \<and> path_Base (ev_Name ev) \<notin> set skipDirs then
       let root = rootOf t (path_Dir (ev_Name ev))
       in if root \<noteq> '''' then snd (act_addTree add (tree (ev_Name ev)) (ev_Name ev) root t) else t
     else t)"

definition act_note :: "gotime \<Rightarrow> fsevent \<Rightarrow> ActTracker \<Rightarrow> ActTracker" where
  "act_note now ev t =
    (if \<not> ev_Write ev \<and> \<not> ev_Create ev \<and> \<not> ev_Remove ev then t
     else if pathHasSkipDir (ev_Name ev) then t
     else let root = rootOf t (path_Dir (ev_Name ev))
       in if root = '''' then t
          else t\<lparr>at_lastSeen := (at_lastSeen t)(root \<mapsto> now),
                 at_hints := (if length (at_hints t) < hintsBuffer then at_hints t @ [root] else at_hints t)\<rparr>)"

definition act_handleEvent :: "(string \<Rightarrow> bool) \<Rightarrow> (string \<Rightarrow> wnode option) \<Rightarrow> (string \<Rightarrow> bool) \<Rightarrow> gotime \<Rightarrow> fsevent \<Rightarrow> ActTracker \<Rightarrow> ActTracker" where
  "act_handleEvent add tree isdir now ev t = act_note now ev (act_watch_new add tree isdir ev t)"

definition act_Close :: "ActTracker \<Rightarrow> ActTracker" where
  "act_Close t = (if at_closed t then t else t\<lparr>at_closed := True\<rparr>)"

text \<open>The goroutine: events with the times at which they are handled.\<close>

definition act_run :: "(string \<Rightarrow> bool) \<Rightarrow> (string \<Rightarrow> wnode option) \<Rightarrow> (string \<Rightarrow> bool) \<Rightarrow> (gotime \<times> fsevent) list \<Rightarrow> ActTracker \<Rightarrow> ActTracker" where
  "act_run add tree isdir evs t = foldl (\<lambda>t e. act_handleEvent add tree isdir (fst e) (snd e) t) t evs"

section \<open>Activity and auto-pause\<close>

lemma act_watch_new_frame [simp]: "at_lastSeen (act_watch_new add tree isdir ev t) = at_lastSeen t"
  by (simp add: act_watch_new_def act_addTree_def Let_def)

lemma act_handleEvent_seen:
  "at_lastSeen (act_handleEvent add tree isdir now ev t) r = at_lastSeen t r \<or> at_lastSeen (act_handleEvent add tree isdir now ev t) r = Some now"
  by (simp add: act_handleEvent_def act_note_def Let_def)

lemma act_run_seen:
  assumes "at_lastSeen t r = Some u" "from \<le> u" "list_all (\<lambda>e. from \<le> fst e) evs"
  shows "\<exists>u. at_lastSeen (act_run add tree isdir evs t) r = Some u \<and> from \<le> u"
  using assms
proof (induction evs arbitrary: t u)
  case (Cons e evs)
  obtain u' where "at_lastSeen (act_handleEvent add tree isdir (fst e) (snd e) t) r = Some u'" "from \<le> u'"
    using act_handleEvent_seen[of add tree isdir "fst e" "snd e" t r] Cons.prems by auto
  from Cons.IH[OF this] Cons.prems(3) show ?case by (simp add: act_run_def)
qed (simp add: act_run_def)

text \<open>
  C23: A folder somebody works in is not paused. After an event in a directory the tracker has registered for a root,
  whatever else happens, no pass within the next 24 hours pauses the folder at that root, and
  a pass within a minute unpauses it if it was paused.
\<close>

theorem edits_keep_folder_running:
  assumes "rootOf (act_watch_new add tree isdir ev t) (path_Dir (ev_Name ev)) = root" "root \<noteq> ''''" "path_Abs cwd root = root"
    and "ev_Write ev \<or> ev_Create ev \<or> ev_Remove ev" "\<not> pathHasSkipDir (ev_Name ev)"
    and "list_all (\<lambda>e. at \<le> fst e \<and> fst e \<le> now) evs" "at \<le> now" "now - at < IdleThresholdForPause"
    and "t' = act_run add tree isdir evs (act_handleEvent add tree isdir at ev t)"
  shows "autoPauseAction obs root (LastActivity cwd t') now \<noteq> Some (PauseSyncthingFolder (fo_SyncthingFolderID obs)) \<and>
    (if fo_Paused obs \<and> now - at \<le> RecentActivityForUnpause
     then autoPauseAction obs root (LastActivity cwd t') now = Some (UnpauseSyncthingFolder (fo_SyncthingFolderID obs)) else True)"
proof -
  have "at_lastSeen (act_handleEvent add tree isdir at ev t) root = Some at"
    using assms(1,2,4,5) by (auto simp: act_handleEvent_def act_note_def Let_def)
  moreover have "list_all (\<lambda>e. at \<le> fst e) evs" using assms(6) by (simp add: list_all_iff)
  ultimately obtain u where u: "at_lastSeen t' root = Some u" "at \<le> u" using act_run_seen[of _ root at at evs] assms(9) by blast
  have l: "LastActivity cwd t' root = Some u" using u(1) assms(3) by (simp add: LastActivity_def)
  have "now - u \<le> now - at" using u(2) by simp
  then show ?thesis using assms(8) l
    by (auto simp: autoPauseAction_def IdleThresholdForPause_def RecentActivityForUnpause_def time_Sub_def minDur_def maxDur_def dur_defs)
qed

definition demo_tree :: "string \<Rightarrow> wnode option" where
  "demo_tree p = (if p = ''/h'' then Some (WDir (Some [(''d'', WDir (Some [(''f'', WReg)]))]))
     else if p = ''/h/d'' then Some (WDir (Some [(''f'', WReg)])) else None)"

definition demo_edit :: fsevent where
  "demo_edit = \<lparr>ev_Name = ''/h/d/f'', ev_Create = False, ev_Write = True, ev_Remove = False\<rparr>"

theorem edits_keep_folder_running_witness:
  "\<exists>t. act_New ''/'' (\<lambda>_. True) demo_tree 1 [''/h''] = Some t \<and>
     autoPauseAction ((demo_folder ''id'' ''/h'')\<lparr>fo_Paused := True\<rparr>) ''/h''
       (LastActivity ''/'' (act_handleEvent (\<lambda>_. True) demo_tree (\<lambda>_. False) (30 * Hour) demo_edit t)) (30 * Hour + Second) =
     Some (UnpauseSyncthingFolder ''id'')"
proof -
  obtain t where t: "act_New ''/'' (\<lambda>_. True) demo_tree 1 [''/h''] = Some t" "rootOf t ''/h/d'' = ''/h''"
  proof -
    have "map_option (\<lambda>t. rootOf t ''/h/d'') (act_New ''/'' (\<lambda>_. True) demo_tree 1 [''/h'']) = Some ''/h''" by code_simp
    then show ?thesis using that by blast
  qed
  have d: "path_Dir (ev_Name demo_edit) = ''/h/d''" "\<not> pathHasSkipDir (ev_Name demo_edit)" "path_Abs ''/'' ''/h'' = ''/h''" by code_simp+
  have n: "act_watch_new (\<lambda>_. True) demo_tree (\<lambda>_. False) demo_edit t = t" by (simp add: act_watch_new_def demo_edit_def)
  have e: "ev_Write demo_edit \<or> ev_Create demo_edit \<or> ev_Remove demo_edit" by (simp add: demo_edit_def)
  let ?obs = "(demo_folder ''id'' ''/h'')\<lparr>fo_Paused := True\<rparr>"
  have r: "rootOf (act_watch_new (\<lambda>_. True) demo_tree (\<lambda>_. False) demo_edit t) (path_Dir (ev_Name demo_edit)) = ''/h''"
    unfolding n d(1) by (rule t(2))
  have w: "30 * Hour \<le> 30 * Hour + Second" "30 * Hour + Second - 30 * Hour < IdleThresholdForPause"
    by (simp_all add: dur_defs IdleThresholdForPause_def)
  have "autoPauseAction ?obs ''/h'' (LastActivity ''/'' (act_handleEvent (\<lambda>_. True) demo_tree (\<lambda>_. False) (30 * Hour) demo_edit t)) (30 * Hour + Second) =
      Some (UnpauseSyncthingFolder ''id'')"
    using edits_keep_folder_running[OF r _ d(3) e d(2) _ w refl, of "[]" ?obs]
    by (simp add: act_run_def demo_folder_def dur_defs RecentActivityForUnpause_def)
  then show ?thesis using t(1) by blast
qed

text \<open>
  With one managed root inside another, the directories of the inner one belong to whichever root was registered last: an edit in the
  inner folder counts for the outer one only, and the inner folder is paused a day after the start though it was edited a second ago.
\<close>

theorem nested_root_is_paused_while_edited:
  "map_option (\<lambda>t. autoPauseAction (demo_folder ''id'' ''/h/d'') ''/h/d''
      (LastActivity ''/'' (act_handleEvent (\<lambda>_. True) demo_tree (\<lambda>_. False) (30 * Hour) demo_edit t)) (30 * Hour + Second))
    (act_New ''/'' (\<lambda>_. True) demo_tree 1 [''/h/d'', ''/h'']) = Some (Some (PauseSyncthingFolder ''id''))"
  by code_simp

section \<open>The channel of hints and its two readers\<close>

text \<open>
  The tracker sends into one channel; forwardActivityToHealth and forwardActivityHintsToReconcile both receive from it. A hint
  the first one takes is a MarkEventDelivered, a hint the second one takes a touch of machine.toml.
\<close>

record hints =
  h_queue :: "string list"
  h_marks :: "string list"
  h_touches :: "string list"
  h_dropped :: "string list"

definition no_hints :: hints where
  "no_hints = \<lparr>h_queue = [], h_marks = [], h_touches = [], h_dropped = []\<rparr>"

inductive hint_step :: "string option \<Rightarrow> hints \<Rightarrow> hints \<Rightarrow> bool" where
  send: "length (h_queue s) < hintsBuffer \<Longrightarrow> hint_step (Some root) s (s\<lparr>h_queue := h_queue s @ [root]\<rparr>)"
| drop: "length (h_queue s) = hintsBuffer \<Longrightarrow> hint_step (Some root) s (s\<lparr>h_dropped := h_dropped s @ [root]\<rparr>)"
| to_health: "h_queue s = root # q \<Longrightarrow> hint_step None s (s\<lparr>h_queue := q, h_marks := h_marks s @ [root]\<rparr>)"
| to_reconcile: "h_queue s = root # q \<Longrightarrow> hint_step None s (s\<lparr>h_queue := q, h_touches := h_touches s @ [root]\<rparr>)"

inductive_cases hint_stepE: "hint_step l s s'"

text \<open>The roots sent, and what has become of the channel.\<close>

inductive hint_run :: "string list \<Rightarrow> hints \<Rightarrow> bool" where
  start: "hint_run [] no_hints"
| step: "hint_run sent s \<Longrightarrow> hint_step l s s' \<Longrightarrow> hint_run (sent @ (case l of None \<Rightarrow> [] | Some r \<Rightarrow> [r])) s'"

text \<open>
  Every hint goes to one reader only. At any time the hints sent are, each exactly once, those still in the channel, those the health
  tracker got, those that touched machine.toml and those dropped because the channel was full; so a hint that
  reaches the health tracker does not wake the reconciler.
\<close>

theorem each_hint_has_one_reader:
  assumes "hint_run sent s"
  shows "mset sent = mset (h_queue s) + mset (h_marks s) + mset (h_touches s) + mset (h_dropped s) \<and> length (h_queue s) \<le> hintsBuffer"
  using assms
proof (induction rule: hint_run.induct)
  case (step sent s l s')
  from step.hyps(2) step.IH show ?case by (cases rule: hint_stepE) auto
qed (simp add: no_hints_def)

theorem each_hint_has_one_reader_witness:
  "\<exists>s. hint_run [''/r''] s \<and> h_marks s = [''/r''] \<and> h_touches s = [] \<and> h_queue s = []"
proof -
  let ?s1 = "no_hints\<lparr>h_queue := h_queue no_hints @ [''/r'']\<rparr>"
  have "hint_run ([] @ [''/r'']) ?s1"
    using hint_run.step[OF hint_run.start send[of no_hints "''/r''"]] by (simp add: no_hints_def hintsBuffer_def)
  moreover have "hint_step None ?s1 (?s1\<lparr>h_queue := [], h_marks := h_marks ?s1 @ [''/r'']\<rparr>)"
    by (rule to_health) (simp add: no_hints_def)
  ultimately have r: "hint_run [''/r''] (?s1\<lparr>h_queue := [], h_marks := h_marks ?s1 @ [''/r'']\<rparr>)"
    using hint_run.step[of "[''/r'']" ?s1 None] by simp
  from each_hint_has_one_reader[OF r] have "h_touches (?s1\<lparr>h_queue := [], h_marks := h_marks ?s1 @ [''/r'']\<rparr>) = []" by (simp add: no_hints_def)
  then show ?thesis using r by (intro exI[of _ "?s1\<lparr>h_queue := [], h_marks := h_marks ?s1 @ [''/r'']\<rparr>"]) (simp add: no_hints_def)
qed

section \<open>The reconcile loop\<close>

text \<open>
  The single-slot channel of pending triggers, whether the worker is in a pass, and the debounce timer with the reason it will give.
  \<open>lp_stimuli\<close> counts the triggers and relevant file events so far, \<open>lp_covered\<close> how many there had been when the last pass began; the
  program does not have these two.
\<close>

record loop =
  lp_now :: gotime
  lp_pending :: "string option"
  lp_busy :: bool
  lp_timer :: "(gotime \<times> string) option"
  lp_stimuli :: nat
  lp_covered :: nat

definition requestReconcile :: "string \<Rightarrow> loop \<Rightarrow> loop" where
  "requestReconcile reason s = (case lp_pending s of None \<Rightarrow> s\<lparr>lp_pending := Some reason\<rparr> | Some _ \<Rightarrow> s)"

text \<open>The second half of handleFsnotifyEvent; the first one adds watches.\<close>

definition relevant :: "string \<Rightarrow> bool" where
  "relevant name \<longleftrightarrow> path_Base name \<in> {RepoConfigFileName, ''machine.toml'', ''state.toml''}"

definition handleFsnotifyEvent :: "string \<Rightarrow> loop \<Rightarrow> loop" where
  "handleFsnotifyEvent name s =
    (if \<not> relevant name then s
     else s\<lparr>lp_timer := Some (lp_now s + Second, ''fsnotify:'' @ name), lp_stimuli := lp_stimuli s + 1\<rparr>)"

definition loop_start :: "gotime \<Rightarrow> loop" where
  "loop_start now = requestReconcile ''initial''
    \<lparr>lp_now = now, lp_pending = None, lp_busy = False, lp_timer = None, lp_stimuli = 1, lp_covered = 0\<rparr>"

text \<open>What the loop does by itself: the timer fires, the worker takes a trigger, a pass ends (with or without an error), time passes up to the timer.\<close>

inductive loop_internal :: "loop \<Rightarrow> loop \<Rightarrow> bool" where
  fire: "lp_timer s = Some (d, reason) \<Longrightarrow> d \<le> lp_now s \<Longrightarrow> loop_internal s (requestReconcile reason (s\<lparr>lp_timer := None\<rparr>))"
| take_pending: "lp_pending s = Some reason \<Longrightarrow> \<not> lp_busy s \<Longrightarrow>
    loop_internal s (s\<lparr>lp_pending := None, lp_busy := True, lp_covered := lp_stimuli s\<rparr>)"
| finish: "lp_busy s \<Longrightarrow> loop_internal s (s\<lparr>lp_busy := False\<rparr>)"
| wait: "lp_now s \<le> t \<Longrightarrow> (case lp_timer s of None \<Rightarrow> True | Some (d, _) \<Rightarrow> t \<le> max d (lp_now s)) \<Longrightarrow> loop_internal s (s\<lparr>lp_now := t\<rparr>)"

text \<open>What comes from outside: a tick of the interval timer, a file event.\<close>

inductive loop_step :: "loop \<Rightarrow> loop \<Rightarrow> bool" where
  internal: "loop_internal s s' \<Longrightarrow> loop_step s s'"
| tick: "loop_step s (requestReconcile ''timer'' (s\<lparr>lp_stimuli := lp_stimuli s + 1\<rparr>))"
| event: "loop_step s (handleFsnotifyEvent name s)"

inductive_cases loop_internalE: "loop_internal s s'"
inductive_cases loop_stepE: "loop_step s s'"

definition loop_ok :: "loop \<Rightarrow> bool" where
  "loop_ok s \<longleftrightarrow> lp_covered s \<le> lp_stimuli s \<and> (lp_covered s < lp_stimuli s \<longrightarrow> lp_pending s \<noteq> None \<or> lp_timer s \<noteq> None) \<and>
     (\<forall>d r. lp_timer s = Some (d, r) \<longrightarrow> d \<le> lp_now s + Second)"

lemma requestReconcile_simps [simp]:
  "lp_pending (requestReconcile r s) \<noteq> None" "lp_timer (requestReconcile r s) = lp_timer s" "lp_now (requestReconcile r s) = lp_now s"
  "lp_stimuli (requestReconcile r s) = lp_stimuli s" "lp_covered (requestReconcile r s) = lp_covered s" "lp_busy (requestReconcile r s) = lp_busy s"
  by (simp_all add: requestReconcile_def split: option.split)

lemma loop_ok_start: "loop_ok (loop_start now)"
  by (auto simp: loop_ok_def loop_start_def)

lemma loop_ok_internal: "loop_internal s s' \<Longrightarrow> loop_ok s \<Longrightarrow> loop_ok s'"
  by (erule loop_internalE) (auto simp: loop_ok_def)

lemma loop_ok_step: "loop_step s s' \<Longrightarrow> loop_ok s \<Longrightarrow> loop_ok s'"
proof (erule loop_stepE)
  show "loop_internal s s' \<Longrightarrow> loop_ok s \<Longrightarrow> loop_ok s'" by (rule loop_ok_internal)
qed (auto simp: loop_ok_def handleFsnotifyEvent_def)

lemma loop_ok_reachable: "loop_step\<^sup>*\<^sup>* (loop_start now) s \<Longrightarrow> loop_ok s"
  by (induction rule: rtranclp_induct) (auto intro: loop_ok_start loop_ok_step)

text \<open>With a trigger pending, the pass that runs ends and the next one covers everything.\<close>

lemma pending_served:
  assumes "lp_pending s \<noteq> None"
  shows "\<exists>s'. loop_internal\<^sup>*\<^sup>* s s' \<and> lp_covered s' = lp_stimuli s \<and> lp_stimuli s' = lp_stimuli s \<and> lp_now s' = lp_now s"
proof -
  let ?s = "s\<lparr>lp_busy := False\<rparr>"
  have 1: "loop_internal\<^sup>*\<^sup>* s ?s"
  proof (cases "lp_busy s")
    case True
    then show ?thesis using finish by blast
  next
    case False
    then have "?s = s" by (cases s) simp
    then show ?thesis by simp
  qed
  obtain r where "lp_pending ?s = Some r" using assms by auto
  then have "loop_internal ?s (?s\<lparr>lp_pending := None, lp_busy := True, lp_covered := lp_stimuli ?s\<rparr>)" by (rule take_pending) simp
  with 1 have "loop_internal\<^sup>*\<^sup>* s (?s\<lparr>lp_pending := None, lp_busy := True, lp_covered := lp_stimuli ?s\<rparr>)" by (rule rtranclp.rtrancl_into_rtrancl)
  then show ?thesis by (intro exI conjI) (assumption | simp)+
qed



section \<open>The conflict watcher\<close>

text \<open>The watcher of internal/conflict/watcher.go: its registered directories and its two channels; an error is the path it is about.\<close>

record cwatcher =
  cw_dirs :: "string list"
  cw_events :: "Conflict list"
  cw_errs :: "string list"
  cw_closed :: bool

definition eventBufferSize :: nat where "eventBufferSize = 64"
definition errBufferSize :: nat where "errBufferSize = 16"

definition cw_error :: "string \<Rightarrow> cwatcher \<Rightarrow> cwatcher" where
  "cw_error p w = (if length (cw_errs w) < errBufferSize then w\<lparr>cw_errs := cw_errs w @ [p]\<rparr> else w)"

definition cw_addTree :: "(string \<Rightarrow> bool) \<Rightarrow> wnode option \<Rightarrow> string \<Rightarrow> cwatcher \<Rightarrow> bool \<times> cwatcher" where
  "cw_addTree add tree path w =
    (\<not> list_all add (addTree tree path) \<or> tree = None, w\<lparr>cw_dirs := cw_dirs w @ filter add (addTree tree path)\<rparr>)"

fun cw_add_roots :: "(string \<Rightarrow> bool) \<Rightarrow> (string \<Rightarrow> wnode option) \<Rightarrow> string list \<Rightarrow> cwatcher \<Rightarrow> nat \<times> cwatcher" where
  "cw_add_roots add tree [] w = (0, w)"
| "cw_add_roots add tree (r # roots) w =
    (case cw_addTree add (tree r) r w of (err, w1) \<Rightarrow>
     case cw_add_roots add tree roots w1 of (n, w2) \<Rightarrow> ((if err then 1 else 0) + n, w2))"

definition cw_New :: "string \<Rightarrow> (string \<Rightarrow> bool) \<Rightarrow> (string \<Rightarrow> wnode option) \<Rightarrow> string list \<Rightarrow> cwatcher option" where
  "cw_New cwd add tree roots =
    (if roots = [] then None
     else case cw_add_roots add tree (map (path_Abs cwd) roots) \<lparr>cw_dirs = [], cw_events = [], cw_errs = [], cw_closed = False\<rparr> of
       (watchErrs, w) \<Rightarrow> if watchErrs = length roots then None else Some w)"

definition cw_Close :: "cwatcher \<Rightarrow> cwatcher" where
  "cw_Close w = (if cw_closed w then w else w\<lparr>cw_closed := True\<rparr>)"

text \<open>The conflict an event announces, if it does.\<close>

definition announced :: "string \<Rightarrow> fsevent \<Rightarrow> Conflict option" where
  "announced cwd ev =
    (if \<not> ev_Create ev \<and> \<not> ev_Write ev then None
     else case Parse (path_Base (ev_Name ev)) of Inl _ \<Rightarrow> None | Inr c \<Rightarrow> Some (c\<lparr>cf_Path := path_Abs cwd (ev_Name ev)\<rparr>))"

definition cw_watch_new :: "(string \<Rightarrow> bool) \<Rightarrow> (string \<Rightarrow> wnode option) \<Rightarrow> (string \<Rightarrow> bool) \<Rightarrow> fsevent \<Rightarrow> cwatcher \<Rightarrow> cwatcher" where
  "cw_watch_new add tree isdir ev w =
    (if ev_Create ev \<and> isdir (ev_Name ev) \<and> path_Base (ev_Name ev) \<notin> set skipDirs
     then case cw_addTree add (tree (ev_Name ev)) (ev_Name ev) w of (err, w') \<Rightarrow> if err then cw_error (ev_Name ev) w' else w'
     else w)"

definition cw_emit :: "string \<Rightarrow> fsevent \<Rightarrow> cwatcher \<Rightarrow> cwatcher" where
  "cw_emit cwd ev w =
    (case announced cwd ev of None \<Rightarrow> w
     | Some c \<Rightarrow> if length (cw_events w) < eventBufferSize then w\<lparr>cw_events := cw_events w @ [c]\<rparr> else cw_error (cf_Path c) w)"

definition cw_handleEvent :: "string \<Rightarrow> (string \<Rightarrow> bool) \<Rightarrow> (string \<Rightarrow> wnode option) \<Rightarrow> (string \<Rightarrow> bool) \<Rightarrow> fsevent \<Rightarrow> cwatcher \<Rightarrow> cwatcher" where
  "cw_handleEvent cwd add tree isdir ev w = cw_emit cwd ev (cw_watch_new add tree isdir ev w)"

text \<open>The goroutine, without its consumer: events of fsnotify and errors of fsnotify.\<close>

definition cw_run :: "string \<Rightarrow> (string \<Rightarrow> bool) \<Rightarrow> (string \<Rightarrow> wnode option) \<Rightarrow> (string \<Rightarrow> bool) \<Rightarrow> (string + fsevent) list \<Rightarrow> cwatcher \<Rightarrow> cwatcher" where
  "cw_run cwd add tree isdir evs w =
    foldl (\<lambda>w e. case e of Inl p \<Rightarrow> cw_error p w | Inr ev \<Rightarrow> cw_handleEvent cwd add tree isdir ev w) w evs"

definition announcements :: "string \<Rightarrow> (string + fsevent) list \<Rightarrow> Conflict list" where
  "announcements cwd evs = List.map_filter (\<lambda>e. case e of Inl _ \<Rightarrow> None | Inr ev \<Rightarrow> announced cwd ev) evs"

lemma cw_frame [simp]: "cw_events (cw_error p w) = cw_events w" "cw_events (cw_watch_new add tree isdir ev w) = cw_events w"
  by (simp_all add: cw_error_def cw_watch_new_def cw_addTree_def)

text \<open>
  A burst that fits the buffer arrives whole and in order. Whatever else is watched or fails, as long as the conflicts waiting and those
  announced are no more than 64, the consumer finds all of them, in the order of the events; beyond, those that do not fit are dropped and none that
  waits is lost.
\<close>

theorem burst_arrives:
  "cw_events (cw_run cwd add tree isdir evs w) = cw_events w @ take (eventBufferSize - length (cw_events w)) (announcements cwd evs)"
proof (induction evs arbitrary: w)
  case (Cons e evs)
  let ?w = "case e of Inl p \<Rightarrow> cw_error p w | Inr ev \<Rightarrow> cw_handleEvent cwd add tree isdir ev w"
  have r: "cw_run cwd add tree isdir (e # evs) w = cw_run cwd add tree isdir evs ?w" by (simp add: cw_run_def)
  have a: "announcements cwd (e # evs) = (case e of Inl _ \<Rightarrow> [] | Inr ev \<Rightarrow> (case announced cwd ev of None \<Rightarrow> [] | Some c \<Rightarrow> [c])) @ announcements cwd evs"
    by (simp add: announcements_def map_filter_simps split: sum.split option.split)
  have w: "cw_events ?w = cw_events w @ take (eventBufferSize - length (cw_events w))
      (case e of Inl _ \<Rightarrow> [] | Inr ev \<Rightarrow> (case announced cwd ev of None \<Rightarrow> [] | Some c \<Rightarrow> [c]))"
    by (simp add: cw_handleEvent_def cw_emit_def split: sum.split option.split)
  show ?case unfolding r a Cons.IH w by (cases e) (auto split: option.split simp: take_Cons' min_def)
qed (simp add: cw_run_def announcements_def map_filter_simps)

end
