(* ===== verification/Doctor.thy ===== *)
theory Doctor
  imports Conflict Commands
begin

text \<open>
  The two reports: \<open>dotkeeper doctor\<close> (internal/doctor) and \<open>dotkeeper health\<close> (cmd/dotkeeper/health.go). A check is modelled
  by its outcome with the lists and counts it prints; the sentences made of them are in Doctor\_Text and Report\_Text. Loaders, the client and git are arguments, with
  the answers they give. A sum is an error or a value.
\<close>

section \<open>Doctor\<close>

datatype outcome = OK | Warn | Fail

fun outcome_String :: "outcome \<Rightarrow> string" where
  "outcome_String OK = ''ok''"
| "outcome_String Warn = ''warn''"
| "outcome_String Fail = ''fail''"

text \<open>A check: its own name and what it returns, a name (empty for its own) and an outcome. The exit code is the number of failures.\<close>

definition doctor_Run :: "(string \<times> (string \<times> outcome)) list \<Rightarrow> (string \<times> outcome) list \<times> nat" where
  "doctor_Run checks =
    (let results = map (\<lambda>(name, r). (if fst r = '''' then name else fst r, snd r)) checks
     in (results, length (filter (\<lambda>r. snd r = Fail) results)))"

definition countFailures :: "outcome list \<Rightarrow> nat" where "countFailures rs = length (filter (\<lambda>r. r = Fail) rs)"
definition countWarnings :: "outcome list \<Rightarrow> nat" where "countWarnings rs = length (filter (\<lambda>r. r = Warn) rs)"

definition ConfigCheck_Run :: "(unit + MachineConfigV2 option) \<Rightarrow> (unit + StateV2 option) \<Rightarrow> outcome" where
  "ConfigCheck_Run machine state =
    (case machine of Inl _ \<Rightarrow> Fail | Inr None \<Rightarrow> Fail
     | Inr (Some m) \<Rightarrow>
       (case state of Inl _ \<Rightarrow> Fail | Inr None \<Rightarrow> Fail
        | Inr (Some s) \<Rightarrow>
            if st_SyncthingDeviceID s = '''' then Fail
            else if dc_ScanRoots (mc_Discovery m) = [] then Warn
            else OK))"

definition mergedPeerEntries :: "MachineConfigV2 option \<Rightarrow> StateV2 option \<Rightarrow> PeerEntry list" where
  "mergedPeerEntries machine state =
    keep_first pe_DeviceID (\<lambda>p. pe_DeviceID p \<noteq> '''') {}
      ((case machine of None \<Rightarrow> [] | Some m \<Rightarrow> mc_Peers m) @ (case state of None \<Rightarrow> [] | Some s \<Rightarrow> st_Peers s))"

definition interpretSyncthingStatus :: "string \<Rightarrow> outcome" where
  "interpretSyncthingStatus active = (if active = ''active'' then OK else if active = ''failed'' then Fail else Warn)"

text \<open>The manager of the service: none, one that knows the state of the unit, or one that knows whether it runs.\<close>

datatype service_manager = NoManager | RichManager string | PlainManager bool

definition ServiceCheck_Run :: "service_manager \<Rightarrow> outcome" where
  "ServiceCheck_Run mgr =
    (case mgr of NoManager \<Rightarrow> Warn | RichManager active \<Rightarrow> interpretSyncthingStatus active | PlainManager running \<Rightarrow> if running then OK else Warn)"

text \<open>The client: None if there is none, and what its calls return.\<close>

record doctor_client =
  do_Ping :: bool
  do_Status :: "unit + string"
  do_Connections :: "unit + (string \<times> bool) list"
  do_Config :: "unit + jobj"
  do_FolderStatus :: "string \<Rightarrow> unit + string"

definition SyncthingAPICheck_Run :: "doctor_client option \<Rightarrow> outcome" where
  "SyncthingAPICheck_Run client = (case client of None \<Rightarrow> Fail | Some c \<Rightarrow> if do_Ping c then OK else Fail)"

text \<open>\<open>machine\<close> is None for a check without that loader; the lists are the names of the peers that are connected and offline.\<close>

definition PeersCheck_Run :: "doctor_client option \<Rightarrow> (unit + MachineConfigV2 option) option \<Rightarrow> (unit + StateV2 option) \<Rightarrow> outcome \<times> string list \<times> string list" where
  "PeersCheck_Run client machine state =
    (case client of None \<Rightarrow> (Fail, [], [])
     | Some c \<Rightarrow>
       (case (case machine of None \<Rightarrow> Inr None | Some r \<Rightarrow> r) of
          Inl _ \<Rightarrow> (Warn, [], [])
        | Inr m \<Rightarrow>
          (case state of
             Inl _ \<Rightarrow> (Warn, [], [])
           | Inr s \<Rightarrow>
               if m = None \<and> s = None then (Warn, [], [])
               else (case do_Status c of Inl _ \<Rightarrow> (Fail, [], [])
                | Inr myID \<Rightarrow>
                  (case do_Connections c of Inl _ \<Rightarrow> (Fail, [], [])
                   | Inr conns \<Rightarrow>
                       let expected = filter (\<lambda>p. pe_DeviceID p \<noteq> '''' \<and> pe_DeviceID p \<noteq> myID) (mergedPeerEntries m s);
                           connected = map pe_Name (filter (\<lambda>p. map_of conns (pe_DeviceID p) = Some True) expected);
                           offline = map pe_Name (filter (\<lambda>p. map_of conns (pe_DeviceID p) \<noteq> Some True) expected)
                       in if expected = [] then (OK, [], []) else if offline = [] then (OK, connected, []) else (Warn, connected, offline))))))"

datatype folder_class = FIdle | FSyncing | FScanning | FErrored | FStopped | FOther

definition classify_folder :: "unit + string \<Rightarrow> folder_class" where
  "classify_folder st =
    (case st of Inl _ \<Rightarrow> FErrored
     | Inr s \<Rightarrow>
         if s = ''idle'' then FIdle else if s = ''syncing'' then FSyncing
         else if s \<in> set [''scanning'', ''scan-waiting'', ''sync-waiting'', ''sync-preparing''] then FScanning
         else if s = ''error'' then FErrored else if s = ''stopped'' then FStopped else FOther)"

definition folder_classes :: "doctor_client \<Rightarrow> json list \<Rightarrow> folder_class list" where
  "folder_classes c rawFolders =
    map (\<lambda>i. classify_folder (do_FolderStatus c i)) (filter (\<lambda>i. i \<noteq> '''') (map (\<lambda>f. as_str (jget (as_obj f) ''id'')) rawFolders))"

definition class_count :: "folder_class \<Rightarrow> folder_class list \<Rightarrow> nat" where
  "class_count k ks = length (filter (\<lambda>x. x = k) ks)"

definition FoldersCheck_Run :: "doctor_client option \<Rightarrow> outcome" where
  "FoldersCheck_Run client =
    (case client of None \<Rightarrow> Fail
     | Some c \<Rightarrow>
       (case do_Config c of Inl _ \<Rightarrow> Fail
        | Inr cfg \<Rightarrow>
            let raw = as_arr (jget cfg ''folders''); ks = folder_classes c raw in
            if raw = [] then Warn
            else if class_count FErrored ks + class_count FStopped ks > 0 then Fail
            else if class_count FSyncing ks + class_count FScanning ks > 0 then Warn
            else OK))"

text \<open>git ls-remote of one repository: the path is missing, the run succeeded, or it failed with this output and error text, at the deadline or not.\<close>

datatype remote_result = PathMissing | RemoteOK | RemoteFailed string string bool

datatype remote_class = Reachable | TimedOut | AuthFailed | DnsFailed | OtherFailed

definition classify_remote :: "remote_result \<Rightarrow> remote_class" where
  "classify_remote r =
    (case r of RemoteOK \<Rightarrow> Reachable | PathMissing \<Rightarrow> OtherFailed
     | RemoteFailed out err timedOut \<Rightarrow>
         let lc = ToLower (out @ '' '' @ err) in
         if timedOut then TimedOut
         else if list_ex (str_Contains lc) [''permission denied'', ''authentication failed'', ''could not read username''] then AuthFailed
         else if list_ex (str_Contains lc) [''could not resolve host'', ''name or service not known''] then DnsFailed
         else OtherFailed)"

definition git_remote_paths :: "StateV2 \<Rightarrow> string list" where
  "git_remote_paths s =
    map fst (st_ObservedRepos s) @ filter (\<lambda>p. p \<notin> fst ` set (st_ObservedRepos s)) (st_TrackedOverrides s)"

definition GitRemotesCheck_Run :: "(unit + StateV2 option) \<Rightarrow> (string \<Rightarrow> remote_result) \<Rightarrow> outcome" where
  "GitRemotesCheck_Run state lsRemote =
    (case state of Inl _ \<Rightarrow> Warn | Inr None \<Rightarrow> Warn
     | Inr (Some s) \<Rightarrow>
         let ks = map (\<lambda>p. classify_remote (lsRemote p)) (git_remote_paths s) in
         if git_remote_paths s = [] then OK
         else if list_ex (\<lambda>k. k \<in> set [AuthFailed, DnsFailed, OtherFailed]) ks then Fail
         else if list_ex (\<lambda>k. k = TimedOut) ks then Warn
         else OK)"

definition isGitRepo :: "'w git \<Rightarrow> string \<Rightarrow> 'w \<Rightarrow> bool \<times> 'w" where
  "isGitRepo git repo w =
    (case runOutput git '''' [''-C'', repo, ''rev-parse'', ''--is-inside-work-tree''] w of
       (out, w') \<Rightarrow> (case out of None \<Rightarrow> False | Some s \<Rightarrow> TrimSpace s = ''true'', w'))"

text \<open>CombinedOutput; as elsewhere standard output before standard error.\<close>

definition listTrackedMetadata :: "'w git \<Rightarrow> string \<Rightarrow> string list \<Rightarrow> 'w \<Rightarrow> (unit + string list) \<times> 'w" where
  "listTrackedMetadata git repo patterns w =
    (case git '''' ([''-C'', repo, ''ls-files'', ''--''] @ patterns) w of
       ((ok, out, err), w') \<Rightarrow>
         (if \<not> ok then Inl ()
          else let lines = str_Split newline (TrimSpace (out @ err)) in Inr (if lines = [''''] then [] else lines), w'))"

text \<open>The folders with tracked metadata, those that could not be inspected, and the number inspected.\<close>

fun inspect_folders :: "'w git \<Rightarrow> string list \<Rightarrow> 'w \<Rightarrow> (string list \<times> string list \<times> nat) \<times> 'w" where
  "inspect_folders git [] w = (([], [], 0), w)"
| "inspect_folders git (r # roots) w =
    (if r = '''' then inspect_folders git roots w
     else case isGitRepo git r w of (repo, w1) \<Rightarrow>
       if \<not> repo then inspect_folders git roots w1
       else case listTrackedMetadata git r DefaultGitExcludePatterns w1 of (tracked, w2) \<Rightarrow>
            case inspect_folders git roots w2 of ((bad, errs, n), w3) \<Rightarrow>
              ((case tracked of Inl _ \<Rightarrow> (bad, path_Base r # errs, Suc n)
                | Inr ts \<Rightarrow> (if ts \<noteq> [] then path_Base r # bad else bad, errs, Suc n)), w3))"

definition LocalMetadataCheck_Run :: "'w git \<Rightarrow> string list \<Rightarrow> 'w \<Rightarrow> outcome \<times> 'w" where
  "LocalMetadataCheck_Run git roots w =
    (case inspect_folders git roots w of ((bad, errs, n), w') \<Rightarrow> (if bad \<noteq> [] then Fail else if errs \<noteq> [] then Warn else OK, w'))"

definition ConflictsCheck_Run :: "string list \<Rightarrow> (string \<Rightarrow> ioerr + Conflict list) \<Rightarrow> outcome \<times> nat" where
  "ConflictsCheck_Run roots scan =
    (let total = sum_list (map (\<lambda>r. case scan r of Inl _ \<Rightarrow> 0 | Inr found \<Rightarrow> length found) roots)
     in (if total = 0 then OK else Warn, total))"

section \<open>Health\<close>

record HealthRepos =
  hr_Total :: nat
  hr_FreshLast24h :: nat
  hr_StaleOneToSeven :: nat
  hr_StaleOverSeven :: nat
  hr_Idle :: nat
  hr_NeverBackedUp :: nat
  hr_OldestBackup :: "(string \<times> gotime) list"
  hr_NeverBackedNames :: "string list"
  hr_LaggingBackups :: "(string \<times> gotime \<times> gotime \<times> dur) list"

definition no_repos :: HealthRepos where
  "no_repos = \<lparr>hr_Total = 0, hr_FreshLast24h = 0, hr_StaleOneToSeven = 0, hr_StaleOverSeven = 0, hr_Idle = 0, hr_NeverBackedUp = 0,
     hr_OldestBackup = [], hr_NeverBackedNames = [], hr_LaggingBackups = []\<rparr>"

definition laggingGrace :: dur where "laggingGrace = 10 * Minute"

text \<open>gitMTimeProvider; 0 is the zero time. fmt.Sscanf of the digits is \<open>read_int\<close>.\<close>

definition gitMTimeProvider :: "(string \<Rightarrow> int option) \<Rightarrow> 'w git \<Rightarrow> string \<Rightarrow> 'w \<Rightarrow> gotime \<times> 'w" where
  "gitMTimeProvider read_int git path w =
    (case runOutput git '''' [''-C'', path, ''log'', ''-1'', ''--format=%ct''] w of
       (out, w') \<Rightarrow>
         (case out of None \<Rightarrow> 0
          | Some s \<Rightarrow> if TrimSpace s = '''' then 0 else (case read_int (TrimSpace s) of None \<Rightarrow> 0 | Some sec \<Rightarrow> sec * Second), w'))"

definition is_lagging :: "gotime \<Rightarrow> gotime \<Rightarrow> bool" where
  "is_lagging gitMTime backup \<longleftrightarrow> \<not> IsZero gitMTime \<and> time_Sub gitMTime backup > laggingGrace"

definition count_age :: "dur \<Rightarrow> bool \<Rightarrow> HealthRepos \<Rightarrow> HealthRepos" where
  "count_age age lagging r =
    (if age < 24 * Hour then r\<lparr>hr_FreshLast24h := hr_FreshLast24h r + 1\<rparr>
     else if age < 7 * 24 * Hour \<and> lagging then r\<lparr>hr_StaleOneToSeven := hr_StaleOneToSeven r + 1\<rparr>
     else if age \<ge> 7 * 24 * Hour \<and> lagging then r\<lparr>hr_StaleOverSeven := hr_StaleOverSeven r + 1\<rparr>
     else if age \<ge> 24 * Hour \<and> \<not> lagging then r\<lparr>hr_Idle := hr_Idle r + 1\<rparr>
     else r\<lparr>hr_StaleOneToSeven := hr_StaleOneToSeven r + 1\<rparr>)"

text \<open>One repository, in the order in which the map is ranged over; \<open>gitMTime\<close> is the provider.\<close>

definition summarise_repo :: "gotime \<Rightarrow> (string \<Rightarrow> gotime) \<Rightarrow> string \<times> ObservedRepo \<Rightarrow> HealthRepos \<Rightarrow> HealthRepos" where
  "summarise_repo now gitMTime x r =
    (case x of (path, obs) \<Rightarrow>
       let r1 = r\<lparr>hr_Total := hr_Total r + 1\<rparr> in
       if IsZero (or_LastBackupAt obs)
       then r1\<lparr>hr_NeverBackedUp := hr_NeverBackedUp r1 + 1, hr_NeverBackedNames := hr_NeverBackedNames r1 @ [path]\<rparr>
       else let at = or_LastBackupAt obs; mt = gitMTime path; lagging = is_lagging mt at;
                r2 = count_age (time_Sub now at) lagging (r1\<lparr>hr_OldestBackup := hr_OldestBackup r1 @ [(path, at)]\<rparr>)
            in if lagging then r2\<lparr>hr_LaggingBackups := hr_LaggingBackups r2 @ [(path, mt, at, time_Sub mt at)]\<rparr> else r2)"

text \<open>The lists are sorted at the end: the oldest five backups first, the names, the worst lag first.\<close>

definition summariseRepos :: "gotime \<Rightarrow> (string \<Rightarrow> gotime) \<Rightarrow> (string list \<Rightarrow> string list) \<Rightarrow> StateV2 \<Rightarrow> HealthRepos" where
  "summariseRepos now gitMTime sort_names state =
    (let r = foldl (\<lambda>r x. summarise_repo now gitMTime x r) no_repos (st_ObservedRepos state)
     in r\<lparr>hr_OldestBackup := take 5 (sort_key snd (hr_OldestBackup r)), hr_NeverBackedNames := sort_names (hr_NeverBackedNames r),
          hr_LaggingBackups := sort_key (\<lambda>l. - snd (snd (snd l))) (hr_LaggingBackups r)\<rparr>)"

record PeerLastSeen =
  pl_Name :: string
  pl_Since :: gotime
  pl_Age :: dur
  pl_DeviceID :: string

text \<open>\<open>live\<close> are the peers connected now with the time of the call, none on an error. Sorting by name is left to the caller.\<close>

definition summarisePeers :: "gotime \<Rightarrow> (string \<Rightarrow> gotime option) \<Rightarrow> MachineConfigV2 option \<Rightarrow> StateV2 option \<Rightarrow> nat \<times> PeerLastSeen list" where
  "summarisePeers now live machine state =
    (case machine of None \<Rightarrow> (0, [])
     | Some m \<Rightarrow>
        (length (mc_Peers m),
         map (\<lambda>p. let cache = (case state of None \<Rightarrow> [] | Some s \<Rightarrow> st_LastSeenPeers s);
                      when = (case live (pe_DeviceID p) of Some t \<Rightarrow> t
                              | None \<Rightarrow> (case map_of cache (pe_DeviceID p) of Some t \<Rightarrow> t | None \<Rightarrow> 0))
                  in \<lparr>pl_Name = pe_Name p, pl_Since = when, pl_Age = (if IsZero when then 0 else time_Sub now when), pl_DeviceID = pe_DeviceID p\<rparr>)
           (mc_Peers m)))"

text \<open>strings.Index and the scan of the log.\<close>

fun find_sub :: "string \<Rightarrow> string \<Rightarrow> string option" where
  "find_sub [] p = (if p = [] then Some [] else None)"
| "find_sub (c # s) p = (if HasPrefix (c # s) p then Some (drop (length p) (c # s)) else find_sub s p)"

definition dquote :: char where "dquote = CHR 0x22"

text \<open>What precedes the first quote that no backslash precedes; \<open>prev\<close> is the character before.\<close>

fun until_quote :: "bool \<Rightarrow> string \<Rightarrow> string option" where
  "until_quote esc [] = None"
| "until_quote esc (c # s) = (if c = dquote \<and> \<not> esc then Some [] else map_option ((#) c) (until_quote (c = CHR 0x5C) s))"

definition msg_marker :: string where "msg_marker = ''msg='' @ [dquote]"

definition extractMsgField :: "string \<Rightarrow> string" where
  "extractMsgField line =
    (case find_sub line msg_marker of None \<Rightarrow> ''''
     | Some rest \<Rightarrow> (case until_quote False rest of None \<Rightarrow> '''' | Some m \<Rightarrow> m))"

text \<open>\<open>parse\<close> is time.Parse of RFC 3339.\<close>

definition extractSlogTimestamp :: "(string \<Rightarrow> gotime option) \<Rightarrow> string \<Rightarrow> gotime option" where
  "extractSlogTimestamp parse line =
    (if \<not> HasPrefix line ''time='' then None
     else case IndexByte (drop 5 line) (CHR '' '') of None \<Rightarrow> None
       | Some e \<Rightarrow> if e = 0 then None else parse (take e (drop 5 line)))"

record RecentActivity =
  ra_ConflictResolved :: nat
  ra_PushFailures :: nat
  ra_WarnCount :: nat
  ra_ErrorCount :: nat
  ra_ErrorsLastHour :: nat
  ra_warnings :: "string \<Rightarrow> nat"
  ra_warningsLastHour :: "string \<Rightarrow> nat"

definition bump :: "bool \<Rightarrow> nat \<Rightarrow> nat" where "bump b n = (if b then n + 1 else n)"

definition scan_line :: "(string \<Rightarrow> gotime option) \<Rightarrow> gotime \<Rightarrow> RecentActivity \<Rightarrow> string \<Rightarrow> RecentActivity" where
  "scan_line parse now a line =
    (case extractSlogTimestamp parse line of None \<Rightarrow> a
     | Some ts \<Rightarrow>
         if ts < now - 24 * Hour then a
         else let recent = ts > now - 1 * Hour;
                  isErr = str_Contains line ''level=ERROR''; isWarn = \<not> isErr \<and> str_Contains line ''level=WARN''; msg = extractMsgField line;
                  w = isWarn \<and> msg \<noteq> '''' in
           a\<lparr>ra_ErrorCount := bump isErr (ra_ErrorCount a), ra_ErrorsLastHour := bump (isErr \<and> recent) (ra_ErrorsLastHour a),
             ra_WarnCount := bump isWarn (ra_WarnCount a),
             ra_warnings := (if w then (ra_warnings a)(msg := ra_warnings a msg + 1) else ra_warnings a),
             ra_warningsLastHour := (if w \<and> recent then (ra_warningsLastHour a)(msg := ra_warningsLastHour a msg + 1) else ra_warningsLastHour a),
             ra_ConflictResolved := bump (str_Contains line ''auto: resolve sync conflict'' \<or> str_Contains line (msg_marker @ ''resolved conflict'' @ [dquote])) (ra_ConflictResolved a),
             ra_PushFailures := bump (str_Contains line (msg_marker @ ''propagator: push failed'' @ [dquote])) (ra_PushFailures a)\<rparr>)"

definition logTailBytes :: nat where "logTailBytes = 4 * 2 ^ 20"

definition scanRecentActivity :: "(string \<Rightarrow> gotime option) \<Rightarrow> gotime \<Rightarrow> string option \<Rightarrow> RecentActivity option" where
  "scanRecentActivity parse now log =
    (case log of None \<Rightarrow> None
     | Some text \<Rightarrow> Some (foldl (scan_line parse now)
         \<lparr>ra_ConflictResolved = 0, ra_PushFailures = 0, ra_WarnCount = 0, ra_ErrorCount = 0, ra_ErrorsLastHour = 0, ra_warnings = (\<lambda>_. 0), ra_warningsLastHour = (\<lambda>_. 0)\<rparr>
         (filter (\<lambda>l. l \<noteq> '''') (str_Split newline (drop (length text - logTailBytes) text)))))"

text \<open>The kinds of warnings, by count and then by message; \<open>msgs\<close> are the keys of the map.\<close>

definition topNWarnings :: "(string \<Rightarrow> nat) \<Rightarrow> (string \<Rightarrow> nat) \<Rightarrow> (string list \<Rightarrow> string list) \<Rightarrow> string list \<Rightarrow> nat \<Rightarrow> (string \<times> nat \<times> nat) list" where
  "topNWarnings counts lastHour sort_names msgs n =
    take n (map (\<lambda>m. (m, counts m, lastHour m)) (sort_key (\<lambda>m. - int (counts m)) (sort_names msgs)))"

datatype degraded_reason = RecentErrors nat | PushesFail nat | BackupsLag nat | NeverBacked nat

definition degradedReasons :: "RecentActivity option \<Rightarrow> HealthRepos \<Rightarrow> degraded_reason list" where
  "degradedReasons act repos =
    (case act of None \<Rightarrow> []
     | Some a \<Rightarrow> (if ra_ErrorsLastHour a > 0 then [RecentErrors (ra_ErrorsLastHour a)] else []) @
                 (if ra_PushFailures a > 0 then [PushesFail (ra_PushFailures a)] else [])) @
    (if hr_LaggingBackups repos \<noteq> [] then [BackupsLag (length (hr_LaggingBackups repos))] else []) @
    (if hr_NeverBackedUp repos > 0 then [NeverBacked (hr_NeverBackedUp repos)] else [])"

definition degraded :: "RecentActivity option \<Rightarrow> HealthRepos \<Rightarrow> bool" where
  "degraded act repos \<longleftrightarrow> length (degradedReasons act repos) > 0"

text \<open>durationHuman, as the number and the unit.\<close>

definition durationHuman :: "dur \<Rightarrow> int \<times> char" where
  "durationHuman d =
    (if d < 0 then (- (- d div Second), CHR ''s'') else if d < Minute then (d div Second, CHR ''s'') else if d < Hour then (d div Minute, CHR ''m'')
     else if d < 24 * Hour then (d div Hour, CHR ''h'') else ((d div Hour) div 24, CHR ''d''))"

definition collectHealth :: "gotime \<Rightarrow> (string \<Rightarrow> gotime) \<Rightarrow> (string \<Rightarrow> gotime option) \<Rightarrow> (string list \<Rightarrow> string list) \<Rightarrow> (string \<Rightarrow> gotime option) \<Rightarrow>
    bool \<Rightarrow> string option \<Rightarrow> (unit + MachineConfigV2 option) \<Rightarrow> (unit + StateV2 option) \<Rightarrow> (HealthRepos \<times> (nat \<times> PeerLastSeen list) \<times> RecentActivity option) option" where
  "collectHealth now gitMTime live sort_names parse noLogScan log machine state =
    (case (machine, state) of
       (Inr m, Inr s) \<Rightarrow>
         Some (case s of None \<Rightarrow> no_repos | Some st \<Rightarrow> summariseRepos now gitMTime sort_names st,
               summarisePeers now live m s,
               if noLogScan then None else scanRecentActivity parse now log)
     | _ \<Rightarrow> None)"

section \<open>The rosters\<close>

interpretation doctor_peers: roster_merge
  "\<lambda>xs ys. keep_first pe_DeviceID (\<lambda>p. pe_DeviceID p \<noteq> '''') {} (xs @ ys)" pe_DeviceID "\<lambda>p. pe_DeviceID p \<noteq> ''''"
  by (rule roster_merge_keep_first)

lemma keep_first_map: "keep_first key ok S (map f xs) = map f (keep_first (key \<circ> f) (ok \<circ> f) S xs)"
  by (induction xs arbitrary: S) (auto simp: comp_def)

lemma map_keep_first: "map f (keep_first (key \<circ> f) (ok \<circ> f) S xs) = keep_first key ok S (map f xs)"
  by (simp add: keep_first_map)

text \<open>
  The doctor and the peer list see the same peers. For every configuration and state the roster the doctor checks is the one
  \<open>dotkeeper peer list\<close> shows, in the same order: one entry for each device identifier that occurs, machine.toml before
  state.toml.
\<close>

theorem doctor_roster_is_peer_list:
  "mergedPeerEntries (Some m) (Some s) = map snd (mergedPeersForDisplay (mc_Peers m) (st_Peers s)) \<and>
   distinct (map pe_DeviceID (mergedPeerEntries (Some m) (Some s))) \<and>
   pe_DeviceID ` set (mergedPeerEntries (Some m) (Some s)) = pe_DeviceID ` {p \<in> set (mc_Peers m) \<union> set (st_Peers s). pe_DeviceID p \<noteq> ''''}"
proof -
  let ?xs = "map (Pair ''machine'') (mc_Peers m) @ map (Pair ''state'') (st_Peers s)"
  have "map snd (keep_first (pe_DeviceID \<circ> snd) ((\<lambda>p. pe_DeviceID p \<noteq> '''') \<circ> snd) {} ?xs) = keep_first pe_DeviceID (\<lambda>p. pe_DeviceID p \<noteq> '''') {} (map snd ?xs)"
    by (rule map_keep_first)
  then have "map snd (mergedPeersForDisplay (mc_Peers m) (st_Peers s)) = mergedPeerEntries (Some m) (Some s)"
    by (simp add: mergedPeersForDisplay_def mergedPeerEntries_def comp_def)
  then show ?thesis
    using doctor_peers.merge_distinct[of "mc_Peers m" "st_Peers s"] doctor_peers.merge_covers[of "mc_Peers m" "st_Peers s"]
    by (simp add: mergedPeerEntries_def)
qed

section \<open>What the repositories' summary counts\<close>

text \<open>The four classes a repository with a backup is counted in, and the fifth.\<close>

definition in_class :: "gotime \<Rightarrow> (string \<Rightarrow> gotime) \<Rightarrow> (dur \<Rightarrow> bool \<Rightarrow> bool) \<Rightarrow> string \<times> ObservedRepo \<Rightarrow> bool" where
  "in_class now gitMTime k x \<longleftrightarrow> \<not> IsZero (or_LastBackupAt (snd x)) \<and>
     k (time_Sub now (or_LastBackupAt (snd x))) (is_lagging (gitMTime (fst x)) (or_LastBackupAt (snd x)))"

definition never_backed :: "string \<times> ObservedRepo \<Rightarrow> bool" where
  "never_backed x \<longleftrightarrow> IsZero (or_LastBackupAt (snd x))"

definition n_of :: "('a \<Rightarrow> bool) \<Rightarrow> 'a list \<Rightarrow> nat" where
  "n_of P xs = length (filter P xs)"

lemma n_of_simps [simp]: "n_of P [] = 0" "n_of P (xs @ [x]) = n_of P xs + (if P x then 1 else 0)"
  by (simp_all add: n_of_def)

lemma summarise_counts:
  "r = foldl (\<lambda>r x. summarise_repo now gitMTime x r) no_repos xs \<Longrightarrow>
   hr_Total r = length xs \<and> hr_NeverBackedUp r = n_of never_backed xs \<and> hr_NeverBackedNames r = map fst (filter never_backed xs) \<and>
   hr_FreshLast24h r = n_of (in_class now gitMTime (\<lambda>age _. age < 24 * Hour)) xs \<and>
   hr_StaleOneToSeven r = n_of (in_class now gitMTime (\<lambda>age lag. 24 * Hour \<le> age \<and> age < 7 * 24 * Hour \<and> lag)) xs \<and>
   hr_StaleOverSeven r = n_of (in_class now gitMTime (\<lambda>age lag. 7 * 24 * Hour \<le> age \<and> lag)) xs \<and>
   hr_Idle r = n_of (in_class now gitMTime (\<lambda>age lag. 24 * Hour \<le> age \<and> \<not> lag)) xs \<and>
   map fst (hr_LaggingBackups r) = map fst (filter (in_class now gitMTime (\<lambda>_ lag. lag)) xs)"
proof (induction xs arbitrary: r rule: rev_induct)
  case (snoc x xs)
  obtain path obs where x: "x = (path, obs)" by fastforce
  have h: "24 * Hour < 7 * 24 * Hour" by (simp add: dur_defs)
  show ?case using snoc.IH[OF refl] h unfolding snoc.prems foldl_append foldl.simps x
    by (simp add: summarise_repo_def count_age_def in_class_def never_backed_def Let_def not_less)
qed (simp add: no_repos_def)

lemma n_of_partition:
  "n_of (in_class now g (\<lambda>age _. age < 24 * Hour)) xs + n_of (in_class now g (\<lambda>age lag. 24 * Hour \<le> age \<and> age < 7 * 24 * Hour \<and> lag)) xs +
   n_of (in_class now g (\<lambda>age lag. 7 * 24 * Hour \<le> age \<and> lag)) xs + n_of (in_class now g (\<lambda>age lag. 24 * Hour \<le> age \<and> \<not> lag)) xs +
   n_of never_backed xs = length xs"
proof (induction xs)
  case (Cons x xs)
  have h: "24 * Hour < 7 * 24 * Hour" by (simp add: dur_defs)
  show ?case using Cons h by (auto simp: n_of_def in_class_def never_backed_def)
qed (simp add: n_of_def)

text \<open>
  Every repository is counted in exactly one class. Whatever the backups, commits and the clock are, the five counts
  (fresh, stale, very stale, idle, never backed up) add up to the number of repositories, and without a log the
  report is degraded exactly if some repository was never backed up or has a commit more than ten minutes newer than its backup.
\<close>

theorem health_classes_partition:
  "let r = summariseRepos now gitMTime sort_names state in
    hr_Total r = length (st_ObservedRepos state) \<and>
    hr_FreshLast24h r + hr_StaleOneToSeven r + hr_StaleOverSeven r + hr_Idle r + hr_NeverBackedUp r = hr_Total r \<and>
    (degraded None r \<longleftrightarrow> list_ex (\<lambda>x. never_backed x \<or> is_lagging (gitMTime (fst x)) (or_LastBackupAt (snd x))) (st_ObservedRepos state))"
proof -
  let ?xs = "st_ObservedRepos state"
  let ?r = "foldl (\<lambda>r x. summarise_repo now gitMTime x r) no_repos ?xs"
  let ?s = "summariseRepos now gitMTime sort_names state"
  note C = summarise_counts[OF refl, of now gitMTime ?xs]
  have f: "hr_Total ?s = hr_Total ?r" "hr_FreshLast24h ?s = hr_FreshLast24h ?r" "hr_StaleOneToSeven ?s = hr_StaleOneToSeven ?r"
    "hr_StaleOverSeven ?s = hr_StaleOverSeven ?r" "hr_Idle ?s = hr_Idle ?r" "hr_NeverBackedUp ?s = hr_NeverBackedUp ?r"
    "hr_LaggingBackups ?s = sort_key (\<lambda>l. - snd (snd (snd l))) (hr_LaggingBackups ?r)"
    by (simp_all add: summariseRepos_def Let_def)
  have l: "hr_LaggingBackups ?s = [] \<longleftrightarrow> filter (in_class now gitMTime (\<lambda>_ lag. lag)) ?xs = []"
    unfolding f(7) using C by (metis (no_types, lifting) map_is_Nil_conv set_empty2 set_sort)
  have "degraded None ?s \<longleftrightarrow> hr_LaggingBackups ?s \<noteq> [] \<or> hr_NeverBackedUp ?s > 0" by (simp add: degraded_def degradedReasons_def)
  also have "\<dots> \<longleftrightarrow> list_ex (\<lambda>x. never_backed x \<or> is_lagging (gitMTime (fst x)) (or_LastBackupAt (snd x))) ?xs"
    unfolding l f(6) using C by (auto simp: n_of_def filter_empty_conv list_ex_iff in_class_def never_backed_def)
  finally show ?thesis using C n_of_partition[of now gitMTime ?xs] f by (simp add: Let_def)
qed

section \<open>Reading the log\<close>

lemma until_quote_plain:
  "list_all (\<lambda>c. c \<noteq> dquote \<and> c \<noteq> CHR 0x5C) m \<Longrightarrow> \<not> esc \<Longrightarrow> until_quote esc (m @ dquote # rest) = Some m"
  by (induction m arbitrary: esc) auto

lemma find_sub_first:
  assumes "p \<noteq> ''''" "\<And>k. k < length a \<Longrightarrow> \<not> HasPrefix (drop k (a @ p @ b)) p"
  shows "find_sub (a @ p @ b) p = Some b"
  using assms(2)
proof (induction a)
  case Nil
  show ?case using assms(1) by (cases p) (auto simp: HasPrefix_def)
next
  case (Cons c a)
  have "\<not> HasPrefix (c # a @ p @ b) p" using Cons.prems[of 0] by simp
  moreover have "\<not> HasPrefix (drop k (a @ p @ b)) p" if "k < length a" for k using Cons.prems[of "Suc k"] that by simp
  ultimately show ?case using Cons.IH by simp
qed

text \<open>
  A message is read back from the line it was logged in. If it needs no escaping and nothing before it in the line looks like a message
  field, extractMsgField returns the message, whatever attributes follow.
\<close>

theorem log_message_roundtrip:
  assumes "list_all (\<lambda>c. c \<noteq> dquote \<and> c \<noteq> CHR 0x5C) msg"
    and "\<And>k. k < length before \<Longrightarrow> \<not> HasPrefix (drop k (before @ msg_marker @ msg @ [dquote] @ after)) msg_marker"
  shows "extractMsgField (before @ msg_marker @ msg @ [dquote] @ after) = msg"
proof -
  have "find_sub (before @ msg_marker @ (msg @ [dquote] @ after)) msg_marker = Some (msg @ [dquote] @ after)"
    using assms(2) by (intro find_sub_first) (simp_all add: msg_marker_def)
  then show ?thesis using until_quote_plain[OF assms(1), of False after] by (simp add: extractMsgField_def)
qed

theorem log_message_roundtrip_witness:
  "extractMsgField (''time=1 level=WARN '' @ msg_marker @ ''propagator: push failed'' @ [dquote] @ '' peer=lap'') = ''propagator: push failed''"
proof -
  let ?b = "''time=1 level=WARN ''" and ?m = "''propagator: push failed''" and ?a = "'' peer=lap''"
  have m: "list_all (\<lambda>c. c \<noteq> dquote \<and> c \<noteq> CHR 0x5C) ?m" by code_simp
  have "list_all (\<lambda>k. \<not> HasPrefix (drop k (?b @ msg_marker @ ?m @ [dquote] @ ?a)) msg_marker) [0..<length ?b]" by code_simp
  then have "\<not> HasPrefix (drop k (?b @ msg_marker @ ?m @ [dquote] @ ?a)) msg_marker" if "k < length ?b" for k
    using that unfolding list_all_iff by (metis atLeastLessThan_iff le0 set_upt)
  from log_message_roundtrip[OF m this] show ?thesis .
qed

section \<open>What the doctor lets pass\<close>

text \<open>A state Syncthing has beside those the check names, of a folder that is being cleaned or whose state is unknown, passes as if it were idle.\<close>

theorem folders_check_passes_unknown:
  "FoldersCheck_Run (Some \<lparr>do_Ping = True, do_Status = Inr ''ME'', do_Connections = Inr [],
     do_Config = Inr [(''folders'', JArr [JObj [(''id'', JStr ''f'')]])], do_FolderStatus = (\<lambda>_. Inr ''unknown'')\<rparr>) = OK"
  by code_simp

section \<open>The exit code\<close>

text \<open>Outcomes are numbered in the order of their severity.\<close>

fun outcome_rank :: "outcome \<Rightarrow> nat" where
  "outcome_rank OK = 0"
| "outcome_rank Warn = 1"
| "outcome_rank Fail = 2"

instantiation outcome :: linorder
begin

definition less_eq_outcome :: "outcome \<Rightarrow> outcome \<Rightarrow> bool" where
  "less_eq_outcome a b \<longleftrightarrow> outcome_rank a \<le> outcome_rank b"

definition less_outcome :: "outcome \<Rightarrow> outcome \<Rightarrow> bool" where
  "less_outcome a b \<longleftrightarrow> outcome_rank a < outcome_rank b"

instance
proof
  have inj: "outcome_rank a = outcome_rank b \<Longrightarrow> a = b" for a b by (cases a; cases b) simp_all
  fix a b :: outcome
  show "a \<le> b \<Longrightarrow> b \<le> a \<Longrightarrow> a = b" using inj by (simp add: less_eq_outcome_def)
qed (auto simp: less_eq_outcome_def less_outcome_def)

end

text \<open>Doctor exits with 0 exactly if nothing is worse than a warning, and otherwise with the number of checks that are.\<close>

theorem doctor_exit_code:
  "snd (doctor_Run checks) = length (filter (\<lambda>r. Warn < snd r) (fst (doctor_Run checks)))"
proof -
  have "Warn < x \<longleftrightarrow> x = Fail" for x by (cases x) (simp_all add: less_outcome_def)
  then show ?thesis by (simp add: doctor_Run_def Let_def)
qed

end
