(* ===== verification/Report_Text.thy ===== *)
theory Report_Text
  imports Doctor
begin

text \<open>
  What the two reports print: \<open>dotkeeper doctor\<close> as text and as JSON (internal/doctor/format.go), \<open>dotkeeper health\<close> as text
  with its explanations (cmd/dotkeeper/health.go). Strings are the bytes written; a symbol outside ASCII is its bytes in UTF-8.
  The JSON encoder is the one of the library with its escapes of HTML characters.
\<close>

section \<open>Characters and words\<close>

text \<open>The number of runes a range over a string visits: an invalid byte counts as one.\<close>

function rune_count :: "string \<Rightarrow> nat" where
  "rune_count s = (if s = [] then 0 else Suc (rune_count (drop (max 1 (utf8_len s)) s)))"
  by pat_completeness auto
termination
  by (relation "measure length") auto

declare rune_count.simps [simp del]

definition int_text :: "int \<Rightarrow> string" where
  "int_text i = (if i < 0 then ''-'' @ nat_digits (nat (- i)) else nat_digits (nat i))"

text \<open>\<open>%5d\<close>: a number in a field of a width.\<close>

definition pad_number :: "nat \<Rightarrow> nat \<Rightarrow> string" where
  "pad_number w n = replicate (w - length (nat_digits n)) (CHR '' '') @ nat_digits n"

text \<open>strings.Fields, of a text without white space outside ASCII.\<close>

definition str_Fields :: "string \<Rightarrow> string list" where
  "str_Fields s = filter (\<lambda>p. p \<noteq> '''') (str_Split (CHR '' '') (map (\<lambda>c. if is_space c then CHR '' '' else c) s))"

section \<open>The text of doctor\<close>

record check_result =
  cr_Name :: string
  cr_Outcome :: outcome
  cr_Detail :: string
  cr_Hint :: string

record FormatOptions =
  fo_Color :: bool
  fo_ASCII :: bool

definition esc :: "string \<Rightarrow> string" where "esc code = [CHR 0x1B, CHR ''[''] @ code @ ''m''"
definition ansiReset :: string where "ansiReset = esc ''0''"
definition ansiGreen :: string where "ansiGreen = esc ''32''"
definition ansiYellow :: string where "ansiYellow = esc ''33''"
definition ansiRed :: string where "ansiRed = esc ''31''"
definition ansiDim :: string where "ansiDim = esc ''2''"

text \<open>\<open>getenv\<close> gives the empty string for a variable that is not set.\<close>

definition DefaultFormatOptions :: "(string \<Rightarrow> string) \<Rightarrow> bool \<Rightarrow> FormatOptions" where
  "DefaultFormatOptions getenv isTTY =
    \<lparr>fo_Color = (isTTY \<and> getenv ''NO_COLOR'' = ''''),
     fo_ASCII = (getenv ''DOTKEEPER_ASCII'' = ''1'' \<or> getenv ''LANG'' = ''C'' \<or> getenv ''LANG'' = ''POSIX'')\<rparr>"

text \<open>The writer: not a file, a file whose Stat fails, or a file that is a character device or not.\<close>

datatype writer = NoFile | StatFails | FileWriter bool

definition isTerminalWriter :: "writer \<Rightarrow> bool" where
  "isTerminalWriter wr = (case wr of NoFile \<Rightarrow> False | StatFails \<Rightarrow> False | FileWriter chardev \<Rightarrow> chardev)"

definition glyph :: "bool \<Rightarrow> outcome \<Rightarrow> string" where
  "glyph ascii oc =
    (case oc of OK \<Rightarrow> if ascii then ''[ok]  '' else [CHR 0xE2, CHR 0x9C, CHR 0x93]
     | Warn \<Rightarrow> if ascii then ''[warn]'' else [CHR 0xE2, CHR 0x9A, CHR 0xA0]
     | Fail \<Rightarrow> if ascii then ''[fail]'' else [CHR 0xE2, CHR 0x9C, CHR 0x97])"

definition glyph_color :: "outcome \<Rightarrow> string" where
  "glyph_color oc = (case oc of OK \<Rightarrow> ansiGreen | Warn \<Rightarrow> ansiYellow | Fail \<Rightarrow> ansiRed)"

definition symbol :: "FormatOptions \<Rightarrow> outcome \<Rightarrow> string" where
  "symbol opts oc =
    (if fo_Color opts then glyph_color oc @ glyph (fo_ASCII opts) oc @ ansiReset else glyph (fo_ASCII opts) oc)"

definition nameWidth :: nat where "nameWidth = 15"

definition padRight :: "string \<Rightarrow> nat \<Rightarrow> string" where
  "padRight s width = (if rune_count s \<ge> width then s else s @ replicate (width - rune_count s) (CHR '' ''))"

definition plural :: "nat \<Rightarrow> string \<Rightarrow> string \<Rightarrow> string" where
  "plural n one many = (if n = 1 then one else many)"

definition hintPrefix :: "FormatOptions \<Rightarrow> string" where
  "hintPrefix opts =
    (let arrow = [CHR 0xE2, CHR 0x86, CHR 0xAA, CHR '' ''] in
     if fo_ASCII opts then ''-> '' else if fo_Color opts then ansiDim @ arrow @ ansiReset else arrow)"

definition result_row :: "FormatOptions \<Rightarrow> check_result \<Rightarrow> string" where
  "result_row opts r = ''  '' @ symbol opts (cr_Outcome r) @ '' '' @ padRight (cr_Name r) nameWidth @ '' '' @ cr_Detail r"

definition hint_row :: "FormatOptions \<Rightarrow> check_result \<Rightarrow> string" where
  "hint_row opts r = ''    '' @ replicate (nameWidth - 1) (CHR '' '') @ '' '' @ hintPrefix opts @ cr_Hint r"

definition hint_shown :: "check_result \<Rightarrow> bool" where
  "hint_shown r \<longleftrightarrow> cr_Hint r \<noteq> '''' \<and> cr_Outcome r \<noteq> OK"

definition result_text :: "FormatOptions \<Rightarrow> check_result \<Rightarrow> string" where
  "result_text opts r = result_row opts r @ nl @ (if hint_shown r then hint_row opts r @ nl else [])"

definition verdict :: "check_result list \<Rightarrow> string" where
  "verdict results =
    (let fails = countFailures (map cr_Outcome results); warns = countWarnings (map cr_Outcome results) in
     if fails = 0 \<and> warns = 0 then ''Everything looks healthy.''
     else if fails = 0 then ''Found 0 issues, '' @ nat_digits warns @ '' '' @ plural warns ''warning'' ''warnings'' @ ''.''
     else ''Found '' @ nat_digits fails @ '' '' @ plural fails ''issue'' ''issues'' @ '', '' @
          nat_digits warns @ '' '' @ plural warns ''warning'' ''warnings'' @ ''. See above.'')"

definition writeText :: "check_result list \<Rightarrow> FormatOptions \<Rightarrow> string" where
  "writeText results opts =
    ''dotkeeper doctor'' @ nl @ concat (map (result_text opts) results) @ nl @ verdict results @ nl"

definition WriteText :: "(string \<Rightarrow> string) \<Rightarrow> writer \<Rightarrow> check_result list \<Rightarrow> string" where
  "WriteText getenv wr results = writeText results (DefaultFormatOptions getenv (isTerminalWriter wr))"

section \<open>The JSON of doctor\<close>

definition json_escape :: "char \<Rightarrow> string" where
  "json_escape c =
    (let n = (of_char c :: nat) in
     if n = 34 \<or> n = 92 then [CHR 0x5C, c]
     else if n = 8 then [CHR 0x5C, CHR ''b''] else if n = 12 then [CHR 0x5C, CHR ''f'']
     else if n = 10 then [CHR 0x5C, CHR ''n''] else if n = 13 then [CHR 0x5C, CHR ''r'']
     else if n = 9 then [CHR 0x5C, CHR ''t'']
     else if n < 32 \<or> n = 60 \<or> n = 62 \<or> n = 38 then [CHR 0x5C, CHR ''u'', CHR ''0'', CHR ''0'', hex_digit (n div 16), hex_digit (n mod 16)]
     else [c])"

function json_body :: "string \<Rightarrow> string" where
  "json_body s =
     (if s = [] then []
      else if (of_char (hd s) :: nat) < 128 then json_escape (hd s) @ json_body (drop 1 s)
      else if utf8_len s = 0 then [CHR 0x5C] @ ''ufffd'' @ json_body (drop 1 s)
      else let r = take (utf8_len s) s in
           (if r = [CHR 0xE2, CHR 0x80, CHR 0xA8] then [CHR 0x5C] @ ''u2028''
            else if r = [CHR 0xE2, CHR 0x80, CHR 0xA9] then [CHR 0x5C] @ ''u2029'' else r) @ json_body (drop (utf8_len s) s))"
  by pat_completeness auto
termination
  by (relation "measure length") (simp_all add: utf8_len_shrinks)

declare json_body.simps [simp del]

definition json_string :: "string \<Rightarrow> string" where
  "json_string s = [dquote] @ json_body s @ [dquote]"

definition json_member :: "string \<Rightarrow> string \<Rightarrow> string" where
  "json_member key val = json_string key @ '': '' @ val"

definition json_object :: "nat \<Rightarrow> string list \<Rightarrow> string" where
  "json_object ind ms =
    (if ms = [] then [CHR 0x7B, CHR 0x7D]
     else [CHR 0x7B] @ nl @ str_Join (map (\<lambda>m. replicate (2 * (ind + 1)) (CHR '' '') @ m) ms) ('','' @ nl) @ nl @ replicate (2 * ind) (CHR '' '') @ [CHR 0x7D])"

definition json_array :: "nat \<Rightarrow> string list \<Rightarrow> string" where
  "json_array ind xs =
    (if xs = [] then ''[]''
     else ''['' @ nl @ str_Join (map (\<lambda>m. replicate (2 * (ind + 1)) (CHR '' '') @ m) xs) ('','' @ nl) @ nl @ replicate (2 * ind) (CHR '' '') @ '']'')"

record jsonResult =
  jr_Name :: string
  jr_Outcome :: string
  jr_Detail :: string
  jr_Hint :: string

definition toJSONResults :: "check_result list \<Rightarrow> jsonResult list" where
  "toJSONResults results =
    map (\<lambda>r. \<lparr>jr_Name = cr_Name r, jr_Outcome = outcome_String (cr_Outcome r), jr_Detail = cr_Detail r, jr_Hint = cr_Hint r\<rparr>) results"

definition json_result :: "jsonResult \<Rightarrow> string" where
  "json_result r = json_object 2
    ([json_member ''name'' (json_string (jr_Name r)), json_member ''outcome'' (json_string (jr_Outcome r)),
      json_member ''detail'' (json_string (jr_Detail r))] @
     (if jr_Hint r = '''' then [] else [json_member ''hint'' (json_string (jr_Hint r))]))"

definition WriteJSON :: "check_result list \<Rightarrow> string" where
  "WriteJSON results = json_object 0
    [json_member ''results'' (json_array 1 (map json_result (toJSONResults results))),
     json_member ''failures'' (nat_digits (countFailures (map cr_Outcome results))),
     json_member ''warnings'' (nat_digits (countWarnings (map cr_Outcome results)))] @ nl"

text \<open>Run, RunJSON and the command: what is printed and the exit code. A check is its own name and the result it returns.\<close>

definition run_checks :: "(string \<times> check_result) list \<Rightarrow> check_result list" where
  "run_checks checks = map (\<lambda>(name, r). if cr_Name r = '''' then r\<lparr>cr_Name := name\<rparr> else r) checks"

definition doctorCmd :: "(string \<Rightarrow> string) \<Rightarrow> writer \<Rightarrow> bool \<Rightarrow> (string \<times> check_result) list \<Rightarrow> string \<times> nat" where
  "doctorCmd getenv wr asJSON checks =
    (let results = run_checks checks; fails = countFailures (map cr_Outcome results) in
     (if asJSON then WriteJSON results else WriteText getenv wr results, if fails > 0 then 1 else 0))"

section \<open>The text of health\<close>

record HealthReport =
  hp_GeneratedAt :: gotime
  hp_Version :: string
  hp_Commit :: string
  hp_DaemonPID :: int
  hp_DaemonStartedAt :: gotime
  hp_Name :: string
  hp_Slot :: nat
  hp_Repos :: HealthRepos
  hp_Known :: nat
  hp_LastSeen :: "PeerLastSeen list"
  hp_Recent :: "(RecentActivity \<times> (string \<times> nat \<times> nat) list) option"

definition duration_text :: "dur \<Rightarrow> string" where
  "duration_text d = (case durationHuman d of (n, unit) \<Rightarrow> int_text n @ [unit])"

text \<open>A duration that went through its number of seconds, \<open>time.Duration(d.Seconds()) * time.Second\<close>, without the rounding of floats.\<close>

definition whole_seconds :: "dur \<Rightarrow> dur" where
  "whole_seconds d = (if d < 0 then - ((- d) div Second * Second) else d div Second * Second)"

fun reason_text :: "degraded_reason \<Rightarrow> string" where
  "reason_text (RecentErrors n) = nat_digits n @ '' ERROR-level log entries in the last hour''"
| "reason_text (PushesFail n) = nat_digits n @ '' propagator push failure(s) in the 24h window''"
| "reason_text (BackupsLag n) = nat_digits n @ '' repo(s) with git activity newer than the last backup''"
| "reason_text (NeverBacked n) = nat_digits n @ '' repo(s) tracked but never successfully backed up''"

definition ellipsis :: string where "ellipsis = [CHR 0xE2, CHR 0x80, CHR 0xA6]"

definition short_message :: "string \<Rightarrow> string" where
  "short_message msg = (if length msg > 64 then take 63 msg @ ellipsis else msg)"

definition daemon_section :: "HealthReport \<Rightarrow> string list" where
  "daemon_section r =
    [''=== Daemon ==='',
     ''  Version: '' @ hp_Version r @ '' ('' @ hp_Commit r @ '')'',
     if hp_DaemonPID r > 0
     then ''  Status:  running (pid '' @ int_text (hp_DaemonPID r) @ '', up '' @ duration_text (time_Sub (hp_GeneratedAt r) (hp_DaemonStartedAt r)) @ '')''
     else ''  Status:  not running (no `dotkeeper start` process found)'',
     '''']"

definition machine_section :: "HealthReport \<Rightarrow> string list" where
  "machine_section r =
    ''=== Machine ==='' #
     (if hp_Name r = '''' then [''  Not initialised (run 'dotkeeper init')'']
      else [''  Name: '' @ hp_Name r, ''  Slot: '' @ nat_digits (hp_Slot r)])"

definition backups_table :: "gotime \<Rightarrow> HealthRepos \<Rightarrow> string list" where
  "backups_table now repos =
    (if hr_LaggingBackups repos \<noteq> []
     then ''  Lagging backups (git newer than backup):'' #
          map (\<lambda>(path, _, _, lag). ''    '' @ path @ ''  (lag '' @ duration_text (whole_seconds lag) @ '')'') (take 5 (hr_LaggingBackups repos))
     else if hr_OldestBackup repos \<noteq> []
     then ''  Oldest backups (informational; all current vs git):'' #
          map (\<lambda>(path, at). ''    '' @ path @ ''  ('' @ duration_text (whole_seconds (time_Sub now at)) @ '' ago)'') (hr_OldestBackup repos)
     else [])"

definition repos_section :: "gotime \<Rightarrow> HealthRepos \<Rightarrow> string list" where
  "repos_section now repos =
    ['''', ''=== Repos ('' @ nat_digits (hr_Total repos) @ '' tracked) ==='',
     ''  Fresh (<24h):                  '' @ nat_digits (hr_FreshLast24h repos),
     ''  Idle (dormant, backup OK):     '' @ nat_digits (hr_Idle repos)] @
    (if hr_StaleOneToSeven repos > 0 then [''  Lagging (1-7d behind git):     '' @ nat_digits (hr_StaleOneToSeven repos)] else []) @
    (if hr_StaleOverSeven repos > 0 then [''  Lagging (>7d behind git):      '' @ nat_digits (hr_StaleOverSeven repos)] else []) @
    (if hr_NeverBackedUp repos > 0 then [''  Never backed up:               '' @ nat_digits (hr_NeverBackedUp repos)] else []) @
    backups_table now repos"

definition peer_row :: "PeerLastSeen \<Rightarrow> string" where
  "peer_row p =
    (if IsZero (pl_Since p) then ''  '' @ pl_Name p @ ''  (never seen)''
     else ''  '' @ pl_Name p @ ''  (last seen '' @ duration_text (whole_seconds (pl_Age p)) @ '' ago)'')"

definition peers_section :: "nat \<Rightarrow> PeerLastSeen list \<Rightarrow> string list" where
  "peers_section known ps = ['''', ''=== Peers ('' @ nat_digits known @ '' known) ===''] @ map peer_row ps"

definition activity_section :: "(RecentActivity \<times> (string \<times> nat \<times> nat) list) option \<Rightarrow> string list" where
  "activity_section act =
    (case act of None \<Rightarrow> []
     | Some (a, kinds) \<Rightarrow>
        ['''', ''=== Recent activity (last 24h, log tail) ==='',
         ''  Conflicts auto-resolved: '' @ nat_digits (ra_ConflictResolved a),
         ''  Push failures:           '' @ nat_digits (ra_PushFailures a),
         ''  Errors (24h / last 1h):  '' @ nat_digits (ra_ErrorCount a) @ '' / '' @ nat_digits (ra_ErrorsLastHour a),
         ''  Warnings in log:         '' @ nat_digits (ra_WarnCount a)] @
        (if kinds = [] then []
         else ''    Top warning kinds (24h / last 1h):'' #
              map (\<lambda>(msg, n, hour). ''      '' @ pad_number 5 n @ '' / '' @ pad_number 4 hour @ ''  '' @ short_message msg) kinds))"

definition report_reasons :: "HealthReport \<Rightarrow> degraded_reason list" where
  "report_reasons r = degradedReasons (map_option fst (hp_Recent r)) (hp_Repos r)"

definition reasons_section :: "HealthReport \<Rightarrow> string list" where
  "reasons_section r =
    (if report_reasons r \<noteq> [] then ['''', ''[dotkeeper] degraded because:''] @ map (\<lambda>why. ''  - '' @ reason_text why) (report_reasons r)
     else ['''', ''[dotkeeper] healthy''])"

definition print_lines :: "string list \<Rightarrow> string" where
  "print_lines ls = concat (map (\<lambda>l. l @ nl) ls)"

definition writeHealthText :: "HealthReport \<Rightarrow> string" where
  "writeHealthText r = print_lines
    (daemon_section r @ machine_section r @ repos_section (hp_GeneratedAt r) (hp_Repos r) @ peers_section (hp_Known r) (hp_LastSeen r) @
     activity_section (hp_Recent r) @ reasons_section r)"

section \<open>The explanations of health\<close>


definition knownPatternExplanations :: "(string \<times> string) list" where
  "knownPatternExplanations = [
    (''Unexpected folder ID in ClusterConfig'',
     ''A peer is offering a folder this device hasn't accepted. Open Syncthing's web UI (http://127.0.0.1:18384) and either accept the folder at the right path, or remove the folder from the peer if it shouldn't be shared.''),
    (''Failed to auto-accept folder due to path conflict'',
     (''Syncthing wanted to auto-create a folder at a path that already exists with different content. Resolve manually in the web UI '' @ em_dash @ '' pick a different path or merge the contents first.'')),
    (''Detected a flip-flopping listener'',
     ''The Syncthing discovery server is seeing this device's listener address change repeatedly. Usually a NAT/firewall behaviour and harmless; if persistent, check the device's network is stable.''),
    (''Failed to sync'',
     (''Per-file sync failure. Drill into the syncthing.log for the specific path and error '' @ em_dash @ '' common causes are permission errors, partially-deleted dirs with ignored files, and disk-full.'')),
    (''Abandoning old index handler in favour of new connection'',
     ''A peer reconnected and Syncthing dropped the previous index session. Routine after network blips; only investigate if it's flapping every few seconds.''),
    (''propagator: no route to peer'',
     ''Manager.Route found no reachable transport. Usually a transient Syncthing-API hiccup during daemon startup; if persistent, run 'dotkeeper transport status' to see which transports are unreachable and why.''),
    (''no connected device has the required version of this file'',
     ''All peers holding this file's content are currently offline. The transfer resumes automatically when a peer reconnects; no action needed unless every peer is permanently gone.''),
    (''directory has been deleted on a remote device but contains ignored files'',
     (''A peer deleted a directory that this device still has ignored files in (e.g. .git inside a worktree). Pre-v1.0.1 this flapped on .claude/worktrees '' @ em_dash @ '' if you're on v1.0.1+ and still seeing it for other paths, check your per-repo .stignore.'')),
    (''Folder is in error state'',
     ''Syncthing has marked the folder as broken and stopped syncing it. Usually triggered by an earlier per-file error that exhausted retries. Open the web UI for the folder's specific error, fix the cause (permissions, disk space, ignored-file conflicts), and click 'Override Changes' or restart the daemon to retry.''),
    (''Error on folder'',
     (''Per-folder-level error from Syncthing's scanner or pull loop. Drill into the syncthing.log for the folder ID '' @ em_dash @ '' usually means a specific file inside is unreadable, has unexpected permissions, or sits on a filesystem that's misreporting.'')),
    (''Failed initial scan'',
     ''Syncthing couldn't complete the first walk of a folder. Common causes: the folder root doesn't exist, lacks read permission, or sits on a filesystem with broken Stat (some FUSE mounts). Check `dotkeeper status` to confirm the folder path is what you expect.''),
    (''Failed to exchange Hello messages'',
     ''TLS handshake or BEP-protocol setup with a peer failed. Transient causes (network blip during handshake) resolve themselves; persistent cases indicate clock skew (>15 min), a peer running an incompatible Syncthing major version, or MITM interference. Run `chronyd`/`timedatectl` on both ends to rule out clock skew.'')]"

definition explain_indent :: string where "explain_indent = ''    ''"

text \<open>The loop over the words; \<open>line\<close> is what the current line holds.\<close>

fun wrap_tokens :: "nat \<Rightarrow> string \<Rightarrow> string list \<Rightarrow> string" where
  "wrap_tokens width line [] = line"
| "wrap_tokens width line (tok # toks) =
    (if line = '''' then wrap_tokens width tok toks
     else if length line + 1 + length tok \<le> width then wrap_tokens width (line @ '' '' @ tok) toks
     else line @ nl @ explain_indent @ wrap_tokens width tok toks)"

definition wrapForExplain :: "string \<Rightarrow> nat \<Rightarrow> string" where
  "wrapForExplain s width = wrap_tokens width '''' (str_Fields s)"

text \<open>The first pattern in the message, and the loop over the kinds with the patterns explained so far.\<close>

definition known_pattern :: "string \<Rightarrow> (string \<times> string) option" where
  "known_pattern msg = find (\<lambda>k. str_Contains msg (fst k)) knownPatternExplanations"

fun render_explanations :: "string set \<Rightarrow> string list \<Rightarrow> string list" where
  "render_explanations seen [] = []"
| "render_explanations seen (msg # msgs) =
    (case known_pattern msg of None \<Rightarrow> render_explanations seen msgs
     | Some (sub, why) \<Rightarrow>
        if sub \<in> seen then render_explanations seen msgs
        else (''  '' @ [CHR 0xE2, CHR 0x80, CHR 0xA2] @ '' '' @ msg @ nl @ ''    '' @ wrapForExplain why 76) # render_explanations (insert sub seen) msgs)"

definition writeHealthExplanations :: "HealthReport \<Rightarrow> string" where
  "writeHealthExplanations r =
    (case hp_Recent r of None \<Rightarrow> []
     | Some (_, kinds) \<Rightarrow>
        let rendered = render_explanations {} (map fst kinds) in
        if rendered = [] then [] else print_lines ('''' # ''=== Explanations ==='' # rendered))"

section \<open>The command health\<close>

text \<open>liveConnectionsProvider: the API key is readable, and what GetConnections returned.\<close>

definition liveConnectionsProvider :: "bool \<Rightarrow> unit + (string \<times> bool) list \<Rightarrow> gotime \<Rightarrow> string \<Rightarrow> gotime option" where
  "liveConnectionsProvider key conns now =
    (if \<not> key then (\<lambda>_. None)
     else case conns of Inl _ \<Rightarrow> (\<lambda>_. None)
          | Inr cs \<Rightarrow> map_of (map (\<lambda>(dev, _). (dev, now)) (filter snd cs)))"

text \<open>
  daemonProcInfoProvider over the entries of /proc that the pattern matches: the name of the directory, what reading cmdline gave
  and the time of the directory. \<open>read_int\<close> is fmt.Sscanf of the digits.
\<close>

definition start_marker :: string where "start_marker = ''dotkeeper'' @ [CHR 0x00] @ ''start''"

fun daemonProcInfo :: "(string \<Rightarrow> int option) \<Rightarrow> (string \<times> string option \<times> gotime option) list \<Rightarrow> int \<times> gotime" where
  "daemonProcInfo read_int [] = (0, 0)"
| "daemonProcInfo read_int ((dir, cmdline, mtime) # procs) =
    (case cmdline of None \<Rightarrow> daemonProcInfo read_int procs
     | Some data \<Rightarrow>
        if \<not> str_Contains data start_marker then daemonProcInfo read_int procs
        else case (mtime, read_int dir) of
               (Some t, Some pid) \<Rightarrow> (pid, t)
             | _ \<Rightarrow> daemonProcInfo read_int procs)"

text \<open>renderOnce: what is printed, from the report or the error of collectHealth; \<open>to_json\<close> is the encoder.\<close>

definition renderOnce :: "(HealthReport \<Rightarrow> string) \<Rightarrow> bool \<Rightarrow> bool \<Rightarrow> string + HealthReport \<Rightarrow> string" where
  "renderOnce to_json jsonOut explain rep =
    (case rep of Inl _ \<Rightarrow> []
     | Inr r \<Rightarrow> if jsonOut then to_json r else writeHealthText r @ (if explain then writeHealthExplanations r else []))"

definition clear_screen :: string where "clear_screen = [CHR 0x1B] @ ''[2J'' @ [CHR 0x1B] @ ''[H''"

text \<open>The watch: one report for each tick until the context ends; and the single report with the exit code.\<close>

definition runHealthWatch :: "(HealthReport \<Rightarrow> string) \<Rightarrow> bool \<Rightarrow> bool \<Rightarrow> (string + HealthReport) list \<Rightarrow> string" where
  "runHealthWatch to_json jsonOut explain reps =
    concat (map (\<lambda>rep. clear_screen @ renderOnce to_json jsonOut explain rep @
      (case rep of Inl e \<Rightarrow> ''[dotkeeper] health collection failed: '' @ e @ nl | Inr _ \<Rightarrow> [])) reps)"

definition healthCmd :: "(HealthReport \<Rightarrow> string) \<Rightarrow> bool \<Rightarrow> bool \<Rightarrow> string + HealthReport \<Rightarrow> string \<times> nat" where
  "healthCmd to_json jsonOut explain rep =
    (renderOnce to_json jsonOut explain rep,
     case rep of Inl _ \<Rightarrow> 1 | Inr r \<Rightarrow> if report_reasons r \<noteq> [] then 1 else 0)"


section \<open>Wrapping\<close>

lemma str_Fields_space: "is_space c \<Longrightarrow> str_Fields (a @ c # b) = str_Fields a @ str_Fields b"
  by (simp add: str_Fields_def split_append)

lemma str_Fields_Nil [simp]: "str_Fields '''' = []"
  by (simp add: str_Fields_def)

text \<open>A word: not empty and without white space.\<close>

definition word :: "string \<Rightarrow> bool" where
  "word t \<longleftrightarrow> t \<noteq> '''' \<and> (\<forall>c \<in> set t. \<not> is_space c)"

lemma word_no_newline: "word t \<Longrightarrow> newline \<notin> set t"
  by (auto simp: word_def is_space_def newline_def)

lemma str_Fields_word: "word t \<Longrightarrow> str_Fields t = [t]"
proof -
  assume t: "word t"
  then have "map (\<lambda>c. if is_space c then CHR '' '' else c) t = t" by (auto simp: word_def intro: map_idI)
  moreover have "CHR '' '' \<notin> set t" using t by (auto simp: word_def is_space_def)
  ultimately show ?thesis using t by (simp add: str_Fields_def split_none word_def)
qed

lemma set_str_Split: "p \<in> set (str_Split sep s) \<Longrightarrow> set p \<subseteq> set s"
proof (induction s arbitrary: p)
  case (Cons c s)
  then show ?case by (cases "str_Split sep s") (fastforce split: if_splits)+
qed simp

lemma str_Fields_words: "list_all word (str_Fields s)"
proof -
  have "word p" if p: "p \<in> set (str_Fields s)" for p
  proof -
    let ?m = "map (\<lambda>c. if is_space c then CHR '' '' else c) s"
    have ps: "p \<noteq> ''''" "p \<in> set (str_Split (CHR '' '') ?m)" using p by (auto simp: str_Fields_def)
    have "\<not> is_space c" if "c \<in> set p" for c
      using set_str_Split[OF ps(2)] str_Split_free[OF ps(2)] that by (auto split: if_splits)
    then show ?thesis using ps(1) by (simp add: word_def)
  qed
  then show ?thesis by (simp add: list_all_iff)
qed

lemma wrap_tokens_words:
  "list_all word toks \<Longrightarrow> str_Fields (wrap_tokens width line toks) = str_Fields line @ toks"
proof (induction width line toks rule: wrap_tokens.induct)
  case (2 width line tok toks)
  have sp: "is_space (CHR '' '')" "is_space (CHR 0x0A)" by (simp_all add: is_space_def)
  have ind: "str_Fields (explain_indent @ x) = str_Fields x" for x
    using str_Fields_space[OF sp(1), of "[]"] by (simp add: explain_indent_def)
  have "str_Fields (line @ CHR '' '' # tok) = str_Fields line @ [tok]"
    using 2 by (simp add: str_Fields_space[OF sp(1)] str_Fields_word)
  moreover have "str_Fields (line @ CHR 0x0A # y) = str_Fields line @ str_Fields y" for y by (rule str_Fields_space[OF sp(2)])
  ultimately show ?case using 2 by (simp add: str_Fields_word nl_def ind)
qed simp

text \<open>What a finished line is: short enough, or a single word.\<close>

definition line_ok :: "nat \<Rightarrow> string list \<Rightarrow> string \<Rightarrow> bool" where
  "line_ok width ws l \<longleftrightarrow> length l \<le> width \<or> l \<in> set ws"

lemma wrap_tokens_lines:
  assumes "list_all word toks" and "newline \<notin> set line" and "line_ok width ws line" and "set toks \<subseteq> set ws"
  shows "\<exists>l ls. str_Split newline (wrap_tokens width line toks) = l # map ((@) explain_indent) ls \<and> list_all (line_ok width ws) (l # ls)"
  using assms
proof (induction width line toks rule: wrap_tokens.induct)
  case (1 width line)
  then show ?case by (intro exI[of _ line] exI[of _ "[]"]) (simp add: split_none)
next
  case (2 width line tok toks)
  have tok: "newline \<notin> set tok" "line_ok width ws tok" using 2 by (auto simp: word_no_newline line_ok_def)
  consider (first) "line = ''''" | (fits) "line \<noteq> ''''" "length line + 1 + length tok \<le> width"
    | (wraps) "line \<noteq> ''''" "\<not> length line + 1 + length tok \<le> width" by blast
  then show ?case
  proof cases
    case first
    then show ?thesis using 2 tok by simp
  next
    case fits
    then have "line_ok width ws (line @ '' '' @ tok)" by (simp add: line_ok_def)
    moreover have "newline \<notin> set (line @ '' '' @ tok)" using 2 tok by (simp add: newline_def)
    ultimately show ?thesis using 2 fits by simp
  next
    case wraps
    then obtain l ls where l: "str_Split newline (wrap_tokens width tok toks) = l # map ((@) explain_indent) ls"
        "list_all (line_ok width ws) (l # ls)" using 2 tok by auto
    have i: "newline \<notin> set explain_indent" by (simp add: newline_def explain_indent_def)
    have pre: "newline \<notin> set a \<Longrightarrow> str_Split newline b = l # r \<Longrightarrow> str_Split newline (a @ b) = (a @ l) # r" for a b r
      by (induction a) auto
    have "str_Split newline (line @ newline # (explain_indent @ wrap_tokens width tok toks)) = line # map ((@) explain_indent) (l # ls)"
      using pre[OF i l(1)] 2 by (simp add: split_append split_none)
    then show ?thesis using wraps l(2) 2 by (intro exI[of _ line] exI[of _ "l # ls"]) (simp add: nl_def newline_def)
  qed
qed

text \<open>
  An explanation is only re-broken. For every text and width the wrapped text has the same words in the same order; its lines after the
  first are indented by the four blanks that continue the bullet, and each line is, without them, at most as long as the width or a
  single word of the text, which is never cut.
\<close>

theorem explanation_wraps:
  "str_Fields (wrapForExplain s width) = str_Fields s \<and>
   (\<exists>l ls. str_Split newline (wrapForExplain s width) = l # map ((@) explain_indent) ls \<and>
      list_all (\<lambda>x. length x \<le> width \<or> x \<in> set (str_Fields s)) (l # ls))"
  using wrap_tokens_words[OF str_Fields_words, of width "''''" s]
    wrap_tokens_lines[OF str_Fields_words, of "''''" width "str_Fields s" s]
  by (simp add: wrapForExplain_def line_ok_def[abs_def])

section \<open>Columns\<close>

lemma utf8_need_lo: "utf8_need a = (n, lo, hi) \<Longrightarrow> 2 \<le> n \<Longrightarrow> 128 \<le> lo"
  by (auto simp: utf8_need_def Let_def split: if_splits)

text \<open>Blanks after a string complete none of its characters.\<close>

lemma utf8_len_blanks:
  assumes "s \<noteq> []"
  shows "utf8_len (s @ replicate k (CHR '' '')) = utf8_len s"
proof -
  obtain a r where s: "s = a # r" using assms by (cases s) auto
  obtain n lo hi where u: "utf8_need a = (n, lo, hi)" by (metis prod_cases3)
  show ?thesis
  proof (cases "n \<le> 1 \<or> n - 1 \<le> length r")
    case True
    then have "n \<le> 1 \<or> take (n - 1) (r @ replicate k (CHR '' '')) = take (n - 1) r" by auto
    then show ?thesis using s u by (elim disjE) (simp_all add: Let_def)
  next
    case False
    let ?t = "take (n - 1) (r @ replicate k (CHR '' ''))"
    have orig: "utf8_len s = 0" using False s u by (simp add: Let_def)
    have "\<not> (length ?t = n - 1 \<and> in_range lo hi (hd ?t) \<and> list_all cont_byte (tl ?t))"
    proof
      assume c: "length ?t = n - 1 \<and> in_range lo hi (hd ?t) \<and> list_all cont_byte (tl ?t)"
      have len: "length r < n - 1" "length r < length ?t" using False c by simp_all
      then have sp: "?t ! length r = CHR '' ''" by (simp add: nth_append)
      show False
      proof (cases r)
        case Nil
        then have "hd ?t = CHR '' ''" using sp len by (metis hd_conv_nth length_0_conv less_nat_zero_code list.size(3))
        then show False using c utf8_need_lo[OF u] False by (simp add: in_range_def)
      next
        case (Cons b q)
        then have "tl ?t ! length q = CHR '' ''" "length q < length (tl ?t)" using sp len by (auto simp: nth_tl)
        then have "cont_byte (CHR '' '')" using c by (metis list_all_length)
        then show False by (simp add: cont_byte_def in_range_def)
      qed
    qed
    then show ?thesis using orig False s u by (simp add: Let_def)
  qed
qed

lemma rune_count_Nil [simp]: "rune_count [] = 0"
  by (simp add: rune_count.simps)

lemma rune_count_step: "s \<noteq> [] \<Longrightarrow> rune_count s = Suc (rune_count (drop (max 1 (utf8_len s)) s))"
  by (simp add: rune_count.simps[of s])

lemma rune_count_replicate: "rune_count (replicate k (CHR '' '')) = k"
proof (induction k)
  case (Suc k)
  have "utf8_len (replicate (Suc k) (CHR '' '')) = 1" by (simp add: utf8_need_def)
  then show ?case using Suc rune_count_step[of "replicate (Suc k) (CHR '' '')"] by simp
qed simp

lemma rune_count_blanks: "rune_count (s @ replicate k (CHR '' '')) = rune_count s + k"
proof (induction s rule: rune_count.induct)
  case (1 s)
  show ?case
  proof (cases "s = []")
    case False
    have "max 1 (utf8_len s) \<le> length s" using False utf8_len_le[of s] by (cases s) auto
    then show ?thesis using 1 False rune_count_step[of s] rune_count_step[of "s @ replicate k (CHR '' '')"] utf8_len_blanks[OF False, of k]
      by simp
  qed (simp add: rune_count_replicate)
qed

text \<open>The details of doctor start in one column: a padded name has exactly the width, or more only if the name itself has.\<close>

theorem doctor_columns_align: "rune_count (padRight s width) = max width (rune_count s)"
  by (simp add: padRight_def rune_count_blanks)

section \<open>Verdict and exit code\<close>

lemma suffix_take_rev: "HasSuffix s p \<Longrightarrow> n \<le> length p \<Longrightarrow> take n (rev s) = take n (rev p)"
  by (auto simp: HasSuffix_iff)

definition healthy_line :: string where "healthy_line = ''Everything looks healthy.'' @ nl"

definition all_ok :: "check_result list \<Rightarrow> bool" where
  "all_ok rs \<longleftrightarrow> (\<forall>r \<in> set rs. cr_Outcome r = OK)"

lemma verdict_healthy: "countFailures (map cr_Outcome rs) = 0 \<and> countWarnings (map cr_Outcome rs) = 0 \<longleftrightarrow> all_ok rs"
proof -
  have "k = OK \<longleftrightarrow> k \<noteq> Fail \<and> k \<noteq> Warn" for k by (cases k) simp_all
  then have "all_ok rs \<longleftrightarrow> (\<forall>r\<in>set rs. cr_Outcome r \<noteq> Fail) \<and> (\<forall>r\<in>set rs. cr_Outcome r \<noteq> Warn)"
    unfolding all_ok_def by blast
  then show ?thesis by (simp add: countFailures_def countWarnings_def filter_empty_conv)
qed

lemma plural_ends: "\<exists>t c. plural n ''warning'' ''warnings'' = t @ [c] \<and> c \<noteq> CHR ''y''"
proof (cases "n = 1")
  case True
  then show ?thesis by (intro exI[of _ "''warnin''"] exI[of _ "CHR ''g''"]) (simp add: plural_def)
next
  case False
  then show ?thesis by (intro exI[of _ "''warning''"] exI[of _ "CHR ''s''"]) (simp add: plural_def)
qed

lemma verdict_not_healthy:
  assumes "\<not> all_ok rs"
  shows "\<exists>t c. verdict rs = t @ [c] @ ''.'' \<and> c \<noteq> CHR ''y''"
proof (cases "countFailures (map cr_Outcome rs) = 0")
  case True
  let ?w = "countWarnings (map cr_Outcome rs)"
  obtain t c where tc: "plural ?w ''warning'' ''warnings'' = t @ [c]" "c \<noteq> CHR ''y''" using plural_ends by blast
  have "?w \<noteq> 0" using True assms verdict_healthy[of rs] by simp
  then have "verdict rs = ''Found 0 issues, '' @ nat_digits ?w @ '' '' @ plural ?w ''warning'' ''warnings'' @ ''.''"
    unfolding verdict_def Let_def using True by (simp only: simp_thms if_True if_False)
  also have "\<dots> = (''Found 0 issues, '' @ nat_digits ?w @ '' '' @ t) @ [c] @ ''.''" unfolding tc(1) by (simp only: append_assoc)
  finally show ?thesis using tc(2) by blast
next
  case False
  let ?f = "countFailures (map cr_Outcome rs)" and ?w = "countWarnings (map cr_Outcome rs)"
  have "verdict rs = ''Found '' @ nat_digits ?f @ '' '' @ plural ?f ''issue'' ''issues'' @ '', '' @
      nat_digits ?w @ '' '' @ plural ?w ''warning'' ''warnings'' @ ''. See above.''"
    unfolding verdict_def Let_def using False by (simp only: simp_thms if_False)
  also have "''. See above.'' = ''. See abov'' @ [CHR ''e''] @ ''.''" by (simp only: append.simps)
  finally have "\<exists>t. verdict rs = t @ [CHR ''e''] @ ''.''" by (simp only: append_assoc [symmetric]) blast
  moreover have "CHR ''e'' \<noteq> CHR ''y''" by simp
  ultimately show ?thesis by blast
qed

lemma verdict_ends: "HasSuffix (pre @ verdict rs @ nl) healthy_line \<longleftrightarrow> all_ok rs"
proof (cases "all_ok rs")
  case True
  then have "verdict rs @ nl = healthy_line" using verdict_healthy[of rs] by (simp add: verdict_def healthy_line_def)
  then show ?thesis using True by simp
next
  case False
  obtain t c where tc: "verdict rs = t @ [c] @ ''.''" "c \<noteq> CHR ''y''" using verdict_not_healthy[OF False] by blast
  have "take 3 (rev healthy_line) = [CHR 0x0A, CHR ''.'', CHR ''y'']" "3 \<le> length healthy_line" by code_simp+
  moreover have "take 3 (rev (pre @ verdict rs @ nl)) = [CHR 0x0A, CHR ''.'', c]" unfolding tc(1) by (simp add: nl_def)
  ultimately have "\<not> HasSuffix (pre @ verdict rs @ nl) healthy_line" using tc(2) suffix_take_rev by (metis list.inject)
  then show ?thesis using False by simp
qed

text \<open>
  The last line and the exit code. Doctor says that everything looks healthy exactly if every check is OK, and exits with 1 exactly if a
  check has failed, whatever it prints on.
\<close>

theorem doctor_says_healthy:
  "(HasSuffix (fst (doctorCmd getenv wr False checks)) healthy_line \<longleftrightarrow> all_ok (run_checks checks)) \<and>
   (snd (doctorCmd getenv wr json checks) = 1 \<longleftrightarrow> list_ex (\<lambda>r. cr_Outcome r = Fail) (run_checks checks))"
proof -
  let ?rs = "run_checks checks"
  have "writeText ?rs opts = (''dotkeeper doctor'' @ nl @ concat (map (result_text opts) ?rs) @ nl) @ verdict ?rs @ nl" for opts
    by (simp add: writeText_def)
  then have "HasSuffix (writeText ?rs opts) healthy_line \<longleftrightarrow> all_ok ?rs" for opts
    by (simp only: verdict_ends)
  moreover have "countFailures (map cr_Outcome ?rs) > 0 \<longleftrightarrow> list_ex (\<lambda>r. cr_Outcome r = Fail) ?rs"
    by (auto simp: countFailures_def list_ex_iff filter_empty_conv)
  ultimately show ?thesis by (simp add: doctorCmd_def Let_def WriteText_def)
qed

text \<open>
  Health says so exactly if it exits with 0. The documented exit code 2, for files that cannot be read, is never used: it is 1.
\<close>

definition health_healthy_line :: string where "health_healthy_line = ''[dotkeeper] healthy'' @ nl"

lemma print_lines_append: "print_lines (xs @ ys) = print_lines xs @ print_lines ys"
  by (simp add: print_lines_def)

lemma print_lines_snoc: "print_lines (xs @ [x]) = print_lines xs @ x @ nl"
  by (simp add: print_lines_def)

lemma health_footer: "HasSuffix (writeHealthText r) health_healthy_line \<longleftrightarrow> report_reasons r = []"
proof -
  let ?pre = "daemon_section r @ machine_section r @ repos_section (hp_GeneratedAt r) (hp_Repos r) @ peers_section (hp_Known r) (hp_LastSeen r) @ activity_section (hp_Recent r)"
  have t: "writeHealthText r = print_lines (?pre @ reasons_section r)" by (simp add: writeHealthText_def)
  show ?thesis
  proof (cases "report_reasons r" rule: rev_cases)
    case Nil
    then have "reasons_section r = [''''] @ [''[dotkeeper] healthy'']" by (simp add: reasons_section_def)
    then have "writeHealthText r = print_lines (?pre @ ['''']) @ health_healthy_line"
      unfolding t health_healthy_line_def by (metis append_assoc print_lines_snoc)
    then show ?thesis using Nil by simp
  next
    case (snoc ws why)
    then obtain xs where "reasons_section r = xs @ [''  - '' @ reason_text why]" by (simp add: reasons_section_def)
    then have e: "writeHealthText r = print_lines (?pre @ xs) @ (''  - '' @ reason_text why) @ nl"
      unfolding t by (metis append_assoc print_lines_snoc)
    have "take 2 (rev health_healthy_line) = [CHR 0x0A, CHR ''y'']" "2 \<le> length health_healthy_line" by code_simp+
    moreover have "take 2 (rev (writeHealthText r)) \<noteq> [CHR 0x0A, CHR ''y'']"
      unfolding e by (cases why) (simp_all add: nl_def)
    ultimately have "\<not> HasSuffix (writeHealthText r) health_healthy_line" using suffix_take_rev by metis
    then show ?thesis using snoc by simp
  qed
qed

theorem health_says_healthy:
  "snd (healthCmd to_json json explain rep) = 0 \<longleftrightarrow> (\<exists>r. rep = Inr r \<and> HasSuffix (writeHealthText r) health_healthy_line)"
  by (auto simp: healthCmd_def health_footer split: sum.splits)

end
