(* ===== verification/Service.thy ===== *)
theory Service
  imports Propagate Report_Text
begin

text \<open>
  The managers of the background service (internal/service): systemd, cron, launchd, the Windows task scheduler and the one that does
  nothing. A host says how a command line runs (its input is the second argument; the answer is whether it succeeded and what it
  printed) and how a background process is started; the state is the file system with whatever the commands act on.
\<close>

section \<open>The host\<close>

record 'w host =
  ho_cmd :: "string list \<Rightarrow> string \<Rightarrow> 'w \<Rightarrow> (bool \<times> string) \<times> 'w"
  ho_spawn :: "string list \<Rightarrow> 'w \<Rightarrow> nat option \<times> 'w"
  ho_home :: string
  ho_uid :: nat
  ho_room :: "string \<Rightarrow> nat option"
  ho_removable :: "fsys \<Rightarrow> string \<Rightarrow> bool"

datatype service_error = MkdirDenied | WriteDenied | CommandFailed | SpawnFailed | CorruptPidFile string

type_synonym 'w sstate = "fsys \<times> 'w"

definition run_cmd :: "'w host \<Rightarrow> string list \<Rightarrow> 'w sstate \<Rightarrow> service_error option \<times> 'w sstate" where
  "run_cmd h args s = (case ho_cmd h args '''' (snd s) of ((ok, out), w) \<Rightarrow> (if ok then None else Some CommandFailed, fst s, w))"

definition cmd_output :: "'w host \<Rightarrow> string list \<Rightarrow> 'w sstate \<Rightarrow> (bool \<times> string) \<times> 'w sstate" where
  "cmd_output h args s = (case ho_cmd h args '''' (snd s) of (r, w) \<Rightarrow> (r, fst s, w))"

text \<open>The directory and then the file, as writeUnit, writePlist and the PID file are written.\<close>

definition write_below :: "'w host \<Rightarrow> string \<Rightarrow> string \<Rightarrow> string \<Rightarrow> 'w sstate \<Rightarrow> service_error option \<times> 'w sstate" where
  "write_below h dir path content s =
    (case os_MkdirAll (fst s) dir of
       (Some _, f1) \<Rightarrow> (Some MkdirDenied, f1, snd s)
     | (None, f1) \<Rightarrow>
       (case os_WriteFile (ho_room h) f1 path content of
          (Some _, f2) \<Rightarrow> (Some WriteDenied, f2, snd s) | (None, f2) \<Rightarrow> (None, f2, snd s)))"

text \<open>What follows if nothing has failed.\<close>

definition and_then :: "service_error option \<times> 'w sstate \<Rightarrow> ('w sstate \<Rightarrow> service_error option \<times> 'w sstate) \<Rightarrow> service_error option \<times> 'w sstate" where
  "and_then r k = (case r of (Some e, s) \<Rightarrow> (Some e, s) | (None, s) \<Rightarrow> k s)"

definition or_else :: "service_error option \<times> 'w sstate \<Rightarrow> ('w sstate \<Rightarrow> service_error option \<times> 'w sstate) \<Rightarrow> service_error option \<times> 'w sstate" where
  "or_else r k = (case r of (Some _, s) \<Rightarrow> k s | (None, s) \<Rightarrow> (None, s))"

section \<open>systemd\<close>

definition syncthing_unit :: string where "syncthing_unit = ''dotkeeper-syncthing.service''"

definition unitDir :: "'w host \<Rightarrow> string" where
  "unitDir h = path_Join (path_Join (path_Join (ho_home h) ''.config'') ''systemd'') ''user''"

definition unit_text :: "string \<Rightarrow> string" where
  "unit_text binaryPath =
     ''[Unit]'' @ nl @ ''Description=dotkeeper embedded Syncthing instance'' @ nl @
     ''After=network-online.target'' @ nl @ ''Wants=network-online.target'' @ nl @ nl @
     ''[Service]'' @ nl @ ''ExecStart='' @ [dquote] @ binaryPath @ [dquote] @ '' start'' @ nl @
     ''Restart=on-failure'' @ nl @ ''RestartSec=10'' @ nl @ nl @
     ''[Install]'' @ nl @ ''WantedBy=default.target'' @ nl"

definition systemctl :: "'w host \<Rightarrow> string list \<Rightarrow> 'w sstate \<Rightarrow> service_error option \<times> 'w sstate" where
  "systemctl h args = run_cmd h ([''systemctl'', ''--user''] @ args)"

definition Systemd_DaemonReload :: "'w host \<Rightarrow> 'w sstate \<Rightarrow> service_error option \<times> 'w sstate" where
  "Systemd_DaemonReload h = systemctl h [''daemon-reload'']"

definition writeUnit :: "'w host \<Rightarrow> string \<Rightarrow> string \<Rightarrow> 'w sstate \<Rightarrow> service_error option \<times> 'w sstate" where
  "writeUnit h filename content = write_below h (unitDir h) (path_Join (unitDir h) filename) content"

definition Systemd_Install :: "'w host \<Rightarrow> string \<Rightarrow> 'w sstate \<Rightarrow> service_error option \<times> 'w sstate" where
  "Systemd_Install h binaryPath s =
    and_then (and_then (writeUnit h syncthing_unit (unit_text binaryPath) s) (Systemd_DaemonReload h))
      (systemctl h [''enable'', ''--now'', syncthing_unit])"

definition Systemd_Start :: "'w host \<Rightarrow> 'w sstate \<Rightarrow> service_error option \<times> 'w sstate" where
  "Systemd_Start h = systemctl h [''start'', syncthing_unit]"

definition Systemd_Stop :: "'w host \<Rightarrow> 'w sstate \<Rightarrow> service_error option \<times> 'w sstate" where
  "Systemd_Stop h = systemctl h [''stop'', syncthing_unit]"

definition Systemd_Running :: "'w host \<Rightarrow> 'w sstate \<Rightarrow> bool \<times> 'w sstate" where
  "Systemd_Running h s = (case systemctl h [''is-active'', ''--quiet'', syncthing_unit] s of (e, s') \<Rightarrow> (e = None, s'))"

record SyncthingUnitStatus =
  us_Active :: string
  us_Sub :: string
  us_Since :: gotime

definition no_status :: SyncthingUnitStatus where "no_status = \<lparr>us_Active = '''', us_Sub = '''', us_Since = 0\<rparr>"

definition trimWeekdayAndZone :: "string \<Rightarrow> string" where
  "trimWeekdayAndZone ts0 =
    (let ts = TrimSpace ts0;
         ts1 = (case str_Cut ts (CHR '' '') of (first, rest, ok) \<Rightarrow> if ok \<and> length first = 3 then rest else ts)
     in case LastIndexByte ts1 (CHR '' '') of None \<Rightarrow> ts1 | Some i \<Rightarrow> take i ts1)"

text \<open>\<open>parse\<close> is time.ParseInLocation of a date and a time in local time.\<close>

definition parse_show_line :: "(string \<Rightarrow> gotime option) \<Rightarrow> SyncthingUnitStatus \<Rightarrow> string \<Rightarrow> SyncthingUnitStatus" where
  "parse_show_line parse st line =
    (case str_Cut (TrimSpace line) (CHR ''='') of (k, v, ok) \<Rightarrow>
       if \<not> ok then st
       else if k = ''ActiveState'' then st\<lparr>us_Active := v\<rparr>
       else if k = ''SubState'' then st\<lparr>us_Sub := v\<rparr>
       else if k = ''ActiveEnterTimestamp'' then
         (if v = '''' \<or> v = ''n/a'' then st
          else case parse (trimWeekdayAndZone v) of None \<Rightarrow> st | Some t \<Rightarrow> st\<lparr>us_Since := t\<rparr>)
       else st)"

definition parseSystemctlShow :: "(string \<Rightarrow> gotime option) \<Rightarrow> string \<Rightarrow> SyncthingUnitStatus" where
  "parseSystemctlShow parse raw = foldl (parse_show_line parse) no_status (str_Split newline raw)"

definition SyncthingStatus :: "(string \<Rightarrow> gotime option) \<Rightarrow> 'w host \<Rightarrow> 'w sstate \<Rightarrow> SyncthingUnitStatus \<times> 'w sstate" where
  "SyncthingStatus parse h s =
    (case cmd_output h [''systemctl'', ''--user'', ''show'', syncthing_unit, ''--property=ActiveState,SubState,ActiveEnterTimestamp''] s of
       ((ok, out), s') \<Rightarrow> (if ok then parseSystemctlShow parse out else no_status, s'))"

section \<open>cron\<close>

definition pidFile :: "'w host \<Rightarrow> string" where "pidFile h = ho_home h @ ''/.local/share/dotkeeper/syncthing.pid''"

text \<open>The regular expression of a process number.\<close>

definition pidRegex :: "string \<Rightarrow> bool" where "pidRegex s \<longleftrightarrow> s \<noteq> '''' \<and> list_all is_digit s"

definition Cron_Running :: "'w host \<Rightarrow> 'w sstate \<Rightarrow> bool \<times> 'w sstate" where
  "Cron_Running h s =
    (case os_ReadFile (fst s) (pidFile h) of Inl _ \<Rightarrow> (False, s)
     | Inr data \<Rightarrow>
        if \<not> pidRegex (TrimSpace data) then (False, s)
        else case run_cmd h [''kill'', ''-0'', TrimSpace data] s of (e, s') \<Rightarrow> (e = None, s'))"

definition new_crontab :: "string \<Rightarrow> string \<Rightarrow> string" where
  "new_crontab existing line = rev (dropWhile (\<lambda>c. c = newline) (rev existing)) @ nl @ line @ nl"

definition addCrontab :: "'w host \<Rightarrow> string \<Rightarrow> 'w sstate \<Rightarrow> service_error option \<times> 'w sstate" where
  "addCrontab h line s =
    (case cmd_output h [''crontab'', ''-l''] s of ((_, existing), s1) \<Rightarrow>
       if str_Contains existing line then (None, s1)
       else case ho_cmd h [''crontab'', ''-''] (new_crontab existing line) (snd s1) of
              ((ok, _), w) \<Rightarrow> (if ok then None else Some CommandFailed, fst s1, w))"

definition reboot_line :: "string \<Rightarrow> string" where "reboot_line binaryPath = (CHR 0x40) # ''reboot '' @ binaryPath @ '' start''"

definition Cron_Install :: "'w host \<Rightarrow> string \<Rightarrow> 'w sstate \<Rightarrow> service_error option \<times> 'w sstate" where
  "Cron_Install h binaryPath s =
    (case Cron_Running h s of (running, s0) \<Rightarrow>
       if running then (None, s0)
       else case ho_spawn h [''nohup'', binaryPath, ''start''] (snd s0) of
              (None, w) \<Rightarrow> (Some SpawnFailed, fst s0, w)
            | (Some pid, w) \<Rightarrow>
                and_then (write_below h (path_Dir (pidFile h)) (pidFile h) (nat_digits pid) (fst s0, w)) (addCrontab h (reboot_line binaryPath)))"

definition Cron_Stop :: "'w host \<Rightarrow> 'w sstate \<Rightarrow> service_error option \<times> 'w sstate" where
  "Cron_Stop h s =
    (case os_ReadFile (fst s) (pidFile h) of Inl _ \<Rightarrow> (None, s)
     | Inr data \<Rightarrow>
        let pid = TrimSpace data; remove = (\<lambda>s. (try_Remove (ho_removable h) (pidFile h) (fst s), snd s)) in
        if \<not> pidRegex pid then (Some (CorruptPidFile pid), remove s)
        else (None, remove (snd (run_cmd h [''kill'', pid] s))))"

section \<open>launchd\<close>

definition syncthingLabel :: string where "syncthingLabel = ''ch.corbet.dotkeeper.syncthing''"

definition agentDir :: "'w host \<Rightarrow> string" where
  "agentDir h = path_Join (path_Join (ho_home h) ''Library'') ''LaunchAgents''"

definition plistPath :: "'w host \<Rightarrow> string \<Rightarrow> string" where
  "plistPath h label = path_Join (agentDir h) (label @ ''.plist'')"

definition xml_el :: "string \<Rightarrow> string \<Rightarrow> string" where
  "xml_el tag content = ''<'' @ tag @ ''>'' @ content @ ''</'' @ tag @ ''>'' @ nl"

definition plist_text :: "string \<Rightarrow> string" where
  "plist_text binaryPath =
     ''<?xml version='' @ [dquote] @ ''1.0'' @ [dquote] @ '' encoding='' @ [dquote] @ ''UTF-8'' @ [dquote] @ ''?>'' @ nl @
     ''<!DOCTYPE plist PUBLIC '' @ [dquote] @ ''-//Apple//DTD PLIST 1.0//EN'' @ [dquote] @ '' '' @ [dquote] @
       ''http://www.apple.com/DTDs/PropertyList-1.0.dtd'' @ [dquote] @ ''>'' @ nl @
     ''<plist version='' @ [dquote] @ ''1.0'' @ [dquote] @ ''>'' @ nl @ ''<dict>'' @ nl @
     ''    '' @ xml_el ''key'' ''Label'' @ ''    '' @ xml_el ''string'' syncthingLabel @
     ''    '' @ xml_el ''key'' ''ProgramArguments'' @ ''    <array>'' @ nl @
     ''        '' @ xml_el ''string'' binaryPath @ ''        '' @ xml_el ''string'' ''start'' @ ''    </array>'' @ nl @
     ''    '' @ xml_el ''key'' ''RunAtLoad'' @ ''    <true/>'' @ nl @ ''    '' @ xml_el ''key'' ''KeepAlive'' @ ''    <true/>'' @ nl @
     ''    '' @ xml_el ''key'' ''StandardOutPath'' @ ''    '' @ xml_el ''string'' ''/tmp/dotkeeper-syncthing.log'' @
     ''    '' @ xml_el ''key'' ''StandardErrorPath'' @ ''    '' @ xml_el ''string'' ''/tmp/dotkeeper-syncthing.log'' @
     ''</dict>'' @ nl @ ''</plist>'' @ nl"

definition writePlist :: "'w host \<Rightarrow> string \<Rightarrow> string \<Rightarrow> 'w sstate \<Rightarrow> service_error option \<times> 'w sstate" where
  "writePlist h label content = write_below h (agentDir h) (plistPath h label) content"

definition gui_domain :: "'w host \<Rightarrow> string" where "gui_domain h = ''gui/'' @ nat_digits (ho_uid h)"

definition Launchd_Install :: "'w host \<Rightarrow> string \<Rightarrow> 'w sstate \<Rightarrow> service_error option \<times> 'w sstate" where
  "Launchd_Install h binaryPath s =
    and_then (writePlist h syncthingLabel (plist_text binaryPath) s) (\<lambda>s1.
      or_else (run_cmd h [''launchctl'', ''bootstrap'', gui_domain h, plistPath h syncthingLabel] s1)
        (run_cmd h [''launchctl'', ''load'', plistPath h syncthingLabel]))"

definition Launchd_Start :: "'w host \<Rightarrow> 'w sstate \<Rightarrow> service_error option \<times> 'w sstate" where
  "Launchd_Start h = run_cmd h [''launchctl'', ''start'', syncthingLabel]"

definition Launchd_Stop :: "'w host \<Rightarrow> 'w sstate \<Rightarrow> service_error option \<times> 'w sstate" where
  "Launchd_Stop h s =
    or_else (run_cmd h [''launchctl'', ''kill'', ''SIGTERM'', gui_domain h @ ''/'' @ syncthingLabel] s)
      (run_cmd h [''launchctl'', ''stop'', syncthingLabel])"

definition Launchd_Running :: "'w host \<Rightarrow> 'w sstate \<Rightarrow> bool \<times> 'w sstate" where
  "Launchd_Running h s =
    (case cmd_output h [''launchctl'', ''list'', syncthingLabel] s of ((ok, out), s') \<Rightarrow> (ok \<and> length out > 0, s'))"

section \<open>The task scheduler\<close>

definition syncthingTaskName :: string where "syncthingTaskName = ''dotkeeper-syncthing''"

definition WinTask_Start :: "'w host \<Rightarrow> 'w sstate \<Rightarrow> service_error option \<times> 'w sstate" where
  "WinTask_Start h = run_cmd h [''schtasks'', ''/Run'', ''/TN'', syncthingTaskName]"

definition WinTask_Install :: "'w host \<Rightarrow> string \<Rightarrow> 'w sstate \<Rightarrow> service_error option \<times> 'w sstate" where
  "WinTask_Install h binaryPath s =
    and_then (run_cmd h [''schtasks'', ''/Create'', ''/F'', ''/TN'', syncthingTaskName, ''/TR'', [dquote] @ binaryPath @ [dquote] @ '' start'',
        ''/SC'', ''ONLOGON'', ''/RL'', ''LIMITED''] s)
      (run_cmd h [''schtasks'', ''/Run'', ''/TN'', syncthingTaskName])"

definition WinTask_Stop :: "'w host \<Rightarrow> 'w sstate \<Rightarrow> service_error option \<times> 'w sstate" where
  "WinTask_Stop h = run_cmd h [''schtasks'', ''/End'', ''/TN'', syncthingTaskName]"

definition WinTask_Running :: "'w host \<Rightarrow> 'w sstate \<Rightarrow> bool \<times> 'w sstate" where
  "WinTask_Running h s =
    (case cmd_output h [''schtasks'', ''/Query'', ''/TN'', syncthingTaskName, ''/FO'', ''CSV'', ''/NH''] s of
       ((ok, out), s') \<Rightarrow> (ok \<and> str_Contains out ''Running'', s'))"

section \<open>The interface Manager\<close>

datatype manager = Systemd | Cron | Launchd | WinTaskSched | NoopManager

fun manager_Name :: "manager \<Rightarrow> string" where
  "manager_Name Systemd = ''systemd''"
| "manager_Name Cron = ''cron''"
| "manager_Name Launchd = ''launchd''"
| "manager_Name WinTaskSched = ''Task Scheduler''"
| "manager_Name NoopManager = ''none''"

definition PlatformName :: "manager \<Rightarrow> string" where "PlatformName m = manager_Name m"

fun InstallSyncthing :: "'w host \<Rightarrow> manager \<Rightarrow> string \<Rightarrow> 'w sstate \<Rightarrow> service_error option \<times> 'w sstate" where
  "InstallSyncthing h Systemd bin s = Systemd_Install h bin s"
| "InstallSyncthing h Cron bin s = Cron_Install h bin s"
| "InstallSyncthing h Launchd bin s = Launchd_Install h bin s"
| "InstallSyncthing h WinTaskSched bin s = WinTask_Install h bin s"
| "InstallSyncthing h NoopManager bin s = (None, s)"

fun StartSyncthing :: "'w host \<Rightarrow> manager \<Rightarrow> 'w sstate \<Rightarrow> service_error option \<times> 'w sstate" where
  "StartSyncthing h Systemd s = Systemd_Start h s"
| "StartSyncthing h Cron s = (None, s)"
| "StartSyncthing h Launchd s = Launchd_Start h s"
| "StartSyncthing h WinTaskSched s = WinTask_Start h s"
| "StartSyncthing h NoopManager s = (None, s)"

fun StopSyncthing :: "'w host \<Rightarrow> manager \<Rightarrow> 'w sstate \<Rightarrow> service_error option \<times> 'w sstate" where
  "StopSyncthing h Systemd s = Systemd_Stop h s"
| "StopSyncthing h Cron s = Cron_Stop h s"
| "StopSyncthing h Launchd s = Launchd_Stop h s"
| "StopSyncthing h WinTaskSched s = WinTask_Stop h s"
| "StopSyncthing h NoopManager s = (None, s)"

fun IsSyncthingRunning :: "'w host \<Rightarrow> manager \<Rightarrow> 'w sstate \<Rightarrow> bool \<times> 'w sstate" where
  "IsSyncthingRunning h Systemd s = Systemd_Running h s"
| "IsSyncthingRunning h Cron s = Cron_Running h s"
| "IsSyncthingRunning h Launchd s = Launchd_Running h s"
| "IsSyncthingRunning h WinTaskSched s = WinTask_Running h s"
| "IsSyncthingRunning h NoopManager s = (False, s)"

definition DaemonReload :: "'w host \<Rightarrow> manager \<Rightarrow> 'w sstate \<Rightarrow> service_error option \<times> 'w sstate" where
  "DaemonReload h m s = (if m = Systemd then Systemd_DaemonReload h s else (None, s))"

text \<open>Detect of the four builds, and the manager the commands use.\<close>

datatype goos = Linux | Darwin | Windows | OtherUnix

definition isSystemd :: "fsys \<Rightarrow> bool" where
  "isSystemd f = (case os_Stat f ''/run/systemd/system'' of Inl _ \<Rightarrow> False | Inr _ \<Rightarrow> True)"

definition Detect_linux :: "fsys \<Rightarrow> manager" where "Detect_linux f = (if isSystemd f then Systemd else Cron)"
definition Detect_darwin :: manager where "Detect_darwin = Launchd"
definition Detect_windows :: manager where "Detect_windows = WinTaskSched"
definition Detect_other :: manager where "Detect_other = Cron"

definition Detect :: "goos \<Rightarrow> fsys \<Rightarrow> manager option" where
  "Detect os f = Some (case os of Linux \<Rightarrow> Detect_linux f | Darwin \<Rightarrow> Detect_darwin | Windows \<Rightarrow> Detect_windows | OtherUnix \<Rightarrow> Detect_other)"

definition svcManager :: "goos \<Rightarrow> fsys \<Rightarrow> manager" where
  "svcManager os f = (case Detect os f of None \<Rightarrow> NoopManager | Some m \<Rightarrow> m)"

text \<open>The view the service check of doctor has of a manager: only systemd tells the state of the unit.\<close>

definition service_view :: "(string \<Rightarrow> gotime option) \<Rightarrow> 'w host \<Rightarrow> manager option \<Rightarrow> 'w sstate \<Rightarrow> service_manager" where
  "service_view parse h m s =
    (case m of None \<Rightarrow> NoManager
     | Some Systemd \<Rightarrow> RichManager (us_Active (fst (SyncthingStatus parse h s)))
     | Some m' \<Rightarrow> PlainManager (fst (IsSyncthingRunning h m' s)))"

section \<open>Which files a manager touches\<close>

datatype service_op = OpInstall string | OpStart | OpStop | OpQuery | OpReload

text \<open>
  What the commands rely on: a manager that starts, asks or reloads leaves the files alone, and one that installs or stops changes at
  most the files it owns.
\<close>

locale service_backend =
  fixes install :: "'w host \<Rightarrow> string \<Rightarrow> 'w sstate \<Rightarrow> service_error option \<times> 'w sstate"
    and start :: "'w host \<Rightarrow> 'w sstate \<Rightarrow> service_error option \<times> 'w sstate"
    and stop :: "'w host \<Rightarrow> 'w sstate \<Rightarrow> service_error option \<times> 'w sstate"
    and running :: "'w host \<Rightarrow> 'w sstate \<Rightarrow> bool \<times> 'w sstate"
    and reload :: "'w host \<Rightarrow> 'w sstate \<Rightarrow> service_error option \<times> 'w sstate"
    and own :: "'w host \<Rightarrow> string set"
  assumes install_frame: "q \<notin> own h \<Longrightarrow> nodes (fst (snd (install h bin s))) q = nodes (fst s) q"
    and stop_frame: "q \<notin> own h \<Longrightarrow> nodes (fst (snd (stop h s))) q = nodes (fst s) q"
    and start_files: "fst (snd (start h s)) = fst s"
    and running_files: "fst (snd (running h s)) = fst s"
    and reload_files: "fst (snd (reload h s)) = fst s"
begin

fun op_step :: "'w host \<Rightarrow> 'w sstate \<Rightarrow> service_op \<Rightarrow> 'w sstate" where
  "op_step h s (OpInstall bin) = snd (install h bin s)"
| "op_step h s OpStart = snd (start h s)"
| "op_step h s OpStop = snd (stop h s)"
| "op_step h s OpQuery = snd (running h s)"
| "op_step h s OpReload = snd (reload h s)"

lemma ops_frame: "q \<notin> own h \<Longrightarrow> nodes (fst (foldl (op_step h) s ops)) q = nodes (fst s) q"
proof (induction ops arbitrary: s)
  case (Cons p ops)
  then have "nodes (fst (op_step h s p)) q = nodes (fst s) q"
    by (cases p) (simp_all add: install_frame stop_frame start_files running_files reload_files)
  then show ?case using Cons by simp
qed simp

end

fun manager_step :: "'w host \<Rightarrow> manager \<Rightarrow> 'w sstate \<Rightarrow> service_op \<Rightarrow> 'w sstate" where
  "manager_step h m s (OpInstall bin) = snd (InstallSyncthing h m bin s)"
| "manager_step h m s OpStart = snd (StartSyncthing h m s)"
| "manager_step h m s OpStop = snd (StopSyncthing h m s)"
| "manager_step h m s OpQuery = snd (IsSyncthingRunning h m s)"
| "manager_step h m s OpReload = snd (DaemonReload h m s)"

text \<open>The file of each manager and the directories above it, which are made if they are missing.\<close>

fun own_files :: "manager \<Rightarrow> 'w host \<Rightarrow> string set" where
  "own_files Systemd h = insert (path_Join (unitDir h) syncthing_unit) (set (ancestors (unitDir h)))"
| "own_files Cron h = insert (pidFile h) (set (ancestors (path_Dir (pidFile h))))"
| "own_files Launchd h = insert (plistPath h syncthingLabel) (set (ancestors (agentDir h)))"
| "own_files WinTaskSched h = {}"
| "own_files NoopManager h = {}"

lemma mkdir_chain_frame: "q \<notin> set ps \<Longrightarrow> nodes (snd (mkdir_chain ps f)) q = nodes f q"
  by (induction ps f rule: mkdir_chain.induct) (auto split: sum.split node.split ioerr.split)

lemma os_MkdirAll_frame: "q \<notin> set (ancestors d) \<Longrightarrow> nodes (snd (os_MkdirAll f d)) q = nodes f q"
  by (auto simp: os_MkdirAll_def mkdir_chain_frame split: sum.split node.split)

lemma os_WriteFile_frame: "q \<noteq> p \<Longrightarrow> nodes (snd (os_WriteFile room f p data)) q = nodes f q"
  by (auto simp: os_WriteFile_def split: option.split)

lemma write_below_frame:
  assumes "q \<noteq> path" "q \<notin> set (ancestors dir)"
  shows "nodes (fst (snd (write_below h dir path content s))) q = nodes (fst s) q"
proof -
  obtain e1 f1 where 1: "os_MkdirAll (fst s) dir = (e1, f1)" by fastforce
  obtain e2 f2 where 2: "os_WriteFile (ho_room h) f1 path content = (e2, f2)" by fastforce
  have "nodes f1 q = nodes (fst s) q" "nodes f2 q = nodes f1 q"
    using os_MkdirAll_frame[OF assms(2), of "fst s"] os_WriteFile_frame[OF assms(1), of "ho_room h" f1 content] 1 2 by simp_all
  then show ?thesis using 1 2 by (simp add: write_below_def split: option.split)
qed

lemma run_cmd_files [simp]: "fst (snd (run_cmd h args s)) = fst s"
  by (simp add: run_cmd_def split: prod.split)

lemma run_cmd_keeps: "run_cmd h args s = (e, s') \<Longrightarrow> fst s' = fst s"
  using run_cmd_files[of h args s] by simp

lemma cmd_output_files [simp]: "fst (snd (cmd_output h args s)) = fst s"
  by (simp add: cmd_output_def split: prod.split)

lemma cmd_output_keeps: "cmd_output h args s = (r, s') \<Longrightarrow> fst s' = fst s"
  using cmd_output_files[of h args s] by simp

lemma and_then_frame:
  assumes "nodes (fst (snd r)) q = nodes f q" "\<And>s. nodes (fst (snd (k s))) q = nodes (fst s) q"
  shows "nodes (fst (snd (and_then r k))) q = nodes f q"
  using assms by (auto simp: and_then_def split: prod.split option.split)

lemma or_else_files:
  assumes "fst (snd r) = f" "\<And>s. fst (snd (k s)) = fst s"
  shows "fst (snd (or_else r k)) = f"
  using assms by (auto simp: or_else_def split: prod.split option.split)

lemma addCrontab_files [simp]: "fst (snd (addCrontab h line s)) = fst s"
proof -
  obtain ok out s1 where 1: "cmd_output h [''crontab'', ''-l''] s = ((ok, out), s1)" by (metis prod.collapse)
  then have "fst s1 = fst s" by (metis cmd_output_files snd_conv)
  then show ?thesis using 1 by (simp add: addCrontab_def split: prod.split)
qed

lemma Cron_Running_files [simp]: "fst (snd (Cron_Running h s)) = fst s"
  by (auto simp: Cron_Running_def dest: run_cmd_keeps split: sum.split prod.split)

lemma Cron_Install_frame:
  assumes "q \<notin> own_files Cron h"
  shows "nodes (fst (snd (Cron_Install h bin s))) q = nodes (fst s) q"
proof -
  obtain r s0 where 0: "Cron_Running h s = (r, s0)" by (cases "Cron_Running h s")
  then have s0: "fst s0 = fst s" by (metis Cron_Running_files snd_conv)
  obtain p w where 1: "ho_spawn h [''nohup'', bin, ''start''] (snd s0) = (p, w)" by fastforce
  have "nodes (fst (snd (and_then (write_below h (path_Dir (pidFile h)) (pidFile h) t (fst s0, w)) (addCrontab h l)))) q = nodes (fst s) q" for t l
    by (rule and_then_frame) (use assms in \<open>simp_all add: write_below_frame s0\<close>)
  then show ?thesis using 0 1 s0 by (simp add: Cron_Install_def split: option.split)
qed

lemma Cron_Stop_frame: "q \<notin> own_files Cron h \<Longrightarrow> nodes (fst (snd (Cron_Stop h s))) q = nodes (fst s) q"
  by (auto simp: Cron_Stop_def Let_def try_Remove_def split: sum.split)

interpretation mgr: service_backend "\<lambda>h. InstallSyncthing h m" "\<lambda>h. StartSyncthing h m" "\<lambda>h. StopSyncthing h m"
  "\<lambda>h. IsSyncthingRunning h m" "\<lambda>h. DaemonReload h m" "own_files m" for m
proof
  fix q h bin s
  show "nodes (fst (snd (InstallSyncthing h m bin s))) q = nodes (fst s) q" if q: "q \<notin> own_files m h"
  proof (cases m)
    case Systemd
    then show ?thesis using q
      by (auto simp: Systemd_Install_def Systemd_DaemonReload_def systemctl_def writeUnit_def write_below_frame intro!: and_then_frame)
  next
    case Launchd
    then show ?thesis using q
      by (auto simp: Launchd_Install_def writePlist_def write_below_frame or_else_files intro!: and_then_frame)
  next
    case WinTaskSched
    then show ?thesis by (auto simp: WinTask_Install_def intro!: and_then_frame)
  qed (use q Cron_Install_frame in \<open>simp_all del: own_files.simps\<close>)
  show "nodes (fst (snd (StopSyncthing h m s))) q = nodes (fst s) q" if q: "q \<notin> own_files m h"
    using q Cron_Stop_frame[of q h s]
    by (cases m) (simp_all add: Systemd_Stop_def systemctl_def WinTask_Stop_def Launchd_Stop_def or_else_files)
  show "fst (snd (StartSyncthing h m s)) = fst s"
    by (cases m) (simp_all add: Systemd_Start_def systemctl_def WinTask_Start_def Launchd_Start_def)
  have c: "fst (snd (case run_cmd h args s of (e, s') \<Rightarrow> (P e, s'))) = fst s" for P :: "service_error option \<Rightarrow> bool" and args
    by (auto dest: run_cmd_keeps split: prod.split)
  have d: "fst (snd (case cmd_output h args s of ((ok, out), s') \<Rightarrow> (P ok out, s'))) = fst s" for P :: "bool \<Rightarrow> string \<Rightarrow> bool" and args
    by (auto dest: cmd_output_keeps split: prod.split)
  show "fst (snd (IsSyncthingRunning h m s)) = fst s"
    by (cases m) (simp_all add: Systemd_Running_def systemctl_def WinTask_Running_def Launchd_Running_def c d)
  show "fst (snd (DaemonReload h m s)) = fst s"
    by (simp add: DaemonReload_def Systemd_DaemonReload_def systemctl_def)
qed

lemma manager_step_eq: "manager_step h m = mgr.op_step m h"
proof (intro ext)
  fix s p
  show "manager_step h m s p = mgr.op_step m h s p" by (cases p) simp_all
qed



definition demo_host :: "(string \<times> string list list) host" where
  "demo_host = \<lparr>ho_cmd = (\<lambda>args input w.
       if args = [''crontab'', ''-l''] then ((True, fst w), w)
       else if args = [''crontab'', ''-''] then ((True, ''''), (input, snd w))
       else ((True, ''''), (fst w, snd w @ [args]))),
     ho_spawn = (\<lambda>args w. (Some 4711, w)), ho_home = ''/home/u'', ho_uid = 1000, ho_room = (\<lambda>_. None), ho_removable = (\<lambda>_ _. True)\<rparr>"

definition demo_home :: fsys where
  "demo_home = \<lparr>nodes = (\<lambda>p. if p \<in> {''/'', ''/home'', ''/home/u''} then Some DirN else if p = ''/home/u/.bashrc'' then Some (FileN ''x'') else None), broken = (\<lambda>_. False)\<rparr>"


section \<open>The crontab\<close>

text \<open>
  crontab(1): \<open>-l\<close> prints the table, or fails and prints nothing if there is none; \<open>-\<close> replaces the table by its input, or fails and
  changes nothing. \<open>table\<close> is the text of the table.
\<close>

definition crontab_laws :: "'w host \<Rightarrow> ('w \<Rightarrow> string) \<Rightarrow> bool" where
  "crontab_laws h table \<longleftrightarrow>
    (\<forall>w ok out w'. ho_cmd h [''crontab'', ''-l''] '''' w = ((ok, out), w') \<longrightarrow> table w' = table w \<and> out = table w) \<and>
    (\<forall>text w ok out w'. ho_cmd h [''crontab'', ''-''] text w = ((ok, out), w') \<longrightarrow> table w' = (if ok then text else table w))"

lemma crontab_list: "crontab_laws h table \<Longrightarrow> ho_cmd h [''crontab'', ''-l''] '''' w = ((ok, out), w') \<Longrightarrow> table w' = table w \<and> out = table w"
  unfolding crontab_laws_def by blast

lemma crontab_set: "crontab_laws h table \<Longrightarrow> ho_cmd h [''crontab'', ''-''] text w = ((ok, out), w') \<Longrightarrow> table w' = (if ok then text else table w)"
  unfolding crontab_laws_def by blast

text \<open>The lines of the new table: those of the old without blank ones at the end, then the new line.\<close>

lemma split_trailing:
  "\<exists>k. str_Split newline e = str_Split newline (rev (dropWhile (\<lambda>c. c = newline) (rev e))) @ replicate k ''''"
proof -
  obtain t where t: "t = rev (dropWhile (\<lambda>c. c = newline) (rev e))" by blast
  obtain k where k: "takeWhile (\<lambda>c. c = newline) (rev e) = replicate k newline"
    using replicate_length_same[of "takeWhile (\<lambda>c. c = newline) (rev e)" newline] by (metis (mono_tags) set_takeWhileD)
  let ?d = "dropWhile (\<lambda>c. c = newline) (rev e)"
  have "replicate k newline @ ?d = rev e" using takeWhile_dropWhile_id[of "\<lambda>c. c = newline" "rev e"] unfolding k .
  then have "rev (replicate k newline @ ?d) = rev (rev e)" by (rule arg_cong)
  then have e: "e = t @ replicate k newline" unfolding t rev_append rev_replicate rev_rev_ident by (rule sym)
  have "str_Split newline (t @ replicate n newline) = str_Split newline t @ replicate n ''''" for n
  proof (induction n)
    case (Suc n)
    have "t @ replicate (Suc n) newline = (t @ replicate n newline) @ newline # []" by (simp add: replicate_append_same)
    then have "str_Split newline (t @ replicate (Suc n) newline) = str_Split newline (t @ replicate n newline) @ ['''']"
      by (simp only: split_append) simp
    then show ?case using Suc by (simp add: replicate_append_same)
  qed simp
  then show ?thesis using e t by metis
qed

lemma new_crontab_lines:
  assumes "newline \<notin> set line"
  shows "str_Split newline (new_crontab e line) = str_Split newline (rev (dropWhile (\<lambda>c. c = newline) (rev e))) @ [line, '''']"
  using assms by (simp add: new_crontab_def nl_def newline_def[symmetric] split_append split_none)

text \<open>
  The entry of the crontab. If adding a line succeeds, every line of the table that is not blank is still in it, the table has the line
  (or had a text with it), no file has changed, and adding it again succeeds and leaves the table as it is.
\<close>

theorem cron_entry_added_once:
  assumes "crontab_laws h table" "newline \<notin> set line" "addCrontab h line (f, w) = (None, f', w')"
  shows "f' = f \<and> set (str_Split newline (table w)) - {''''} \<subseteq> set (str_Split newline (table w')) \<and>
    (str_Contains (table w) line \<or> line \<in> set (str_Split newline (table w'))) \<and>
    (\<exists>w''. addCrontab h line (f', w') = (None, f', w'') \<and> table w'' = table w')"
proof -
  obtain ok out w1 where l: "ho_cmd h [''crontab'', ''-l''] '''' w = ((ok, out), w1)" by (metis prod.collapse)
  note t1 = crontab_list[OF assms(1) l]
  have again: "\<exists>w''. addCrontab h line (f, w') = (None, f, w'') \<and> table w'' = table w'" if c: "str_Contains (table w') line"
  proof -
    obtain ok2 out2 w2 where l2: "ho_cmd h [''crontab'', ''-l''] '''' w' = ((ok2, out2), w2)" by (metis prod.collapse)
    then show ?thesis using crontab_list[OF assms(1) l2] c by (simp add: addCrontab_def cmd_output_def)
  qed
  show ?thesis
  proof (cases "str_Contains (table w) line")
    case True
    then have "f' = f" "w' = w1" using assms(3) l t1 by (simp_all add: addCrontab_def cmd_output_def)
    then show ?thesis using True t1 again by auto
  next
    case False
    obtain ok3 out3 w3 where s: "ho_cmd h [''crontab'', ''-''] (new_crontab (table w) line) w1 = ((ok3, out3), w3)" by (metis prod.collapse)
    then have "ok3" "w' = w3" "f' = f" using assms(3) l t1 False by (auto simp: addCrontab_def cmd_output_def split: if_splits)
    then have t: "f' = f" "table w' = new_crontab (table w) line" using crontab_set[OF assms(1) s] by simp_all
    obtain k where "str_Split newline (table w) = str_Split newline (rev (dropWhile (\<lambda>c. c = newline) (rev (table w)))) @ replicate k ''''"
      using split_trailing by blast
    then have "set (str_Split newline (table w)) - {''''} \<subseteq> set (str_Split newline (table w')) \<and> line \<in> set (str_Split newline (table w'))"
      unfolding t(2) new_crontab_lines[OF assms(2)] by auto
    moreover have "str_Contains (table w') line" unfolding t(2) new_crontab_def str_Contains_iff by (metis append_assoc)
    ultimately show ?thesis using t again by simp
  qed
qed

lemma demo_host_crontab: "crontab_laws demo_host fst"
  by (simp add: crontab_laws_def demo_host_def)

theorem cron_entry_added_once_witness:
  "''MAILTO=me'' \<in> set (str_Split newline (fst (snd (snd (addCrontab demo_host (reboot_line ''/usr/bin/dotkeeper'') (demo_home, ''MAILTO=me'' @ nl @ nl, []))))))"
proof -
  let ?r = "addCrontab demo_host (reboot_line ''/usr/bin/dotkeeper'') (demo_home, ''MAILTO=me'' @ nl @ nl, [])"
  have "newline \<notin> set (reboot_line ''/usr/bin/dotkeeper'')" by code_simp
  moreover have "?r = (None, demo_home, snd (snd ?r))"
    by (simp add: addCrontab_def cmd_output_def demo_host_def reboot_line_def nl_def HasPrefix_def)
  moreover have "''MAILTO=me'' \<in> set (str_Split newline (''MAILTO=me'' @ nl @ nl))" by code_simp
  ultimately show ?thesis using cron_entry_added_once[OF demo_host_crontab, of "reboot_line ''/usr/bin/dotkeeper''" demo_home "(''MAILTO=me'' @ nl @ nl, [])" demo_home "snd (snd ?r)"]
    by auto
qed

text \<open>
  The check for a duplicate looks for the text anywhere in the table: an entry that is commented out, or one of a longer path, counts,
  and the installation reports success without an entry that starts anything.
\<close>

theorem commented_entry_counts:
  "str_Contains existing line \<Longrightarrow> ho_cmd h [''crontab'', ''-l''] '''' w = ((True, existing), w') \<Longrightarrow> addCrontab h line (f, w) = (None, f, w')"
  by (simp add: addCrontab_def cmd_output_def)

theorem commented_entry_counts_witness:
  "fst (addCrontab demo_host (reboot_line ''/x'') (demo_home, ''# '' @ reboot_line ''/x'' @ nl, [])) = None"
proof -
  have "str_Contains (''# '' @ reboot_line ''/x'' @ nl) (reboot_line ''/x'')" by code_simp
  from commented_entry_counts[OF this, of demo_host "(''# '' @ reboot_line ''/x'' @ nl, [])" "(''# '' @ reboot_line ''/x'' @ nl, [])" demo_home]
  show ?thesis by (simp add: demo_host_def)
qed

section \<open>The PID file\<close>

lemma digit_not_space: "is_digit c \<Longrightarrow> \<not> is_space c"
  by (auto simp: is_digit_def in_range_def is_space_def)

lemma nat_digits_neq_Nil: "nat_digits n \<noteq> []"
  by (subst nat_digits.simps) simp

lemma TrimSpace_ends:
  assumes "s \<noteq> []" "\<not> is_space (hd s)" "\<not> is_space (last s)"
  shows "TrimSpace s = s"
proof -
  have d: "xs \<noteq> [] \<Longrightarrow> \<not> is_space (hd xs) \<Longrightarrow> dropWhile is_space xs = xs" for xs by (cases xs) simp_all
  show ?thesis using d[of s] d[of "rev s"] assms by (simp add: TrimSpace_def hd_rev)
qed

lemma word_ends: "word t \<Longrightarrow> t \<noteq> [] \<and> \<not> is_space (hd t) \<and> \<not> is_space (last t)"
  by (simp add: word_def)

lemma TrimSpace_word: "word t \<Longrightarrow> TrimSpace t = t"
  by (simp add: TrimSpace_ends word_ends)

lemma nat_digits_word: "word (nat_digits n)"
  using nat_digits_digits[of n] nat_digits_neq_Nil[of n] digit_not_space by (auto simp: word_def list_all_iff)

text \<open>
  Stopping what was started. If the process was started and its number could be written, stop kills exactly that process, and the file
  of the number is gone, if it can be removed.
\<close>

theorem cron_stops_what_it_started:
  assumes "write_below h (path_Dir (pidFile h)) (pidFile h) (nat_digits pid) (f, w) = (None, f1, w1)" "ho_room h (pidFile h) = None"
  shows "Cron_Stop h (f1, w1) =
    (None, try_Remove (ho_removable h) (pidFile h) f1, snd (ho_cmd h [''kill'', nat_digits pid] '''' w1))"
proof -
  obtain e0 f0 where 0: "os_MkdirAll f (path_Dir (pidFile h)) = (e0, f0)" by fastforce
  then have "e0 = None" using assms(1) by (cases e0) (auto simp: write_below_def)
  then have "os_WriteFile (ho_room h) f0 (pidFile h) (nat_digits pid) = (None, f1)"
    using 0 assms(1) by (auto simp: write_below_def split: prod.splits option.splits)
  then have "os_ReadFile f1 (pidFile h) = Inr (nat_digits pid)"
    using assms(2) by (auto simp: os_WriteFile_def os_ReadFile_def os_Stat_def split: if_splits)
  moreover have "TrimSpace (nat_digits pid) = nat_digits pid" by (rule TrimSpace_word[OF nat_digits_word])
  moreover have "pidRegex (nat_digits pid)" by (simp add: pidRegex_def nat_digits_neq_Nil nat_digits_digits)
  ultimately show ?thesis by (simp add: Cron_Stop_def run_cmd_def Let_def split: prod.split)
qed

section \<open>The state of the unit\<close>

lemma word_no_blank: "word t \<Longrightarrow> CHR '' '' \<notin> set t"
  by (auto simp: word_def is_space_def)

text \<open>A time as systemd prints it: the weekday, what is parsed, the zone.\<close>

lemma trim_systemd_time:
  assumes "word wd" "length wd = 3" "word zone"
  shows "trimWeekdayAndZone (wd @ '' '' @ stamp @ '' '' @ zone) = stamp"
proof -
  have t: "TrimSpace (wd @ '' '' @ stamp @ '' '' @ zone) = wd @ '' '' @ stamp @ '' '' @ zone"
    using word_ends[OF assms(1)] word_ends[OF assms(3)] by (intro TrimSpace_ends) auto
  have c: "str_Cut (wd @ '' '' @ stamp @ '' '' @ zone) (CHR '' '') = (wd, stamp @ '' '' @ zone, True)"
    using str_Cut_append[of "CHR '' ''" wd "stamp @ '' '' @ zone"] word_no_blank[OF assms(1)] by simp
  have "LastIndexByte (stamp @ '' '' @ zone) (CHR '' '') = Some (length stamp)"
    using LastIndexByte_append_Cons[of "CHR '' ''" zone stamp] word_no_blank[OF assms(3)] by simp
  then show ?thesis using t c assms(2) by (simp add: trimWeekdayAndZone_def Let_def)
qed

lemma show_line:
  assumes "key \<noteq> []" "\<not> is_space (hd key)" "CHR ''='' \<notin> set key" "\<not> is_space (last (''='' @ v))"
  shows "str_Cut (TrimSpace (key @ ''='' @ v)) (CHR ''='') = (key, v, True)"
proof -
  have "TrimSpace (key @ ''='' @ v) = key @ ''='' @ v" using assms by (intro TrimSpace_ends) (auto split: if_splits)
  then show ?thesis using str_Cut_append[of "CHR ''=''" key v] assms(3) by simp
qed

text \<open>
  Reading what systemctl prints. The state, the substate and the time of the last change come out of the three lines whatever the
  words are, with the weekday and the zone taken off the time.
\<close>

theorem unit_status_roundtrip:
  assumes "word active" "word sub" "word wd" "length wd = 3" "word zone" "newline \<notin> set stamp" "parse stamp = Some t"
  shows "parseSystemctlShow parse
      (''ActiveState='' @ active @ nl @ ''SubState='' @ sub @ nl @ ''ActiveEnterTimestamp='' @ (wd @ '' '' @ stamp @ '' '' @ zone) @ nl) =
    \<lparr>us_Active = active, us_Sub = sub, us_Since = t\<rparr>"
proof -
  let ?l1 = "''ActiveState='' @ active" and ?l2 = "''SubState='' @ sub" and ?v = "wd @ '' '' @ stamp @ '' '' @ zone"
  let ?l3 = "''ActiveEnterTimestamp='' @ ?v"
  have nls: "newline \<notin> set ?l1" "newline \<notin> set ?l2" "newline \<notin> set ?l3"
    using assms word_no_newline by (auto simp: newline_def)
  have "str_Split newline (?l1 @ newline # (?l2 @ newline # (?l3 @ newline # []))) = [?l1, ?l2, ?l3, '''']"
    by (simp only: split_append split_none[OF nls(1)] split_none[OF nls(2)] split_none[OF nls(3)]) simp
  then have lines: "str_Split newline (''ActiveState='' @ active @ nl @ ''SubState='' @ sub @ nl @ ''ActiveEnterTimestamp='' @ ?v @ nl) = [?l1, ?l2, ?l3, '''']"
    by (simp add: nl_def newline_def)
  have 1: "str_Cut (TrimSpace ?l1) (CHR ''='') = (''ActiveState'', active, True)"
    using show_line[of "''ActiveState''" active] word_ends[OF assms(1)] by (simp add: is_space_def)
  have 2: "str_Cut (TrimSpace ?l2) (CHR ''='') = (''SubState'', sub, True)"
    using show_line[of "''SubState''" sub] word_ends[OF assms(2)] by (simp add: is_space_def)
  have 3: "str_Cut (TrimSpace ?l3) (CHR ''='') = (''ActiveEnterTimestamp'', ?v, True)"
    using show_line[of "''ActiveEnterTimestamp''" ?v] word_ends[OF assms(5)] by (simp add: is_space_def)
  have 4: "str_Cut (TrimSpace '''') (CHR ''='') = ('''', '''', False)" by code_simp
  have len: "length ?v \<noteq> length ''n/a''" using assms(4) by simp
  have v: "?v \<noteq> ''''" "?v \<noteq> ''n/a''" using len by (simp, metis)
  have "parse_show_line parse st ?l1 = st\<lparr>us_Active := active\<rparr>" "parse_show_line parse st ?l2 = st\<lparr>us_Sub := sub\<rparr>"
    "parse_show_line parse st '''' = st" for st unfolding parse_show_line_def 1 2 4 by simp_all
  moreover have "parse_show_line parse st ?l3 = st\<lparr>us_Since := t\<rparr>" for st
    using v trim_systemd_time[OF assms(3,4,5), of stamp] assms(7) unfolding parse_show_line_def 3 by (simp del: append_Cons append.simps)
  ultimately show ?thesis unfolding parseSystemctlShow_def lines foldl.simps no_status_def by simp
qed

end
