(* ===== verification/Engine.thy ===== *)
theory Engine
  imports Service
begin

text \<open>
  The embedded Syncthing (internal/stengine): setting it up, reading its identity and its key, starting it, and sending its log to a
  file. The Syncthing library and the certificates are arguments: where the library keeps its files, how a certificate is made and
  read, the default configuration, its encoding, and whether each call of the start succeeds.
\<close>

section \<open>The configuration\<close>

record st_device =
  sd_DeviceID :: string
  sd_Name :: string
  sd_Addresses :: "string list"

record st_options =
  so_RawListenAddresses :: "string list"
  so_LocalAnnEnabled :: bool
  so_LocalAnnPort :: nat
  so_GlobalAnnEnabled :: bool
  so_RelaysEnabled :: bool
  so_NATEnabled :: bool
  so_URAccepted :: int
  so_CREnabled :: bool
  so_CRURL :: string
  so_AutoUpgradeIntervalH :: nat
  so_StartBrowser :: bool

record st_config =
  sc_Devices :: "st_device list"
  sc_Folders :: "string list"
  sc_RawAddress :: string
  sc_GUIEnabled :: bool
  sc_APIKey :: string
  sc_Options :: st_options

definition GUIAddress :: string where "GUIAddress = ''127.0.0.1:18384''"
definition ListenTCP :: string where "ListenTCP = ''tcp://:12000''"
definition LocalAnnPort :: nat where "LocalAnnPort = 11027"

text \<open>The settings made on the library's default configuration.\<close>

definition engine_config :: "string \<Rightarrow> st_config \<Rightarrow> st_config" where
  "engine_config deviceID cfg =
    cfg\<lparr>sc_Devices := [\<lparr>sd_DeviceID = deviceID, sd_Name = ''dotkeeper'', sd_Addresses = [''dynamic'']\<rparr>], sc_Folders := [],
        sc_RawAddress := GUIAddress, sc_GUIEnabled := True,
        sc_Options := (sc_Options cfg)\<lparr>so_RawListenAddresses := [ListenTCP], so_LocalAnnEnabled := True, so_LocalAnnPort := LocalAnnPort,
          so_GlobalAnnEnabled := True, so_RelaysEnabled := True, so_NATEnabled := True, so_URAccepted := - 1, so_CREnabled := False,
          so_CRURL := '''', so_AutoUpgradeIntervalH := 0, so_StartBrowser := False\<rparr>\<rparr>"

section \<open>Setting up\<close>

record engine_env =
  en_configDir :: string
  en_dataDir :: string
  en_version :: string
  en_configFile :: string
  en_certFile :: string
  en_keyFile :: string
  en_generate :: "fsys \<Rightarrow> bool \<times> fsys"
  en_loadPair :: "fsys \<Rightarrow> string \<Rightarrow> string \<Rightarrow> string option"
  en_newDeviceID :: "string \<Rightarrow> string"
  en_default :: "string \<Rightarrow> st_config"
  en_encode :: "st_config \<Rightarrow> string"
  en_saves :: "fsys \<Rightarrow> bool"
  en_apikey :: "string \<Rightarrow> string option"

datatype engine_error = ConfigDirFailed | DataDirFailed | CertificateFailed | LoadPairFailed | OpenConfigFailed | SaveConfigFailed
  | ReadConfigFailed | ParseConfigFailed

text \<open>The file is opened and truncated before the library writes it.\<close>

definition generateConfig :: "engine_env \<Rightarrow> fsys \<Rightarrow> engine_error option \<times> fsys" where
  "generateConfig E f =
    (case en_loadPair E f (en_certFile E) (en_keyFile E) of None \<Rightarrow> (Some LoadPairFailed, f)
     | Some der \<Rightarrow>
        let deviceID = en_newDeviceID E der; cfg = engine_config deviceID (en_default E deviceID); p = en_configFile E in
        if broken f p \<or> nodes f p = Some DirN \<or> \<not> is_dir f (path_Dir p) then (Some OpenConfigFailed, f)
        else if en_saves E f then (None, set_node p (Some (FileN (en_encode E cfg))) f)
        else (Some SaveConfigFailed, set_node p (Some (FileN '''')) f))"

definition not_exists :: "fsys \<Rightarrow> string \<Rightarrow> bool" where
  "not_exists f p \<longleftrightarrow> os_Stat f p = Inl NotExist"

definition engine_Setup :: "engine_env \<Rightarrow> fsys \<Rightarrow> engine_error option \<times> fsys" where
  "engine_Setup E f =
    (case os_MkdirAll f (en_configDir E) of (Some _, f1) \<Rightarrow> (Some ConfigDirFailed, f1)
     | (None, f1) \<Rightarrow>
       (case os_MkdirAll f1 (en_dataDir E) of (Some _, f2) \<Rightarrow> (Some DataDirFailed, f2)
        | (None, f2) \<Rightarrow>
          (case (if not_exists f2 (en_certFile E) then en_generate E f2 else (True, f2)) of
             (False, f3) \<Rightarrow> (Some CertificateFailed, f3)
           | (True, f3) \<Rightarrow> if not_exists f3 (en_configFile E) then generateConfig E f3 else (None, f3))))"

definition engine_DeviceID :: "engine_env \<Rightarrow> fsys \<Rightarrow> engine_error + string" where
  "engine_DeviceID E f =
    (case en_loadPair E f (path_Join (en_configDir E) ''cert.pem'') (path_Join (en_configDir E) ''key.pem'') of
       None \<Rightarrow> Inl LoadPairFailed | Some der \<Rightarrow> Inr (en_newDeviceID E der))"

definition engine_APIKey :: "engine_env \<Rightarrow> fsys \<Rightarrow> engine_error + string" where
  "engine_APIKey E f =
    (case os_ReadFile f (path_Join (en_configDir E) ''config.xml'') of Inl _ \<Rightarrow> Inl ReadConfigFailed
     | Inr data \<Rightarrow> (case en_apikey E data of None \<Rightarrow> Inl ParseConfigFailed | Some k \<Rightarrow> Inr k))"

section \<open>Starting\<close>

text \<open>Whether each call of the library succeeds, and the status with which Syncthing ends; 0 is success.\<close>

record start_calls =
  sa_loadPair :: bool
  sa_loadConfig :: bool
  sa_migrate :: bool
  sa_openDatabase :: bool
  sa_newApp :: bool
  sa_start :: bool
  sa_status :: nat

datatype start_error = CertLoadError | ConfigLoadError | MigrateError | DatabaseError | AppError | StartingError | ExitStatus nat

text \<open>The error, and the version the library announces, None if it is left as it is.\<close>

definition engine_Start :: "engine_env \<Rightarrow> start_calls \<Rightarrow> start_error option \<times> string option" where
  "engine_Start E c =
    (if \<not> sa_loadPair c then (Some CertLoadError, None)
     else (if \<not> sa_loadConfig c then Some ConfigLoadError
           else if \<not> sa_migrate c then Some MigrateError
           else if \<not> sa_openDatabase c then Some DatabaseError
           else if \<not> sa_newApp c then Some AppError
           else if \<not> sa_start c then Some StartingError
           else if sa_status c \<noteq> 0 then Some (ExitStatus (sa_status c)) else None,
           if en_version E = '''' then None else Some (''v'' @ en_version E)))"

section \<open>The log\<close>

text \<open>
  The file descriptors of the process, with what each refers to; a call that makes one gives a free number, \<open>fresh\<close>, None if there is
  none. Standard output is 1.
\<close>

type_synonym fdtable = "nat \<Rightarrow> string option"

datatype redirect_error = StateDirFailed | OpenLogFailed | DupFailed | Dup2Failed

definition redirectSyncthingLogs :: "(fdtable \<Rightarrow> nat option) \<Rightarrow> bool \<Rightarrow> string \<Rightarrow> fsys \<times> fdtable \<Rightarrow> (redirect_error + nat) \<times> fsys \<times> fdtable" where
  "redirectSyncthingLogs fresh dup2_ok dir s =
    (case s of (f, t) \<Rightarrow>
     case os_MkdirAll f dir of (Some _, f1) \<Rightarrow> (Inl StateDirFailed, f1, t)
     | (None, f1) \<Rightarrow>
       let logPath = path_Join dir ''syncthing.log'' in
       if broken f1 logPath \<or> nodes f1 logPath = Some DirN \<or> \<not> is_dir f1 (path_Dir logPath) then (Inl OpenLogFailed, f1, t)
       else let f2 = (if nodes f1 logPath = None then set_node logPath (Some (FileN '''')) f1 else f1) in
         case fresh t of None \<Rightarrow> (Inl OpenLogFailed, f2, t)
         | Some logFD \<Rightarrow>
           let t1 = t(logFD := Some logPath) in
           case fresh t1 of None \<Rightarrow> (Inl DupFailed, f2, t1(logFD := None))
           | Some origFD \<Rightarrow>
             let t2 = t1(origFD := t1 1) in
             if \<not> dup2_ok then (Inl Dup2Failed, f2, t2(logFD := None, origFD := None))
             else (Inr origFD, f2, (t2(1 := t2 logFD))(logFD := None)))"

text \<open>What the kernel promises: a new descriptor has a number that was not in use.\<close>

definition gives_free :: "(fdtable \<Rightarrow> nat option) \<Rightarrow> bool" where
  "gives_free fresh \<longleftrightarrow> (\<forall>t n. fresh t = Some n \<longrightarrow> t n = None)"

text \<open>
  All or nothing. On success standard output is the log, the returned descriptor is what standard output was, and no other descriptor
  has changed; on a failure the table is what it was, so no descriptor is left open.
\<close>

theorem log_redirection_all_or_nothing:
  assumes free: "gives_free fresh" and open1: "t 1 \<noteq> None"
    and run: "redirectSyncthingLogs fresh ok dir (f, t) = (r, f', t')"
  shows "case r of Inl _ \<Rightarrow> t' = t
    | Inr fd \<Rightarrow> t' 1 = Some (path_Join dir ''syncthing.log'') \<and> t fd = None \<and> t' fd = t 1 \<and> (\<forall>n. n \<noteq> 1 \<and> n \<noteq> fd \<longrightarrow> t' n = t n)"
proof -
  have fresh: "fresh t = Some n \<Longrightarrow> t n = None" for t n using free unfolding gives_free_def by blast
  obtain e f1 where m: "os_MkdirAll f dir = (e, f1)" by fastforce
  let ?p = "path_Join dir ''syncthing.log''"
  show ?thesis
  proof (cases "e = None \<and> \<not> (broken f1 ?p \<or> nodes f1 ?p = Some DirN \<or> \<not> is_dir f1 (path_Dir ?p)) \<and> fresh t \<noteq> None")
    case False
    then show ?thesis using run m by (auto simp: redirectSyncthingLogs_def Let_def split: option.splits if_splits)
  next
    case True
    then obtain l where l: "fresh t = Some l" by auto
    have log: "t l = None" "l \<noteq> 1" using fresh[OF l] open1 by auto
    let ?t1 = "t(l := Some ?p)" and ?f2 = "if nodes f1 ?p = None then set_node ?p (Some (FileN '''')) f1 else f1"
    have r: "(r, f', t') = (case fresh ?t1 of None \<Rightarrow> (Inl DupFailed, ?f2, ?t1(l := None))
        | Some q \<Rightarrow> let t2 = ?t1(q := ?t1 1) in if \<not> ok then (Inl Dup2Failed, ?f2, t2(l := None, q := None)) else (Inr q, ?f2, (t2(1 := t2 l))(l := None)))"
      using run m True l unfolding redirectSyncthingLogs_def Let_def by simp
    have undone: "?t1(l := None) = t" using log by auto
    show ?thesis
    proof (cases "fresh ?t1")
      case None
      then show ?thesis using r undone by simp
    next
      case (Some q)
      then have q: "q \<noteq> l" "t q = None" "q \<noteq> 1" using fresh[OF Some] open1 by (auto split: if_splits)
      show ?thesis
      proof (cases ok)
        case True
        then have "r = Inr q" "t' = ((?t1(q := ?t1 1))(1 := (?t1(q := ?t1 1)) l))(l := None)" using r Some by (simp_all add: Let_def)
        then show ?thesis using q log by simp
      next
        case False
        then have "r = Inl Dup2Failed" "t' = (?t1(q := ?t1 1))(l := None, q := None)" using r Some by (simp_all add: Let_def)
        moreover have "(?t1(q := ?t1 1))(l := None, q := None) = t" using q log by (auto simp: fun_eq_iff)
        ultimately show ?thesis by simp
      qed
    qed
  qed
qed

text \<open>A process with its three standard streams, whose free numbers are 3 and 4.\<close>

definition demo_fds :: fdtable where
  "demo_fds = [0 \<mapsto> ''stdin'', 1 \<mapsto> ''journal'', 2 \<mapsto> ''stderr'']"

definition demo_fresh :: "fdtable \<Rightarrow> nat option" where
  "demo_fresh t = find (\<lambda>n. t n = None) [3, 4, 5]"

theorem log_redirection_all_or_nothing_witness:
  "\<exists>fd f' t'. redirectSyncthingLogs demo_fresh True ''/home/u'' (demo_home, demo_fds) = (Inr fd, f', t') \<and>
     t' 1 = Some ''/home/u/syncthing.log'' \<and> t' fd = Some ''journal''"
proof -
  have fresh: "gives_free demo_fresh" by (auto simp: gives_free_def demo_fresh_def split: if_splits)
  have j: "path_Join ''/home/u'' ''syncthing.log'' = ''/home/u/syncthing.log''" "path_Dir ''/home/u/syncthing.log'' = ''/home/u''" by code_simp+
  obtain r f' t' where run: "redirectSyncthingLogs demo_fresh True ''/home/u'' (demo_home, demo_fds) = (r, f', t')" by (metis prod.collapse)
  have "r = Inr 4" using run j
    by (simp add: redirectSyncthingLogs_def os_MkdirAll_def os_Stat_def is_dir_def demo_home_def demo_fresh_def demo_fds_def Let_def)
  moreover have "demo_fds 1 \<noteq> None" by (simp add: demo_fds_def)
  note log_redirection_all_or_nothing[where fresh = demo_fresh and t = demo_fds, OF fresh this run]
  ultimately show ?thesis using run j by (auto simp: demo_fds_def)
qed

section \<open>Setting up again\<close>

text \<open>
  What is relied on: making the certificate changes at most the two files and leaves a certificate if it succeeds; the two files, the
  configuration and the two directories have different paths.
\<close>

definition engine_laws :: "engine_env \<Rightarrow> bool" where
  "engine_laws E \<longleftrightarrow>
    (\<forall>f ok f'. en_generate E f = (ok, f') \<longrightarrow> broken f' = broken f \<and> (\<forall>q. q \<noteq> en_certFile E \<and> q \<noteq> en_keyFile E \<longrightarrow> nodes f' q = nodes f q) \<and>
       (ok \<longrightarrow> nodes f' (en_certFile E) \<noteq> None)) \<and>
    distinct [en_certFile E, en_keyFile E, en_configFile E, en_configDir E] \<and>
    distinct [en_certFile E, en_keyFile E, en_configFile E, en_dataDir E] \<and> en_configDir E \<noteq> '''' \<and> en_dataDir E \<noteq> ''''"

lemma engine_lawsD:
  assumes "engine_laws E" "en_generate E f = (ok, f')"
  shows "broken f' = broken f" "q \<noteq> en_certFile E \<Longrightarrow> q \<noteq> en_keyFile E \<Longrightarrow> nodes f' q = nodes f q" "ok \<Longrightarrow> nodes f' (en_certFile E) \<noteq> None"
  using assms unfolding engine_laws_def by blast+

lemma mkdir_chain_made: "mkdir_chain ps f = (None, f') \<Longrightarrow> broken f' = broken f \<and> (\<forall>p \<in> set ps. is_dir f' p) \<and> (\<forall>q. is_dir f q \<longrightarrow> is_dir f' q)"
proof (induction ps f rule: mkdir_chain.induct)
  case (2 p ps f)
  consider (there) "os_Stat f p = Inr DirN" | (missing) "os_Stat f p = Inl NotExist" using 2(3) by (auto split: sum.splits node.splits ioerr.splits)
  then show ?case
  proof cases
    case there
    then show ?thesis using 2 by (auto simp: is_dir_def)
  next
    case missing
    then have "\<not> broken f p" by (auto simp: os_Stat_def split: if_splits option.splits)
    then have "is_dir (set_node p (Some DirN) f) p" "is_dir f q \<Longrightarrow> is_dir (set_node p (Some DirN) f) q" for q
      by (simp_all add: is_dir_def os_Stat_set_node)
    then show ?thesis using 2 missing by auto
  qed
qed simp

lemma mkdir_chain_keeps: "nodes f p \<noteq> None \<Longrightarrow> nodes (snd (mkdir_chain ps f)) p = nodes f p"
proof (induction ps f rule: mkdir_chain.induct)
  case (2 a ps f)
  have "a \<noteq> p" if "os_Stat f a = Inl NotExist" using that 2(3) by (auto simp: os_Stat_def split: if_splits option.splits)
  then show ?case using 2 by (auto split: sum.split node.split ioerr.split)
qed simp

lemma os_MkdirAll_keeps: "nodes f p \<noteq> None \<Longrightarrow> nodes (snd (os_MkdirAll f d)) p = nodes f p"
  by (auto simp: os_MkdirAll_def mkdir_chain_keeps split: sum.split node.split)

lemma os_MkdirAll_made:
  assumes "os_MkdirAll f d = (None, f')" "d \<noteq> ''''"
  shows "is_dir f' d \<and> (\<forall>q. is_dir f q \<longrightarrow> is_dir f' q)"
proof -
  have "d \<in> set (ancestors d)" using ancestors_last[OF assms(2)] by (metis in_set_conv_decomp)
  then show ?thesis using assms mkdir_chain_made[of "ancestors d" f f']
    by (auto simp: os_MkdirAll_def is_dir_def split: sum.splits node.splits)
qed

lemma is_dir_frame: "broken f' = broken f \<Longrightarrow> nodes f' q = nodes f q \<Longrightarrow> is_dir f' q = is_dir f q"
  by (simp add: is_dir_def os_Stat_def)

lemma not_exists_frame: "broken f' = broken f \<Longrightarrow> nodes f' q = nodes f q \<Longrightarrow> not_exists f' q = not_exists f q"
  by (simp add: not_exists_def os_Stat_def)

lemma there: "nodes f p \<noteq> None \<Longrightarrow> \<not> not_exists f p"
  by (auto simp: not_exists_def os_Stat_def)

lemma generateConfig_frame:
  assumes "generateConfig E f = (e, f')"
  shows "broken f' = broken f" "q \<noteq> en_configFile E \<Longrightarrow> nodes f' q = nodes f q"
    "e = None \<or> e = Some SaveConfigFailed \<Longrightarrow> nodes f' (en_configFile E) \<noteq> None"
  using assms by (auto simp: generateConfig_def Let_def split: option.splits if_splits)

text \<open>The second half, once the directories are there.\<close>

definition setup_files :: "engine_env \<Rightarrow> fsys \<Rightarrow> engine_error option \<times> fsys" where
  "setup_files E f2 =
    (case (if not_exists f2 (en_certFile E) then en_generate E f2 else (True, f2)) of
       (False, f3) \<Rightarrow> (Some CertificateFailed, f3)
     | (True, f3) \<Rightarrow> if not_exists f3 (en_configFile E) then generateConfig E f3 else (None, f3))"

lemma setup_files_frame:
  assumes "engine_laws E" "setup_files E f = (e, f')"
  shows "broken f' = broken f" "q \<notin> {en_certFile E, en_keyFile E, en_configFile E} \<Longrightarrow> nodes f' q = nodes f q"
    "nodes f (en_certFile E) \<noteq> None \<Longrightarrow> nodes f' (en_certFile E) = nodes f (en_certFile E) \<and> nodes f' (en_keyFile E) = nodes f (en_keyFile E)"
    "nodes f (en_configFile E) \<noteq> None \<Longrightarrow> nodes f' (en_configFile E) = nodes f (en_configFile E)"
    "e = None \<or> e = Some SaveConfigFailed \<Longrightarrow> setup_files E f' = (None, f')"
proof -
  obtain ok f3 where g: "(if not_exists f (en_certFile E) then en_generate E f else (True, f)) = (ok, f3)" by fastforce
  have d: "en_certFile E \<noteq> en_keyFile E" "en_certFile E \<noteq> en_configFile E" "en_keyFile E \<noteq> en_configFile E"
    using assms(1) by (auto simp: engine_laws_def)
  have 3: "broken f3 = broken f" "q \<noteq> en_certFile E \<Longrightarrow> q \<noteq> en_keyFile E \<Longrightarrow> nodes f3 q = nodes f q"
    "\<not> not_exists f (en_certFile E) \<Longrightarrow> f3 = f" "ok \<Longrightarrow> \<not> not_exists f3 (en_certFile E)" for q
    using g engine_lawsD[OF assms(1), of f ok f3] there by (auto split: if_splits)
  have e: "(e, f') = (if \<not> ok then (Some CertificateFailed, f3) else if not_exists f3 (en_configFile E) then generateConfig E f3 else (None, f3))"
    using assms(2) g by (auto simp: setup_files_def split: bool.splits)
  then have 4: "broken f' = broken f3" "q \<noteq> en_configFile E \<Longrightarrow> nodes f' q = nodes f3 q"
      "\<not> not_exists f3 (en_configFile E) \<Longrightarrow> f' = f3" for q
    using generateConfig_frame[of E f3 e f'] by (auto split: if_splits)
  show "broken f' = broken f" using 3 4 by simp
  show "q \<notin> {en_certFile E, en_keyFile E, en_configFile E} \<Longrightarrow> nodes f' q = nodes f q" using 3(2) 4(2) by simp
  show "nodes f (en_certFile E) \<noteq> None \<Longrightarrow> nodes f' (en_certFile E) = nodes f (en_certFile E) \<and> nodes f' (en_keyFile E) = nodes f (en_keyFile E)"
    using 3(3) 4(2) d there by metis
  show "nodes f (en_configFile E) \<noteq> None \<Longrightarrow> nodes f' (en_configFile E) = nodes f (en_configFile E)"
    using 3(2)[of "en_configFile E"] 4(3) d there by metis
  assume ok: "e = None \<or> e = Some SaveConfigFailed"
  then have "ok" using e by (auto split: if_splits)
  moreover have "\<not> not_exists f' (en_configFile E)"
    using e ok \<open>ok\<close> generateConfig_frame(3)[of E f3 e f'] there by (auto split: if_splits)
  moreover have "\<not> not_exists f' (en_certFile E)" using 3(4) \<open>ok\<close> not_exists_frame[OF 4(1) 4(2)] d by simp
  ultimately show "setup_files E f' = (None, f')" by (simp add: setup_files_def)
qed

lemma engine_Setup_eq:
  "engine_Setup E f =
    (case os_MkdirAll f (en_configDir E) of (Some _, f1) \<Rightarrow> (Some ConfigDirFailed, f1)
     | (None, f1) \<Rightarrow> (case os_MkdirAll f1 (en_dataDir E) of (Some _, f2) \<Rightarrow> (Some DataDirFailed, f2) | (None, f2) \<Rightarrow> setup_files E f2))"
  unfolding engine_Setup_def setup_files_def by (rule refl)

text \<open>
  The identity is kept. Whatever happens, a certificate that is there stays, with its key, and a configuration that is there stays with
  its API key; and once the set-up has succeeded, setting up again succeeds and changes nothing.
\<close>

theorem Setup_keeps_identity:
  assumes "engine_laws E" "engine_Setup E f = (e, f')"
  shows "(nodes f (en_certFile E) \<noteq> None \<and> nodes f (en_keyFile E) \<noteq> None \<longrightarrow>
      nodes f' (en_certFile E) = nodes f (en_certFile E) \<and> nodes f' (en_keyFile E) = nodes f (en_keyFile E)) \<and>
    (nodes f (en_configFile E) \<noteq> None \<longrightarrow> nodes f' (en_configFile E) = nodes f (en_configFile E)) \<and>
    (e = None \<or> e = Some SaveConfigFailed \<longrightarrow> engine_Setup E f' = (None, f'))"
proof -
  obtain e1 f1 where 1: "os_MkdirAll f (en_configDir E) = (e1, f1)" by fastforce
  obtain e2 f2 where 2: "os_MkdirAll f1 (en_dataDir E) = (e2, f2)" by fastforce
  have k1: "nodes f p \<noteq> None \<Longrightarrow> nodes f1 p = nodes f p" for p using os_MkdirAll_keeps[of f p "en_configDir E"] 1 by simp
  have k2: "nodes f1 p \<noteq> None \<Longrightarrow> nodes f2 p = nodes f1 p" for p using os_MkdirAll_keeps[of f1 p "en_dataDir E"] 2 by simp
  show ?thesis
  proof (cases "e1 = None \<and> e2 = None")
    case False
    then have "(f' = f1 \<or> f' = f2) \<and> e \<noteq> None \<and> e \<noteq> Some SaveConfigFailed" using assms(2) 1 2 by (auto simp: engine_Setup_eq split: option.splits)
    then show ?thesis using k1 k2 by metis
  next
    case True
    then have s: "setup_files E f2 = (e, f')" using assms(2) 1 2 by (simp add: engine_Setup_eq)
    note F = setup_files_frame[OF assms(1) s]
    have dirs: "is_dir f2 (en_configDir E)" "is_dir f2 (en_dataDir E)"
      using os_MkdirAll_made[of f "en_configDir E" f1] os_MkdirAll_made[of f1 "en_dataDir E" f2] 1 2 True assms(1) by (simp_all add: engine_laws_def)
    have "en_configDir E \<notin> {en_certFile E, en_keyFile E, en_configFile E}" "en_dataDir E \<notin> {en_certFile E, en_keyFile E, en_configFile E}"
      using assms(1) by (auto simp: engine_laws_def)
    then have "is_dir f' (en_configDir E)" "is_dir f' (en_dataDir E)" using dirs is_dir_frame[OF F(1) F(2)] by blast+
    then have "engine_Setup E f' = setup_files E f'" by (simp add: engine_Setup_eq os_MkdirAll_def is_dir_def)
    then show ?thesis using F(3,4,5) k1 k2 by metis
  qed
qed

end
