(* ===== verification/Machine_Init.thy ===== *)
theory Machine_Init
  imports Engine
begin

text \<open>
  Setting up a machine: the files of internal/config on the file system, with the directories they need, and \<open>dotkeeper init\<close>
  (cmd/dotkeeper/main.go). The decoders of the two files are arguments, as is the outcome of taking the lock.
\<close>

section \<open>machine.toml and state.toml on disk\<close>

record cli_env =
  ce_configXdg :: string
  ce_stateXdg :: string
  ce_home :: "string option"
  ce_machine :: "string \<Rightarrow> unit + MachineConfigV2"
  ce_state :: "string \<Rightarrow> unit + StateV2"
  ce_locks :: bool
  ce_hostname :: string
  ce_executable :: "string option"
  ce_os :: goos
  ce_engine :: engine_env

definition machine_path :: "cli_env \<Rightarrow> string" where "machine_path C = MachineConfigPath (ce_configXdg C) (ce_home C)"
definition state_path :: "cli_env \<Rightarrow> string" where "state_path C = StateV2Path (ce_stateXdg C) (ce_home C)"
definition lock_path :: "cli_env \<Rightarrow> string" where "lock_path C = path_Join (StateDir (ce_stateXdg C) (ce_home C)) ''state.toml.lock''"

text \<open>A file that is not there, one that cannot be read, and one with a text.\<close>

definition read_config :: "fsys \<Rightarrow> string \<Rightarrow> unit + string option" where
  "read_config f p =
    (if not_exists f p then Inr None else case os_ReadFile f p of Inl _ \<Rightarrow> Inl () | Inr t \<Rightarrow> Inr (Some t))"

definition load_machine :: "cli_env \<Rightarrow> fsys \<Rightarrow> unit + MachineConfigV2 option" where
  "load_machine C f = (case read_config f (machine_path C) of Inl e \<Rightarrow> Inl e | Inr t \<Rightarrow> LoadMachineConfigV2 (ce_machine C) t)"

definition load_state :: "cli_env \<Rightarrow> fsys \<Rightarrow> unit + StateV2 option" where
  "load_state C f = (case read_config f (state_path C) of Inl e \<Rightarrow> Inl e | Inr t \<Rightarrow> LoadStateV2 (ce_state C) t)"

text \<open>Making the directory and writing the file; whether it worked.\<close>

definition write_in :: "string \<Rightarrow> string \<Rightarrow> string \<Rightarrow> fsys \<Rightarrow> bool \<times> fsys" where
  "write_in dir path text f =
    (case os_MkdirAll f dir of (Some _, f1) \<Rightarrow> (False, f1)
     | (None, f1) \<Rightarrow> (case write_atomic f1 path text of (e, f2) \<Rightarrow> (e = None, f2)))"

definition WriteMachineConfigV2 :: "cli_env \<Rightarrow> MachineConfigV2 \<Rightarrow> fsys \<Rightarrow> bool \<times> fsys" where
  "WriteMachineConfigV2 C cfg = write_in (ConfigDir (ce_configXdg C) (ce_home C)) (machine_path C) (machine_text cfg)"

definition WriteStateV2 :: "cli_env \<Rightarrow> StateV2 \<Rightarrow> fsys \<Rightarrow> bool \<times> fsys" where
  "WriteStateV2 C s = write_in (StateDir (ce_stateXdg C) (ce_home C)) (state_path C) (state_text s)"

text \<open>MutateStateV2 by a process that is alone; the lock file is made on demand and stays.\<close>

definition locked_mutation :: "cli_env \<Rightarrow> (StateV2 \<Rightarrow> StateV2 option) \<Rightarrow> fsys \<Rightarrow> bool \<times> fsys" where
  "locked_mutation C mutate f =
    (if \<not> ce_locks C then (False, f)
     else case load_state C f of Inl _ \<Rightarrow> (False, f)
          | Inr so \<Rightarrow> (case mutate (state_or_fresh so) of None \<Rightarrow> (False, f) | Some s \<Rightarrow> WriteStateV2 C s f))"

definition MutateStateV2 :: "cli_env \<Rightarrow> (StateV2 \<Rightarrow> StateV2 option) \<Rightarrow> fsys \<Rightarrow> bool \<times> fsys" where
  "MutateStateV2 C mutate f =
    (case os_MkdirAll f (StateDir (ce_stateXdg C) (ce_home C)) of (Some _, f1) \<Rightarrow> (False, f1)
     | (None, f1) \<Rightarrow>
       if broken f1 (lock_path C) \<or> nodes f1 (lock_path C) = Some DirN \<or> \<not> is_dir f1 (path_Dir (lock_path C)) then (False, f1)
       else locked_mutation C mutate (if nodes f1 (lock_path C) = None then set_node (lock_path C) (Some (FileN '''')) f1 else f1))"

section \<open>init\<close>

record init_flags =
  if_name :: string
  if_slot :: int
  if_force :: bool
  if_noService :: bool

definition init_machine :: "string \<Rightarrow> nat \<Rightarrow> MachineConfigV2" where
  "init_machine name slot =
    \<lparr>mc_SchemaVersion = 2, mc_Name = name, mc_Slot = slot, mc_DefaultCommitPolicy = ''manual'', mc_DefaultGitInterval = ''daily'',
     mc_DefaultSlotOffsetMinutes = 5, mc_DefaultShareWith = [], mc_Peers = [],
     mc_Discovery = \<lparr>dc_ScanRoots = [''~/Documents/GitHub''], dc_Exclude = [], dc_ScanInterval = ''5m'', dc_ScanDepth = 3\<rparr>,
     mc_ReconcileInterval = ''5m'', mc_Subscribe = [], mc_Debug = \<lparr>dbg_PprofAddress = ''''\<rparr>\<rparr>"

definition device_mutation :: "string \<Rightarrow> StateV2 \<Rightarrow> StateV2 option" where
  "device_mutation deviceID s = Some (s\<lparr>st_SyncthingDeviceID := deviceID\<rparr>)"

definition ensureStateDeviceID :: "cli_env \<Rightarrow> string \<Rightarrow> fsys \<Rightarrow> bool \<times> fsys" where
  "ensureStateDeviceID C deviceID = MutateStateV2 C (device_mutation deviceID)"

definition binaryPath :: "cli_env \<Rightarrow> string" where
  "binaryPath C = (case ce_executable C of None \<Rightarrow> ''dotkeeper'' | Some p \<Rightarrow> p)"

datatype init_error = MachineNotWritten | EngineNotSetUp engine_error | NoDeviceID | StateNotWritten

datatype init_service = ServiceSkipped | ServiceStarted string | ServiceFailed

text \<open>The existing configuration; a file that cannot be read or decoded counts as none.\<close>

definition existing_machine :: "cli_env \<Rightarrow> fsys \<Rightarrow> MachineConfigV2 option" where
  "existing_machine C f = (case load_machine C f of Inl _ \<Rightarrow> None | Inr m \<Rightarrow> m)"

definition init_write_machine :: "cli_env \<Rightarrow> init_flags \<Rightarrow> fsys \<Rightarrow> bool \<times> fsys" where
  "init_write_machine C fl f =
    (if existing_machine C f = None \<or> if_force fl
     then WriteMachineConfigV2 C (init_machine (if if_name fl = '''' then ce_hostname C else if_name fl) (nat (if_slot fl))) f
     else (True, f))"

definition init_service_step :: "cli_env \<Rightarrow> 'w host \<Rightarrow> init_flags \<Rightarrow> 'w sstate \<Rightarrow> init_service \<times> 'w sstate" where
  "init_service_step C h fl s =
    (if if_noService fl then (ServiceSkipped, s)
     else let mgr = svcManager (ce_os C) (fst s) in
       case InstallSyncthing h mgr (binaryPath C) s of (e, s') \<Rightarrow>
         (if e = None then ServiceStarted (PlatformName mgr) else ServiceFailed, s'))"

definition initCmd :: "cli_env \<Rightarrow> 'w host \<Rightarrow> init_flags \<Rightarrow> 'w sstate \<Rightarrow> (init_error + string \<times> init_service) \<times> 'w sstate" where
  "initCmd C h fl s =
    (case init_write_machine C fl (fst s) of (ok1, f1) \<Rightarrow>
     if \<not> ok1 then (Inl MachineNotWritten, f1, snd s)
     else case engine_Setup (ce_engine C) f1 of (Some e, f2) \<Rightarrow> (Inl (EngineNotSetUp e), f2, snd s)
     | (None, f2) \<Rightarrow>
       (case engine_DeviceID (ce_engine C) f2 of Inl _ \<Rightarrow> (Inl NoDeviceID, f2, snd s)
        | Inr deviceID \<Rightarrow>
          (case ensureStateDeviceID C deviceID f2 of (ok3, f3) \<Rightarrow>
           if \<not> ok3 then (Inl StateNotWritten, f3, snd s)
           else case init_service_step C h fl (f3, snd s) of (svc, s4) \<Rightarrow> (Inr (deviceID, svc), s4))))"

section \<open>What init leaves alone\<close>

lemma write_atomic_frame: "q \<noteq> p \<Longrightarrow> nodes (snd (write_atomic f p t)) q = nodes f q"
  by (simp add: write_atomic_def)

lemma write_in_keeps:
  assumes "nodes f q \<noteq> None" "q \<noteq> path"
  shows "nodes (snd (write_in dir path t f)) q = nodes f q"
proof -
  obtain e f1 where 1: "os_MkdirAll f dir = (e, f1)" by fastforce
  then have "nodes f1 q = nodes f q" using os_MkdirAll_keeps[OF assms(1), of dir] by simp
  then show ?thesis using 1 write_atomic_frame[OF assms(2), of f1 t] by (auto simp: write_in_def split: option.split prod.split)
qed

lemma write_in_written: "write_in dir path t f = (True, f') \<Longrightarrow> nodes f' path = Some (FileN t)"
  by (auto simp: write_in_def write_atomic_def split: prod.splits option.splits if_splits)

lemma locked_mutation_keeps:
  assumes "nodes f q \<noteq> None" "q \<noteq> state_path C"
  shows "nodes (snd (locked_mutation C mutate f)) q = nodes f q"
  using write_in_keeps[OF assms] by (simp add: locked_mutation_def WriteStateV2_def split: sum.split option.split)

lemma MutateStateV2_keeps:
  assumes "nodes f q \<noteq> None" "q \<noteq> state_path C" "q \<noteq> lock_path C"
  shows "nodes (snd (MutateStateV2 C mutate f)) q = nodes f q"
proof -
  obtain e f1 where 1: "os_MkdirAll f (StateDir (ce_stateXdg C) (ce_home C)) = (e, f1)" by fastforce
  then have k: "nodes f1 q = nodes f q" using os_MkdirAll_keeps[OF assms(1), of "StateDir (ce_stateXdg C) (ce_home C)"] by simp
  have "nodes (snd (locked_mutation C mutate f1)) q = nodes f q"
    "nodes (snd (locked_mutation C mutate (set_node (lock_path C) (Some (FileN '''')) f1))) q = nodes f q"
    using locked_mutation_keeps[of f1 q C mutate] locked_mutation_keeps[of "set_node (lock_path C) (Some (FileN '''')) f1" q C mutate] k assms by simp_all
  then show ?thesis using 1 k by (simp add: MutateStateV2_def split: option.split)
qed

lemma engine_Setup_keeps:
  assumes "engine_laws E" "nodes f q \<noteq> None" "q \<notin> {en_certFile E, en_keyFile E, en_configFile E}"
  shows "nodes (snd (engine_Setup E f)) q = nodes f q"
proof -
  obtain e1 f1 where 1: "os_MkdirAll f (en_configDir E) = (e1, f1)" by fastforce
  obtain e2 f2 where 2: "os_MkdirAll f1 (en_dataDir E) = (e2, f2)" by fastforce
  have k1: "nodes f1 q = nodes f q" using os_MkdirAll_keeps[OF assms(2), of "en_configDir E"] 1 by simp
  then have k2: "nodes f2 q = nodes f q" using os_MkdirAll_keeps[of f1 q "en_dataDir E"] 2 assms(2) by simp
  have "nodes (snd (setup_files E f2)) q = nodes f q" using setup_files_frame(2)[OF assms(1) _ assms(3)] k2 by (metis prod.collapse)
  then show ?thesis using 1 2 k1 k2 by (simp add: engine_Setup_eq split: option.split)
qed

text \<open>The files of the parts are different ones, and machine.toml and state.toml are none that the service manager owns.\<close>

definition paths_apart :: "cli_env \<Rightarrow> 'w host \<Rightarrow> bool" where
  "paths_apart C h \<longleftrightarrow>
    (let E = ce_engine C; engine = {en_certFile E, en_keyFile E, en_configFile E} in
     machine_path C \<notin> engine \<and> machine_path C \<noteq> state_path C \<and> machine_path C \<noteq> lock_path C \<and> state_path C \<noteq> lock_path C \<and>
     state_path C \<notin> engine \<and>
     (\<forall>m. machine_path C \<notin> own_files m h \<and> state_path C \<notin> own_files m h))"

lemma init_service_files:
  assumes "\<And>m. q \<notin> own_files m h"
  shows "nodes (fst (snd (init_service_step C h fl s))) q = nodes (fst s) q"
proof -
  let ?m = "svcManager (ce_os C) (fst s)"
  obtain e s' where i: "InstallSyncthing h ?m (binaryPath C) s = (e, s')" by (cases "InstallSyncthing h ?m (binaryPath C) s")
  have "nodes (fst (snd (InstallSyncthing h ?m (binaryPath C) s))) q = nodes (fst s) q" by (rule mgr.install_frame[OF assms])
  then show ?thesis using i by (simp add: init_service_step_def Let_def)
qed

text \<open>
  Once machine.toml is written or kept, the rest of init leaves it alone.
\<close>

lemma init_rest_keeps_machine:
  assumes "engine_laws (ce_engine C)" "paths_apart C h" "init_write_machine C fl f = (ok, f1)" "nodes f1 (machine_path C) \<noteq> None"
  shows "nodes (fst (snd (initCmd C h fl (f, w)))) (machine_path C) = nodes f1 (machine_path C)"
proof -
  let ?q = "machine_path C" and ?E = "ce_engine C"
  have apart: "?q \<notin> {en_certFile ?E, en_keyFile ?E, en_configFile ?E}" "?q \<noteq> state_path C" "?q \<noteq> lock_path C" "\<And>m. ?q \<notin> own_files m h"
    using assms(2) by (auto simp: paths_apart_def Let_def)
  obtain e2 f2 where 2: "engine_Setup ?E f1 = (e2, f2)" by fastforce
  have k2: "nodes f2 ?q = nodes f1 ?q" using engine_Setup_keeps[OF assms(1,4) apart(1)] 2 by simp
  have k3: "nodes (snd (ensureStateDeviceID C d f2)) ?q = nodes f1 ?q" for d
    using MutateStateV2_keeps[of f2 ?q C] apart k2 assms(4) by (simp add: ensureStateDeviceID_def)
  have k4: "nodes (fst (snd (init_service_step C h fl s))) ?q = nodes (fst s) ?q" for s
    by (rule init_service_files[OF apart(4)])
  show ?thesis
  proof (cases "ok \<and> e2 = None")
    case False
    then show ?thesis using assms(3) 2 k2 by (auto simp: initCmd_def split: option.split)
  next
    case True
    obtain d where d: "engine_DeviceID ?E f2 = d" by blast
    show ?thesis
    proof (cases d)
      case (Inl x)
      then show ?thesis using True assms(3) 2 k2 d by (simp add: initCmd_def)
    next
      case (Inr dev)
      obtain ok3 f3 where 3: "ensureStateDeviceID C dev f2 = (ok3, f3)" by fastforce
      obtain svc s4 where 4: "init_service_step C h fl (f3, w) = (svc, s4)" by (cases "init_service_step C h fl (f3, w)")
      have "nodes f3 ?q = nodes f1 ?q" "nodes (fst s4) ?q = nodes f3 ?q" using k3[of dev] k4[of "(f3, w)"] 3 4 by simp_all
      then show ?thesis using True assms(3) 2 d Inr 3 4 by (simp add: initCmd_def)
    qed
  qed
qed

text \<open>
  C21: A machine.toml that can be read is left as it is unless it is to be replaced, whatever the rest of init does and whatever fails.
\<close>

theorem init_keeps_machine:
  assumes "engine_laws (ce_engine C)" "paths_apart C h" "load_machine C f = Inr (Some m)" "\<not> if_force fl"
  shows "nodes (fst (snd (initCmd C h fl (f, w)))) (machine_path C) = nodes f (machine_path C)"
proof -
  have "init_write_machine C fl f = (True, f)" using assms(3,4) by (simp add: init_write_machine_def existing_machine_def)
  moreover have "nodes f (machine_path C) \<noteq> None"
    using assms(3) by (auto simp: load_machine_def read_config_def not_exists_def os_ReadFile_def os_Stat_def LoadMachineConfigV2_def
        split: if_splits sum.splits option.splits)
  ultimately show ?thesis using init_rest_keeps_machine[OF assms(1,2)] by blast
qed

text \<open>
  But a machine.toml that does not decode counts as missing: without being asked to, init replaces it by the default one. What the user
  had written, peers and scan roots included, is gone.
\<close>

theorem init_overwrites_undecodable:
  assumes "engine_laws (ce_engine C)" "paths_apart C h" "os_ReadFile f (machine_path C) = Inr t" "ce_machine C t = Inl ()"
    and "write_in (ConfigDir (ce_configXdg C) (ce_home C)) (machine_path C) (machine_text (init_machine (if_name fl) (nat (if_slot fl)))) f = (True, f1)"
    and "if_name fl \<noteq> ''''"
  shows "nodes (fst (snd (initCmd C h fl (f, w)))) (machine_path C) = Some (FileN (machine_text (init_machine (if_name fl) (nat (if_slot fl)))))"
proof -
  have "existing_machine C f = None"
    using assms(3,4) by (auto simp: existing_machine_def load_machine_def read_config_def LoadMachineConfigV2_def not_exists_def os_ReadFile_def
        split: if_splits sum.splits)
  then have i: "init_write_machine C fl f = (True, f1)" using assms(5,6) by (simp add: init_write_machine_def WriteMachineConfigV2_def)
  have "nodes f1 (machine_path C) = Some (FileN (machine_text (init_machine (if_name fl) (nat (if_slot fl)))))"
    by (rule write_in_written[OF assms(5)])
  then show ?thesis using init_rest_keeps_machine[OF assms(1,2) i, of w] by simp
qed

section \<open>What init records\<close>

lemma locked_mutation_written:
  assumes "locked_mutation C mutate f = (True, f')"
  shows "\<exists>so s. mutate (state_or_fresh so) = Some s \<and> nodes f' (state_path C) = Some (FileN (state_text s))"
  using assms write_in_written
  by (auto simp: locked_mutation_def WriteStateV2_def split: if_splits sum.splits option.splits)

lemma MutateStateV2_written:
  "MutateStateV2 C mutate f = (True, f') \<Longrightarrow>
    \<exists>so s. mutate (state_or_fresh so) = Some s \<and> nodes f' (state_path C) = Some (FileN (state_text s))"
  using locked_mutation_written[of C mutate _ f'] by (fastforce simp: MutateStateV2_def split: prod.splits option.splits if_split_asm)

text \<open>
  When init reports a device, state.toml holds it: the file is the rendering of a state with that identifier, and the identifier is the
  one of the certificate of the set-up engine.
\<close>

theorem init_records_device:
  assumes "paths_apart C h" "initCmd C h fl (f, w) = (Inr (deviceID, svc), f', w')"
  shows "\<exists>f2 s. st_SyncthingDeviceID s = deviceID \<and> nodes f' (state_path C) = Some (FileN (state_text s)) \<and>
    engine_DeviceID (ce_engine C) f2 = Inr deviceID \<and> (\<exists>f1. engine_Setup (ce_engine C) f1 = (None, f2))"
proof -
  obtain ok f1 where 1: "init_write_machine C fl f = (ok, f1)" by fastforce
  obtain e2 f2 where 2: "engine_Setup (ce_engine C) f1 = (e2, f2)" by fastforce
  obtain d where d: "engine_DeviceID (ce_engine C) f2 = d" by blast
  have ok: "ok" "e2 = None" using assms(2) 1 2 by (auto simp: initCmd_def split: if_splits option.splits)
  then obtain dev where dev: "d = Inr dev" using assms(2) 1 2 d by (cases d) (auto simp: initCmd_def)
  obtain ok3 f3 where 3: "ensureStateDeviceID C dev f2 = (ok3, f3)" by fastforce
  obtain svc' s4 where 4: "init_service_step C h fl (f3, w) = (svc', s4)" by (cases "init_service_step C h fl (f3, w)")
  have r: "ok3" "dev = deviceID" "s4 = (f', w')"
    using assms(2) 1 2 d dev ok 3 4 by (auto simp: initCmd_def split: if_splits)
  have "MutateStateV2 C (device_mutation dev) f2 = (True, f3)" using 3 r(1) by (simp add: ensureStateDeviceID_def)
  from MutateStateV2_written[OF this] obtain so s where so: "device_mutation dev (state_or_fresh so) = Some s" and s2: "nodes f3 (state_path C) = Some (FileN (state_text s))"
    by blast
  have "st_SyncthingDeviceID s = dev" using so by (auto simp: device_mutation_def)
  note s = this s2
  have "\<And>m. state_path C \<notin> own_files m h" using assms(1) by (simp add: paths_apart_def Let_def)
  from init_service_files[OF this, of C fl "(f3, w)"] have "nodes f' (state_path C) = nodes f3 (state_path C)" using 4 r(3) by simp
  then show ?thesis using s r(2) d dev 2 ok(2) by metis
qed

section \<open>A machine\<close>

definition demo_options :: st_options where
  "demo_options = \<lparr>so_RawListenAddresses = [''default''], so_LocalAnnEnabled = True, so_LocalAnnPort = 21027, so_GlobalAnnEnabled = True,
     so_RelaysEnabled = True, so_NATEnabled = True, so_URAccepted = 0, so_CREnabled = True, so_CRURL = ''https://crash.syncthing.net/newcrash'',
     so_AutoUpgradeIntervalH = 12, so_StartBrowser = True\<rparr>"

text \<open>A certificate is a file with its text, and a library that can always write.\<close>

definition demo_engine :: engine_env where
  "demo_engine = \<lparr>en_configDir = ''/home/u/.local/share/dotkeeper/syncthing'', en_dataDir = ''/home/u/.local/share/dotkeeper/syncthing-data'',
     en_version = ''1.0'', en_configFile = ''/home/u/.local/share/dotkeeper/syncthing/config.xml'',
     en_certFile = ''/home/u/.local/share/dotkeeper/syncthing/cert.pem'', en_keyFile = ''/home/u/.local/share/dotkeeper/syncthing/key.pem'',
     en_generate = (\<lambda>f. (True, set_node ''/home/u/.local/share/dotkeeper/syncthing/key.pem'' (Some (FileN ''K''))
       (set_node ''/home/u/.local/share/dotkeeper/syncthing/cert.pem'' (Some (FileN ''C'')) f))),
     en_loadPair = (\<lambda>f c k. case os_ReadFile f c of Inl _ \<Rightarrow> None | Inr t \<Rightarrow> Some t),
     en_newDeviceID = (\<lambda>der. ''ID-'' @ der),
     en_default = (\<lambda>dev. \<lparr>sc_Devices = [], sc_Folders = [''default''], sc_RawAddress = '''', sc_GUIEnabled = False, sc_APIKey = ''k'', sc_Options = demo_options\<rparr>),
     en_encode = (\<lambda>cfg. sc_APIKey cfg), en_saves = (\<lambda>f. True), en_apikey = Some\<rparr>"

lemma demo_engine_laws: "engine_laws demo_engine"
  by (simp add: engine_laws_def demo_engine_def)

definition demo_cli :: cli_env where
  "demo_cli = \<lparr>ce_configXdg = '''', ce_stateXdg = '''', ce_home = Some ''/home/u'',
     ce_machine = (\<lambda>t. if t = ''broken'' then Inl () else Inr (init_machine ''old'' 3)), ce_state = (\<lambda>_. Inr fresh_state), ce_locks = True,
     ce_hostname = ''host'', ce_executable = Some ''/usr/bin/dotkeeper'', ce_os = OtherUnix, ce_engine = demo_engine\<rparr>"

definition demo_flags :: init_flags where
  "demo_flags = \<lparr>if_name = ''new'', if_slot = - 1, if_force = False, if_noService = False\<rparr>"

definition demo_machine_fs :: "string \<Rightarrow> fsys" where
  "demo_machine_fs t = \<lparr>nodes = (\<lambda>p. if p \<in> {''/'', ''/home'', ''/home/u'', ''/home/u/.config'', ''/home/u/.config/dotkeeper''} then Some DirN
     else if p = ''/home/u/.config/dotkeeper/machine.toml'' then Some (FileN t) else None), broken = (\<lambda>_. False)\<rparr>"

lemma demo_paths:
  "machine_path demo_cli = ''/home/u/.config/dotkeeper/machine.toml''" "state_path demo_cli = ''/home/u/.local/state/dotkeeper/state.toml''"
  "lock_path demo_cli = ''/home/u/.local/state/dotkeeper/state.toml.lock''" "ConfigDir (ce_configXdg demo_cli) (ce_home demo_cli) = ''/home/u/.config/dotkeeper''"
  by code_simp+

lemma apart_list: "list_all (\<lambda>q. q \<noteq> a \<and> q \<noteq> b) (x # xs) \<Longrightarrow> a \<notin> insert x (set xs) \<and> b \<notin> insert x (set xs)"
  by (auto simp: list_all_iff)

lemma demo_apart: "paths_apart demo_cli demo_host"
proof -
  let ?ok = "\<lambda>q. q \<noteq> ''/home/u/.config/dotkeeper/machine.toml'' \<and> q \<noteq> ''/home/u/.local/state/dotkeeper/state.toml''"
  have "list_all ?ok (path_Join (unitDir demo_host) syncthing_unit # ancestors (unitDir demo_host))" by code_simp
  moreover have "list_all ?ok (pidFile demo_host # ancestors (path_Dir (pidFile demo_host)))" by code_simp
  moreover have "list_all ?ok (plistPath demo_host syncthingLabel # ancestors (agentDir demo_host))" by code_simp
  ultimately have "machine_path demo_cli \<notin> own_files m demo_host \<and> state_path demo_cli \<notin> own_files m demo_host" for m
    unfolding demo_paths by (cases m; hypsubst; unfold own_files.simps) (erule apart_list | simp)+
  then show ?thesis by (simp add: paths_apart_def demo_paths) (simp add: demo_cli_def demo_engine_def)
qed

theorem init_keeps_machine_witness:
  "nodes (fst (snd (initCmd demo_cli demo_host demo_flags (demo_machine_fs ''mine'', ('''', []))))) ''/home/u/.config/dotkeeper/machine.toml'' = Some (FileN ''mine'')"
proof -
  have l: "engine_laws (ce_engine demo_cli)" using demo_engine_laws by (simp add: demo_cli_def)
  have "load_machine demo_cli (demo_machine_fs ''mine'') = Inr (Some (applyMachineV2Defaults (init_machine ''old'' 3)))"
    unfolding load_machine_def demo_paths
    by (simp add: read_config_def not_exists_def os_ReadFile_def os_Stat_def demo_machine_fs_def LoadMachineConfigV2_def demo_cli_def)
  moreover have "\<not> if_force demo_flags" by (simp add: demo_flags_def)
  ultimately have "nodes (fst (snd (initCmd demo_cli demo_host demo_flags (demo_machine_fs ''mine'', ('''', []))))) (machine_path demo_cli) =
      nodes (demo_machine_fs ''mine'') (machine_path demo_cli)"
    by (rule init_keeps_machine[OF l demo_apart])
  then show ?thesis unfolding demo_paths by (simp add: demo_machine_fs_def)
qed

theorem init_overwrites_undecodable_witness:
  "nodes (fst (snd (initCmd demo_cli demo_host demo_flags (demo_machine_fs ''broken'', ('''', []))))) ''/home/u/.config/dotkeeper/machine.toml'' =
     Some (FileN (machine_text (init_machine ''new'' 0)))"
proof -
  let ?f = "demo_machine_fs ''broken''" and ?t = "machine_text (init_machine (if_name demo_flags) (nat (if_slot demo_flags)))"
  have l: "engine_laws (ce_engine demo_cli)" using demo_engine_laws by (simp add: demo_cli_def)
  have r: "os_ReadFile ?f (machine_path demo_cli) = Inr ''broken''" unfolding demo_paths
    by (simp add: os_ReadFile_def os_Stat_def demo_machine_fs_def)
  have d: "ce_machine demo_cli ''broken'' = Inl ()" by (simp add: demo_cli_def)
  have j: "path_Dir ''/home/u/.config/dotkeeper/machine.toml'' = ''/home/u/.config/dotkeeper''" by code_simp
  have "os_MkdirAll ?f ''/home/u/.config/dotkeeper'' = (None, ?f)" by (simp add: os_MkdirAll_def os_Stat_def demo_machine_fs_def)
  moreover have "write_atomic ?f ''/home/u/.config/dotkeeper/machine.toml'' ?t = (None, set_node ''/home/u/.config/dotkeeper/machine.toml'' (Some (FileN ?t)) ?f)"
    unfolding write_atomic_def is_dir_def os_Stat_def j by (simp add: demo_machine_fs_def)
  ultimately have w: "write_in (ConfigDir (ce_configXdg demo_cli) (ce_home demo_cli)) (machine_path demo_cli) ?t ?f =
      (True, set_node (machine_path demo_cli) (Some (FileN ?t)) ?f)" unfolding demo_paths
    by (simp add: write_in_def)
  have n: "if_name demo_flags \<noteq> ''''" by (simp add: demo_flags_def)
  show ?thesis using init_overwrites_undecodable[OF l demo_apart r d w n, of "('''', [])"] unfolding demo_paths by (simp add: demo_flags_def)
qed

end
