(* ===== verification/Proc_Nice.thy ===== *)
theory Proc_Nice
  imports Prelude
begin

text \<open>
  Lowering the priority of child processes (internal/procnice). A command is its path, its arguments and which of its outputs the
  caller has set. Looking up a program, starting and waiting for a process and the two system calls are arguments; what the programs
  nice and ionice do with their arguments is a law the theorems name.
\<close>

section \<open>Wrapping a command\<close>

record exec_cmd =
  ec_Path :: string
  ec_Args :: "string list"
  ec_Stdout :: bool
  ec_Stderr :: bool

text \<open>resolveWrappers: the paths of nice and ionice, empty where they are not found; the first call decides for the process.\<close>

type_synonym wrapper_cache = "(string \<times> string) option"

definition found_path :: "string option \<Rightarrow> string" where
  "found_path p = (case p of None \<Rightarrow> '''' | Some q \<Rightarrow> q)"

definition resolveWrappers :: "(string \<Rightarrow> string option) \<Rightarrow> wrapper_cache \<Rightarrow> (string \<times> string) \<times> wrapper_cache" where
  "resolveWrappers lookPath cache =
    (case cache of Some c \<Rightarrow> (c, cache)
     | None \<Rightarrow> let c = (found_path (lookPath ''nice''), found_path (lookPath ''ionice'')) in (c, Some c))"

definition wrap :: "string \<times> string \<Rightarrow> exec_cmd \<Rightarrow> bool \<times> exec_cmd" where
  "wrap wrappers cmd =
    (case wrappers of (nicePath, ionicePath) \<Rightarrow>
       if nicePath = '''' \<and> ionicePath = '''' then (False, cmd)
       else let orig = (if ec_Args cmd = [] then [ec_Path cmd] else ec_Args cmd);
                front = (if nicePath \<noteq> '''' then [''nice'', ''-n'', ''40''] @ (if ionicePath \<noteq> '''' then [ionicePath, ''-c'', ''3''] else [])
                         else [''ionice'', ''-c'', ''3''])
            in (True, cmd\<lparr>ec_Path := (if nicePath \<noteq> '''' then nicePath else ionicePath), ec_Args := front @ orig\<rparr>))"

section \<open>Running\<close>

text \<open>What came of a process: its output, its error output, and whether it failed.\<close>

datatype run_error = StartError | ExitError string | StdoutAlreadySet | StderrAlreadySet

record 'w proc_env =
  pe_start :: "exec_cmd \<Rightarrow> 'w \<Rightarrow> nat option \<times> 'w"
  pe_lower :: "nat \<Rightarrow> 'w \<Rightarrow> 'w"
  pe_wait :: "nat \<Rightarrow> 'w \<Rightarrow> (bool \<times> string \<times> string) \<times> 'w"

text \<open>Run: the error, the output and the error output, and the command as it was started.\<close>

definition nice_Run :: "'w proc_env \<Rightarrow> string \<times> string \<Rightarrow> exec_cmd \<Rightarrow> 'w \<Rightarrow> (run_error option \<times> string \<times> string) \<times> 'w" where
  "nice_Run P wrappers cmd w =
    (case wrap wrappers cmd of (wrapped, cmd') \<Rightarrow>
     case pe_start P cmd' w of
       (None, w1) \<Rightarrow> ((Some StartError, '''', ''''), w1)
     | (Some pid, w1) \<Rightarrow>
        (case pe_wait P pid (if wrapped then w1 else pe_lower P pid w1) of
           ((ok, out, err), w2) \<Rightarrow> ((if ok then None else Some (ExitError ''''), out, err), w2)))"

text \<open>Output: what was captured from standard error becomes the text of an exit error that has none.\<close>

definition nice_Output :: "'w proc_env \<Rightarrow> string \<times> string \<Rightarrow> exec_cmd \<Rightarrow> 'w \<Rightarrow> (string option \<times> run_error option) \<times> 'w" where
  "nice_Output P wrappers cmd w =
    (if ec_Stdout cmd then ((None, Some StdoutAlreadySet), w)
     else case nice_Run P wrappers (cmd\<lparr>ec_Stdout := True, ec_Stderr := True\<rparr>) w of
            ((e, out, err), w') \<Rightarrow>
              ((Some out, case e of Some (ExitError t) \<Rightarrow> Some (ExitError (if t = '''' then (if ec_Stderr cmd then '''' else err) else t)) | _ \<Rightarrow> e), w'))"

text \<open>CombinedOutput; as elsewhere standard output before standard error.\<close>

definition nice_CombinedOutput :: "'w proc_env \<Rightarrow> string \<times> string \<Rightarrow> exec_cmd \<Rightarrow> 'w \<Rightarrow> (string option \<times> run_error option) \<times> 'w" where
  "nice_CombinedOutput P wrappers cmd w =
    (if ec_Stdout cmd then ((None, Some StdoutAlreadySet), w)
     else if ec_Stderr cmd then ((None, Some StderrAlreadySet), w)
     else case nice_Run P wrappers (cmd\<lparr>ec_Stdout := True, ec_Stderr := True\<rparr>) w of
            ((e, out, err), w') \<Rightarrow> ((Some (out @ err), e), w'))"

text \<open>LowerSelf: the threads lowered, in order; the two listings of \<open>/proc/self/task\<close>, None for an error, \<open>atoi\<close> is strconv.Atoi.\<close>

definition lower_pass :: "(string \<Rightarrow> nat option) \<Rightarrow> string list \<Rightarrow> nat list" where
  "lower_pass atoi entries = map (\<lambda>e. the (atoi e)) (filter (\<lambda>e. atoi e \<noteq> None) entries)"

definition LowerSelf :: "(string \<Rightarrow> nat option) \<Rightarrow> string list option \<Rightarrow> string list option \<Rightarrow> nat list" where
  "LowerSelf atoi first second =
    0 # (case first of None \<Rightarrow> [] | Some es1 \<Rightarrow>
           lower_pass atoi es1 @ (case second of None \<Rightarrow> [] | Some es2 \<Rightarrow> lower_pass atoi es2))"

text \<open>Off Linux the package passes commands through.\<close>

definition plain_Run :: "'w proc_env \<Rightarrow> exec_cmd \<Rightarrow> 'w \<Rightarrow> (run_error option \<times> string \<times> string) \<times> 'w" where
  "plain_Run P cmd w =
    (case pe_start P cmd w of
       (None, w1) \<Rightarrow> ((Some StartError, '''', ''''), w1)
     | (Some pid, w1) \<Rightarrow> (case pe_wait P pid w1 of ((ok, out, err), w2) \<Rightarrow> ((if ok then None else Some (ExitError ''''), out, err), w2)))"

section \<open>What the wrappers do\<close>

text \<open>The priority a process has: its niceness and whether its input and output are of the idle class.\<close>

record priority =
  pr_nice :: int
  pr_idle :: bool

text \<open>
  \<open>exec\<close> gives for a command line and a priority the command line that is finally executed and its priority. nice(1) adds the number
  to the niceness, up to 19, ionice(1) sets the class, and both execute the rest; the program named in the arguments is the one at the path.
\<close>

definition exec_laws :: "(string list \<Rightarrow> priority \<Rightarrow> string list \<times> priority) \<Rightarrow> string \<times> string \<Rightarrow> bool" where
  "exec_laws exec wrappers \<longleftrightarrow>
    (\<forall>rest p. rest \<noteq> [] \<longrightarrow> fst wrappers \<noteq> '''' \<longrightarrow>
       exec (fst wrappers # ''-n'' # ''40'' # rest) p = exec rest (p\<lparr>pr_nice := min 19 (pr_nice p + 40)\<rparr>)) \<and>
    (\<forall>rest p. rest \<noteq> [] \<longrightarrow> snd wrappers \<noteq> '''' \<longrightarrow>
       exec (snd wrappers # ''-c'' # ''3'' # rest) p = exec rest (p\<lparr>pr_idle := True\<rparr>))"

text \<open>The command line the kernel is given: the path in place of the first argument.\<close>

definition command_line :: "exec_cmd \<Rightarrow> string list" where
  "command_line cmd = ec_Path cmd # tl (ec_Args cmd)"

definition wrapped_priority :: "string \<times> string \<Rightarrow> priority \<Rightarrow> priority" where
  "wrapped_priority wrappers p =
    p\<lparr>pr_nice := (if fst wrappers = '''' then pr_nice p else 19), pr_idle := (if snd wrappers = '''' then pr_idle p else True)\<rparr>"

text \<open>
  What is executed. Whichever of the two wrappers there are, the wrapped command executes the original program with its original
  arguments, at niceness 19 if nice was found, whatever niceness the daemon has, and in the idle class if ionice was found. What was
  not found is left as it was, and since the command counts as wrapped no system call makes up for it.
\<close>

theorem wrap_executes_original:
  assumes "exec_laws exec wrappers" "wrap wrappers cmd = (wrapped, cmd')" "ec_Args cmd \<noteq> []" "- 20 \<le> pr_nice p"
    and "exec (command_line cmd) = exec (ec_Args cmd)"
  shows "exec (command_line cmd') p = exec (ec_Args cmd) (wrapped_priority wrappers p) \<and>
    (wrapped \<longleftrightarrow> fst wrappers \<noteq> '''' \<or> snd wrappers \<noteq> '''')"
proof -
  obtain n i where w: "wrappers = (n, i)" by (cases wrappers)
  have N: "n \<noteq> '''' \<Longrightarrow> rest \<noteq> [] \<Longrightarrow> exec (n # ''-n'' # ''40'' # rest) q = exec rest (q\<lparr>pr_nice := min 19 (pr_nice q + 40)\<rparr>)"
    and I: "i \<noteq> '''' \<Longrightarrow> rest \<noteq> [] \<Longrightarrow> exec (i # ''-c'' # ''3'' # rest) q = exec rest (q\<lparr>pr_idle := True\<rparr>)" for rest q
    using assms(1) by (simp_all add: exec_laws_def w)
  have m: "min 19 (pr_nice p + 40) = 19" using assms(4) by simp
  show ?thesis
    using assms(2,3,5) by (cases "n = ''''"; cases "i = ''''") (auto simp: wrap_def w command_line_def wrapped_priority_def N I m)
qed

text \<open>A run of the wrappers as their manual pages say, for one program.\<close>

fun demo_exec :: "string list \<Rightarrow> priority \<Rightarrow> string list \<times> priority" where
  "demo_exec (p # a # n # rest) pr =
    (if p = ''/usr/bin/nice'' \<and> a = ''-n'' \<and> n = ''40'' \<and> rest \<noteq> [] then demo_exec rest (pr\<lparr>pr_nice := min 19 (pr_nice pr + 40)\<rparr>)
     else if p = ''/usr/bin/ionice'' \<and> a = ''-c'' \<and> n = ''3'' \<and> rest \<noteq> [] then demo_exec rest (pr\<lparr>pr_idle := True\<rparr>)
     else ((if p = ''git'' then ''/usr/bin/git'' else p) # a # n # rest, pr))"
| "demo_exec (p # args) pr = ((if p = ''git'' then ''/usr/bin/git'' else p) # args, pr)"
| "demo_exec [] pr = ([], pr)"

lemma demo_exec_laws: "exec_laws demo_exec (''/usr/bin/nice'', i)" if "i \<in> {'''', ''/usr/bin/ionice''}"
  using that by (auto simp: exec_laws_def)

definition demo_git :: exec_cmd where
  "demo_git = \<lparr>ec_Path = ''/usr/bin/git'', ec_Args = [''git'', ''status''], ec_Stdout = False, ec_Stderr = False\<rparr>"

theorem wrap_executes_original_witness:
  "demo_exec (command_line (snd (wrap (''/usr/bin/nice'', ''/usr/bin/ionice'') demo_git))) \<lparr>pr_nice = 5, pr_idle = False\<rparr> =
   ([''/usr/bin/git'', ''status''], \<lparr>pr_nice = 19, pr_idle = True\<rparr>)"
proof -
  have "demo_exec (command_line demo_git) = demo_exec (ec_Args demo_git)" by (simp add: demo_git_def command_line_def fun_eq_iff)
  then have "demo_exec (command_line (snd (wrap (''/usr/bin/nice'', ''/usr/bin/ionice'') demo_git))) \<lparr>pr_nice = 5, pr_idle = False\<rparr> =
      demo_exec (ec_Args demo_git) (wrapped_priority (''/usr/bin/nice'', ''/usr/bin/ionice'') \<lparr>pr_nice = 5, pr_idle = False\<rparr>)"
    using wrap_executes_original[OF demo_exec_laws prod.collapse[symmetric], of "''/usr/bin/ionice''" demo_git "\<lparr>pr_nice = 5, pr_idle = False\<rparr>"]
    by (simp add: demo_git_def)
  then show ?thesis by (simp add: demo_git_def wrapped_priority_def)
qed

text \<open>Every thread that one of the two listings names is lowered, as long as the listings can be read.\<close>

lemma LowerSelf_reaches: "atoi e = Some tid \<Longrightarrow> e \<in> set es1 \<union> set es2 \<Longrightarrow> tid \<in> set (LowerSelf atoi (Some es1) (Some es2))"
  by (force simp: LowerSelf_def lower_pass_def)

end
