(* ===== verification/Fs_Types.thy ===== *)
theory Fs_Types
  imports Watch_Health
begin

text \<open>
  The classification of file systems on the other operating systems (internal/watchhealth/fstype\_darwin.go, fstype\_windows.go,
  fstype\_other.go). What the system calls report is an argument. The locale \<open>fs_tables\<close> is what all of them rely on: no name is
  in both tables; it is interpreted for Linux, macOS and Windows.
\<close>

section \<open>macOS\<close>

definition darwinReliable :: "string list" where
  "darwinReliable = [''apfs'', ''hfs'', ''msdos'', ''exfat'']"

definition darwinUnreliable :: "string list" where
  "darwinUnreliable = [''nfs'', ''smbfs'', ''afpfs'', ''webdav'', ''autofs'', ''osxfuse'', ''macfuse'']"

fun cString :: "string \<Rightarrow> string" where
  "cString [] = []"
| "cString (c # b) = (if c = CHR 0x00 then [] else c # cString b)"

text \<open>\<open>statfs\<close> gives the array with the name of the type, None for an error.\<close>

definition detectFilesystem_darwin :: "(string \<Rightarrow> string option) \<Rightarrow> string \<Rightarrow> FilesystemKind \<times> string" where
  "detectFilesystem_darwin statfs path =
    (case statfs path of None \<Rightarrow> (FilesystemUnknown, '''')
     | Some arr \<Rightarrow>
       let name = cString arr in
       if name \<in> set darwinReliable then (FilesystemReliable, name)
       else if name \<in> set darwinUnreliable then (FilesystemUnreliable, name)
       else (FilesystemUnknown, name))"

section \<open>Windows\<close>

definition windowsReliable :: "string list" where
  "windowsReliable = [''NTFS'', ''ReFS'', ''FAT32'', ''exFAT'', ''FAT'']"

definition windowsUnreliable :: "string list" where
  "windowsUnreliable = [''CIFS'', ''SMB'', ''NFS'', ''WebDAV'']"

text \<open>
  filepath.Abs (None for an error), the volume name of a path, GetVolumeInformation of a volume root (None for an error, also of the
  conversion to UTF-16) and GetDriveType.
\<close>

record win_volumes =
  wv_Abs :: "string \<Rightarrow> string option"
  wv_VolumeName :: "string \<Rightarrow> string"
  wv_fsName :: "string \<Rightarrow> string option"
  wv_driveType :: "string \<Rightarrow> nat"

definition driveRemote :: nat where "driveRemote = 4"

definition driveTypeIsRemote :: "win_volumes \<Rightarrow> string \<Rightarrow> bool" where
  "driveTypeIsRemote W rootp \<longleftrightarrow> wv_driveType W rootp = driveRemote"

definition volume_root :: "string \<Rightarrow> string" where
  "volume_root v = (if HasSuffix v [CHR 0x5C] then v else v @ [CHR 0x5C])"

definition detectFilesystem_windows :: "win_volumes \<Rightarrow> string \<Rightarrow> FilesystemKind \<times> string" where
  "detectFilesystem_windows W path =
    (case wv_Abs W path of None \<Rightarrow> (FilesystemUnknown, '''')
     | Some abs_p \<Rightarrow>
       if wv_VolumeName W abs_p = '''' then (FilesystemUnknown, '''')
       else let vroot = volume_root (wv_VolumeName W abs_p) in
       (case wv_fsName W vroot of None \<Rightarrow> (FilesystemUnknown, '''')
        | Some fsName \<Rightarrow>
          if driveTypeIsRemote W vroot then (FilesystemUnreliable, fsName @ '' (network)'')
          else if fsName \<in> set windowsReliable then (FilesystemReliable, fsName)
          else if fsName \<in> set windowsUnreliable then (FilesystemUnreliable, fsName)
          else (FilesystemUnknown, fsName)))"

section \<open>Other systems\<close>

definition detectFilesystem_other :: "string \<Rightarrow> FilesystemKind \<times> string" where
  "detectFilesystem_other path = (FilesystemUnknown, '''')"

section \<open>What the tables promise\<close>

definition table_kind :: "'k list \<Rightarrow> 'k list \<Rightarrow> 'k \<Rightarrow> FilesystemKind" where
  "table_kind reliable unreliable k =
    (if k \<in> set reliable then FilesystemReliable else if k \<in> set unreliable then FilesystemUnreliable else FilesystemUnknown)"

text \<open>A key found in one table is in no other, so the order of the two look-ups does not matter.\<close>

locale fs_tables =
  fixes reliable unreliable :: "'k list"
  assumes apart: "k \<in> set reliable \<Longrightarrow> k \<notin> set unreliable"
begin

lemma kind_iff:
  "table_kind reliable unreliable k = FilesystemReliable \<longleftrightarrow> k \<in> set reliable"
  "table_kind reliable unreliable k = FilesystemUnreliable \<longleftrightarrow> k \<in> set unreliable"
  "table_kind reliable unreliable k = FilesystemUnknown \<longleftrightarrow> k \<notin> set reliable \<and> k \<notin> set unreliable"
  using apart[of k] by (auto simp: table_kind_def)

lemma order_irrelevant:
  "(if k \<in> set unreliable then FilesystemUnreliable else if k \<in> set reliable then FilesystemReliable else FilesystemUnknown) =
   table_kind reliable unreliable k"
  using apart[of k] by (auto simp: table_kind_def)

end

interpretation darwin_tables: fs_tables darwinReliable darwinUnreliable
  by unfold_locales (auto simp: darwinReliable_def darwinUnreliable_def)

interpretation windows_tables: fs_tables windowsReliable windowsUnreliable
  by unfold_locales (auto simp: windowsReliable_def windowsUnreliable_def)

interpretation linux_tables: fs_tables "map fst linuxReliableMagic" "map fst linuxUnreliableMagic"
  by unfold_locales (auto simp: linuxReliableMagic_def linuxUnreliableMagic_def)

lemma linux_kind:
  assumes "statfs path = Some magic"
  shows "fst (detectFilesystem statfs path) = table_kind (map fst linuxReliableMagic) (map fst linuxUnreliableMagic) magic"
proof -
  have m: "magic \<in> set (map fst t) \<longleftrightarrow> map_of t magic \<noteq> None" for t :: "(int \<times> string) list"
    by (metis map_of_eq_None_iff set_map)
  show ?thesis unfolding table_kind_def m using assms by (simp add: detectFilesystem_def split: option.split)
qed

lemma darwin_kind:
  "statfs path = Some arr \<Longrightarrow> fst (detectFilesystem_darwin statfs path) = table_kind darwinReliable darwinUnreliable (cString arr)"
  by (simp add: detectFilesystem_darwin_def table_kind_def Let_def)

text \<open>
  No watcher is trusted that the tables do not vouch for. On each of the systems a folder counts as reliable exactly if the system call
  succeeded and its answer is in the table of that system; on Windows only for a drive that is not a remote one, whatever file
  system the share claims to be; elsewhere never.
\<close>

theorem reliable_exactly_by_table:
  "(fst (detectFilesystem magic_of p) = FilesystemReliable \<longleftrightarrow> (\<exists>m. magic_of p = Some m \<and> m \<in> fst ` set linuxReliableMagic)) \<and>
   (fst (detectFilesystem_darwin name_of p) = FilesystemReliable \<longleftrightarrow> (\<exists>arr. name_of p = Some arr \<and> cString arr \<in> set darwinReliable)) \<and>
   (fst (detectFilesystem_windows W p) = FilesystemReliable \<longleftrightarrow>
      (\<exists>a fs. wv_Abs W p = Some a \<and> wv_VolumeName W a \<noteq> '''' \<and> wv_fsName W (volume_root (wv_VolumeName W a)) = Some fs \<and>
        wv_driveType W (volume_root (wv_VolumeName W a)) \<noteq> 4 \<and> fs \<in> set windowsReliable)) \<and>
   fst (detectFilesystem_other p) \<noteq> FilesystemReliable"
proof (intro conjI)
  show "fst (detectFilesystem magic_of p) = FilesystemReliable \<longleftrightarrow> (\<exists>m. magic_of p = Some m \<and> m \<in> fst ` set linuxReliableMagic)"
  proof (cases "magic_of p")
    case (Some m)
    then show ?thesis using linux_kind[where statfs = magic_of and path = p, OF Some] linux_tables.kind_iff(1)[of m] by simp
  qed (simp add: detectFilesystem_def)
  show "fst (detectFilesystem_darwin name_of p) = FilesystemReliable \<longleftrightarrow> (\<exists>arr. name_of p = Some arr \<and> cString arr \<in> set darwinReliable)"
  proof (cases "name_of p")
    case (Some arr)
    then show ?thesis using darwin_kind[where statfs = name_of and path = p, OF Some] darwin_tables.kind_iff(1) by simp
  qed (simp add: detectFilesystem_darwin_def)
  show "fst (detectFilesystem_windows W p) = FilesystemReliable \<longleftrightarrow>
      (\<exists>a fs. wv_Abs W p = Some a \<and> wv_VolumeName W a \<noteq> '''' \<and> wv_fsName W (volume_root (wv_VolumeName W a)) = Some fs \<and>
        wv_driveType W (volume_root (wv_VolumeName W a)) \<noteq> 4 \<and> fs \<in> set windowsReliable)"
    by (auto simp: detectFilesystem_windows_def driveTypeIsRemote_def driveRemote_def Let_def split: option.splits)
  show "fst (detectFilesystem_other p) \<noteq> FilesystemReliable" by (simp add: detectFilesystem_other_def)
qed

end
