(* ===== verification/Paths.thy ===== *)
theory Paths
  imports Files Conflict
begin

text \<open>
  Clean absolute paths as lists of names. \<open>abs_path\<close> is the path of a list of plain components; the functions of path/filepath on such
  paths are functions on lists: joining a name appends it, Dir drops the last, Rel of a path below another gives the rest. The theories
  on watching directories and on listing conflicts use these.
\<close>

section \<open>Absolute paths\<close>

definition abs_path :: "string list \<Rightarrow> string" where
  "abs_path cs = ''/'' @ str_Join cs ''/''"

definition plain_list :: "string list \<Rightarrow> bool" where
  "plain_list cs \<longleftrightarrow> list_all plain_component cs"

lemma plain_list_simps [simp]:
  "plain_list []" "plain_list (c # cs) \<longleftrightarrow> plain_component c \<and> plain_list cs"
  "plain_list (as @ bs) \<longleftrightarrow> plain_list as \<and> plain_list bs"
  by (simp_all add: plain_list_def)

lemma slash_lit: "''/'' = [slash]"
  by (simp add: slash_def)

lemma split_join: "plain_list (c # cs) \<Longrightarrow> str_Split slash (str_Join (c # cs) ''/'') = c # cs"
proof (induction cs arbitrary: c)
  case Nil
  then show ?case by (simp add: split_none plain_component_def)
next
  case (Cons d cs)
  then have "slash \<notin> set c" by (simp add: plain_component_def)
  then show ?case using Cons by (simp add: slash_lit split_append split_none)
qed

lemma clean_stack_plain: "plain_list cs \<Longrightarrow> clean_stack r st cs = rev st @ cs"
  by (induction cs arbitrary: st) (auto simp: plain_component_def)

lemma split_abs_path: "plain_list cs \<Longrightarrow> str_Split slash (abs_path cs) = (if cs = [] then ['''', ''''] else '''' # cs)"
proof (cases cs)
  case (Cons c ds)
  assume "plain_list cs"
  then have "str_Split slash (str_Join cs ''/'') = cs" using split_join Cons by simp
  then show ?thesis using Cons by (simp add: abs_path_def slash_lit)
qed (simp add: abs_path_def slash_lit)

lemma IsAbs_slash [simp]: "IsAbs (abs_path cs @ x)"
  by (simp add: IsAbs_def abs_path_def HasPrefix_iff)

lemma IsAbs_abs_path [simp]: "IsAbs (abs_path cs)"
  using IsAbs_slash[of cs "[]"] by simp

lemma abs_path_neq [simp]: "abs_path cs \<noteq> ''''"
  by (simp add: abs_path_def)

lemma path_Clean_abs [simp]: "plain_list cs \<Longrightarrow> path_Clean (abs_path cs) = abs_path cs"
  using clean_stack_plain[of cs True "[]"] by (simp add: path_Clean_def split_abs_path) (simp add: abs_path_def)

lemma str_Join_append: "as \<noteq> [] \<Longrightarrow> bs \<noteq> [] \<Longrightarrow> str_Join (as @ bs) sep = str_Join as sep @ sep @ str_Join bs sep"
proof (induction as sep rule: str_Join.induct)
  case (2 x sep)
  then show ?case by (cases bs) auto
qed auto

lemma str_Join_nonempty: "plain_list cs \<Longrightarrow> cs \<noteq> [] \<Longrightarrow> str_Join cs ''/'' \<noteq> ''''"
  by (cases cs rule: remdups_adj.cases) (auto simp: plain_component_def)

text \<open>Joining a relative path of plain names.\<close>

lemma path_Join_abs:
  assumes "plain_list as" "plain_list bs"
  shows "path_Join (abs_path as) (str_Join bs ''/'') = abs_path (as @ bs)"
proof (cases "bs = []")
  case False
  then have j: "str_Join bs ''/'' \<noteq> ''''" and s: "str_Split slash (str_Join bs ''/'') = bs"
    using str_Join_nonempty[OF assms(2)] split_join assms(2) by (cases bs; simp)+
  have "str_Split slash (abs_path as @ ''/'' @ str_Join bs ''/'') = str_Split slash (abs_path as) @ bs"
    by (simp add: slash_lit split_append s[unfolded slash_lit])
  moreover have "clean_stack True [] (str_Split slash (abs_path as) @ bs) = as @ bs"
    using assms clean_stack_plain[of "as @ bs" True "[]"] clean_stack_plain[of bs True "[]"] by (auto simp: split_abs_path)
  moreover have "IsAbs (abs_path as @ ''/'' @ str_Join bs ''/'')" by (rule IsAbs_slash)
  ultimately show ?thesis using j by (simp add: path_Join_def path_Clean_def Let_def) (simp add: abs_path_def)
qed (simp add: path_Join_def assms)

lemma path_Join_name: "plain_list as \<Longrightarrow> plain_component a \<Longrightarrow> path_Join (abs_path as) a = abs_path (as @ [a])"
  using path_Join_abs[of as "[a]"] by simp

lemma clean_stack_trailing: "clean_stack r st (xs @ [[]]) = clean_stack r st xs"
  by (induction r st xs rule: clean_stack.induct) (auto split: list.splits)

lemma path_Dir_abs: "plain_list as \<Longrightarrow> plain_component a \<Longrightarrow> path_Dir (abs_path (as @ [a])) = abs_path as"
proof -
  assume as: "plain_list as" "plain_component a"
  have drop: "rev (dropWhile (\<lambda>c. c \<noteq> slash) (rev (p @ slash # a))) = p @ [slash]" for p
  proof -
    have "dropWhile (\<lambda>c. c \<noteq> slash) (rev a @ slash # rev p) = slash # rev p"
      using as(2) by (subst dropWhile_append3) (auto simp: plain_component_def)
    then show ?thesis by simp
  qed
  show ?thesis
  proof (cases "as = []")
    case True
    then have e: "abs_path (as @ [a]) = [] @ slash # a" by (simp add: abs_path_def slash_lit)
    have "path_Dir (abs_path (as @ [a])) = path_Clean [slash]" unfolding path_Dir_def e drop by simp
    also have "\<dots> = abs_path []" by (simp add: path_Clean_def IsAbs_def slash_def abs_path_def HasPrefix_iff)
    finally show ?thesis using True by simp
  next
    case False
    then have e: "abs_path (as @ [a]) = abs_path as @ slash # a" by (simp add: abs_path_def str_Join_append slash_lit)
    have "path_Clean (abs_path as @ [slash]) = abs_path as"
    proof -
      have "clean_stack True [] (str_Split slash (abs_path as @ [slash])) = as"
        using as(1) False clean_stack_plain[of as True "[]"] by (simp add: split_append split_abs_path clean_stack_trailing)
      moreover have "IsAbs (abs_path as @ [slash])" by (rule IsAbs_slash)
      ultimately show ?thesis by (simp add: path_Clean_def Let_def) (simp add: abs_path_def)
    qed
    then show ?thesis unfolding path_Dir_def e drop .
  qed
qed

lemma path_Base_abs: "plain_list as \<Longrightarrow> plain_component a \<Longrightarrow> path_Base (abs_path (as @ [a])) = a"
  using path_Base_Join[of a "abs_path as"] by (simp add: path_Join_name)

lemma abs_path_inject: "plain_list as \<Longrightarrow> plain_list bs \<Longrightarrow> abs_path as = abs_path bs \<longleftrightarrow> as = bs"
proof
  assume "plain_list as" "plain_list bs" "abs_path as = abs_path bs"
  then have "(if as = [] then ['''', ''''] else '''' # as) = (if bs = [] then ['''', ''''] else '''' # bs)"
    using split_abs_path by metis
  then show "as = bs" using \<open>plain_list as\<close> \<open>plain_list bs\<close> by (auto simp: plain_component_def split: if_splits)
qed simp

section \<open>Rel\<close>

lemma path_parts_abs: "plain_list cs \<Longrightarrow> path_parts (abs_path cs) = cs"
proof -
  assume cs: "plain_list cs"
  have "filter (\<lambda>c. c \<noteq> []) cs = cs" using cs by (simp add: plain_list_def list_all_iff plain_component_def)
  moreover have "abs_path cs \<noteq> ''.''" by (simp add: abs_path_def)
  ultimately show ?thesis using cs by (simp add: path_parts_def split_abs_path)
qed

lemma strip_common_append: "strip_common as (as @ bs) = ([], bs)"
  by (induction as) (cases bs; simp)+

text \<open>Rel from a directory to a path below it.\<close>

lemma path_Rel_below:
  assumes "plain_list as" "plain_list bs"
  shows "path_Rel (abs_path as) (abs_path (as @ bs)) = Some (if bs = [] then ''.'' else str_Join bs ''/'')"
proof (cases "bs = []")
  case False
  then have "abs_path (as @ bs) \<noteq> abs_path as" using abs_path_inject[of "as @ bs" as] assms by simp
  moreover have "abs_path (as @ bs) \<noteq> ''.''" by (simp add: abs_path_def)
  ultimately show ?thesis using False assms by (simp add: path_Rel_def path_parts_abs strip_common_append)
qed (simp add: path_Rel_def assms)

lemma HasPrefix_below: "bs \<noteq> [] \<Longrightarrow> as \<noteq> [] \<Longrightarrow> HasPrefix (abs_path (as @ bs)) (abs_path as @ ''/'')"
  by (simp add: abs_path_def str_Join_append HasPrefix_iff)

end
