(* ===== verification/Daemon.thy ===== *)
theory Daemon
  imports Machine_Init Activity Pass Paths Proc_Nice "HOL-Library.Sublist"
begin

text \<open>
  The start of the daemon (startCmd of cmd/dotkeeper/main.go, startReconcileDaemon and startReconcileLoop of cmds\_v5.go, pprof.go):
  what is built in which order, what the reconciler is given, and which directories and files are watched. The watches are those of
  fsnotify: what it reports of a change is an argument with the laws of its documentation.
\<close>

section \<open>Interfaces and pointers\<close>

text \<open>
  A Go variable of interface type: nil, a nil pointer of a concrete type, which is not nil, or a value. A call through the second
  reaches the method with a nil receiver, and the methods meant here read a field of it first.
\<close>

datatype 'a iface = NilInterface | NilPointer | Live 'a

datatype 'r call = Panics | Returns 'r

text \<open>A method called behind a check for nil, as the applier calls its client.\<close>

definition guarded_call :: "'a iface \<Rightarrow> ('a \<Rightarrow> 'r) \<Rightarrow> 'r \<Rightarrow> 'r call" where
  "guarded_call i method unavailable =
    (case i of NilInterface \<Rightarrow> Returns unavailable | NilPointer \<Rightarrow> Panics | Live c \<Rightarrow> Returns (method c))"

definition of_pointer :: "'a option \<Rightarrow> 'a iface" where
  "of_pointer p = (case p of None \<Rightarrow> NilPointer | Some c \<Rightarrow> Live c)"

definition healthResetter :: "'a iface \<Rightarrow> 'a iface" where
  "healthResetter h = (if h = NilInterface then NilInterface else h)"

definition newHealthAdapter :: "health option \<Rightarrow> health iface" where
  "newHealthAdapter tr = of_pointer tr"

section \<open>What is watched\<close>

text \<open>filepath.Walk: a directory that cannot be read is reported as an error and not added, a symbolic link is no directory.\<close>

fun walk_dirs :: "string \<Rightarrow> wnode \<Rightarrow> string list"
  and walk_dir_entries :: "string \<Rightarrow> (string \<times> wnode) list \<Rightarrow> string list" where
  "walk_dirs path WReg = []"
| "walk_dirs path WOther = []"
| "walk_dirs path (WDir None) = []"
| "walk_dirs path (WDir (Some es)) = path # walk_dir_entries path es"
| "walk_dir_entries path [] = []"
| "walk_dir_entries path (e # es) = walk_dirs (path_Join path (fst e)) (snd e) @ walk_dir_entries path es"

text \<open>\<open>add\<close> says where fsnotify's Add succeeds, \<open>tree\<close> what Walk finds at a path, None for an error of Lstat.\<close>

definition addWatchRecursive :: "(string \<Rightarrow> bool) \<Rightarrow> (string \<Rightarrow> wnode option) \<Rightarrow> string \<Rightarrow> string list" where
  "addWatchRecursive add tree r = filter add (case tree r of None \<Rightarrow> [] | Some n \<Rightarrow> walk_dirs r n)"

definition watch_path :: "fsys \<Rightarrow> (string \<Rightarrow> bool) \<Rightarrow> (string \<Rightarrow> wnode option) \<Rightarrow> string \<Rightarrow> string list" where
  "watch_path f add tree p =
    (case os_Stat f p of
       Inl _ \<Rightarrow> (case os_Stat f (path_Dir p) of Inl _ \<Rightarrow> [] | Inr _ \<Rightarrow> filter add [path_Dir p])
     | Inr DirN \<Rightarrow> addWatchRecursive add tree p
     | Inr (FileN _) \<Rightarrow> filter add [p])"

text \<open>The watches at the start of the loop; none if the watcher cannot be made.\<close>

definition start_watches :: "bool \<Rightarrow> fsys \<Rightarrow> (string \<Rightarrow> bool) \<Rightarrow> (string \<Rightarrow> wnode option) \<Rightarrow> string list \<Rightarrow> string list" where
  "start_watches watcher_ok f add tree watchPaths =
    (if watcher_ok then concat (map (watch_path f add tree) watchPaths) else [])"

text \<open>The first half of handleFsnotifyEvent: a new directory is watched with all below it.\<close>

definition watch_created :: "(string \<Rightarrow> bool) \<Rightarrow> (string \<Rightarrow> bool) \<Rightarrow> (string \<Rightarrow> wnode option) \<Rightarrow> fsevent \<Rightarrow> string list \<Rightarrow> string list" where
  "watch_created add isdir tree ev ws =
    (if ev_Create ev \<and> isdir (ev_Name ev) then ws @ addWatchRecursive add tree (ev_Name ev) else ws)"

section \<open>The reconcile daemon\<close>

definition reconcile_interval :: "MachineConfigV2 \<Rightarrow> dur" where
  "reconcile_interval m =
    (case ParseDuration (mc_ReconcileInterval m) of None \<Rightarrow> 5 * Minute | Some d \<Rightarrow> if d \<le> 0 then 5 * Minute else d)"

definition scan_root_paths :: "string option \<Rightarrow> fsys \<Rightarrow> MachineConfigV2 \<Rightarrow> string list" where
  "scan_root_paths home f m =
    filter (\<lambda>e. case os_Stat f e of Inl _ \<Rightarrow> False | Inr _ \<Rightarrow> True) (map (ExpandPath home) (dc_ScanRoots (mc_Discovery m)))"

text \<open>The profiling server: what is switched on if the address can be bound.\<close>

record profiler =
  pf_addr :: string
  pf_mutexFraction :: nat
  pf_blockRate :: nat
  pf_readHeaderTimeout :: dur
  pf_shutdownTimeout :: dur

definition startPprofListener :: "(string \<Rightarrow> bool) \<Rightarrow> string \<Rightarrow> profiler option" where
  "startPprofListener binds addr =
    (if addr = '''' then None
     else if \<not> binds addr then None
     else Some \<lparr>pf_addr = addr, pf_mutexFraction = 1, pf_blockRate = 1000000, pf_readHeaderTimeout = 5 * Second, pf_shutdownTimeout = 5 * Second\<rparr>)"

text \<open>
  What is started. The client is named by its API key; \<open>rd_querier\<close> is the one of the observed provider, \<open>rd_client\<close> the applier's.
\<close>

record reconcile_daemon =
  rd_interval :: dur
  rd_profiler :: "profiler option"
  rd_inputs :: obs_inputs
  rd_querier :: "string option"
  rd_client :: "string iface"
  rd_migrates :: bool
  rd_propagator :: bool
  rd_watchPaths :: "string list"
  rd_presence :: bool
  rd_hints :: bool

definition key_option :: "engine_error + string \<Rightarrow> string option" where
  "key_option r = (case r of Inl _ \<Rightarrow> None | Inr k \<Rightarrow> Some k)"

definition buildObservedProviderFull :: "cli_env \<Rightarrow> fsys \<Rightarrow> string option" where
  "buildObservedProviderFull C f = key_option (engine_APIKey (ce_engine C) f)"

definition startReconcileDaemon ::
    "cli_env \<Rightarrow> (string \<Rightarrow> bool) \<Rightarrow> fsys \<Rightarrow> (string \<Rightarrow> gotime option) option \<Rightarrow> (string \<Rightarrow> FolderHealth option) option \<Rightarrow> bool \<Rightarrow>
     (string \<Rightarrow> gotime option) option \<Rightarrow> bool \<Rightarrow> reconcile_daemon option" where
  "startReconcileDaemon C binds f activity watch_health wake rescans propagator =
    (if not_exists f (machine_path C) then None
     else case load_machine C f of Inl _ \<Rightarrow> None | Inr None \<Rightarrow> None
     | Inr (Some m) \<Rightarrow>
       let key = key_option (engine_APIKey (ce_engine C) f) in
       Some \<lparr>rd_interval = reconcile_interval m,
             rd_profiler = startPprofListener binds (dbg_PprofAddress (mc_Debug m)),
             rd_inputs = \<lparr>oi_Activity = activity, oi_Health = watch_health, oi_Wake = wake, oi_LastRescans = rescans\<rparr>,
             rd_querier = buildObservedProviderFull C f,
             rd_client = of_pointer key,
             rd_migrates = (key \<noteq> None),
             rd_propagator = propagator,
             rd_watchPaths = scan_root_paths (ce_home C) f m @ [state_path C, machine_path C],
             rd_presence = (key \<noteq> None),
             rd_hints = (activity \<noteq> None)\<rparr>)"

section \<open>start\<close>

definition startActivityTracker :: "string \<Rightarrow> (string \<Rightarrow> bool) \<Rightarrow> (string \<Rightarrow> wnode option) \<Rightarrow> gotime \<Rightarrow> string list \<Rightarrow> ActTracker option" where
  "startActivityTracker cwd add tree now roots = (if roots = [] then None else act_New cwd add tree now roots)"

definition startConflictWatcher :: "string \<Rightarrow> (string \<Rightarrow> bool) \<Rightarrow> (string \<Rightarrow> wnode option) \<Rightarrow> string list \<Rightarrow> cwatcher option" where
  "startConflictWatcher cwd add tree roots = (if roots = [] then None else cw_New cwd add tree roots)"

definition newDaemonPropagatorWithSources ::
    "bool \<Rightarrow> ('w \<Rightarrow> tpeer list) option \<Rightarrow> ('w \<Rightarrow> string \<Rightarrow> tfolder option) option \<Rightarrow> 'w git \<Rightarrow> ('w \<Rightarrow> gotime) \<Rightarrow> (string \<Rightarrow> 'w transport) \<Rightarrow> 'w propagator" where
  "newDaemonPropagatorWithSources mgr peersSource foldersSource git now transport =
    \<lparr>dp_mgr = mgr, dp_peers = peersSource, dp_folders = foldersSource, dp_git = git, dp_now = now, dp_transport = transport\<rparr>"

definition newDaemonPropagator ::
    "bool \<Rightarrow> tpeer list \<Rightarrow> tfolder list \<Rightarrow> 'w git \<Rightarrow> ('w \<Rightarrow> gotime) \<Rightarrow> (string \<Rightarrow> 'w transport) \<Rightarrow> 'w propagator" where
  "newDaemonPropagator mgr peers folders git now transport =
    newDaemonPropagatorWithSources mgr (Some (\<lambda>_. peers)) (Some (\<lambda>_. foldl (\<lambda>m f. m(tf_Path f \<mapsto> f)) (\<lambda>_. None) folders)) git now transport"

text \<open>No manager, no propagator; the sources read machine.toml and the managed folders anew on every call.\<close>

definition buildPropagator ::
    "Manager option \<Rightarrow> ('w \<Rightarrow> MachineConfigV2 option) \<Rightarrow> ('w \<Rightarrow> string list) \<Rightarrow> 'w git \<Rightarrow> ('w \<Rightarrow> gotime) \<Rightarrow> (string \<Rightarrow> 'w transport) \<Rightarrow> 'w propagator option" where
  "buildPropagator mgr machine roots git now transport =
    (if mgr = None then None
     else Some (newDaemonPropagatorWithSources True (Some (\<lambda>w. livePeersSource (machine w)))
       (Some (\<lambda>w. livePropagatorFoldersSource (roots w))) git now transport))"

definition no_options :: bench_options where
  "no_options = \<lparr>bo_Cadence = 0, bo_QuietWindow = 0, bo_ConvergedSampleCount = 0, bo_TickInterval = 0\<rparr>"

definition startBenchmarker :: "Manager option \<Rightarrow> benchmarker option" where
  "startBenchmarker mgr = (if mgr = None then None else Some (benchmarker_New no_options))"

text \<open>
  What start asks of the outside at the moment it runs: the managed folders (each part asks for them anew; here they are the same), the
  transports, where watches succeed, the profiler's port, the threads of the process, the library.
\<close>

record start_env =
  se_cwd :: string
  se_add :: "string \<Rightarrow> bool"
  se_tree :: "string \<Rightarrow> wnode option"
  se_now :: gotime
  se_roots :: "string list"
  se_statfs :: "string \<Rightarrow> int option"
  se_available :: "string \<Rightarrow> bool"
  se_probe :: "string \<Rightarrow> tpeer \<Rightarrow> dur option"
  se_transports :: "string list"
  se_binds :: "string \<Rightarrow> bool"
  se_atoi :: "string \<Rightarrow> nat option"
  se_threads :: "string list option \<times> string list option"
  se_calls :: start_calls

record daemon_parts =
  da_conflicts :: "cwatcher option"
  da_tracker :: "ActTracker option"
  da_manager :: Manager
  da_health :: health
  da_rescans :: rescanLog
  da_forwards :: bool
  da_bench :: "benchmarker option"
  da_reconcile :: "reconcile_daemon option"
  da_engine :: "start_error option"
  da_lowered :: "nat list"

text \<open>
  The machine as the transports see it, None where it cannot be loaded. The exit code is 1 if the engine ends with an error.
\<close>

definition loaded_machine :: "cli_env \<Rightarrow> fsys \<Rightarrow> MachineConfigV2 option" where
  "loaded_machine C f = (case load_machine C f of Inl _ \<Rightarrow> None | Inr m \<Rightarrow> m)"

definition startCmd :: "cli_env \<Rightarrow> start_env \<Rightarrow> fsys \<Rightarrow> daemon_parts \<times> nat" where
  "startCmd C S f =
    (let tracker = startActivityTracker (se_cwd S) (se_add S) (se_tree S) (se_now S) (se_roots S);
         mgr = startTransports (se_available S) (se_probe S) (se_transports S) (loaded_machine C f);
         wh = startWatchHealth (se_statfs S) (se_roots S);
         rescans = rescan_seed (se_roots S) (se_now S) newRescanLog;
         reconcile = startReconcileDaemon C (se_binds S) f (map_option (LastActivity (se_cwd S)) tracker)
           (Some (StatusForReconcile wh)) True (Some (LastRescan rescans)) True;
         e = fst (engine_Start (ce_engine C) (se_calls S))
     in (\<lparr>da_conflicts = startConflictWatcher (se_cwd S) (se_add S) (se_tree S) (se_roots S), da_tracker = tracker, da_manager = mgr,
           da_health = wh, da_rescans = rescans, da_forwards = (tracker \<noteq> None), da_bench = startBenchmarker (Some mgr),
           da_reconcile = reconcile, da_engine = e,
           da_lowered = LowerSelf (se_atoi S) (fst (se_threads S)) (snd (se_threads S))\<rparr>,
         if e = None then 0 else 1))"

section \<open>What the start guarantees\<close>

text \<open>
  Without a key that can be read the applier's client is a nil pointer, not nil: the check for nil does not see it, and the first action
  for Syncthing panics. The command reconcile, which leaves the field alone, reports that there is no client.
\<close>

lemma client_without_key_panics:
  assumes "startReconcileDaemon C binds f activity wh wake rescans prop = Some d" "engine_APIKey (ce_engine C) f = Inl e"
  shows "guarded_call (rd_client d) method unavailable = Panics" "rd_querier d = None" "\<not> rd_presence d"
  using assms by (auto simp: startReconcileDaemon_def key_option_def of_pointer_def guarded_call_def buildObservedProviderFull_def Let_def
      split: if_splits sum.splits option.splits)

text \<open>
  The interval of the loop's ticker and its watched paths. Whatever machine.toml says, the interval is positive (a ticker panics on any other),
  it is the one configured if that one parses and is positive; the daemon is built exactly if machine.toml can be read and decoded.
\<close>

theorem daemon_starts_with_valid_interval:
  "(startReconcileDaemon C binds f activity wh wake rescans prop \<noteq> None \<longleftrightarrow> (\<exists>m. load_machine C f = Inr (Some m))) \<and>
   (case startReconcileDaemon C binds f activity wh wake rescans prop of None \<Rightarrow> True
    | Some d \<Rightarrow> 0 < rd_interval d \<and> (\<exists>m. load_machine C f = Inr (Some m) \<and>
        (case ParseDuration (mc_ReconcileInterval m) of Some t \<Rightarrow> rd_interval d = (if 0 < t then t else 5 * Minute) | None \<Rightarrow> rd_interval d = 5 * Minute)))"
proof -
  have pos: "0 < reconcile_interval m" for m
    by (simp add: reconcile_interval_def Minute_def Second_def Millisecond_def split: option.split)
  have miss: "not_exists f (machine_path C) \<Longrightarrow> load_machine C f = Inr None"
    by (simp add: load_machine_def read_config_def LoadMachineConfigV2_def)
  show ?thesis
    using pos miss by (auto simp: startReconcileDaemon_def Let_def reconcile_interval_def split: sum.splits option.splits if_splits)
qed

section \<open>The watch on a file\<close>

text \<open>
  A change under the watches: a file is replaced by a rename, as WriteFileAtomic and editors do, or written in place. Of fsnotify its
  documentation says: an event is named after a watched path or an entry of a watched directory, watches only go away, and the watch on
  a file does not survive the file's replacement, since it is on the file that was there.
\<close>

datatype fs_change = Replaced string | Touched string

record notifier =
  nt_report :: "string list \<Rightarrow> fs_change \<Rightarrow> fsevent list"
  nt_keep :: "string list \<Rightarrow> fs_change \<Rightarrow> string list"

definition notifier_laws :: "notifier \<Rightarrow> bool" where
  "notifier_laws N \<longleftrightarrow>
    (\<forall>ws c. set (nt_keep N ws c) \<subseteq> set ws) \<and>
    (\<forall>ws p. p \<notin> set (nt_keep N ws (Replaced p))) \<and>
    (\<forall>ws c ev. ev \<in> set (nt_report N ws c) \<longrightarrow>
       ev_Name ev \<in> set ws \<or> (\<exists>w \<in> set ws. \<exists>a. plain_component a \<and> ev_Name ev = path_Join w a))"

text \<open>A change with the directories there are when its events are handled, and what Walk finds.\<close>

type_synonym moment = "fs_change \<times> (string \<Rightarrow> bool) \<times> (string \<Rightarrow> wnode option)"

definition watch_change :: "notifier \<Rightarrow> (string \<Rightarrow> bool) \<Rightarrow> string list \<Rightarrow> moment \<Rightarrow> string list" where
  "watch_change N add ws h =
    (case h of (c, isdir, tree) \<Rightarrow> foldl (\<lambda>ws ev. watch_created add isdir tree ev ws) (nt_keep N ws c) (nt_report N ws c))"

text \<open>The names of the events that reach handleFsnotifyEvent, change by change.\<close>

fun seen_names :: "notifier \<Rightarrow> (string \<Rightarrow> bool) \<Rightarrow> string list \<Rightarrow> moment list \<Rightarrow> string list list" where
  "seen_names N add ws [] = []"
| "seen_names N add ws (h # hs) = map ev_Name (nt_report N ws (fst h)) # seen_names N add (watch_change N add ws h) hs"

fun node_plain :: "wnode \<Rightarrow> bool" and entries_plain :: "(string \<times> wnode) list \<Rightarrow> bool" where
  "node_plain WReg = True"
| "node_plain WOther = True"
| "node_plain (WDir None) = True"
| "node_plain (WDir (Some es)) = entries_plain es"
| "entries_plain [] = True"
| "entries_plain (e # es) = (plain_component (fst e) \<and> node_plain (snd e) \<and> entries_plain es)"

definition names_plain :: "(string \<Rightarrow> wnode option) \<Rightarrow> bool" where
  "names_plain tree \<longleftrightarrow> (\<forall>d n. tree d = Some n \<longrightarrow> node_plain n)"

lemma walk_dirs_below:
  "node_plain n \<Longrightarrow> plain_list cs \<Longrightarrow> x \<in> set (walk_dirs (abs_path cs) n) \<Longrightarrow> \<exists>ds. plain_list ds \<and> x = abs_path (cs @ ds)"
  "entries_plain es \<Longrightarrow> plain_list cs \<Longrightarrow> x \<in> set (walk_dir_entries (abs_path cs) es) \<Longrightarrow> \<exists>ds. plain_list ds \<and> x = abs_path (cs @ ds)"
proof (induction n and es arbitrary: cs x and cs x rule: node_plain_entries_plain.induct)
  case (4 es)
  then show ?case by (auto intro: exI[of _ "[]"])
next
  case (6 e es)
  obtain a n where e: "e = (a, n)" by (cases e)
  have a: "plain_component a" using 6 e by simp
  show ?case
  proof (cases "x \<in> set (walk_dirs (abs_path (cs @ [a])) n)")
    case True
    then obtain ds where "plain_list ds" "x = abs_path ((cs @ [a]) @ ds)" using 6(1)[of "cs @ [a]" x] 6(3,4) e a by auto
    then show ?thesis using a by (intro exI[of _ "a # ds"]) simp
  next
    case False
    then have "x \<in> set (walk_dir_entries (abs_path cs) es)" using 6(5) e a 6(4) by (simp add: path_Join_name)
    then show ?thesis using 6(2)[of cs x] 6(3,4) by simp
  qed
qed auto

text \<open>A watch that is not above a file, nor is one that is added under it.\<close>

definition not_above :: "string list \<Rightarrow> string \<Rightarrow> bool" where
  "not_above p w \<longleftrightarrow> (\<exists>cs. plain_list cs \<and> w = abs_path cs \<and> \<not> strict_prefix cs p)"

lemma added_not_above:
  assumes "not_above p w" "w \<noteq> abs_path p" "names_plain tree" "x \<in> set (addWatchRecursive add tree w)" "plain_list p"
  shows "not_above p x \<and> x \<noteq> abs_path p"
proof -
  obtain cs where cs: "plain_list cs" "w = abs_path cs" "\<not> strict_prefix cs p" "cs \<noteq> p" using assms(1,2) by (auto simp: not_above_def)
  obtain n where n: "tree w = Some n" "node_plain n" "x \<in> set (walk_dirs (abs_path cs) n)"
    using assms(3,4) cs(2) by (cases "tree (abs_path cs)") (auto simp: addWatchRecursive_def names_plain_def)
  obtain ds where ds: "plain_list ds" "x = abs_path (cs @ ds)" using walk_dirs_below(1)[OF n(2) cs(1) n(3)] by blast
  have np: "\<not> prefix cs p" using cs(3,4) by (simp add: strict_prefix_def)
  then have "\<not> prefix (cs @ ds) p" by (metis append_prefixD)
  then have "\<not> strict_prefix (cs @ ds) p" "cs @ ds \<noteq> p" by (auto simp: strict_prefix_def)
  moreover have "abs_path (cs @ ds) \<noteq> abs_path p" using abs_path_inject[of "cs @ ds" p] cs(1) ds(1) assms(5) calculation(2) by simp
  moreover have "plain_list (cs @ ds)" using cs(1) ds(1) by simp
  ultimately show ?thesis unfolding ds(2) not_above_def by blast
qed

lemma event_not_above:
  assumes "notifier_laws N" "\<forall>w \<in> set ws. not_above p w" "plain_list p" "ev \<in> set (nt_report N ws c)"
  shows "not_above p (ev_Name ev) \<and> (abs_path p \<notin> set ws \<longrightarrow> ev_Name ev \<noteq> abs_path p)"
proof -
  consider (watched) "ev_Name ev \<in> set ws" | (entry) w a where "w \<in> set ws" "plain_component a" "ev_Name ev = path_Join w a"
    using assms(1,4) unfolding notifier_laws_def by blast
  then show ?thesis
  proof cases
    case watched
    then show ?thesis using assms(2) by auto
  next
    case entry
    then obtain cs where cs: "plain_list cs" "w = abs_path cs" "\<not> strict_prefix cs p" using assms(2) by (auto simp: not_above_def)
    have n: "ev_Name ev = abs_path (cs @ [a])" using entry cs by (simp add: path_Join_name)
    have pl: "plain_list (cs @ [a])" using cs(1) entry(2) by simp
    have "strict_prefix cs (cs @ [a])" by (simp add: strict_prefix_def)
    then have ne: "cs @ [a] \<noteq> p" "\<not> strict_prefix (cs @ [a]) p"
      using cs(3) by (auto simp: strict_prefix_def dest: append_prefixD)
    have "abs_path (cs @ [a]) \<noteq> abs_path p" using abs_path_inject[OF pl assms(3)] ne(1) by simp
    then show ?thesis unfolding n not_above_def using pl ne(2) by blast
  qed
qed

text \<open>The events of one change, with the watches they add.\<close>

lemma created_frame:
  assumes "plain_list p" "names_plain tree" "\<not> isdir (abs_path p)" "\<forall>ev \<in> set evs. not_above p (ev_Name ev)" "\<forall>w \<in> set ws. not_above p w"
  shows "(\<forall>w \<in> set (foldl (\<lambda>ws ev. watch_created add isdir tree ev ws) ws evs). not_above p w) \<and>
    (abs_path p \<in> set (foldl (\<lambda>ws ev. watch_created add isdir tree ev ws) ws evs) \<longleftrightarrow> abs_path p \<in> set ws)"
  using assms(4,5)
proof (induction evs arbitrary: ws)
  case (Cons ev evs)
  let ?ws = "watch_created add isdir tree ev ws"
  have ev: "not_above p (ev_Name ev)" and evs: "\<forall>ev \<in> set evs. not_above p (ev_Name ev)" using Cons.prems(1) by simp_all
  have new: "not_above p x \<and> x \<noteq> abs_path p" if "isdir (ev_Name ev)" "x \<in> set (addWatchRecursive add tree (ev_Name ev))" for x
  proof -
    have "ev_Name ev \<noteq> abs_path p"
    proof (rule notI)
      assume "ev_Name ev = abs_path p"
      then show False using that(1) assms(3) by (simp only: simp_thms)
    qed
    then show ?thesis by (rule added_not_above[OF ev _ assms(2) that(2) assms(1)])
  qed
  have ws: "(\<forall>w \<in> set ?ws. not_above p w) \<and> (abs_path p \<in> set ?ws \<longleftrightarrow> abs_path p \<in> set ws)"
  proof (cases "ev_Create ev \<and> isdir (ev_Name ev)")
    case True
    then have "?ws = ws @ addWatchRecursive add tree (ev_Name ev)" by (simp add: watch_created_def)
    then show ?thesis using new True Cons.prems(2) by (metis Un_iff set_append)
  next
    case False
    then have "?ws = ws" by (simp only: watch_created_def if_False)
    then show ?thesis using Cons.prems(2) by simp
  qed
  then show ?case using Cons.IH[OF evs conjunct1[OF ws]] by simp
qed simp

definition moment_ok :: "string \<Rightarrow> moment \<Rightarrow> bool" where
  "moment_ok file h = (case h of (c, isdir, tree) \<Rightarrow> \<not> isdir file \<and> names_plain tree)"

lemma watch_change_frame:
  assumes "notifier_laws N" "plain_list p" "moment_ok (abs_path p) h" "\<forall>w \<in> set ws. not_above p w"
  shows "\<forall>w \<in> set (watch_change N add ws h). not_above p w"
    and "abs_path p \<in> set (watch_change N add ws h) \<Longrightarrow> abs_path p \<in> set ws \<and> fst h \<noteq> Replaced (abs_path p)"
proof -
  obtain c isdir tree where h: "h = (c, isdir, tree)" by (cases h)
  have keep: "set (nt_keep N ws c) \<subseteq> set ws" "abs_path p \<notin> set (nt_keep N ws (Replaced (abs_path p)))"
    using assms(1) by (simp_all add: notifier_laws_def)
  have evs: "\<forall>ev \<in> set (nt_report N ws c). not_above p (ev_Name ev)"
    using event_not_above[OF assms(1,4,2)] by blast
  have tree: "names_plain tree" "\<not> isdir (abs_path p)" using assms(3) h by (simp_all add: moment_ok_def)
  have kept: "\<forall>w \<in> set (nt_keep N ws c). not_above p w" using keep(1) assms(4) by auto
  from created_frame[where p = p and tree = tree and isdir = isdir and evs = "nt_report N ws c" and ws = "nt_keep N ws c" and add = add,
      OF assms(2) tree evs kept]
  show "\<forall>w \<in> set (watch_change N add ws h). not_above p w"
    and "abs_path p \<in> set (watch_change N add ws h) \<Longrightarrow> abs_path p \<in> set ws \<and> fst h \<noteq> Replaced (abs_path p)"
    using keep by (auto simp: h watch_change_def)
qed

lemma seen_names_free:
  assumes "notifier_laws N" "plain_list p" "list_all (moment_ok (abs_path p)) hs" "\<forall>w \<in> set ws. not_above p w" "abs_path p \<notin> set ws"
  shows "\<forall>names \<in> set (seen_names N add ws hs). abs_path p \<notin> set names"
  using assms(3-5)
proof (induction hs arbitrary: ws)
  case (Cons h hs)
  have "abs_path p \<notin> ev_Name ` set (nt_report N ws (fst h))"
    using event_not_above[where c = "fst h", OF assms(1) Cons.prems(2) assms(2)] Cons.prems(3) by fastforce
  moreover have h: "moment_ok (abs_path p) h" and hs: "list_all (moment_ok (abs_path p)) hs" using Cons.prems(1) by simp_all
  note frame = watch_change_frame[OF assms(1,2) h Cons.prems(2), of add]
  have "\<forall>names \<in> set (seen_names N add (watch_change N add ws h) hs). abs_path p \<notin> set names"
    by (rule Cons.IH[OF hs frame(1)]) (use frame(2) Cons.prems(3) in blast)
  ultimately show ?case by simp
qed simp

lemma watch_history_frame:
  assumes "notifier_laws N" "plain_list p" "list_all (moment_ok (abs_path p)) hs" "\<forall>w \<in> set ws. not_above p w"
  shows "\<forall>w \<in> set (foldl (watch_change N add) ws hs). not_above p w"
  using assms(3,4)
proof (induction hs arbitrary: ws)
  case (Cons h hs)
  have h: "moment_ok (abs_path p) h" and hs: "list_all (moment_ok (abs_path p)) hs" using Cons.prems(1) by simp_all
  show ?case using Cons.IH[OF hs watch_change_frame(1)[OF assms(1,2) h Cons.prems(2), of add]] by simp
qed simp

lemma start_not_above:
  assumes "plain_list p" "names_plain tree" "list_all (not_above p) paths" "list_all (\<lambda>q. \<exists>x. os_Stat f q = Inr x) paths"
    and "\<exists>t. os_Stat f (abs_path p) = Inr (FileN t)"
  shows "\<forall>w \<in> set (start_watches ok f add tree paths). not_above p w"
proof -
  have "not_above p w" if q: "q \<in> set paths" "w \<in> set (watch_path f add tree q)" for q w
  proof -
    obtain x where x: "os_Stat f q = Inr x" "not_above p q" using assms(3,4) q(1) by (auto simp: list_all_iff)
    show ?thesis
    proof (cases x)
      case DirN
      then have "q \<noteq> abs_path p" using x(1) assms(5) by auto
      then show ?thesis using added_not_above[OF x(2) _ assms(2) _ assms(1)] q(2) x(1) DirN by (simp add: watch_path_def)
    next
      case (FileN t)
      then have "w = q" using q(2) x(1) by (simp add: watch_path_def split: if_splits)
      then show ?thesis using x(2) by simp
    qed
  qed
  then show ?thesis by (auto simp: start_watches_def)
qed

text \<open>
  C28: The daemon notices the first replacement of machine.toml or of state.toml and no later one. For a file that is there when the loop starts the
  watch is on the file; once the file has been replaced, and every writer of the program replaces it, no change of it and none of anything
  else leads to an event with its name, as long as no scan root lies above it. Until the next tick of the interval the edit has no effect,
  and the hints of the activity tracker, which touch machine.toml, are lost.
\<close>

theorem replaced_file_is_not_noticed_again:
  assumes laws: "notifier_laws N" and daemon: "startReconcileDaemon C binds f activity wh wake rescans prop = Some d"
    and pf: "abs_path p = machine_path C \<or> abs_path p = state_path C" "plain_list p"
    and here: "os_Stat f (machine_path C) = Inr (FileN mt)" "os_Stat f (state_path C) = Inr (FileN stt)"
    and roots: "list_all (not_above p) (rd_watchPaths d)" and tree: "names_plain tree"
    and hist: "list_all (moment_ok (abs_path p)) (earlier @ later)" "moment_ok (abs_path p) (Replaced (abs_path p), isdir, tr)"
  shows "\<forall>names \<in> set (seen_names N add
      (foldl (watch_change N add) (start_watches ok f add tree (rd_watchPaths d)) (earlier @ [(Replaced (abs_path p), isdir, tr)])) later).
    abs_path p \<notin> set names"
proof -
  let ?w0 = "start_watches ok f add tree (rd_watchPaths d)"
  let ?w1 = "foldl (watch_change N add) ?w0 earlier"
  let ?w2 = "watch_change N add ?w1 (Replaced (abs_path p), isdir, tr)"
  obtain m where "rd_watchPaths d = scan_root_paths (ce_home C) f m @ [state_path C, machine_path C]"
    using daemon by (auto simp: startReconcileDaemon_def Let_def split: if_splits sum.splits option.splits)
  then have there: "list_all (\<lambda>q. \<exists>x. os_Stat f q = Inr x) (rd_watchPaths d)"
    using here by (auto simp: list_all_iff scan_root_paths_def split: sum.splits)
  have "\<exists>t. os_Stat f (abs_path p) = Inr (FileN t)" using pf(1) here by auto
  then have w0: "\<forall>w \<in> set ?w0. not_above p w" using start_not_above[OF pf(2) tree roots there] by blast
  have w1: "\<forall>w \<in> set ?w1. not_above p w" using watch_history_frame[OF laws pf(2) _ w0, of earlier] hist(1) by simp
  have w2: "\<forall>w \<in> set ?w2. not_above p w" "abs_path p \<notin> set ?w2"
    using watch_change_frame[OF laws pf(2) hist(2) w1, of add] by auto
  show ?thesis using seen_names_free[OF laws pf(2) _ w2, of later add] hist(1) by simp
qed

text \<open>A notifier as the documentation says, and a machine with both files and one scan root that holds a directory.\<close>

definition change_path :: "fs_change \<Rightarrow> string" where
  "change_path c = (case c of Replaced q \<Rightarrow> q | Touched q \<Rightarrow> q)"

definition covers :: "string list \<Rightarrow> string \<Rightarrow> bool" where
  "covers ws q \<longleftrightarrow> q \<in> set ws \<or> list_ex (\<lambda>w. plain_component (path_Base q) \<and> path_Join w (path_Base q) = q) ws"

definition demo_notifier :: notifier where
  "demo_notifier =
    \<lparr>nt_report = (\<lambda>ws c. if covers ws (change_path c) then [\<lparr>ev_Name = change_path c, ev_Create = False, ev_Write = True, ev_Remove = False\<rparr>] else []),
     nt_keep = (\<lambda>ws c. case c of Replaced q \<Rightarrow> filter (\<lambda>w. w \<noteq> q) ws | Touched _ \<Rightarrow> ws)\<rparr>"

lemma demo_notifier_laws: "notifier_laws demo_notifier"
  by (auto simp: notifier_laws_def demo_notifier_def covers_def list_ex_iff change_path_def split: fs_change.splits if_splits) metis+

definition demo_daemon_fs :: fsys where
  "demo_daemon_fs = set_node ''/home/u/.local/state/dotkeeper/state.toml'' (Some (FileN ''''))
    (set_node ''/home/u/Documents/GitHub'' (Some DirN) (demo_machine_fs ''mine''))"

definition demo_walk :: "string \<Rightarrow> wnode option" where
  "demo_walk = [''/home/u/Documents/GitHub'' \<mapsto> WDir (Some [(''r'', WDir (Some []))])]"

lemma demo_daemon:
  obtains d where "startReconcileDaemon demo_cli (\<lambda>_. True) demo_daemon_fs None None True None True = Some d"
    "rd_watchPaths d = [''/home/u/Documents/GitHub'', ''/home/u/.local/state/dotkeeper/state.toml'', ''/home/u/.config/dotkeeper/machine.toml'']"
proof -
  let ?m = "applyMachineV2Defaults (init_machine ''old'' 3)"
  have st: "os_Stat demo_daemon_fs (machine_path demo_cli) = Inr (FileN ''mine'')" "os_Stat demo_daemon_fs ''/home/u/Documents/GitHub'' = Inr DirN"
    unfolding demo_paths by (simp_all add: os_Stat_def demo_daemon_fs_def demo_machine_fs_def set_node_def)
  have lm: "load_machine demo_cli demo_daemon_fs = Inr (Some ?m)"
    using st(1) by (simp add: load_machine_def read_config_def not_exists_def os_ReadFile_def LoadMachineConfigV2_def demo_cli_def)
  have ex: "map (ExpandPath (ce_home demo_cli)) (dc_ScanRoots (mc_Discovery ?m)) = [''/home/u/Documents/GitHub'']" by code_simp
  have ne: "\<not> not_exists demo_daemon_fs (machine_path demo_cli)" using st(1) by (simp add: not_exists_def)
  have "scan_root_paths (ce_home demo_cli) demo_daemon_fs ?m = [''/home/u/Documents/GitHub'']"
    unfolding scan_root_paths_def ex by (simp add: st(2))
  then show ?thesis
    using that ne lm unfolding startReconcileDaemon_def by (simp add: Let_def demo_paths)
qed

theorem replaced_file_is_not_noticed_again_witness:
  "seen_names demo_notifier (\<lambda>_. True) (start_watches True demo_daemon_fs (\<lambda>_. True) demo_walk
      [''/home/u/Documents/GitHub'', ''/home/u/.local/state/dotkeeper/state.toml'', ''/home/u/.config/dotkeeper/machine.toml''])
      [(Replaced ''/home/u/.local/state/dotkeeper/state.toml'', \<lambda>_. False, demo_walk)] = [[''/home/u/.local/state/dotkeeper/state.toml'']] \<and>
   ''/home/u/.local/state/dotkeeper/state.toml'' \<notin> set (concat (seen_names demo_notifier (\<lambda>_. True)
      (foldl (watch_change demo_notifier (\<lambda>_. True)) (start_watches True demo_daemon_fs (\<lambda>_. True) demo_walk
        [''/home/u/Documents/GitHub'', ''/home/u/.local/state/dotkeeper/state.toml'', ''/home/u/.config/dotkeeper/machine.toml''])
        ([] @ [(Replaced ''/home/u/.local/state/dotkeeper/state.toml'', \<lambda>_. False, demo_walk)]))
      [(Replaced ''/home/u/.local/state/dotkeeper/state.toml'', \<lambda>_. False, demo_walk)]))"
proof -
  let ?p = "[''home'', ''u'', ''.local'', ''state'', ''dotkeeper'', ''state.toml'']"
  let ?s = "''/home/u/.local/state/dotkeeper/state.toml''"
  let ?paths = "[''/home/u/Documents/GitHub'', ?s, ''/home/u/.config/dotkeeper/machine.toml'']"
  obtain d where d: "startReconcileDaemon demo_cli (\<lambda>_. True) demo_daemon_fs None None True None True = Some d" "rd_watchPaths d = ?paths"
    by (rule demo_daemon)
  have p: "abs_path ?p = ?s" "plain_list ?p" by code_simp+
  have pf: "abs_path ?p = machine_path demo_cli \<or> abs_path ?p = state_path demo_cli" by (simp only: p(1) demo_paths) simp
  have files: "os_Stat demo_daemon_fs (machine_path demo_cli) = Inr (FileN ''mine'')" "os_Stat demo_daemon_fs (state_path demo_cli) = Inr (FileN '''')"
    unfolding demo_paths by (simp_all add: os_Stat_def demo_daemon_fs_def demo_machine_fs_def set_node_def)
  have na: "not_above ?p (abs_path cs)" if "plain_list cs" "\<not> strict_prefix cs ?p" for cs using that by (auto simp: not_above_def)
  have "abs_path [''home'', ''u'', ''Documents'', ''GitHub''] = ''/home/u/Documents/GitHub''" "plain_list [''home'', ''u'', ''Documents'', ''GitHub'']"
    "abs_path [''home'', ''u'', ''.config'', ''dotkeeper'', ''machine.toml''] = ''/home/u/.config/dotkeeper/machine.toml''"
    "plain_list [''home'', ''u'', ''.config'', ''dotkeeper'', ''machine.toml'']" by code_simp+
  then have roots: "list_all (not_above ?p) (rd_watchPaths d)"
    using na[of "[''home'', ''u'', ''Documents'', ''GitHub'']"] na[of "[''home'', ''u'', ''.config'', ''dotkeeper'', ''machine.toml'']"] na[of ?p] p d(2)
    by (simp add: strict_prefix_def)
  have walk: "names_plain demo_walk" by (auto simp: names_plain_def demo_walk_def plain_component_def slash_def split: if_splits)
  have m: "moment_ok (abs_path ?p) (Replaced (abs_path ?p), \<lambda>_. False, demo_walk)" using walk by (simp add: moment_ok_def)
  have ms: "list_all (moment_ok (abs_path ?p)) ([] @ [(Replaced (abs_path ?p), \<lambda>_. False, demo_walk)])" using m by simp
  have w: "start_watches True demo_daemon_fs (\<lambda>_. True) demo_walk ?paths =
      [''/home/u/Documents/GitHub'', ''/home/u/Documents/GitHub/r'', ?s, ''/home/u/.config/dotkeeper/machine.toml'']"
  proof -
    have "watch_path demo_daemon_fs (\<lambda>_. True) demo_walk ''/home/u/Documents/GitHub'' = [''/home/u/Documents/GitHub'', ''/home/u/Documents/GitHub/r'']"
    proof -
      have "path_Join ''/home/u/Documents/GitHub'' ''r'' = ''/home/u/Documents/GitHub/r''" by code_simp
      then show ?thesis
        by (simp add: watch_path_def addWatchRecursive_def demo_walk_def os_Stat_def demo_daemon_fs_def demo_machine_fs_def set_node_def)
    qed
    then show ?thesis using files unfolding demo_paths by (simp add: start_watches_def watch_path_def)
  qed
  have first: "seen_names demo_notifier (\<lambda>_. True) (start_watches True demo_daemon_fs (\<lambda>_. True) demo_walk ?paths)
      [(Replaced ?s, \<lambda>_. False, demo_walk)] = [[?s]]"
    unfolding w by (simp add: demo_notifier_def covers_def change_path_def)
  show ?thesis
    using first replaced_file_is_not_noticed_again[where add = "\<lambda>_. True" and ok = True,
        OF demo_notifier_laws d(1) pf p(2) files roots walk ms m]
    unfolding p(1) d(2) set_concat by blast
qed

text \<open>
  A file that is missing when the daemon starts is better off: its directory is watched, and every replacement is reported, the first
  that makes it included, if fsnotify reports the entries of watched directories and keeps the watch on a directory that itself does not change.
\<close>

definition reports_entries :: "notifier \<Rightarrow> bool" where
  "reports_entries N \<longleftrightarrow>
    (\<forall>ws d a. d \<in> set ws \<longrightarrow> plain_component a \<longrightarrow> (\<exists>ev \<in> set (nt_report N ws (Replaced (path_Join d a))). ev_Name ev = path_Join d a)) \<and>
    (\<forall>ws c d. d \<in> set ws \<longrightarrow> change_path c \<noteq> d \<longrightarrow> d \<in> set (nt_keep N ws c))"

lemma watch_kept:
  assumes "reports_entries N" "list_all (\<lambda>h. change_path (fst h) \<noteq> dir) hs" "dir \<in> set ws"
  shows "dir \<in> set (foldl (watch_change N add) ws hs)"
  using assms(2,3)
proof (induction hs arbitrary: ws)
  case (Cons h hs)
  obtain c isdir tree where h: "h = (c, isdir, tree)" by (cases h)
  have more: "x \<in> set ws \<Longrightarrow> x \<in> set (foldl (\<lambda>ws ev. watch_created add isdir tree ev ws) ws evs)" for x ws evs
    by (induction evs arbitrary: ws) (auto simp: watch_created_def)
  have "dir \<in> set (nt_keep N ws c)" using assms(1) Cons.prems h by (simp add: reports_entries_def)
  then show ?case using Cons h more by (simp add: watch_change_def)
qed simp

lemma missing_file_is_noticed_every_time:
  assumes "reports_entries N" "startReconcileDaemon C binds f activity wh wake rescans prop = Some d"
    and "abs_path (ds @ [a]) = state_path C" "plain_list (ds @ [a])"
    and "os_Stat f (state_path C) = Inl e" "os_Stat f (abs_path ds) = Inr x" "add (abs_path ds)"
    and "list_all (\<lambda>h. change_path (fst h) \<noteq> abs_path ds) earlier"
  shows "\<exists>names. seen_names N add (foldl (watch_change N add) (start_watches True f add tree (rd_watchPaths d)) earlier)
      [(Replaced (state_path C), isdir, tr)] = [names] \<and> state_path C \<in> set names"
proof -
  have a: "plain_list ds" "plain_component a" using assms(4) by simp_all
  obtain m where "rd_watchPaths d = scan_root_paths (ce_home C) f m @ [state_path C, machine_path C]"
    using assms(2) by (auto simp: startReconcileDaemon_def Let_def split: if_splits sum.splits option.splits)
  moreover have "watch_path f add tree (state_path C) = [abs_path ds]"
    using assms(5-7) path_Dir_abs[OF a] by (simp add: watch_path_def assms(3))
  ultimately have "abs_path ds \<in> set (start_watches True f add tree (rd_watchPaths d))" by (simp add: start_watches_def)
  then have w: "abs_path ds \<in> set (foldl (watch_change N add) (start_watches True f add tree (rd_watchPaths d)) earlier)"
    by (rule watch_kept[OF assms(1,8)])
  have "path_Join (abs_path ds) a = state_path C" using path_Join_name[OF a] assms(3) by simp
  then show ?thesis using assms(1) w a(2) by (force simp: reports_entries_def)
qed

end
