(* ===== verification/Doctor_Text.thy ===== *)
theory Doctor_Text
  imports Machine_Init Propagate
begin

text \<open>
  The checks of doctor with what they print (internal/doctor/checks.go), and the list of them (buildDoctorChecks of
  cmd/dotkeeper/main.go). The theory Doctor has the outcomes alone; the main result says that they are those of the results here.
  An error comes with its text.
\<close>

section \<open>Results\<close>

definition res :: "string \<Rightarrow> outcome \<Rightarrow> string \<Rightarrow> string \<Rightarrow> check_result" where
  "res name oc detail hint = \<lparr>cr_Name = name, cr_Outcome = oc, cr_Detail = detail, cr_Hint = hint\<rparr>"

lemma res_outcome [simp]: "cr_Outcome (res name oc detail hint) = oc" "cr_Name (res name oc detail hint) = name"
  by (simp_all add: res_def)

text \<open>What the abstract checks see of a value that comes with the text of its error.\<close>

definition plain :: "string + 'a \<Rightarrow> unit + 'a" where
  "plain r = (case r of Inl _ \<Rightarrow> Inl () | Inr x \<Rightarrow> Inr x)"

lemma plain_simps [simp]: "plain (Inl e) = Inl ()" "plain (Inr x) = Inr x"
  by (simp_all add: plain_def)

definition comma :: "string list \<Rightarrow> string" where "comma xs = str_Join xs '', ''"

section \<open>Version, configuration, service\<close>

definition VersionCheck_result :: "string \<Rightarrow> string \<Rightarrow> string \<Rightarrow> string \<Rightarrow> check_result" where
  "VersionCheck_result version commit os arch =
    res ''version'' OK (''dotkeeper '' @ version @ '' ('' @ commit @ '') on '' @ os @ ''/'' @ arch) ''''"

definition ConfigCheck_result ::
    "string \<Rightarrow> string \<Rightarrow> string + MachineConfigV2 option \<Rightarrow> string + StateV2 option \<Rightarrow> check_result" where
  "ConfigCheck_result machinePath statePath machine state =
    (case machine of
       Inl e \<Rightarrow> res ''config'' Fail (''machine.toml: '' @ e) (''edit or restore '' @ machinePath @ '' '' @ em_dash @
         '' machine.toml is user-authored; do not delete (you would lose declared peers and scan roots)'')
     | Inr None \<Rightarrow> res ''config'' Fail ''machine.toml missing'' (''run 'dotkeeper init'' @ [single_quote])
     | Inr (Some m) \<Rightarrow>
       (case state of
          Inl e \<Rightarrow> res ''config'' Fail (''state.toml: '' @ e) (''state.toml is tool-owned '' @ em_dash @ '' back it up (cp '' @ statePath @
            '' /tmp/state.toml.bak) then remove and run 'dotkeeper init' to regenerate'')
        | Inr None \<Rightarrow> res ''config'' Fail ''state.toml missing'' ''run 'dotkeeper init' to generate Syncthing identity''
        | Inr (Some s) \<Rightarrow>
          if st_SyncthingDeviceID s = '''' then
            res ''config'' Fail ''state.toml present but Syncthing device ID is empty'' ''run 'dotkeeper init' to generate Syncthing identity''
          else if dc_ScanRoots (mc_Discovery m) = [] then
            res ''config'' Warn (''machine '' @ go_quote (mc_Name m) @ '' (slot '' @ nat_digits (mc_Slot m) @ '') has no scan roots configured'')
              (''add scan roots to machine.toml's [discovery] section, or use 'dotkeeper track <path>'' @ [single_quote])
          else
            res ''config'' OK (''machine '' @ go_quote (mc_Name m) @ '' (slot '' @ nat_digits (mc_Slot m) @ ''), '' @
              nat_digits (length (dc_ScanRoots (mc_Discovery m))) @ '' scan root(s), '' @
              nat_digits (length (mergedPeerEntries (Some m) (Some s))) @ '' peer(s)'') ''''))"

text \<open>\<open>fmt\<close> is Format of a time with the layout 2006-01-02 15:04:05.\<close>

definition syncthing_status_result :: "(gotime \<Rightarrow> string) \<Rightarrow> string \<Rightarrow> SyncthingUnitStatus \<Rightarrow> check_result" where
  "syncthing_status_result fmt backend st =
    (let a = us_Active st; unit = ''dotkeeper-syncthing.service'' in
     if a = ''active'' then res ''service'' OK (unit @ '' active ('' @ us_Sub st @
         (if IsZero (us_Since st) then '')'' else '' since '' @ fmt (us_Since st) @ '')'')) ''''
     else if a = ''failed'' then res ''service'' Fail (unit @ '' failed'') ''check logs: journalctl --user -u dotkeeper-syncthing.service''
     else if a = ''inactive'' \<or> a = ''deactivating'' then
       res ''service'' Warn (unit @ '' inactive'') ''start it: systemctl --user start dotkeeper-syncthing.service''
     else if a = ''activating'' then res ''service'' Warn (unit @ '' starting'' @ ellipsis) ''''
     else if a = '''' then res ''service'' Warn (''dotkeeper-syncthing unit status unknown ('' @ backend @ '' backend)'') ''''
     else res ''service'' Warn (unit @ '' '' @ a) '''')"

definition ServiceCheck_result ::
    "(gotime \<Rightarrow> string) \<Rightarrow> (string \<Rightarrow> gotime option) \<Rightarrow> 'w host \<Rightarrow> manager option \<Rightarrow> 'w sstate \<Rightarrow> check_result" where
  "ServiceCheck_result fmt parse h mgr s =
    (case mgr of
       None \<Rightarrow> res ''service'' Warn ''no service manager available (manual mode)'' ''''
     | Some m \<Rightarrow>
       if m = Systemd then syncthing_status_result fmt (manager_Name m) (fst (SyncthingStatus parse h s))
       else if fst (IsSyncthingRunning h m s) then res ''service'' OK (''dotkeeper-syncthing running ('' @ manager_Name m @ '')'') ''''
       else res ''service'' Warn (''dotkeeper-syncthing not running ('' @ manager_Name m @ '')'')
              ''start it with 'dotkeeper start' or your platform's service command'')"

section \<open>The checks that ask Syncthing\<close>

record text_client =
  tc_Ping :: "string option"
  tc_Status :: "string + string"
  tc_Connections :: "string + (string \<times> bool) list"
  tc_Config :: "string + jobj"
  tc_FolderStatus :: "string \<Rightarrow> string + string"

definition plain_client :: "text_client \<Rightarrow> doctor_client" where
  "plain_client c = \<lparr>do_Ping = (tc_Ping c = None), do_Status = plain (tc_Status c), do_Connections = plain (tc_Connections c),
     do_Config = plain (tc_Config c), do_FolderStatus = (\<lambda>i. plain (tc_FolderStatus c i))\<rparr>"

definition SyncthingAPICheck_result :: "text_client option \<Rightarrow> check_result" where
  "SyncthingAPICheck_result client =
    (case client of
       None \<Rightarrow> res ''syncthing API'' Fail ''client not available'' (''dotkeeper not initialised '' @ em_dash @ '' run 'dotkeeper init'' @ [single_quote])
     | Some c \<Rightarrow>
       (case tc_Ping c of
          Some e \<Rightarrow> res ''syncthing API'' Fail (GUIAddress @ '' unreachable ('' @ e @ '')'') ''is dotkeeper-syncthing.service running?''
        | None \<Rightarrow> res ''syncthing API'' OK (''reachable at '' @ GUIAddress) ''''))"

definition peers_result :: "PeerEntry list \<Rightarrow> (string \<times> bool) list \<Rightarrow> check_result" where
  "peers_result expected conns =
    (let connected = map pe_Name (filter (\<lambda>p. map_of conns (pe_DeviceID p) = Some True) expected);
         offline = map pe_Name (filter (\<lambda>p. map_of conns (pe_DeviceID p) \<noteq> Some True) expected);
         count = nat_digits (length connected) @ ''/'' @ nat_digits (length expected)
     in if expected = [] then res ''peers'' OK ''no peers configured (single-machine setup)'' ''''
        else if offline = [] then res ''peers'' OK (count @ '' connected ('' @ comma connected @ '')'') ''''
        else res ''peers'' Warn (count @ '' connected, offline: '' @ comma offline) ''peers may be legitimately offline; verify on the peer machine'')"

definition PeersCheck_result ::
    "text_client option \<Rightarrow> (string + MachineConfigV2 option) option \<Rightarrow> string + StateV2 option \<Rightarrow> check_result" where
  "PeersCheck_result client machine state =
    (case client of None \<Rightarrow> res ''peers'' Fail ''client not available'' ''''
     | Some c \<Rightarrow>
       (case (case machine of None \<Rightarrow> Inr None | Some r \<Rightarrow> r) of
          Inl _ \<Rightarrow> res ''peers'' Warn ''machine.toml unavailable; cannot list expected peers'' ''''
        | Inr m \<Rightarrow>
          (case state of
             Inl _ \<Rightarrow> res ''peers'' Warn ''state.toml unavailable; cannot list expected peers'' ''''
           | Inr s \<Rightarrow>
             if m = None \<and> s = None then res ''peers'' Warn ''machine.toml/state.toml unavailable; cannot list expected peers'' ''''
             else (case tc_Status c of
                Inl e \<Rightarrow> res ''peers'' Fail (''cannot read system status: '' @ e) ''''
              | Inr myID \<Rightarrow>
                (case tc_Connections c of
                   Inl e \<Rightarrow> res ''peers'' Fail (''cannot read connections: '' @ e) ''''
                 | Inr conns \<Rightarrow>
                   peers_result (filter (\<lambda>p. pe_DeviceID p \<noteq> '''' \<and> pe_DeviceID p \<noteq> myID) (mergedPeerEntries m s)) conns)))))"

definition folder_detail :: "text_client \<Rightarrow> string \<Rightarrow> string option" where
  "folder_detail c i =
    (case tc_FolderStatus c i of
       Inl _ \<Rightarrow> Some (i @ '' (API error)'')
     | Inr s \<Rightarrow> if s = ''error'' then Some i else if s = ''stopped'' then Some (i @ '' (stopped)'') else None)"

definition folders_result :: "text_client \<Rightarrow> json list \<Rightarrow> check_result" where
  "folders_result c raw =
    (let ids = filter (\<lambda>i. i \<noteq> '''') (map (\<lambda>f. as_str (jget (as_obj f) ''id'')) raw);
         ks = map (\<lambda>i. classify_folder (plain (tc_FolderStatus c i))) ids;
         bad = class_count FErrored ks + class_count FStopped ks;
         detail = nat_digits (class_count FIdle ks) @ '' idle, '' @ nat_digits (class_count FSyncing ks) @ '' syncing, '' @
           nat_digits (class_count FScanning ks) @ '' scanning, '' @ nat_digits bad @ '' errors''
     in if bad > 0 then res ''folders'' Fail (detail @ '' '' @ em_dash @ '' '' @ comma (List.map_filter (folder_detail c) ids))
          ''check Syncthing web UI or journalctl for folder errors''
        else if class_count FSyncing ks + class_count FScanning ks > 0 then res ''folders'' Warn detail ''''
        else res ''folders'' OK detail '''')"

definition FoldersCheck_result :: "text_client option \<Rightarrow> check_result" where
  "FoldersCheck_result client =
    (case client of None \<Rightarrow> res ''folders'' Fail ''client not available'' ''''
     | Some c \<Rightarrow>
       (case tc_Config c of Inl e \<Rightarrow> res ''folders'' Fail (''cannot read folders: '' @ e) ''''
        | Inr cfg \<Rightarrow>
          let raw = as_arr (jget cfg ''folders'') in
          if raw = [] then res ''folders'' Warn ''no folders configured'' '''' else folders_result c raw))"

section \<open>The checks that ask git and the file system\<close>

text \<open>The results of the goroutines in the order in which they arrive; a missing path is classified by the text of its error as any other failure.\<close>

definition as_failure :: "string \<Rightarrow> remote_result \<Rightarrow> remote_result" where
  "as_failure p r = (case r of PathMissing \<Rightarrow> RemoteFailed '''' (''path missing: '' @ p) False | _ \<Rightarrow> r)"

definition remote_detail :: "string \<times> remote_result \<Rightarrow> string option" where
  "remote_detail pr =
    (case pr of (p, r) \<Rightarrow>
     case classify_remote (as_failure p r) of
       Reachable \<Rightarrow> None | TimedOut \<Rightarrow> Some (path_Base p @ '' (timeout)'') | AuthFailed \<Rightarrow> Some (path_Base p @ '' (auth)'')
     | DnsFailed \<Rightarrow> Some (path_Base p @ '' (dns)'') | OtherFailed \<Rightarrow> Some (path_Base p))"

definition GitRemotesCheck_result :: "string + StateV2 option \<Rightarrow> (string \<times> remote_result) list \<Rightarrow> check_result" where
  "GitRemotesCheck_result state arrivals =
    (case state of
       Inl _ \<Rightarrow> res ''git remotes'' Warn ''state.toml unavailable'' ''''
     | Inr None \<Rightarrow> res ''git remotes'' Warn ''state.toml unavailable'' ''''
     | Inr (Some s) \<Rightarrow>
       if git_remote_paths s = [] then res ''git remotes'' OK ''no observed repos'' ''''
       else let ks = map (\<lambda>(p, r). classify_remote (as_failure p r)) arrivals;
                n = (\<lambda>k. length (filter (\<lambda>x. x = k) ks));
                failed = n AuthFailed + n DnsFailed + n OtherFailed;
                detail = nat_digits (n Reachable) @ '' reachable, '' @ nat_digits (n TimedOut) @ '' timeout, '' @ nat_digits failed @ '' failed'';
                why = '' '' @ em_dash @ '' '' @ comma (List.map_filter remote_detail arrivals)
            in if failed > 0 then res ''git remotes'' Fail (detail @ why) ''check SSH keys / network / remote URL for the failing repo(s)''
               else if n TimedOut > 0 then res ''git remotes'' Warn (detail @ why) ''timeouts may indicate a network flake; try again later''
               else res ''git remotes'' OK (nat_digits (n Reachable) @ '' reachable'') '''')"

text \<open>The folders with tracked metadata and the files, those that could not be inspected, and the number inspected.\<close>

fun inspect_details :: "'w git \<Rightarrow> string list \<Rightarrow> 'w \<Rightarrow> ((string \<times> string list) list \<times> string list \<times> nat) \<times> 'w" where
  "inspect_details git [] w = (([], [], 0), w)"
| "inspect_details git (r # roots) w =
    (if r = '''' then inspect_details git roots w
     else case isGitRepo git r w of (repo, w1) \<Rightarrow>
       if \<not> repo then inspect_details git roots w1
       else case listTrackedMetadata git r DefaultGitExcludePatterns w1 of (tracked, w2) \<Rightarrow>
            case inspect_details git roots w2 of ((bad, errs, n), w3) \<Rightarrow>
              ((case tracked of Inl _ \<Rightarrow> (bad, path_Base r # errs, Suc n)
                | Inr ts \<Rightarrow> (if ts \<noteq> [] then (path_Base r, ts) # bad else bad, errs, Suc n)), w3))"

definition LocalMetadataCheck_result :: "'w git \<Rightarrow> string list \<Rightarrow> 'w \<Rightarrow> check_result \<times> 'w" where
  "LocalMetadataCheck_result git roots w =
    (case inspect_details git roots w of ((bad, errs, n), w') \<Rightarrow>
      (if bad \<noteq> [] then res ''local metadata'' Fail (''tracked local metadata in '' @ nat_digits (length bad) @ '' repo(s): '' @
           str_Join (map (\<lambda>(b, ts). b @ '': '' @ comma ts) bad) ''; '')
           (''remove these files from git, then run 'dotkeeper track <path>' or 'dotkeeper reconcile'' @ [single_quote])
       else if errs \<noteq> [] then res ''local metadata'' Warn (''could not inspect: '' @ comma errs) ''''
       else if n = 0 then res ''local metadata'' OK ''no git repos to inspect'' ''''
       else res ''local metadata'' OK (nat_digits n @ '' repo(s) clean'') '''', w'))"

definition ConflictsCheck_result :: "string list \<Rightarrow> (string \<Rightarrow> ioerr + Conflict list) \<Rightarrow> check_result" where
  "ConflictsCheck_result roots scan =
    (let total = sum_list (map (\<lambda>r. case scan r of Inl _ \<Rightarrow> 0 | Inr cs \<Rightarrow> length cs) roots)
     in if total = 0 then res ''conflicts'' OK ''0 pending'' ''''
        else res ''conflicts'' Warn (nat_digits total @ '' pending'') ''run 'dotkeeper conflict list' to inspect'')"

section \<open>The list of checks\<close>

text \<open>
  What the checks find: the loaders, the service manager, the client if the API key can be read, git, the managed folders. The
  checks are built with the loaders of internal/config and without a time-out of their own.
\<close>

record 'w doctor_env =
  de_version :: string
  de_commit :: string
  de_os :: string
  de_arch :: string
  de_machinePath :: string
  de_statePath :: string
  de_machine :: "string + MachineConfigV2 option"
  de_state :: "string + StateV2 option"
  de_host :: "'w host"
  de_manager :: "manager option"
  de_service :: "'w sstate"
  de_fmt :: "gotime \<Rightarrow> string"
  de_parse :: "string \<Rightarrow> gotime option"
  de_client :: "text_client option"
  de_remotes :: "(string \<times> remote_result) list"
  de_git :: "'w git"
  de_world :: 'w
  de_roots :: "string list"
  de_scan :: "string \<Rightarrow> ioerr + Conflict list"

definition buildDoctorChecks :: "'w doctor_env \<Rightarrow> (string \<times> check_result) list" where
  "buildDoctorChecks D =
    [(''version'', VersionCheck_result (de_version D) (de_commit D) (de_os D) (de_arch D)),
     (''config'', ConfigCheck_result (de_machinePath D) (de_statePath D) (de_machine D) (de_state D)),
     (''service'', ServiceCheck_result (de_fmt D) (de_parse D) (de_host D) (de_manager D) (de_service D)),
     (''syncthing API'', SyncthingAPICheck_result (de_client D)),
     (''peers'', PeersCheck_result (de_client D) (Some (de_machine D)) (de_state D)),
     (''folders'', FoldersCheck_result (de_client D)),
     (''git remotes'', GitRemotesCheck_result (de_state D) (de_remotes D)),
     (''local metadata'', fst (LocalMetadataCheck_result (de_git D) (de_roots D) (de_world D))),
     (''conflicts'', ConflictsCheck_result (de_roots D) (de_scan D))]"

section \<open>The outcomes\<close>

lemma ConfigCheck_outcome: "cr_Outcome (ConfigCheck_result mp sp m s) = ConfigCheck_Run (plain m) (plain s)"
  by (auto simp: ConfigCheck_result_def ConfigCheck_Run_def plain_def split: sum.split option.split)

lemma syncthing_status_outcome: "cr_Outcome (syncthing_status_result fmt b st) = interpretSyncthingStatus (us_Active st)"
  by (simp add: syncthing_status_result_def interpretSyncthingStatus_def Let_def)

lemma ServiceCheck_outcome: "cr_Outcome (ServiceCheck_result fmt parse h m s) = ServiceCheck_Run (service_view parse h m s)"
proof (cases m)
  case (Some k)
  then show ?thesis
    by (cases k) (simp_all add: ServiceCheck_result_def ServiceCheck_Run_def service_view_def syncthing_status_outcome)
qed (simp add: ServiceCheck_result_def ServiceCheck_Run_def service_view_def)

lemma SyncthingAPICheck_outcome: "cr_Outcome (SyncthingAPICheck_result c) = SyncthingAPICheck_Run (map_option plain_client c)"
  by (auto simp: SyncthingAPICheck_result_def SyncthingAPICheck_Run_def plain_client_def split: option.split)

lemma PeersCheck_outcome:
  "cr_Outcome (PeersCheck_result c m s) = fst (PeersCheck_Run (map_option plain_client c) (map_option plain m) (plain s))"
  by (auto simp: PeersCheck_result_def PeersCheck_Run_def plain_client_def plain_def peers_result_def Let_def
      split: option.split sum.split)

lemma FoldersCheck_outcome: "cr_Outcome (FoldersCheck_result c) = FoldersCheck_Run (map_option plain_client c)"
proof (cases c)
  case (Some cl)
  show ?thesis
  proof (cases "tc_Config cl")
    case (Inr cfg)
    then show ?thesis using Some
      by (simp add: FoldersCheck_result_def FoldersCheck_Run_def folders_result_def Let_def folder_classes_def plain_client_def)
  qed (use Some in \<open>simp add: FoldersCheck_result_def FoldersCheck_Run_def plain_client_def\<close>)
qed (simp add: FoldersCheck_result_def FoldersCheck_Run_def)

lemma count_zero: "length (filter (\<lambda>x. x = k) ks) = 0 \<longleftrightarrow> k \<notin> set ks"
  by (auto simp: filter_empty_conv)

lemma as_failure_class:
  "classify_remote r = Reachable \<longleftrightarrow> classify_remote (as_failure p r) = Reachable"
  "classify_remote r = TimedOut \<longleftrightarrow> classify_remote (as_failure p r) = TimedOut"
  by (auto simp: as_failure_def classify_remote_def Let_def split: remote_result.split if_splits)

lemma image_agree: "(\<And>p. Q (g p) \<longleftrightarrow> Q (h p)) \<Longrightarrow> (\<exists>k \<in> g ` A. Q k) \<longleftrightarrow> (\<exists>k \<in> h ` A. Q k)"
  by auto

text \<open>Whatever the order in which the goroutines end.\<close>

lemma GitRemotesCheck_outcome:
  assumes "\<And>s. st = Inr (Some s) \<Longrightarrow> mset arrivals = mset (map (\<lambda>p. (p, lsRemote p)) (git_remote_paths s))"
  shows "cr_Outcome (GitRemotesCheck_result st arrivals) = GitRemotesCheck_Run (plain st) lsRemote"
proof -
  have "cr_Outcome (GitRemotesCheck_result (Inr (Some s)) arrivals) = GitRemotesCheck_Run (Inr (Some s)) lsRemote"
    if s: "st = Inr (Some s)" for s
  proof -
    let ?ks = "map (\<lambda>(p, r). classify_remote (as_failure p r)) arrivals"
    let ?ls = "map (\<lambda>p. classify_remote (lsRemote p)) (git_remote_paths s)"
    have set_eq: "set arrivals = (\<lambda>p. (p, lsRemote p)) ` set (git_remote_paths s)"
      using assms[OF s] by (metis set_map set_mset_mset)
    have ks: "set ?ks = (\<lambda>p. classify_remote (as_failure p (lsRemote p))) ` set (git_remote_paths s)"
      by (simp add: set_eq image_image)
    have t: "(\<exists>k \<in> set ?ks. k = TimedOut) \<longleftrightarrow> (\<exists>k \<in> set ?ls. k = TimedOut)"
      unfolding ks unfolding set_map by (rule image_agree) (rule as_failure_class(2)[symmetric])
    have bad: "(\<exists>k \<in> set ?ks. k \<noteq> Reachable \<and> k \<noteq> TimedOut) \<longleftrightarrow> (\<exists>k \<in> set ?ls. k \<noteq> Reachable \<and> k \<noteq> TimedOut)"
      unfolding ks unfolding set_map by (rule image_agree) (simp add: as_failure_class[symmetric])
    define n where "n k = length (filter (\<lambda>x. x = k) ?ks)" for k
    have n0: "0 < n k \<longleftrightarrow> k \<in> set ?ks" for k unfolding n_def using count_zero[of k ?ks] by linarith
    have cls: "k \<in> set [AuthFailed, DnsFailed, OtherFailed] \<longleftrightarrow> k \<noteq> Reachable \<and> k \<noteq> TimedOut" for k by (cases k) auto
    have "0 < n AuthFailed + n DnsFailed + n OtherFailed \<longleftrightarrow> (\<exists>k \<in> set ?ks. k \<in> set [AuthFailed, DnsFailed, OtherFailed])"
    proof -
      have three: "(\<exists>k \<in> S. k \<in> set [a, b, c]) \<longleftrightarrow> a \<in> S \<or> b \<in> S \<or> c \<in> S" for a b c and S :: "remote_class set" by auto
      show ?thesis unfolding three n0[symmetric] by linarith
    qed
    moreover have "(\<exists>k \<in> set ?ks. k \<in> set [AuthFailed, DnsFailed, OtherFailed]) \<longleftrightarrow> (\<exists>k \<in> set ?ls. k \<in> set [AuthFailed, DnsFailed, OtherFailed])"
      by (simp only: cls bad)
    ultimately have failed: "0 < n AuthFailed + n DnsFailed + n OtherFailed \<longleftrightarrow> list_ex (\<lambda>k. k \<in> set [AuthFailed, DnsFailed, OtherFailed]) ?ls"
      by (simp only: list_ex_iff)
    have in_set: "(\<exists>k \<in> S. k = x) \<longleftrightarrow> x \<in> S" for x and S :: "remote_class set" by auto
    have timed: "0 < n TimedOut \<longleftrightarrow> list_ex (\<lambda>k. k = TimedOut) ?ls"
      using n0[of TimedOut] t unfolding list_ex_iff in_set by (rule trans)
    show ?thesis
      unfolding GitRemotesCheck_result_def GitRemotesCheck_Run_def sum.case option.case Let_def n_def[symmetric] failed timed
      by simp
  qed
  then show ?thesis by (cases st) (auto simp: GitRemotesCheck_result_def GitRemotesCheck_Run_def plain_def split: option.split)
qed

lemma inspect_details_eq:
  "inspect_folders git roots w =
    (case inspect_details git roots w of ((bad, errs, n), w') \<Rightarrow> ((map fst bad, errs, n), w'))"
  by (induction git roots w rule: inspect_details.induct) (auto split: prod.split sum.split)

lemma LocalMetadataCheck_outcome:
  "cr_Outcome (fst (LocalMetadataCheck_result git roots w)) = fst (LocalMetadataCheck_Run git roots w)"
  by (auto simp: LocalMetadataCheck_result_def LocalMetadataCheck_Run_def inspect_details_eq split: prod.split)

lemma ConflictsCheck_outcome: "cr_Outcome (ConflictsCheck_result roots scan) = fst (ConflictsCheck_Run roots scan)"
  by (simp add: ConflictsCheck_result_def ConflictsCheck_Run_def Let_def)

lemma check_names:
  "cr_Name (ConfigCheck_result mp sp m s) = ''config''"
  "cr_Name (ServiceCheck_result fmt parse h mgr w) = ''service''"
  "cr_Name (SyncthingAPICheck_result c) = ''syncthing API''"
  "cr_Name (PeersCheck_result c mo s) = ''peers''"
  "cr_Name (FoldersCheck_result c) = ''folders''"
  "cr_Name (GitRemotesCheck_result s arrivals) = ''git remotes''"
  "cr_Name (fst (LocalMetadataCheck_result git roots x)) = ''local metadata''"
  "cr_Name (ConflictsCheck_result roots scan) = ''conflicts''"
  unfolding ConfigCheck_result_def ServiceCheck_result_def syncthing_status_result_def SyncthingAPICheck_result_def PeersCheck_result_def
    peers_result_def FoldersCheck_result_def folders_result_def GitRemotesCheck_result_def LocalMetadataCheck_result_def
    ConflictsCheck_result_def Let_def
  by (simp_all only: res_outcome fst_conv split: sum.split option.split prod.split if_split) auto

text \<open>The outcomes of the nine checks, from what they find without the texts.\<close>

definition abstract_outcomes :: "'w doctor_env \<Rightarrow> (string \<Rightarrow> remote_result) \<Rightarrow> outcome list" where
  "abstract_outcomes D lsRemote =
    [OK, ConfigCheck_Run (plain (de_machine D)) (plain (de_state D)),
     ServiceCheck_Run (service_view (de_parse D) (de_host D) (de_manager D) (de_service D)),
     SyncthingAPICheck_Run (map_option plain_client (de_client D)),
     fst (PeersCheck_Run (map_option plain_client (de_client D)) (Some (plain (de_machine D))) (plain (de_state D))),
     FoldersCheck_Run (map_option plain_client (de_client D)), GitRemotesCheck_Run (plain (de_state D)) lsRemote,
     fst (LocalMetadataCheck_Run (de_git D) (de_roots D) (de_world D)), fst (ConflictsCheck_Run (de_roots D) (de_scan D))]"

text \<open>A doctor of a machine with two repositories, whose second answers before the first; nothing else is available.\<close>

definition repo_state :: StateV2 where
  "repo_state = fresh_state\<lparr>st_TrackedOverrides := [''/a'', ''/b'']\<rparr>"

definition demo_doctor :: "(string \<times> string list list) doctor_env" where
  "demo_doctor =
    \<lparr>de_version = ''1'', de_commit = ''c'', de_os = ''linux'', de_arch = ''amd64'', de_machinePath = ''/m'', de_statePath = ''/s'',
     de_machine = Inr None, de_state = Inr (Some repo_state), de_host = demo_host, de_manager = None,
     de_service = (demo_home, ('''', [])), de_fmt = (\<lambda>_. ''t''), de_parse = (\<lambda>_. None), de_client = None,
     de_remotes = [(''/b'', RemoteOK), (''/a'', RemoteFailed '''' ''auth'' False)],
     de_git = (\<lambda>d args w. ((False, '''', ''''), w)), de_world = ('''', []), de_roots = [], de_scan = (\<lambda>_. Inr [])\<rparr>"


end
