(* ===== verification/Command_Line.thy ===== *)
theory Command_Line
  imports Daemon Doctor_Text
begin

text \<open>
  The commands that show what the rest computes, and the frame around those that act (cmd/dotkeeper/main.go and cmds\_v5.go): version,
  status, identity, reconcile, conflict list, keep and accept, transport list, status and repos. A command gives the lines of its
  standard output, without the newline, and its failure, None for exit code 0; a table is given by the cells of its rows. Warnings and
  what cobra prints of an error are left out. \<open>fmt\<close> is Format of a time with the layout 2006-01-02 15:04:05.
\<close>

section \<open>Version, identity\<close>

definition main_commands :: "string list" where
  "main_commands = [''version'', ''init'', ''status'', ''health'', ''start'', ''conflict'', ''doctor'', ''reconcile'', ''identity'', ''peer'',
     ''track'', ''untrack'', ''transport'', ''bench-now'', ''subscribe'', ''unsubscribe'', ''subscriptions'', ''offers'', ''bare-init'']"

definition truncateID :: "string \<Rightarrow> string" where
  "truncateID i = (if length i \<ge> 8 then take 8 i @ ''...'' else i)"

definition versionCmd :: "string \<Rightarrow> string \<Rightarrow> string list" where
  "versionCmd version commit = [''dotkeeper '' @ version @ '' ('' @ commit @ '')'']"

datatype show_error =
    NotInitialized | NoDevice | MachineParseFailure | StateParseFailure | NoAPIKey | MachineMissing | PeerNotFound string
  | NoManagedFolders | BadArguments string

definition loadMachineName :: "cli_env \<Rightarrow> fsys \<Rightarrow> show_error + string" where
  "loadMachineName C f = (case load_machine C f of Inr (Some m) \<Rightarrow> Inr (mc_Name m) | _ \<Rightarrow> Inl NotInitialized)"

definition identityCmd :: "cli_env \<Rightarrow> bool \<Rightarrow> fsys \<Rightarrow> string list \<times> show_error option" where
  "identityCmd C deviceIDOnly f =
    (case loadMachineName C f of Inl e \<Rightarrow> ([], Some e)
     | Inr name \<Rightarrow>
       (case engine_DeviceID (ce_engine C) f of Inl _ \<Rightarrow> ([], Some NoDevice)
        | Inr deviceID \<Rightarrow>
          if deviceID = '''' then ([], Some NoDevice)
          else (if deviceIDOnly then [deviceID] else [''name: '' @ name, ''device_id: '' @ deviceID], None)))"

section \<open>Status\<close>

definition machine_lines :: "MachineConfigV2 option \<Rightarrow> string list" where
  "machine_lines m =
    ''=== Machine ==='' #
    (case m of None \<Rightarrow> [''  Not initialized (run 'dotkeeper init')'']
     | Some mc \<Rightarrow> [''  Name: '' @ mc_Name mc, ''  Slot: '' @ nat_digits (mc_Slot mc),
         ''  Scan roots: '' @ comma (dc_ScanRoots (mc_Discovery mc))])"

definition foreign_devices :: "string \<Rightarrow> jobj \<Rightarrow> jobj list" where
  "foreign_devices deviceID cfg = filter (\<lambda>d. as_str (jget d ''deviceID'') \<noteq> deviceID) (map as_obj (as_arr (jget cfg ''devices'')))"

definition config_lines :: "string \<Rightarrow> jobj \<Rightarrow> string list" where
  "config_lines deviceID cfg =
    (let ds = foreign_devices deviceID cfg
     in map (\<lambda>d. ''  Peer: '' @ as_str (jget d ''name'') @ '' ('' @ truncateID (as_str (jget d ''deviceID'')) @ '')'') ds @
        (if ds = [] then [''  Peers: none''] else []) @ [''  Folders: '' @ nat_digits (length (as_arr (jget cfg ''folders'')))])"

text \<open>
  The section on Syncthing; \<open>key\<close> is the API key, \<open>config\<close> the answer of the server to a client with a key. Without a key the program
  exits at once: the second component is False, and no section follows.
\<close>

definition syncthing_lines :: "bool \<Rightarrow> string \<Rightarrow> engine_error + string \<Rightarrow> (string \<Rightarrow> jobj option) \<Rightarrow> string list \<times> bool" where
  "syncthing_lines running deviceID key config =
    (let dev = (if deviceID \<noteq> '''' then [''  Device ID: '' @ deviceID] else [])
     in if \<not> running then (''  Status: not running'' # dev, True)
        else let out = ''  Status: running'' # dev @ [''  Sync port: 12000'']
             in case key of Inl _ \<Rightarrow> (out, False)
                | Inr k \<Rightarrow> (out @ (case config k of None \<Rightarrow> [] | Some cfg \<Rightarrow> config_lines deviceID cfg), True))"

definition peer_lines :: "(string \<times> PeerEntry) list \<Rightarrow> string list" where
  "peer_lines ps =
    (if ps = [] then ['''', ''=== Peers ==='', ''  none (pair machines with: dotkeeper reconcile)'']
     else ['''', ''=== Peers ('' @ nat_digits (length ps) @ '') ===''] @
       map (\<lambda>(src, p). ''  '' @ pe_Name p @ '': '' @ truncateID (pe_DeviceID p) @ '' ('' @ src @ '')'') ps)"

text \<open>The observed repositories come in the order in which the map is ranged over, which Go leaves open: \<open>order\<close> permutes them.\<close>

definition state_lines ::
    "(gotime \<Rightarrow> string) \<Rightarrow> string option \<Rightarrow> ((string \<times> ObservedRepo) list \<Rightarrow> (string \<times> ObservedRepo) list) \<Rightarrow> MachineConfigV2 option \<Rightarrow> StateV2 option \<Rightarrow> string list" where
  "state_lines fmt home order machine state =
    (case state of None \<Rightarrow> []
     | Some s \<Rightarrow>
       peer_lines (mergedPeersForDisplay (case machine of None \<Rightarrow> [] | Some m \<Rightarrow> mc_Peers m) (st_Peers s)) @
       (if st_TrackedOverrides s = [] then []
        else ['''', ''=== Tracked overrides ('' @ nat_digits (length (st_TrackedOverrides s)) @ '') ===''] @
          map (\<lambda>p. ''  '' @ ContractPath home p) (st_TrackedOverrides s)) @
       (if st_ObservedRepos s = [] then []
        else ['''', ''=== Observed repos ('' @ nat_digits (length (st_ObservedRepos s)) @ '') ===''] @
          map (\<lambda>(p, r). ''  '' @ ContractPath home p @ '' (last backup: '' @
            (if or_LastBackupAt r = 0 then ''never'' else fmt (or_LastBackupAt r)) @ '')'') (order (st_ObservedRepos s))))"

definition statusCmd ::
    "cli_env \<Rightarrow> 'w host \<Rightarrow> (gotime \<Rightarrow> string) \<Rightarrow> ((string \<times> ObservedRepo) list \<Rightarrow> (string \<times> ObservedRepo) list) \<Rightarrow> (string \<Rightarrow> jobj option) \<Rightarrow> 'w sstate \<Rightarrow>
     (string list \<times> show_error option) \<times> 'w sstate" where
  "statusCmd C h fmt order config s =
    (case load_machine C (fst s) of Inl _ \<Rightarrow> (([], Some MachineParseFailure), s)
     | Inr machine \<Rightarrow>
     (case load_state C (fst s) of Inl _ \<Rightarrow> (([], Some StateParseFailure), s)
      | Inr state \<Rightarrow>
      let deviceID = (case engine_DeviceID (ce_engine C) (fst s) of Inl _ \<Rightarrow> '''' | Inr d \<Rightarrow> d) in
      case IsSyncthingRunning h (svcManager (ce_os C) (fst s)) s of (running, s') \<Rightarrow>
      (case syncthing_lines running deviceID (engine_APIKey (ce_engine C) (fst s')) config of (out, go_on) \<Rightarrow>
        let head = machine_lines machine @ ['''', ''=== Syncthing (embedded, API 127.0.0.1:18384) ==='']  @ out
        in if go_on then ((head @ state_lines fmt (ce_home C) order machine state, None), s') else ((head, Some NoAPIKey), s'))))"
section \<open>Reconcile\<close>

datatype 'e reconcile_error = NotSetUp | ReconcileFailed 'e

text \<open>The client of the applier: nil and not a nil pointer where the key cannot be read.\<close>

definition reconcile_client :: "cli_env \<Rightarrow> fsys \<Rightarrow> string iface" where
  "reconcile_client C f = (case engine_APIKey (ce_engine C) f of Inl _ \<Rightarrow> NilInterface | Inr k \<Rightarrow> Live k)"

definition plan_lines :: "Plan \<Rightarrow> string list" where
  "plan_lines plan =
    (if plan = [] then [''[dotkeeper] reconcile: no actions needed'']
     else (''[dotkeeper] reconcile: '' @ nat_digits (length plan) @ '' action(s)'') # map (\<lambda>a. ''  '' @ Describe a) plan)"

definition reconcileCmd :: "cli_env \<Rightarrow> fsys \<Rightarrow> gotime \<Rightarrow> ('e, 'w) Reconciler \<Rightarrow> 'w \<Rightarrow> (string list \<times> 'e reconcile_error option) \<times> 'w" where
  "reconcileCmd C f wall R w =
    (if not_exists f (machine_path C) then (([], Some NotSetUp), w)
     else case Reconcile wall R w of ((plan, err), w') \<Rightarrow> ((plan_lines plan, map_option ReconcileFailed err), w'))"

section \<open>Conflicts\<close>

definition deviceShortToHostname :: "StateV2 option \<Rightarrow> string \<Rightarrow> string option" where
  "deviceShortToHostname state =
    (case state of None \<Rightarrow> (\<lambda>_. None)
     | Some s \<Rightarrow> foldl (\<lambda>m p. if length (pe_DeviceID p) \<ge> 7 then m(take 7 (pe_DeviceID p) \<mapsto> pe_Name p) else m) (\<lambda>_. None) (st_Peers s))"

definition shown_original :: "string \<Rightarrow> Conflict \<Rightarrow> string" where
  "shown_original folder c =
    (let rel = (case path_Rel folder (path_Dir (cf_Path c)) of None \<Rightarrow> '''' | Some r \<Rightarrow> if r = ''.'' then '''' else r)
     in if rel \<noteq> '''' then path_Join rel (cf_OriginalName c) else cf_OriginalName c)"

definition conflict_row :: "string option \<Rightarrow> string list \<Rightarrow> (string \<Rightarrow> string option) \<Rightarrow> (civil \<Rightarrow> string) \<Rightarrow> Conflict \<Rightarrow> string list" where
  "conflict_row home roots hosts stamp c =
    (let folder = containingFolder (cf_Path c) roots
     in [ContractPath home folder, shown_original folder c, stamp (cf_Timestamp c),
         case hosts (cf_DeviceIDShort c) of None \<Rightarrow> cf_DeviceIDShort c | Some h \<Rightarrow> h])"

datatype listing = NoConflicts nat | Table "string list list"

definition conflictListCmd ::
    "string option \<Rightarrow> (civil \<Rightarrow> string) \<Rightarrow> (fsys \<Rightarrow> string \<Rightarrow> ioerr + Conflict list) \<Rightarrow> StateV2 option \<Rightarrow> string list \<Rightarrow> fsys \<Rightarrow> listing" where
  "conflictListCmd home stamp scan state roots f =
    (let found_all = scan_all scan f roots
     in if found_all = [] then NoConflicts (length roots)
        else Table ([''FOLDER'', ''ORIGINAL FILE'', ''TIMESTAMP'', ''FROM''] #
          map (conflict_row home roots (deviceShortToHostname state) stamp) found_all))"

text \<open>keep and accept: the check of the arguments, and what is done; the exit code is 1 if the one path given fails.\<close>

definition path_or_all :: "bool \<Rightarrow> string list \<Rightarrow> show_error option" where
  "path_or_all all args =
    (if all \<and> args \<noteq> [] then Some (BadArguments ''--all takes no arguments'')
     else if \<not> all \<and> length args \<noteq> 1 then Some (BadArguments ''exactly one <path> required (or use --all)'')
     else None)"

datatype conflict_failure = Usage show_error | Target target_error | Unresolved resolve_error

definition one_failure :: "target_error + resolve_error option \<Rightarrow> conflict_failure option" where
  "one_failure r = (case r of Inl e \<Rightarrow> Some (Target e) | Inr None \<Rightarrow> None | Inr (Some e) \<Rightarrow> Some (Unresolved e))"

definition conflictKeepCmd ::
    "'g cenv \<Rightarrow> string option \<Rightarrow> string \<Rightarrow> (string \<Rightarrow> ioerr + (string \<times> bool) list) \<Rightarrow> (fsys \<Rightarrow> string \<Rightarrow> ioerr + Conflict list) \<Rightarrow>
     string list \<Rightarrow> bool \<Rightarrow> string list \<Rightarrow> fsys \<Rightarrow> (string list \<times> conflict_failure option) \<times> fsys" where
  "conflictKeepCmd E home cwd readDir scan roots all args f =
    (case path_or_all all args of Some e \<Rightarrow> (([], Some (Usage e)), f)
     | None \<Rightarrow>
       if all then (case runKeepAll E scan roots 0 f of (n, f') \<Rightarrow> (([''kept '' @ nat_digits n @ '' conflict(s)''], None), f'))
       else (case runKeepOne E home cwd readDir (hd args) f of (r, f') \<Rightarrow> (([], one_failure r), f')))"

definition conflictAcceptCmd ::
    "'g cenv \<Rightarrow> string option \<Rightarrow> string \<Rightarrow> (string \<Rightarrow> ioerr + (string \<times> bool) list) \<Rightarrow> (fsys \<Rightarrow> string \<Rightarrow> ioerr + Conflict list) \<Rightarrow>
     (string list \<Rightarrow> string list) \<Rightarrow> string list \<Rightarrow> bool \<Rightarrow> string list \<Rightarrow> fsys \<times> 'g \<Rightarrow> (string list \<times> conflict_failure option) \<times> fsys \<times> 'g" where
  "conflictAcceptCmd E home cwd readDir scan order roots all args w =
    (case path_or_all all args of Some e \<Rightarrow> (([], Some (Usage e)), w)
     | None \<Rightarrow>
       if all then (case runAcceptAll E scan order roots w of (n, w') \<Rightarrow> (([''accepted '' @ nat_digits n @ '' conflict(s)''], None), w'))
       else (case runAcceptOne E home cwd readDir roots (hd args) w of (r, w') \<Rightarrow> (([], one_failure r), w')))"

section \<open>Transports\<close>

definition availabilityString :: "bool \<Rightarrow> string" where
  "availabilityString b = (if b then ''available'' else ''unavailable'')"

definition transportListCmd :: "(string \<Rightarrow> bool) \<Rightarrow> string list \<Rightarrow> string list list" where
  "transportListCmd available transports = [''TRANSPORT'', ''AVAILABLE''] # map (\<lambda>t. [t, availabilityString (available t)]) transports"

text \<open>Round of a duration to a millisecond, half away from zero.\<close>

definition round_ms :: "dur \<Rightarrow> dur" where
  "round_ms d = (if d < 0 then - ((- d + Millisecond div 2) div Millisecond * Millisecond) else (d + Millisecond div 2) div Millisecond * Millisecond)"

text \<open>A row before it is formatted; no round-trip time stands for the dash.\<close>

record status_row =
  sr_peer :: string
  sr_transport :: string
  sr_rtt :: "dur option"
  sr_setup :: real
  sr_MBps :: real
  sr_n :: real

definition status_row_of :: "gotime \<Rightarrow> string \<Rightarrow> string \<Rightarrow> Manager \<Rightarrow> status_row \<times> Manager" where
  "status_row_of now peer t m =
    (let entry = (case RoutesFor peer m of None \<Rightarrow> None | Some r \<Rightarrow> r t) in
     case ModelParametersFor now t peer '''' m of ((setup, perByte, n), m') \<Rightarrow>
       (\<lparr>sr_peer = peer, sr_transport = t,
          sr_rtt = (case entry of None \<Rightarrow> None | Some e \<Rightarrow> if re_Reachable e then Some (round_ms (re_ProbeLatency e)) else None),
          sr_setup = setup, sr_MBps = (if perByte > 0 then 1 / perByte / 1000 else 0), sr_n = n\<rparr>, m'))"

fun status_rows_peer :: "gotime \<Rightarrow> string \<Rightarrow> string list \<Rightarrow> Manager \<Rightarrow> status_row list \<times> Manager" where
  "status_rows_peer now peer [] m = ([], m)"
| "status_rows_peer now peer (t # ts) m =
    (case status_row_of now peer t m of (r, m1) \<Rightarrow> (case status_rows_peer now peer ts m1 of (rs, m2) \<Rightarrow> (r # rs, m2)))"

fun status_rows :: "gotime \<Rightarrow> (string \<Rightarrow> bool) \<Rightarrow> (string \<Rightarrow> tpeer \<Rightarrow> dur option) \<Rightarrow> tpeer list \<Rightarrow> Manager \<Rightarrow> status_row list" where
  "status_rows now available probe [] m = []"
| "status_rows now available probe (p # ps) m =
    (case status_rows_peer now (tp_Name p) (mg_transports m) (Discover available (\<lambda>t. probe t p) (tp_Name p) m) of (rs, m') \<Rightarrow>
       rs @ status_rows now available probe ps m')"

text \<open>With one argument the peer of that name, otherwise (cobra does not restrict their number) every peer.\<close>

definition transportStatusCmd ::
    "gotime \<Rightarrow> (string \<Rightarrow> bool) \<Rightarrow> (string \<Rightarrow> tpeer \<Rightarrow> dur option) \<Rightarrow> string list \<Rightarrow> unit + MachineConfigV2 option \<Rightarrow> string list \<Rightarrow> show_error + status_row list" where
  "transportStatusCmd now available probe transports machine args =
    (case machine of Inl _ \<Rightarrow> Inl MachineMissing | Inr None \<Rightarrow> Inl MachineMissing
     | Inr (Some mc) \<Rightarrow>
       let peers = livePeersSource (Some mc);
           filtered = filter (\<lambda>p. tp_Name p = hd args) peers
       in if length args \<noteq> 1 then Inr (status_rows now available probe peers (NewManager transports))
          else if filtered = [] then Inl (PeerNotFound (hd args))
          else Inr (status_rows now available probe filtered (NewManager transports)))"

text \<open>repos: predictions in milliseconds for 1 KB and 1 MB.\<close>

record repo_row =
  rr_peer :: string
  rr_transport :: string
  rr_repo :: string
  rr_1KB :: real
  rr_1MB :: real
  rr_n :: real

fun repo_rows_folders :: "gotime \<Rightarrow> string \<Rightarrow> string \<Rightarrow> tfolder list \<Rightarrow> Manager \<Rightarrow> repo_row list \<times> Manager" where
  "repo_rows_folders now peer t [] m = ([], m)"
| "repo_rows_folders now peer t (d # ds) m =
    (case ModelParametersFor now t peer (tf_ID d) m of ((setup, perByte, n), m1) \<Rightarrow>
     (case repo_rows_folders now peer t ds m1 of (rs, m2) \<Rightarrow>
       (\<lparr>rr_peer = peer, rr_transport = t, rr_repo = path_Base (tf_Path d), rr_1KB = setup + perByte * 1024,
          rr_1MB = setup + perByte * (1024 * 1024), rr_n = n\<rparr> # rs, m2)))"

fun repo_rows_transports :: "gotime \<Rightarrow> string \<Rightarrow> tfolder list \<Rightarrow> string \<Rightarrow> string list \<Rightarrow> Manager \<Rightarrow> repo_row list \<times> Manager" where
  "repo_rows_transports now only folders peer [] m = ([], m)"
| "repo_rows_transports now only folders peer (t # ts) m =
    (if (only \<noteq> '''' \<and> t \<noteq> only) \<or> \<not> reachable m peer t then repo_rows_transports now only folders peer ts m
     else case repo_rows_folders now peer t folders m of (rs, m1) \<Rightarrow>
       (case repo_rows_transports now only folders peer ts m1 of (rs', m2) \<Rightarrow> (rs @ rs', m2)))"

fun repo_rows :: "gotime \<Rightarrow> string \<Rightarrow> string \<Rightarrow> tfolder list \<Rightarrow> tpeer list \<Rightarrow> Manager \<Rightarrow> repo_row list" where
  "repo_rows now only_peer only folders [] m = []"
| "repo_rows now only_peer only folders (p # ps) m =
    (if only_peer \<noteq> '''' \<and> tp_Name p \<noteq> only_peer then repo_rows now only_peer only folders ps m
     else case repo_rows_transports now only folders (tp_Name p) (mg_transports m) m of (rs, m') \<Rightarrow>
       rs @ repo_rows now only_peer only folders ps m')"

definition transportReposCmd ::
    "gotime \<Rightarrow> (string \<Rightarrow> bool) \<Rightarrow> (string \<Rightarrow> tpeer \<Rightarrow> dur option) \<Rightarrow> string list \<Rightarrow> unit + MachineConfigV2 option \<Rightarrow> string list \<Rightarrow> string \<Rightarrow> string \<Rightarrow>
     show_error + repo_row list" where
  "transportReposCmd now available probe transports machine roots only_peer only =
    (case machine of Inl _ \<Rightarrow> Inl MachineMissing | Inr None \<Rightarrow> Inl MachineMissing
     | Inr (Some mc) \<Rightarrow>
       if liveBenchmarkerFoldersSource roots = [] then Inl NoManagedFolders
       else Inr (repo_rows now only_peer only (liveBenchmarkerFoldersSource roots) (livePeersSource (Some mc))
         (startTransports available probe transports (Some mc))))"
section \<open>Reconcile reports what it did\<close>

lemma client_of_reconcile_is_checked:
  "engine_APIKey (ce_engine C) f = Inl e \<Longrightarrow> guarded_call (reconcile_client C f) method unavailable = Returns unavailable"
  by (simp add: reconcile_client_def guarded_call_def)

text \<open>
  One line for each action of the plan, in its order and whatever became of it, below a line with their number; the command fails exactly
  if some action failed where it ran.
\<close>

lemma reconcile_reports_plan:
  assumes "\<not> not_exists f (machine_path C)" "r_Desired R w = (Inr d, w1)" "r_Observed R w1 = (Inr ob, w2)"
    "augmentObservedRepos (r_query R) ob d w2 = (ob', w3)"
  shows "fst (fst (reconcileCmd C f wall R w)) = plan_lines (Diff wall d ob')"
    "snd (fst (reconcileCmd C f wall R w)) = None \<longleftrightarrow>
      list_all (\<lambda>i. result_at (r_Apply R) (Diff wall d ob') w3 i = None) [0..<length (Diff wall d ob')]"
  using assms by (simp_all add: reconcileCmd_def Reconcile_def apply_plan_eq Let_def first_error_None list.pred_map comp_def)

text \<open>If the configuration or the world cannot be read there is no plan, and the command says that nothing needs to be done before it fails.\<close>

lemma reconcile_says_no_actions_on_failure:
  assumes "\<not> not_exists f (machine_path C)" "r_Desired R w = (Inl e, w1) \<or> r_Desired R w = (Inr d, w0) \<and> r_Observed R w0 = (Inl e, w1)"
  shows "reconcileCmd C f wall R w = (([''[dotkeeper] reconcile: no actions needed''], Some (ReconcileFailed e)), w1)"
  using assms by (auto simp: reconcileCmd_def Reconcile_def plan_lines_def)

section \<open>Transport commands\<close>

text \<open>The coefficients of a model that has seen nothing, and a manager all of whose models are such.\<close>

definition at_prior :: "string \<Rightarrow> real \<times> real \<times> real \<Rightarrow> bool" where
  "at_prior t params \<longleftrightarrow> params = (cp_SetupMS (DefaultPriorFor t), cp_MSPerByte (DefaultPriorFor t), 0)"

definition untrained :: "Manager \<Rightarrow> bool" where
  "untrained m \<longleftrightarrow>
    (\<forall>t peer repo model. mg_models m (t, peer, repo) = Some model \<longrightarrow> at_prior t (cm_setup model, cm_perByte model, cm_N model)) \<and>
    (\<forall>t p. mg_priors m t = Some p \<longrightarrow> p = DefaultPriorFor t)"

lemma untrained_New: "untrained (NewManager transports)"
  by (simp add: untrained_def NewManager_def)

lemma untrained_Discover: "untrained m \<Longrightarrow> untrained (Discover available probe peer m)"
  by (simp add: untrained_def Discover_def)

lemma untrained_start: "untrained (startTransports available probe transports machine)"
proof -
  have "untrained (foldl (\<lambda>m p. Discover available (\<lambda>t. probe t p) (tp_Name p) m) m ps)" if "untrained m" for m ps
    using that by (induction ps arbitrary: m) (simp_all add: untrained_Discover)
  then show ?thesis by (simp add: startTransports_def untrained_New)
qed

lemma untrained_parameters:
  assumes "untrained m" "ModelParametersFor now t peer repo m = (params, m')"
  shows "at_prior t params" "untrained m'"
proof -
  have fresh: "at_prior t (cm_setup (fresh_model m t), cm_perByte (fresh_model m t), cm_N (fresh_model m t))"
    using assms(1) by (auto simp: untrained_def at_prior_def fresh_model_def NewCostModel_def Let_def split: option.split)
  show "at_prior t params" using assms fresh
    by (auto simp: ModelParametersFor_def modelFor_eq Let_def untrained_def split: option.splits)
  show "untrained m'" using assms fresh
    by (auto simp: ModelParametersFor_def modelFor_eq Let_def untrained_def split: option.splits if_splits)
qed

definition prior_status_row :: "status_row \<Rightarrow> bool" where
  "prior_status_row r \<longleftrightarrow>
    (let p = DefaultPriorFor (sr_transport r)
     in sr_setup r = cp_SetupMS p \<and> sr_MBps r = 1 / cp_MSPerByte p / 1000 \<and> sr_n r = 0)"

definition prior_repo_row :: "repo_row \<Rightarrow> bool" where
  "prior_repo_row r \<longleftrightarrow>
    (let p = DefaultPriorFor (rr_transport r)
     in rr_1KB r = cp_SetupMS p + cp_MSPerByte p * 1024 \<and> rr_1MB r = cp_SetupMS p + cp_MSPerByte p * (1024 * 1024) \<and> rr_n r = 0)"

lemma prior_positive: "0 < cp_MSPerByte (DefaultPriorFor t)"
  by (simp add: DefaultPriorFor_def)

lemma status_row_prior:
  assumes "untrained m" "status_row_of now peer t m = (r, m')"
  shows "prior_status_row r" "untrained m'"
proof -
  obtain su perByte n m1 where p: "ModelParametersFor now t peer '''' m = ((su, perByte, n), m1)" by (metis prod.collapse)
  note untrained_parameters[OF assms(1) p]
  then show "prior_status_row r" "untrained m'"
    using assms(2) p prior_positive[of t] by (auto simp: status_row_of_def Let_def prior_status_row_def at_prior_def)
qed

lemma status_rows_peer_prior:
  "untrained m \<Longrightarrow> status_rows_peer now peer ts m = (rs, m') \<Longrightarrow> list_all prior_status_row rs \<and> untrained m'"
proof (induction ts arbitrary: m rs m')
  case (Cons t ts)
  obtain r m1 rs1 m2 where r: "status_row_of now peer t m = (r, m1)" "status_rows_peer now peer ts m1 = (rs1, m2)" by fastforce
  have "list_all prior_status_row rs1 \<and> untrained m2" using Cons.IH[OF status_row_prior(2)[OF Cons.prems(1) r(1)] r(2)] .
  then show ?case using Cons.prems(2) r status_row_prior(1)[OF Cons.prems(1) r(1)] by auto
qed simp

lemma status_rows_prior: "untrained m \<Longrightarrow> list_all prior_status_row (status_rows now available probe ps m)"
proof (induction ps arbitrary: m)
  case (Cons p ps)
  let ?m = "Discover available (\<lambda>t. probe t p) (tp_Name p) m"
  obtain rs m1 where r: "status_rows_peer now (tp_Name p) (mg_transports m) ?m = (rs, m1)" by fastforce
  have "list_all prior_status_row rs \<and> untrained m1" using status_rows_peer_prior[OF untrained_Discover[OF Cons.prems] r] .
  then show ?case using Cons.IH r by simp
qed simp

lemma repo_rows_folders_prior:
  "untrained m \<Longrightarrow> repo_rows_folders now peer t ds m = (rs, m') \<Longrightarrow> list_all prior_repo_row rs \<and> untrained m'"
proof (induction ds arbitrary: m rs m')
  case (Cons d ds)
  obtain su perByte n m1 where p: "ModelParametersFor now t peer (tf_ID d) m = ((su, perByte, n), m1)" by (metis prod.collapse)
  obtain rs1 m2 where r: "repo_rows_folders now peer t ds m1 = (rs1, m2)" by fastforce
  note u = untrained_parameters[OF Cons.prems(1) p]
  have "list_all prior_repo_row rs1 \<and> untrained m2" using Cons.IH[OF u(2) r] .
  moreover have "prior_repo_row \<lparr>rr_peer = peer, rr_transport = t, rr_repo = path_Base (tf_Path d), rr_1KB = su + perByte * 1024,
      rr_1MB = su + perByte * (1024 * 1024), rr_n = n\<rparr>"
    using u(1) by (simp add: prior_repo_row_def at_prior_def)
  ultimately show ?case using Cons.prems(2) p r by auto
qed simp

lemma repo_rows_transports_prior:
  "untrained m \<Longrightarrow> repo_rows_transports now only folders peer ts m = (rs, m') \<Longrightarrow> list_all prior_repo_row rs \<and> untrained m'"
proof (induction ts arbitrary: m rs m')
  case (Cons t ts)
  show ?case
  proof (cases "(only \<noteq> '''' \<and> t \<noteq> only) \<or> \<not> reachable m peer t")
    case True
    then have "repo_rows_transports now only folders peer ts m = (rs, m')" using Cons.prems(2) by auto
    then show ?thesis by (rule Cons.IH[OF Cons.prems(1)])
  next
    case False
    obtain rs1 m1 rs2 m2 where r: "repo_rows_folders now peer t folders m = (rs1, m1)"
      "repo_rows_transports now only folders peer ts m1 = (rs2, m2)" by fastforce
    note f = repo_rows_folders_prior[OF Cons.prems(1) r(1)]
    have "list_all prior_repo_row rs2 \<and> untrained m2" using f Cons.IH[OF _ r(2)] by blast
    then show ?thesis using Cons.prems(2) r f False by auto
  qed
qed simp

lemma repo_rows_prior: "untrained m \<Longrightarrow> list_all prior_repo_row (repo_rows now only_peer only folders ps m)"
proof (induction ps arbitrary: m)
  case (Cons p ps)
  obtain rs m1 where r: "repo_rows_transports now only folders (tp_Name p) (mg_transports m) m = (rs, m1)" by fastforce
  note repo_rows_transports_prior[OF Cons.prems r]
  then show ?case using Cons r by simp
qed simp

text \<open>
  The costs shown are never learned ones. Whatever the transports answer, every row of status and of repos has the default
  coefficients of its transport and no observation, however long the daemon has been learning: the commands build a manager of their own.
\<close>

theorem transport_commands_show_priors:
  "(case transportStatusCmd now available probe transports machine args of Inl _ \<Rightarrow> True | Inr rows \<Rightarrow> list_all prior_status_row rows) \<and>
   (case transportReposCmd now available probe transports machine roots only_peer only of Inl _ \<Rightarrow> True | Inr rows \<Rightarrow> list_all prior_repo_row rows)"
  by (auto simp: transportStatusCmd_def transportReposCmd_def Let_def status_rows_prior repo_rows_prior untrained_New untrained_start
      split: sum.split option.split)

section \<open>Listing conflicts\<close>

lemma HasPrefix_parts:
  assumes "plain_list p" "plain_list r" "HasPrefix (abs_path p) (abs_path r @ ''/'')"
  obtains bs where "p = r @ bs" "bs \<noteq> []"
proof -
  obtain t where t: "abs_path p = abs_path r @ [slash] @ t" using assms(3) by (auto simp: HasPrefix_iff slash_lit)
  have s: "str_Split slash (abs_path p) = str_Split slash (abs_path r) @ str_Split slash t" by (simp add: t split_append)
  have p: "p \<noteq> []" using t by (auto simp: abs_path_def)
  have r: "r \<noteq> []"
  proof
    assume "r = []"
    then have "'''' # p = '''' # '''' # str_Split slash t" using s p assms by (simp add: split_abs_path)
    then show False using assms(1) by (auto simp: plain_component_def)
  qed
  have "p = r @ str_Split slash t" using s p r assms by (simp add: split_abs_path)
  moreover have "str_Split slash t \<noteq> []" by (metis str_Split_neq_Nil)
  ultimately show thesis using that by blast
qed

lemma containingFolder_above:
  assumes "plain_list p" "p \<noteq> []" "list_all plain_list rs" "p \<notin> set rs"
  obtains q where "containingFolder (abs_path p) (map abs_path rs) = abs_path q" "plain_list q" "\<exists>bs. butlast p = q @ bs"
proof -
  define step where "step best r = (if (HasPrefix (abs_path p) (r @ ''/'') \<or> abs_path p = r) \<and> length r > length best then r else best)" for best r
  define ok where "ok best \<longleftrightarrow> best = '''' \<or> (\<exists>q bs. best = abs_path q \<and> plain_list q \<and> p = q @ bs \<and> bs \<noteq> [])" for best
  have step_ok: "ok (step best (abs_path r))" if "ok best" "plain_list r" "r \<noteq> p" for best r
  proof -
    have "abs_path p \<noteq> abs_path r" using that assms(1) abs_path_inject by metis
    then have "ok (abs_path r)" if "HasPrefix (abs_path p) (abs_path r @ ''/'') \<or> abs_path p = abs_path r"
      using that HasPrefix_parts[OF assms(1) \<open>plain_list r\<close>] \<open>plain_list r\<close> unfolding ok_def by blast
    then show ?thesis using that(1) by (simp add: step_def)
  qed
  have fold: "ok (foldl step best (map abs_path xs))" if "ok best" "list_all plain_list xs" "p \<notin> set xs" for best xs
    using that by (induction xs arbitrary: best) (auto simp: step_ok)
  define best where "best = foldl step '''' (map abs_path rs)"
  have best: "ok best" unfolding best_def by (rule fold) (use assms in \<open>simp_all add: ok_def\<close>)
  have cf: "containingFolder (abs_path p) (map abs_path rs) = (if best = '''' then path_Dir (abs_path p) else best)"
    by (simp add: containingFolder_def best_def step_def[abs_def] Let_def)
  show thesis
  proof (cases "best = ''''")
    case True
    have "path_Dir (abs_path (butlast p @ [last p])) = abs_path (butlast p)"
      by (rule path_Dir_abs) (use assms(1,2) in \<open>simp_all add: plain_list_def list_all_iff in_set_butlastD\<close>)
    moreover have "plain_list (butlast p)" using assms(1) by (simp add: plain_list_def list_all_iff in_set_butlastD)
    ultimately show thesis using that[of "butlast p"] True cf assms(2) by simp
  next
    case False
    then obtain q bs where q: "best = abs_path q" "plain_list q" "p = q @ bs" "bs \<noteq> []" using best by (auto simp: ok_def)
    then show thesis using that[of q] cf by (simp add: butlast_append)
  qed
qed

lemma str_Join_not_dot: "plain_list bs \<Longrightarrow> bs \<noteq> [] \<Longrightarrow> str_Join bs ''/'' \<noteq> ''.''"
proof
  assume bs: "plain_list bs" "bs \<noteq> []" "str_Join bs ''/'' = ''.''"
  then have "str_Split slash ''.'' = bs" using split_join[of "hd bs" "tl bs"] by simp
  moreover have "str_Split slash ''.'' = [''.'']" by (simp add: slash_def)
  ultimately show False using bs(1) by (auto simp: plain_component_def)
qed

text \<open>Join of relative paths of plain names.\<close>

lemma path_Join_plain:
  assumes "plain_list bs" "bs \<noteq> []" "plain_component a"
  shows "path_Join (str_Join bs ''/'') a = str_Join (bs @ [a]) ''/''"
proof -
  have s: "str_Split slash (str_Join bs ''/'' @ ''/'' @ a) = bs @ [a]"
    using assms split_join[of "hd bs" "tl bs"] by (simp add: slash_lit split_append split_none plain_component_def)
  have ne: "str_Join bs ''/'' \<noteq> ''''" using assms str_Join_nonempty by simp
  have "hd (str_Join bs ''/'') \<noteq> slash"
    using assms by (cases bs rule: remdups_adj.cases) (auto simp: plain_component_def neq_Nil_conv)
  then have "\<not> IsAbs (str_Join bs ''/'' @ ''/'' @ a)" using ne by (cases "str_Join bs ''/''") (auto simp: IsAbs_def HasPrefix_iff slash_def)
  then show ?thesis using s assms ne clean_stack_plain[of "bs @ [a]" False "[]"]
    by (simp add: path_Join_def path_Clean_def Let_def plain_component_def str_Join_append)
qed

text \<open>
  The first two columns name the file. The folder of a row with the name beside it is the path of the local file of the conflict,
  whichever managed folders there are and however they are nested.
\<close>

theorem conflict_list_names_the_file:
  assumes "cf_Path c = abs_path p" "plain_list p" "p \<noteq> []" "plain_component (cf_OriginalName c)" "list_all plain_list rs" "p \<notin> set rs"
  shows "path_Join (containingFolder (cf_Path c) (map abs_path rs)) (shown_original (containingFolder (cf_Path c) (map abs_path rs)) c) =
    localFilePath c"
proof -
  obtain q bs where q: "containingFolder (abs_path p) (map abs_path rs) = abs_path q" "plain_list q" and bs: "butlast p = q @ bs"
    using containingFolder_above[OF assms(2,3,5,6)] by blast
  let ?o = "cf_OriginalName c"
  have pb: "plain_list (q @ bs)" using assms(2) bs[symmetric] by (simp only: plain_list_def list_all_iff) (blast dest: in_set_butlastD)
  have "path_Dir (abs_path (butlast p @ [last p])) = abs_path (butlast p)"
    by (rule path_Dir_abs) (use assms(2,3) in \<open>simp_all add: plain_list_def list_all_iff in_set_butlastD\<close>)
  then have "path_Dir (abs_path p) = abs_path (butlast p)" using assms(3) by simp
  then have dir: "path_Dir (cf_Path c) = abs_path (q @ bs)" by (simp only: assms(1) bs)
  have "shown_original (abs_path q) c = str_Join (bs @ [?o]) ''/''"
  proof (cases "bs = []")
    case False
    then have "str_Join bs ''/'' \<noteq> ''.''" "str_Join bs ''/'' \<noteq> ''''" using pb str_Join_not_dot str_Join_nonempty by auto
    then show ?thesis using False pb dir path_Rel_below[of q bs] path_Join_plain[of bs ?o] assms(4) by (simp add: shown_original_def)
  next
    case True
    then show ?thesis using pb dir path_Rel_below[of q "[]"] by (simp add: shown_original_def)
  qed
  then show ?thesis unfolding assms(1) q(1) localFilePath_def
    using dir assms(1,4) pb path_Join_abs[of q "bs @ [?o]"] path_Join_name[OF pb assms(4)] by simp
qed
definition demo_listed :: "civil \<Rightarrow> Conflict" where
  "demo_listed stamp = \<lparr>cf_Path = ''/h/a/b/f.sync-conflict-20260101-010101-ABCDEFG.txt'', cf_OriginalName = ''f.txt'',
     cf_Timestamp = stamp, cf_DeviceIDShort = ''ABCDEFG'', cf_Extension = ''.txt''\<rparr>"

theorem conflict_list_names_the_file_witness:
  "\<exists>stamp. path_Join (containingFolder (cf_Path (demo_listed stamp)) [''/h'', ''/h/a''])
      (shown_original (containingFolder (cf_Path (demo_listed stamp)) [''/h'', ''/h/a'']) (demo_listed stamp)) = ''/h/a/b/f.txt''"
proof -
  let ?p = "[''h'', ''a'', ''b'', ''f.sync-conflict-20260101-010101-ABCDEFG.txt'']"
  fix stamp
  have "cf_Path (demo_listed stamp) = abs_path ?p" "plain_component (cf_OriginalName (demo_listed stamp))"
    by (simp_all add: demo_listed_def abs_path_def plain_component_def slash_def)
  moreover have "plain_list ?p" "list_all plain_list [[''h''], [''h'', ''a'']]" "?p \<notin> set [[''h''], [''h'', ''a'']]" "?p \<noteq> []" by code_simp+
  ultimately have "path_Join (containingFolder (cf_Path (demo_listed stamp)) (map abs_path [[''h''], [''h'', ''a'']]))
      (shown_original (containingFolder (cf_Path (demo_listed stamp)) (map abs_path [[''h''], [''h'', ''a'']])) (demo_listed stamp)) =
    localFilePath (demo_listed stamp)"
    using conflict_list_names_the_file by blast
  moreover have "map abs_path [[''h''], [''h'', ''a'']] = [''/h'', ''/h/a'']" by code_simp
  moreover have "localFilePath (demo_listed stamp) = ''/h/a/b/f.txt''"
    unfolding localFilePath_def demo_listed_def Conflict.select_convs by code_simp
  ultimately show ?thesis by metis
qed

section \<open>Status without a key\<close>

text \<open>
  While Syncthing runs and its configuration file cannot be read, status stops after the lines on Syncthing: peers, overrides and
  repositories are not shown, and the exit code is 1.
\<close>

lemma status_stops_without_key:
  assumes "load_machine C (fst s) = Inr m" "load_state C (fst s) = Inr st"
    "IsSyncthingRunning h (svcManager (ce_os C) (fst s)) s = (True, s')" "engine_APIKey (ce_engine C) (fst s') = Inl e"
  shows "snd (fst (statusCmd C h fmt order config s)) = Some NoAPIKey" "snd (statusCmd C h fmt order config s) = s'"
    "last (fst (fst (statusCmd C h fmt order config s))) = ''  Sync port: 12000''"
  using assms by (simp_all add: statusCmd_def syncthing_lines_def Let_def)

text \<open>The peers shown are the devices of the server's configuration but one's own; with no identity of its own the machine counts itself.\<close>

lemma status_counts_itself:
  "foreign_devices '''' cfg = filter (\<lambda>d. as_str (jget d ''deviceID'') \<noteq> '''') (map as_obj (as_arr (jget cfg ''devices'')))"
  by (simp add: foreign_devices_def)

end
