(* ===== verification/Spec2Isabelle.thy ===== *)
theory Spec2Isabelle
  imports Gitident Pass Propagate Activity Doctor Report_Text Machine_Init Proc_Nice Fs_Types Daemon Doctor_Text Command_Line
begin

text \<open>
  A model of dotkeeper, a daemon that keeps folders in step between machines. It reads what the user wants
  (machine.toml, a .dotkeeper.toml in each folder, state.toml), observes what is (Syncthing's configuration over
  its REST interface, the state of each git repository, activity and health of the file watchers), computes a plan of actions and
  applies it. Beside this reconcile loop run a resolver of Syncthing's conflict files and the propagation of new commits over several
  transports, and a command line edits the same files.

  \<^bold>\<open>Theories and sources.\<close>
  \<^item> Prelude: times and durations (an instant is an integer of nanoseconds, 0 the zero time; a duration saturates at 64 bits as
    Go's does), byte strings with the functions of package strings, slash-separated paths, and the locale \<open>roster_merge\<close>: what
    a merge of two rosters promises, interpreted for the subscriptions, the peers and the doctor's peers.
  \<^item> Config, Config\_Text, Files, State\_File: internal/config. The records and merges; the text the writers render and the
    loaders over a TOML decoder that is a parameter; the file system, WriteFileAtomic as steps of any number of
    writers, MutateStateV2 as processes around one lock.
  \<^item> Gitident, Subscribe: internal/gitident and internal/subscribe, canonical remotes and the matching of offers.
  \<^item> Reconcile\_Types, Diff: internal/reconcile/types.go and diff.go, the desired and observed state, the actions and the plan.
  \<^item> Rest\_Config, Client: internal/stclient. Every edit of Syncthing's configuration on JSON values (locale
    \<open>folder_edit\<close>: an edit of one folder, interpreted for each), and the client with its caches over a server that is a parameter;
    also internal/transport/syncthing.go.
  \<^item> Git\_Commands, Git\_Backup: running git (a parameter, with what its documentation says of four trees as laws), the
    scheduled commit and push of applier.go, and internal/gitsync.
  \<^item> Applier, Discovery, Observe, Pass: applier.go, the providers with their caches (locale \<open>file_cache\<close>, interpreted for
    the three files), Reconcile, and all of these composed to one pass.
  \<^item> Conflict\_Names, Conflict: internal/conflict and the commands on conflicts.
  \<^item> Watch\_Health, Activity, Managed: internal/watchhealth, internal/activity, the conflict watcher, the
    reconcile loop of cmds\_v5.go, internal/discovery.
  \<^item> Commands: subscribe.go, peer.go, offers.go, peer\_presence.go, track and untrack.
  \<^item> Transport, Ssh\_Transports, Propagate: the cost model and the manager, the transports over ssh with the Tailscale
    resolver and bare-init, the propagator and the benchmarker.
  \<^item> Doctor, Doctor\_Text, Report\_Text: the two reports, \<open>doctor\<close> and \<open>health\<close>. Doctor has what they find and their exit
    codes; Doctor\_Text the nine checks of checks.go with their sentences, shown to refine the former; Report\_Text the tables, verdicts
    and wrapped explanations of format.go and health.go, byte for byte in UTF-8.
  \<^item> Service, Engine, Proc\_Nice: internal/service (the locale \<open>service\_backend\<close>, interpreted for each of its managers),
    internal/stengine and internal/procnice, over files, file descriptors and commands.
  \<^item> Machine\_Init, Daemon: init and start of cmd/dotkeeper, the first over the engine and the files of internal/config, the second
    with everything the daemon is built of and the watches it lives on; pprof.go. Command\_Line: the commands that show what the others
    compute (version, status, identity, conflict list, transport) and the frame of reconcile, keep and accept.
  \<^item> Fs\_Types, Paths: the file system tables of the other systems (locale \<open>fs\_tables\<close>), and the algebra of absolute paths that
    the theories on files share.

  Names are those of the source; a name that HOL has, or that two packages have, carries a prefix or suffix. A method becomes a function that
  takes the receiver's record and returns it changed; an error is a value of a sum or an option; what the code asks of
  the outside (git, ssh, the server, the clock, the hash, the environment) is an argument.

  \<^bold>\<open>What is shown.\<close>
  A pass from a configuration it can plan for leaves nothing structural for the next one, the plan converges and does not depend on the
  order of maps, and it removes exactly what is not wanted (Pass, Diff). Edits of the configuration touch what they name and nothing else, and
  reach the server through the caches (Rest\_Config, Client, Applier). Files are never torn and updates under the lock
  serialise (Files, State\_File). Automatic commits never delete, deliveries keep local work, and resolving conflicts loses no version
  (Git\_Backup, Conflict). No trigger is lost, an edited folder is not paused, rescans come at the backstop and at no other time
  (Activity, Watch\_Health). Routing is within a millisecond of the best, the cost model learns a linear cost, each peer is served by its own
  route, benchmarks keep their distance and leave nothing behind (Transport, Propagate). Parsers undo the printers they belong to.
  Setting up a machine keeps a configuration that can be read, a service manager changes only its own files and the redirection of the
  log is all or nothing (Machine\_Init, Service, Engine); doctor reports what its checks found (Doctor\_Text).
  Some theorems state where the code falls short of what it means to do, among others \<open>subscribe_records_nothing\<close>,
  \<open>failed_guard_commits_deletion\<close>, \<open>lost_acknowledgement_reverts_edit\<close>, \<open>nested_root_is_paused_while_edited\<close>,
  \<open>commits_never_reach_git_ssh\<close> and \<open>replaced_file_is_not_noticed_again\<close>.

  \<^bold>\<open>Bounds.\<close>
  No definition runs on fuel: loops recurse over lists and trees, the two walks over the levels that are left (at most the configured
  depth, 3 by default), the two protocols and the reconcile loop are step relations. Durations have their 64 bits where they are
  compared, the size estimate of a commit is computed in 64 bits, other integers are unbounded. Buffered channels have the capacity the code
  gives them (16 hints, 64 conflicts, one pending trigger).

  \<^bold>\<open>Not modelled.\<close>
  float64 (the cost model is over the reals), case folding outside ASCII, time zones, file modes, symbolic links beyond what the
  scanners see, other programs writing the same files while a step runs, a server that changes what it is sent, contexts that
  expire other than as a failing command. Left out are how cobra parses arguments and how tables are padded, the JSON of the health
  report, the redirection of the log and the file lock on Windows, and everything inside the libraries: the embedded Syncthing, the
  HTTP server of the profiler and fsnotify, whose answers are arguments.
\<close>

end
